(* ===== verification/Prelude.thy ===== *)
theory Prelude
  imports Main "HOL-Library.Word" "HOL-Library.Monad_Syntax"
begin

text \<open>
  What the component theories share: the machine integers of the program, the outcome of a Rust
  computation that may panic, Rust's checked and saturating arithmetic, array accesses with their
  bounds checks, and the byte encodings of \<open>core\<close> (\<open>to_be_bytes\<close>, \<open>from_le_bytes\<close> and their kin).

  Arithmetic follows the \<open>debug\<close> profile, the default target of the build script \<open>src/qemu\<close>: an
  overflowing \<open>+\<close>, \<open>-\<close> or \<open>*\<close> panics. Where a preceding guard of the source excludes the overflow the
  word operation is used as it is.
\<close>

unbundle bit_operations_syntax

section \<open>Machine integers\<close>

type_synonym u8 = "8 word"
type_synonym u16 = "16 word"
type_synonym u32 = "32 word"
type_synonym u64 = "64 word"

text \<open>\<open>usize\<close> is 64 bits wide on \<open>x86_64\<close>. Lengths and indices are natural numbers with this bound.\<close>

definition usize_max :: nat where
  "usize_max = 2 ^ 64 - 1"

lemma usize_max_code [code_unfold]:
  "n \<le> usize_max \<longleftrightarrow> int n \<le> 0xFFFFFFFFFFFFFFFF" "usize_max < n \<longleftrightarrow> 0xFFFFFFFFFFFFFFFF < int n"
  by (auto simp: usize_max_def)

section \<open>Panics\<close>

text \<open>A computation either returns or panics; a panic ends the run of the caller too.\<close>

datatype 'a outcome = Done 'a | Panic

definition obind :: "'a outcome \<Rightarrow> ('a \<Rightarrow> 'b outcome) \<Rightarrow> 'b outcome" where
  "obind m f = (case m of Done a \<Rightarrow> f a | Panic \<Rightarrow> Panic)"

lemma obind_simps [simp]: "obind (Done a) f = f a" "obind Panic f = Panic"
  by (simp_all add: obind_def)

lemma obind_cong [fundef_cong]:
  "m = m' \<Longrightarrow> (\<And>a. m' = Done a \<Longrightarrow> f a = g a) \<Longrightarrow> obind m f = obind m' g"
  by (cases m') (auto simp: obind_def)

lemma obind_eq_Done [simp]: "obind m f = Done b \<longleftrightarrow> (\<exists>a. m = Done a \<and> f a = Done b)"
  by (cases m) auto

text \<open>\<open>Option::unwrap\<close>, \<open>Option::expect\<close>.\<close>

definition unwrap :: "'a option \<Rightarrow> 'a outcome" where
  "unwrap x = (case x of Some a \<Rightarrow> Done a | None \<Rightarrow> Panic)"

lemma unwrap_simps [simp]: "unwrap (Some a) = Done a" "unwrap None = Panic"
  by (simp_all add: unwrap_def)

lemma unwrap_eq_Done [simp]: "unwrap x = Done a \<longleftrightarrow> x = Some a"
  by (cases x) auto

text \<open>\<open>Result::unwrap\<close> on a sum, errors on the left.\<close>

definition unwrap_result :: "'e + 'a \<Rightarrow> 'a outcome" where
  "unwrap_result x = (case x of Inr a \<Rightarrow> Done a | Inl _ \<Rightarrow> Panic)"

lemma unwrap_result_simps [simp]: "unwrap_result (Inr a) = Done a" "unwrap_result (Inl e) = Panic"
  by (simp_all add: unwrap_result_def)

text \<open>\<open>assert!\<close>.\<close>

definition assert_that :: "bool \<Rightarrow> 'a outcome \<Rightarrow> 'a outcome" where
  "assert_that b k = (if b then k else Panic)"

lemma assert_that_simps [simp]: "assert_that True k = k" "assert_that False k = Panic"
  by (simp_all add: assert_that_def)

text \<open>\<open>Option::ok_or\<close>.\<close>

definition ok_or :: "'a option \<Rightarrow> 'e \<Rightarrow> 'e + 'a" where
  "ok_or x e = (case x of Some a \<Rightarrow> Inr a | None \<Rightarrow> Inl e)"

lemma ok_or_simps [simp]: "ok_or (Some a) e = Inr a" "ok_or None e = Inl e"
  by (simp_all add: ok_or_def)

text \<open>The \<open>?\<close> operator on an option, in a function that may panic.\<close>

definition oobind :: "'a option outcome \<Rightarrow> ('a \<Rightarrow> 'b option outcome) \<Rightarrow> 'b option outcome" where
  "oobind m f = obind m (\<lambda>r. case r of None \<Rightarrow> Done None | Some a \<Rightarrow> f a)"

lemma oobind_simps [simp]:
  "oobind (Done (Some a)) f = f a" "oobind (Done None) f = Done None" "oobind Panic f = Panic"
  by (simp_all add: oobind_def)

lemma oobind_eq_Some: "oobind m f = Done (Some b) \<longleftrightarrow> (\<exists>a. m = Done (Some a) \<and> f a = Done (Some b))"
  by (auto simp: oobind_def split: option.splits)

text \<open>The \<open>?\<close> operator on a result.\<close>

definition rbind :: "'e + 'a \<Rightarrow> ('a \<Rightarrow> 'e + 'b) \<Rightarrow> 'e + 'b" where
  "rbind m f = (case m of Inr a \<Rightarrow> f a | Inl e \<Rightarrow> Inl e)"

lemma rbind_simps [simp]: "rbind (Inr a) f = f a" "rbind (Inl e) f = Inl e"
  by (simp_all add: rbind_def)

lemma rbind_eq_Inr [simp]: "rbind m f = Inr b \<longleftrightarrow> (\<exists>a. m = Inr a \<and> f a = Inr b)"
  by (cases m) auto

text \<open>The same in a function that may panic.\<close>

definition orbind :: "('e + 'a) outcome \<Rightarrow> ('a \<Rightarrow> ('e + 'b) outcome) \<Rightarrow> ('e + 'b) outcome" where
  "orbind m f = obind m (\<lambda>r. case r of Inl e \<Rightarrow> Done (Inl e) | Inr a \<Rightarrow> f a)"

lemma orbind_simps [simp]:
  "orbind (Done (Inr a)) f = f a" "orbind (Done (Inl e)) f = Done (Inl e)" "orbind Panic f = Panic"
  by (simp_all add: orbind_def)

section \<open>Checked, saturating and panicking arithmetic\<close>

text \<open>An unsigned addition overflows exactly when the wrapped sum is below an operand.\<close>

definition checked_add :: "'a::len word \<Rightarrow> 'a word \<Rightarrow> 'a word option" where
  "checked_add a b = (if a + b < a then None else Some (a + b))"

definition checked_sub :: "'a::len word \<Rightarrow> 'a word \<Rightarrow> 'a word option" where
  "checked_sub a b = (if b \<le> a then Some (a - b) else None)"

definition checked_mul :: "'a::len word \<Rightarrow> 'a word \<Rightarrow> 'a word option" where
  "checked_mul a b = (if uint a * uint b < 2 ^ LENGTH('a) then Some (a * b) else None)"

definition saturating_add :: "'a::len word \<Rightarrow> 'a word \<Rightarrow> 'a word" where
  "saturating_add a b = (if a + b < a then - 1 else a + b)"

definition saturating_sub :: "'a::len word \<Rightarrow> 'a word \<Rightarrow> 'a word" where
  "saturating_sub a b = (if b \<le> a then a - b else 0)"

text \<open>\<open>+\<close> and \<open>-\<close> under overflow checks.\<close>

definition padd :: "'a::len word \<Rightarrow> 'a word \<Rightarrow> 'a word outcome" where
  "padd a b = unwrap (checked_add a b)"

definition psub :: "'a::len word \<Rightarrow> 'a word \<Rightarrow> 'a word outcome" where
  "psub a b = unwrap (checked_sub a b)"

definition pmul :: "u64 \<Rightarrow> u64 \<Rightarrow> u64 outcome" where
  "pmul a b = (if unat a * unat b < 2 ^ 64 then Done (a * b) else Panic)"

definition count_ones :: "'a::len word \<Rightarrow> nat" where
  "count_ones w = length (filter (bit w) [0..<LENGTH('a)])"

lemma no_overflow_iff: "\<not> a + b < a \<longleftrightarrow> unat a + unat b < 2 ^ LENGTH('a)"
  for a :: "'a::len word"
  by (simp add: linorder_not_less no_olen_add_nat)

lemma checked_add_eq_Some:
  "checked_add a b = Some c \<longleftrightarrow> unat a + unat b < 2 ^ LENGTH('a) \<and> c = a + b"
  for a :: "'a::len word"
  by (auto simp: checked_add_def simp flip: no_overflow_iff)

lemma padd_eq_Done [simp]: "padd a b = Done c \<longleftrightarrow> checked_add a b = Some c"
  by (simp add: padd_def)

lemma psub_eq_Done [simp]: "psub a b = Done c \<longleftrightarrow> b \<le> a \<and> c = a - b"
  by (auto simp: psub_def checked_sub_def)

lemma unat_checked_add: "checked_add a b = Some c \<Longrightarrow> unat c = unat a + unat b"
  by (auto simp: checked_add_eq_Some unat_word_ariths)

lemma unat_add_no_overflow:
  "unat a + unat b < 2 ^ LENGTH('a) \<Longrightarrow> unat (a + b) = unat a + unat b" for a b :: "'a::len word"
  by (simp add: unat_word_ariths)

lemma unat_u64_less: "unat (w :: u64) < 2 ^ 64"
proof -
  have "unat w < 2 ^ LENGTH(64)" by (rule unsigned_less)
  then show ?thesis by simp
qed

lemma unat_u8_less: "unat (b :: u8) < 256"
  and unat_u16_less: "unat (h :: u16) < 65536"
proof -
  have "unat b < 2 ^ LENGTH(8)" "unat h < 2 ^ LENGTH(16)" by (rule unsigned_less)+
  then show "unat b < 256" "unat h < 65536" by simp_all
qed

lemma unat_max_word: "unat (- 1 :: 'a::len word) = 2 ^ LENGTH('a) - 1"
  by (simp add: unsigned_minus_1_eq_mask mask_eq_exp_minus_1)

lemma unat_less_max: "(a :: 'a::len word) \<noteq> - 1 \<longleftrightarrow> Suc (unat a) < 2 ^ LENGTH('a)"
proof -
  have "Suc (unat a) \<le> 2 ^ LENGTH('a)"
    by (simp add: Suc_leI)
  moreover have "a = - 1 \<longleftrightarrow> unat a = 2 ^ LENGTH('a) - 1"
    by (metis unat_max_word word_unat_eq_iff)
  ultimately show ?thesis by auto
qed

lemma unat_Suc_word: "(a :: 'a::len word) \<noteq> - 1 \<Longrightarrow> unat (a + 1) = Suc (unat a)"
  by (simp add: unat_less_max unat_word_ariths)

lemma checked_add_one [simp]: "checked_add a 1 = (if a = - 1 then None else Some (a + 1))"
  for a :: "'a::len word"
  using unat_less_max [of a] no_overflow_iff [of a 1] by (auto simp: checked_add_def)

lemma saturating_add_one: "a \<noteq> - 1 \<Longrightarrow> saturating_add a 1 = a + 1"
  for a :: "'a::len word"
  using unat_less_max [of a] no_overflow_iff [of a 1] by (auto simp: saturating_add_def)

lemma word_less_inc: "(a :: 'a::len word) \<noteq> - 1 \<Longrightarrow> x < a + 1 \<longleftrightarrow> x \<le> a"
  by (simp add: word_less_nat_alt word_le_nat_alt unat_Suc_word less_Suc_eq_le)

lemma word_inc_le: "(a :: 'a::len word) \<noteq> - 1 \<Longrightarrow> a + 1 \<le> x \<longleftrightarrow> a < x"
  by (simp add: word_less_nat_alt word_le_nat_alt unat_Suc_word Suc_le_eq)

lemma saturating_sub_one: "0 < a \<Longrightarrow> saturating_sub a 1 = a - 1"
  for a :: "'a::len word"
  by (simp add: saturating_sub_def word_le_nat_alt word_less_nat_alt)

lemma word_le_dec: "0 < (a :: 'a::len word) \<Longrightarrow> x \<le> a - 1 \<longleftrightarrow> x < a"
proof -
  assume "0 < a"
  then have "unat (a - 1) = unat a - 1" "0 < unat a"
    by (simp_all add: unat_sub word_le_nat_alt word_less_nat_alt)
  then show ?thesis
    by (auto simp: word_less_nat_alt word_le_nat_alt)
qed

lemma word_dec_less: "0 < (a :: 'a::len word) \<Longrightarrow> a - 1 < x \<longleftrightarrow> a \<le> x"
  using word_le_dec [of a x] by (meson linorder_not_le)

lemma word_less_not_max: "(a :: 'a::len word) < b \<Longrightarrow> a \<noteq> - 1"
  using word_order.not_eq_extremum by fastforce

lemma word_less_pos: "(a :: 'a::len word) < b \<Longrightarrow> 0 < b"
  by (rule le_less_trans [OF word_zero_le])

section \<open>Alignment\<close>


lemma count_ones_one:
  fixes a :: "'a::len word"
  assumes "count_ones a = 1"
  obtains k where "k < LENGTH('a)" "a = 2 ^ k"
proof -
  obtain k where "filter (bit a) [0..<LENGTH('a)] = [k]"
    using assms by (auto simp: count_ones_def length_Suc_conv)
  then have "set (filter (bit a) [0..<LENGTH('a)]) = {k}" by simp
  then have k: "k < LENGTH('a)" and "\<And>n. n < LENGTH('a) \<Longrightarrow> bit a n \<longleftrightarrow> n = k"
    by auto
  then have "a = 2 ^ k"
    by (intro bit_word_eqI) (auto simp: bit_exp_iff)
  with k show ?thesis using that by blast
qed

lemma unat_and_pow2:
  "unat (a AND (2 ^ k - 1)) = unat a mod 2 ^ k" for a :: "'a::len word"
proof -
  have "a AND (2 ^ k - 1) = take_bit k a"
    by (simp add: take_bit_eq_mask mask_eq_exp_minus_1)
  then show ?thesis
    by (simp only: unsigned_take_bit_eq) (simp add: take_bit_eq_mod)
qed

lemma aligned_iff:
  "a AND (2 ^ k - 1) = 0 \<longleftrightarrow> 2 ^ k dvd unat a" for a :: "'a::len word"
  by (metis dvd_eq_mod_eq_0 unat_and_pow2 unat_eq_0)

lemma unat_ucast_widen: "LENGTH('a) \<le> LENGTH('b) \<Longrightarrow> unat (ucast w :: 'b::len word) = unat w" for w :: "'a::len word"
proof -
  assume "LENGTH('a) \<le> LENGTH('b)"
  then have "(2 :: nat) ^ LENGTH('a) \<le> 2 ^ LENGTH('b)" by simp
  then have "unat w < 2 ^ LENGTH('b)" using unsigned_less [where w = w and 'a = nat] by (rule order_less_le_trans [rotated])
  then show ?thesis by (simp add: unsigned_ucast_eq take_bit_nat_eq_self)
qed

lemma small_high_bits: "unat a < 2 ^ n \<Longrightarrow> n \<le> k \<Longrightarrow> \<not> bit a k" for a :: "'a::len word"
proof -
  assume "unat a < 2 ^ n" "n \<le> k"
  moreover from this have "take_bit n (unat a) = unat a" by (simp add: take_bit_nat_eq_self)
  ultimately have "\<not> bit (unat a) k" by (metis bit_take_bit_iff leD)
  then show ?thesis by (auto simp: bit_unsigned_iff dest: bit_imp_le_length)
qed

text \<open>A test of one flag.\<close>

lemma flags_bit: "flags AND push_bit k 1 \<noteq> 0 \<longleftrightarrow> bit flags k" for flags :: "'a::len word"
proof -
  have "flags AND push_bit k 1 = (if bit flags k then push_bit k 1 else 0)"
    by (rule bit_word_eqI) (auto simp: bit_and_iff bit_push_bit_iff bit_1_iff bit_exp_iff)
  moreover have "push_bit k (1 :: 'a word) \<noteq> 0" if "bit flags k"
    using bit_imp_le_length [OF that] by (simp add: push_bit_eq_0_iff)
  ultimately show ?thesis by auto
qed

lemma unat_pow2: "k < LENGTH('a) \<Longrightarrow> unat (2 ^ k :: 'a::len word) = 2 ^ k"
proof -
  assume k: "k < LENGTH('a)"
  have "unat (of_nat (2 ^ k) :: 'a word) = 2 ^ k"
    using k by (simp only: unsigned_of_nat) (simp add: take_bit_nat_eq_self)
  then show ?thesis by simp
qed

section \<open>Arrays and slices\<close>

text \<open>Indexing checks its bounds and panics outside them.\<close>

definition array_get :: "'a list \<Rightarrow> nat \<Rightarrow> 'a outcome" where
  "array_get xs i = (if i < length xs then Done (xs ! i) else Panic)"

definition array_set :: "'a list \<Rightarrow> nat \<Rightarrow> 'a \<Rightarrow> 'a list outcome" where
  "array_set xs i v = (if i < length xs then Done (xs[i := v]) else Panic)"

text \<open>\<open>slice::swap\<close>.\<close>

definition array_swap :: "'a list \<Rightarrow> nat \<Rightarrow> nat \<Rightarrow> 'a list outcome" where
  "array_swap xs i j =
     (if i < length xs \<and> j < length xs then Done (xs[i := xs ! j, j := xs ! i]) else Panic)"

text \<open>\<open>slice::copy_within(a..b, d)\<close>.\<close>

definition copy_within :: "'a list \<Rightarrow> nat \<Rightarrow> nat \<Rightarrow> nat \<Rightarrow> 'a list outcome" where
  "copy_within xs a b d =
     (if a \<le> b \<and> b \<le> length xs \<and> d \<le> length xs - (b - a)
      then Done (take d xs @ take (b - a) (drop a xs) @ drop (d + (b - a)) xs) else Panic)"

text \<open>\<open>&xs[a..b]\<close> and \<open>xs.get(a..b)\<close>.\<close>

definition slice :: "'a list \<Rightarrow> nat \<Rightarrow> nat \<Rightarrow> 'a list option" where
  "slice xs a b = (if a \<le> b \<and> b \<le> length xs then Some (take (b - a) (drop a xs)) else None)"

lemma array_get_in [simp]: "i < length xs \<Longrightarrow> array_get xs i = Done (xs ! i)"
  by (simp add: array_get_def)

lemma array_set_in [simp]: "i < length xs \<Longrightarrow> array_set xs i v = Done (xs[i := v])"
  by (simp add: array_set_def)

lemma copy_within_length: "copy_within xs a b d = Done ys \<Longrightarrow> length ys = length xs"
  by (auto simp: copy_within_def split: if_splits)

end
