(* ===== verification/Rangeset.thy ===== *)
theory Rangeset
  imports Prelude
begin

text \<open>
  The physical memory manager's data structure, \<open>src/shared/rangeset/src/lib.rs\<close>: a set of inclusive,
  non-overlapping \<open>u64\<close> ranges kept sorted in an array of 256 slots.

  The model keeps the array: \<open>ranges\<close> is a list of length 256, \<open>in_use\<close> the \<open>u32\<close> counter, and every
  operation performs the swaps, \<open>copy_within\<close> moves and bounds checks of the source. Operations on
  \<open>&mut self\<close> return the result paired with the state they leave behind, on error paths too.
\<close>

section \<open>Ranges\<close>

record range =
  rstart :: u64
  rend :: u64

datatype error =
    InvalidRange range
  | IndexOutOfBounds nat
  | RangeSetOverflow
  | ZeroSizedAllocation
  | WrongAlignment u64

definition new_unchecked :: "u64 \<Rightarrow> u64 \<Rightarrow> range" where
  "new_unchecked s e = \<lparr>rstart = s, rend = e\<rparr>"

definition range_new :: "u64 \<Rightarrow> u64 \<Rightarrow> error + range" where
  "range_new s e =
     ok_or (if s \<le> e then Some (new_unchecked s e) else None) (InvalidRange (new_unchecked s e))"

definition range_contains :: "range \<Rightarrow> range \<Rightarrow> bool" where
  "range_contains self other \<longleftrightarrow> rstart self \<le> rstart other \<and> rend self \<ge> rend other"

definition overlaps :: "range \<Rightarrow> range \<Rightarrow> range option" where
  "overlaps self other =
     (if rstart self \<le> rend other \<and> rstart other \<le> rend self
      then Some (new_unchecked (max (rstart self) (rstart other)) (min (rend self) (rend other)))
      else None)"

section \<open>The range set\<close>

record range_set =
  ranges :: "range list"
  in_use :: u32

definition rs_new :: range_set where
  "rs_new = \<lparr>ranges = replicate 256 \<lparr>rstart = 0, rend = 0\<rparr>, in_use = 0\<rparr>"

text \<open>\<open>self.in_use as usize\<close>.\<close>

abbreviation used :: "range_set \<Rightarrow> nat" where
  "used rs \<equiv> unat (in_use rs)"

definition entries :: "range_set \<Rightarrow> range list outcome" where
  "entries rs = unwrap (slice (ranges rs) 0 (used rs))"

text \<open>The fold of \<open>len\<close>: the subtraction and the accumulating addition panic on overflow, the
  \<open>checked_add\<close> gives \<open>None\<close>.\<close>

fun len_fold :: "u64 \<Rightarrow> range list \<Rightarrow> u64 option outcome" where
  "len_fold acc [] = Done (Some acc)"
| "len_fold acc (x # xs) =
     obind (psub (rend x) (rstart x)) (\<lambda>d.
       case checked_add d 1 of
         None \<Rightarrow> Done None
       | Some n \<Rightarrow> obind (padd acc n) (\<lambda>acc'. len_fold acc' xs))"

definition rs_len :: "range_set \<Rightarrow> u64 option outcome" where
  "rs_len rs = obind (entries rs) (len_fold 0)"

definition is_empty :: "range_set \<Rightarrow> bool" where
  "is_empty rs \<longleftrightarrow> in_use rs = 0"

type_synonym 'a rs_result = "((error + 'a) \<times> range_set) outcome"

text \<open>The loop \<open>for i in idx..in_use - 1 { ranges.swap(i, i + 1) }\<close>, \<open>n\<close> iterations from \<open>i\<close>.\<close>

fun swap_loop :: "nat \<Rightarrow> nat \<Rightarrow> range list \<Rightarrow> range list outcome" where
  "swap_loop 0 i xs = Done xs"
| "swap_loop (Suc n) i xs = obind (array_swap xs i (i + 1)) (swap_loop n (i + 1))"

definition delete :: "range_set \<Rightarrow> nat \<Rightarrow> unit rs_result" where
  "delete rs idx =
     (if idx \<ge> used rs then Done (Inl (IndexOutOfBounds idx), rs)
      else obind (swap_loop (used rs - 1 - idx) idx (ranges rs)) (\<lambda>xs.
             Done (Inr (), rs\<lparr>ranges := xs, in_use := in_use rs - 1\<rparr>)))"

lemma delete_used: "delete rs idx = Done (Inr u, rs') \<Longrightarrow> used rs = Suc (used rs')"
proof -
  assume "delete rs idx = Done (Inr u, rs')"
  then have "idx < used rs" and "in_use rs' = in_use rs - 1"
    by (auto simp: delete_def split: if_splits)
  moreover from \<open>idx < used rs\<close> have "in_use rs \<noteq> 0"
    by auto
  ultimately show ?thesis
    by (simp add: unat_minus_one)
qed

text \<open>The \<open>while\<close> loop of \<open>insert\<close>: it ends with the merged range and the index to insert it at.\<close>

function insert_loop :: "range_set \<Rightarrow> range \<Rightarrow> nat \<Rightarrow> (range \<times> nat) rs_result" where
  "insert_loop rs rng idx =
     (if idx < used rs then
        obind (array_get (ranges rs) idx) (\<lambda>entry.
          case checked_add (rend entry) 1 of
            None \<Rightarrow> Done (Inl RangeSetOverflow, rs)
          | Some eend \<Rightarrow>
              if rstart rng > eend then insert_loop rs rng (idx + 1)
              else if rend rng < rstart entry then Done (Inr (rng, idx), rs)
              else obind (delete rs idx) (\<lambda>(res, rs').
                case res of
                  Inl e \<Rightarrow> Done (Inl e, rs')
                | Inr _ \<Rightarrow> insert_loop rs'
                    \<lparr>rstart = min (rstart entry) (rstart rng), rend = max (rend entry) (rend rng)\<rparr>
                    idx))
      else Done (Inr (rng, idx), rs))"
  by pat_completeness auto
termination
proof (relation "measure (\<lambda>(rs, rng, idx). used rs - idx)", goal_cases)
  case (3 rs rng idx entry eend p res rs' u)
  then have "used rs = Suc (used rs')"
    by (auto dest: delete_used)
  with 3 show ?case by auto
qed auto

declare insert_loop.simps [simp del]

definition rs_insert :: "range_set \<Rightarrow> range \<Rightarrow> unit rs_result" where
  "rs_insert rs rng =
     obind (insert_loop rs rng 0) (\<lambda>(res, rs1).
       case res of
         Inl e \<Rightarrow> Done (Inl e, rs1)
       | Inr (r, idx) \<Rightarrow>
           if used rs1 \<ge> length (ranges rs1) then Done (Inl RangeSetOverflow, rs1)
           else obind (if idx < used rs1
                       then copy_within (ranges rs1) idx (used rs1) (idx + 1)
                       else Done (ranges rs1)) (\<lambda>xs.
                  obind (array_set xs idx r) (\<lambda>ys.
                    obind (padd (in_use rs1) 1) (\<lambda>n.
                      Done (Inr (), rs1\<lparr>ranges := ys, in_use := n\<rparr>)))))"

definition split_entry :: "range_set \<Rightarrow> nat \<Rightarrow> range \<Rightarrow> bool rs_result" where
  "split_entry rs idx rng =
     (if idx \<ge> used rs then Done (Inl (IndexOutOfBounds idx), rs)
      else if used rs \<ge> length (ranges rs) then Done (Inl RangeSetOverflow, rs)
      else obind (array_get (ranges rs) idx) (\<lambda>entry.
        if \<not> range_contains entry rng then Done (Inr False, rs)
        else obind (array_set (ranges rs) idx
                     (entry\<lparr>rend := if rstart rng > rstart entry
                                    then saturating_sub (rstart rng) 1 else rstart entry\<rparr>)) (\<lambda>xs.
          obind (if idx + 1 < used rs then copy_within xs (idx + 1) (used rs) (idx + 2)
                 else Done xs) (\<lambda>ys.
            case range_new (saturating_add (rend rng) 1) (rend entry) of
              Inl e \<Rightarrow> Done (Inl e, rs\<lparr>ranges := ys\<rparr>)
            | Inr second \<Rightarrow>
                obind (array_set ys (idx + 1) second) (\<lambda>zs.
                  obind (padd (in_use rs) 1) (\<lambda>n.
                    Done (Inr True, rs\<lparr>ranges := zs, in_use := n\<rparr>)))))))"

lemma split_entry_used:
  assumes "split_entry rs idx rng = Done (Inr b, rs')"
  shows "used rs' = (if b then Suc (used rs) else used rs)"
  using assms
  by (auto simp: split_entry_def range_new_def unat_Suc_word split: if_splits)

text \<open>The \<open>while\<close> loop of \<open>remove\<close>, with the \<open>any_removed\<close> flag.\<close>

function remove_loop :: "range_set \<Rightarrow> range \<Rightarrow> nat \<Rightarrow> bool \<Rightarrow> bool rs_result" where
  "remove_loop rs rng idx any_removed =
     (if idx < used rs then
        obind (array_get (ranges rs) idx) (\<lambda>entry.
          if overlaps entry rng = None then remove_loop rs rng (idx + 1) any_removed
          else if range_contains rng entry then
            obind (delete rs idx) (\<lambda>(res, rs').
              case res of
                Inl e \<Rightarrow> Done (Inl e, rs')
              | Inr _ \<Rightarrow> remove_loop rs' rng idx True)
          else if rstart rng \<le> rstart entry then
            obind (array_set (ranges rs) idx (entry\<lparr>rstart := saturating_add (rend rng) 1\<rparr>)) (\<lambda>xs.
              remove_loop (rs\<lparr>ranges := xs\<rparr>) rng (idx + 1) True)
          else if rend rng \<ge> rend entry then
            obind (array_set (ranges rs) idx (entry\<lparr>rend := saturating_sub (rstart rng) 1\<rparr>)) (\<lambda>xs.
              remove_loop (rs\<lparr>ranges := xs\<rparr>) rng (idx + 1) True)
          else
            obind (split_entry rs idx rng) (\<lambda>(res, rs').
              case res of
                Inl e \<Rightarrow> Done (Inl e, rs')
              | Inr b \<Rightarrow> remove_loop rs' rng (idx + 1 * (if b then 1 else 0) + 1) True))
      else Done (Inr any_removed, rs))"
  by pat_completeness auto
termination
proof (relation "measure (\<lambda>(rs, rng, idx, b). used rs - idx)", goal_cases)
  case (3 rs rng idx b entry p res rs' u)
  then have "used rs = Suc (used rs')"
    by (auto dest: delete_used)
  with 3 show ?case by auto
next
  case (6 rs rng idx b entry p res rs' c)
  then have "used rs' = (if c then Suc (used rs) else used rs)"
    by (auto dest: split_entry_used)
  with 6 show ?case by auto
qed auto

declare remove_loop.simps [simp del]

definition rs_remove :: "range_set \<Rightarrow> range \<Rightarrow> bool rs_result" where
  "rs_remove rs rng = remove_loop rs rng 0 False"

section \<open>Allocation\<close>

text \<open>The padding that aligns \<open>start\<close>; \<open>align\<close> is a power of two here.\<close>

definition alloc_padding :: "u64 \<Rightarrow> u64 \<Rightarrow> u64" where
  "alloc_padding align s = (align - (s AND (align - 1))) AND (align - 1)"

text \<open>A proposed allocation: the inclusive range to take out of the set and the pointer to return.\<close>

type_synonym proposal = "u64 \<times> u64 \<times> u64"

text \<open>How the loop over the preferred regions leaves an entry: \<open>continue 'search\<close>, \<open>break 'search\<close>
  with an allocation, or by running out of regions.\<close>

datatype region_exit = SkipEntry | BreakSearch proposal | RegionsDone

fun region_loop :: "u64 \<Rightarrow> u64 \<Rightarrow> range \<Rightarrow> range list \<Rightarrow> region_exit" where
  "region_loop sz align entry [] = RegionsDone"
| "region_loop sz align entry (region # rest) =
     (case overlaps entry region of
        None \<Rightarrow> region_loop sz align entry rest
      | Some overlap \<Rightarrow>
          let aligned = (rstart overlap + (align - 1)) AND NOT (align - 1) in
          if aligned \<ge> rstart overlap \<and> aligned \<le> rend overlap
             \<and> rend overlap - aligned \<ge> sz - 1
          then let alc_end = aligned + (sz - 1); max_addr = - 1 in
            if aligned > max_addr \<or> alc_end > max_addr then SkipEntry
            else BreakSearch (aligned, alc_end, aligned)
          else region_loop sz align entry rest)"

text \<open>The \<open>'search\<close> loop. The outer \<open>None\<close> is the early \<open>return Ok(None)\<close>.\<close>

fun search :: "u64 \<Rightarrow> u64 \<Rightarrow> range list option \<Rightarrow> proposal option \<Rightarrow> range list
    \<Rightarrow> proposal option option" where
  "search sz align regions best [] = Some best"
| "search sz align regions best (entry # rest) =
     (let padding = alloc_padding align (rstart entry); s = rstart entry in
      case Option.bind (checked_add s (sz - 1)) (\<lambda>e. checked_add e padding) of
        None \<Rightarrow> None
      | Some e \<Rightarrow>
          if e > rend entry then search sz align regions best rest
          else case (case regions of None \<Rightarrow> RegionsDone
                     | Some rgs \<Rightarrow> region_loop sz align entry rgs) of
            SkipEntry \<Rightarrow> search sz align regions best rest
          | BreakSearch a \<Rightarrow> Some (Some a)
          | RegionsDone \<Rightarrow>
              search sz align regions
                (case best of
                   None \<Rightarrow> Some (s, e, s + padding)
                 | Some (bs, be, _) \<Rightarrow>
                     if be - bs > e - s then Some (s, e, s + padding) else best)
                rest)"

definition allocate_prefer :: "range_set \<Rightarrow> u64 \<Rightarrow> u64 \<Rightarrow> range_set option \<Rightarrow> u64 option rs_result" where
  "allocate_prefer rs sz align regions =
     (if sz = 0 then Done (Inl ZeroSizedAllocation, rs)
      else if count_ones align \<noteq> 1 then Done (Inl (WrongAlignment align), rs)
      else obind (entries rs) (\<lambda>es.
        obind (case regions of None \<Rightarrow> Done None
               | Some rgs \<Rightarrow> obind (entries rgs) (\<lambda>xs. Done (Some xs))) (\<lambda>rgs.
          case search sz align rgs None es of
            None \<Rightarrow> Done (Inr None, rs)
          | Some None \<Rightarrow> Done (Inr None, rs)
          | Some (Some (s, e, ptr)) \<Rightarrow>
              obind (rs_remove rs \<lparr>rstart = s, rend = e\<rparr>) (\<lambda>(res, rs').
                obind (unwrap_result res) (\<lambda>_. Done (Inr (Some ptr), rs'))))))"

definition allocate :: "range_set \<Rightarrow> u64 \<Rightarrow> u64 \<Rightarrow> u64 option rs_result" where
  "allocate rs sz align = allocate_prefer rs sz align None"

end
