(* ===== verification/Frame_Pool.thy ===== *)
theory Frame_Pool
  imports Prelude
begin

text \<open>
  The contract between an owner of physical memory and its clients, and what a client may rely on: the
  blocks handed out and not yet given back are disjoint from each other and from the free memory,
  whatever the order of allocations and releases. The range set provides it (\<open>Rangeset_Correct\<close>).
\<close>

section \<open>Runs of a pool\<close>

text \<open>The bytes of a block given by its first and last address.\<close>

abbreviation block :: "u64 \<times> u64 \<Rightarrow> u64 set" where
  "block b \<equiv> {fst b..snd b}"

text \<open>A run interleaves allocations, refused ones too, with releases of live blocks, failed ones too.
  A state of the run pairs the pool with the set of live blocks.\<close>

inductive pool_step ::
  "('s \<Rightarrow> u64 \<Rightarrow> u64 \<Rightarrow> (('e + u64 option) \<times> 's) outcome) \<Rightarrow> ('s \<Rightarrow> u64 \<Rightarrow> u64 \<Rightarrow> (('e + unit) \<times> 's) outcome)
    \<Rightarrow> 's \<times> (u64 \<times> u64) set \<Rightarrow> 's \<times> (u64 \<times> u64) set \<Rightarrow> bool" for alloc release where
  step_alloc: "alloc s sz align = Done (Inr (Some p), s')
    \<Longrightarrow> pool_step alloc release (s, live) (s', insert (p, p + (sz - 1)) live)"
| step_refused: "alloc s sz align = Done (Inr None, s') \<or> alloc s sz align = Done (Inl e, s')
    \<Longrightarrow> pool_step alloc release (s, live) (s', live)"
| step_release: "b \<in> live \<Longrightarrow> release s (fst b) (snd b) = Done (res, s')
    \<Longrightarrow> pool_step alloc release (s, live) (s', live - {b})"

definition pool_reach where
  "pool_reach alloc release = (pool_step alloc release)\<^sup>*\<^sup>*"

text \<open>Live blocks are valid, pairwise disjoint, and not free.\<close>

definition pool_safe :: "u64 set \<Rightarrow> (u64 \<times> u64) set \<Rightarrow> bool" where
  "pool_safe avail live \<longleftrightarrow> (\<forall>b\<in>live. fst b \<le> snd b \<and> block b \<inter> avail = {})
     \<and> pairwise (\<lambda>a b. block a \<inter> block b = {}) live"

lemma pool_safe_insert:
  assumes "pool_safe avail live" and "fst b \<le> snd b" and "block b \<subseteq> avail" and "avail' \<subseteq> avail - block b"
  shows "pool_safe avail' (insert b live)"
  using assms unfolding pool_safe_def pairwise_insert by blast

lemma pool_safe_remove:
  assumes "pool_safe avail live" and "b \<in> live" and "avail' \<subseteq> avail \<union> block b"
  shows "pool_safe avail' (live - {b})"
  using assms unfolding pool_safe_def pairwise_def by blast

lemma pool_safe_mono: "pool_safe avail live \<Longrightarrow> avail' \<subseteq> avail \<Longrightarrow> pool_safe avail' live"
  unfolding pool_safe_def by blast

section \<open>The contract\<close>

locale frame_pool =
  fixes inv :: "'s \<Rightarrow> bool"
    and avail :: "'s \<Rightarrow> u64 set"
    and alloc :: "'s \<Rightarrow> u64 \<Rightarrow> u64 \<Rightarrow> (('e + u64 option) \<times> 's) outcome"
    and release :: "'s \<Rightarrow> u64 \<Rightarrow> u64 \<Rightarrow> (('e + unit) \<times> 's) outcome"
  assumes alloc_total: "inv s \<Longrightarrow> \<exists>res s'. alloc s sz align = Done (res, s')"
    and alloc_some: "inv s \<Longrightarrow> alloc s sz align = Done (Inr (Some p), s')
      \<Longrightarrow> inv s' \<and> p \<le> p + (sz - 1) \<and> {p..p + (sz - 1)} \<subseteq> avail s \<and> avail s' \<subseteq> avail s - {p..p + (sz - 1)}"
    and alloc_none: "inv s \<Longrightarrow> alloc s sz align = Done (Inr None, s') \<Longrightarrow> s' = s"
    and alloc_err: "inv s \<Longrightarrow> alloc s sz align = Done (Inl e, s') \<Longrightarrow> s' = s"
    and release_safe: "inv s \<Longrightarrow> a \<le> b
      \<Longrightarrow> \<exists>res s'. release s a b = Done (res, s') \<and> inv s' \<and> avail s' \<subseteq> avail s \<union> {a..b}"
begin

lemma step_safe:
  assumes "pool_step alloc release (s, live) (s', live')" and "inv s" and "pool_safe (avail s) live"
  shows "inv s' \<and> pool_safe (avail s') live'"
  using assms(1)
proof (cases rule: pool_step.cases)
  case (step_alloc sz align p)
  then show ?thesis
    using alloc_some [OF assms(2)] pool_safe_insert [OF assms(3)] by fastforce
next
  case (step_refused sz align e)
  then show ?thesis
    using alloc_none [OF assms(2)] alloc_err [OF assms(2)] assms by blast
next
  case (step_release b res)
  then have "fst b \<le> snd b"
    using assms(3) by (simp add: pool_safe_def)
  then show ?thesis
    using release_safe [OF assms(2), of "fst b" "snd b"] step_release pool_safe_remove [OF assms(3)]
    by auto
qed

lemma reach_safe:
  assumes "pool_reach alloc release (s, {}) (s', live)" and "inv s"
  shows "inv s' \<and> pool_safe (avail s') live"
proof -
  have "(pool_step alloc release)\<^sup>*\<^sup>* st st' \<Longrightarrow> inv (fst st) \<Longrightarrow> pool_safe (avail (fst st)) (snd st)
      \<Longrightarrow> inv (fst st') \<and> pool_safe (avail (fst st')) (snd st')" for st st'
    by (induction rule: rtranclp_induct) (auto dest: step_safe)
  from this [of "(s, {})" "(s', live)"] show ?thesis
    using assms by (simp add: pool_reach_def pool_safe_def)
qed

text \<open>A client is never stopped by a panic of the pool.\<close>

lemma alloc_no_panic: "inv s \<Longrightarrow> alloc s sz align \<noteq> Panic"
  using alloc_total by (metis outcome.distinct(1))

end

end
