(* ===== verification/Rangeset_Correct.thy ===== *)
theory Rangeset_Correct
  imports Rangeset Frame_Pool
begin

text \<open>
  Correctness of the range set. The array operations refine functions on the list of live entries
  (\<open>scan\<close> for \<open>insert\<close>, \<open>cut_entry\<close> for \<open>remove\<close>), and those are correct for the set of addresses the
  entries cover.
\<close>

section \<open>The abstraction and the invariant\<close>

definition wf_arr :: "range_set \<Rightarrow> bool" where
  "wf_arr rs \<longleftrightarrow> length (ranges rs) = 256 \<and> used rs \<le> 256"

text \<open>The live entries.\<close>

definition ents :: "range_set \<Rightarrow> range list" where
  "ents rs = take (used rs) (ranges rs)"

abbreviation valid_range :: "range \<Rightarrow> bool" where
  "valid_range r \<equiv> rstart r \<le> rend r"

abbreviation addrs :: "range \<Rightarrow> u64 set" where
  "addrs r \<equiv> {rstart r..rend r}"

text \<open>The first of two entries ends before the second one starts. They may touch: \<open>insert\<close> does not
  merge a range that ends right before an existing entry.\<close>

definition apart :: "range \<Rightarrow> range \<Rightarrow> bool" where
  "apart a b \<longleftrightarrow> rend a < rstart b"

definition list_inv :: "range list \<Rightarrow> bool" where
  "list_inv es \<longleftrightarrow> (\<forall>e\<in>set es. valid_range e) \<and> sorted_wrt apart es"

definition cover :: "range list \<Rightarrow> u64 set" where
  "cover es = (\<Union>e\<in>set es. addrs e)"

definition rs_inv :: "range_set \<Rightarrow> bool" where
  "rs_inv rs \<longleftrightarrow> wf_arr rs \<and> list_inv (ents rs)"

text \<open>The set of addresses a range set stands for.\<close>

definition rs_cover :: "range_set \<Rightarrow> u64 set" where
  "rs_cover rs = cover (ents rs)"

lemma length_ents [simp]: "wf_arr rs \<Longrightarrow> length (ents rs) = used rs"
  by (simp add: wf_arr_def ents_def)

lemma nth_ents: "wf_arr rs \<Longrightarrow> i < used rs \<Longrightarrow> ents rs ! i = ranges rs ! i"
  by (simp add: ents_def)

lemma entries_wf [simp]: "wf_arr rs \<Longrightarrow> entries rs = Done (ents rs)"
  by (simp add: wf_arr_def ents_def entries_def slice_def)

lemma cover_simps [simp]: "cover [] = {}" "cover (e # es) = addrs e \<union> cover es"
  "cover (es @ fs) = cover es \<union> cover fs"
  by (auto simp: cover_def)

lemma list_inv_Nil [simp]: "list_inv []"
  by (simp add: list_inv_def)

lemma list_inv_Cons [simp]:
  "list_inv (e # es) \<longleftrightarrow> valid_range e \<and> (\<forall>f\<in>set es. apart e f) \<and> list_inv es"
  by (auto simp: list_inv_def)

lemma list_inv_append:
  "list_inv (es @ fs) \<longleftrightarrow> list_inv es \<and> list_inv fs \<and> (\<forall>e\<in>set es. \<forall>f\<in>set fs. apart e f)"
  by (auto simp: list_inv_def sorted_wrt_append)

lemma ents_rs_new [simp]: "ents rs_new = []"
  by (simp add: ents_def rs_new_def)

lemma rs_inv_new: "rs_inv rs_new"
  by (simp add: rs_inv_def wf_arr_def) (simp add: rs_new_def)

section \<open>Deleting an entry\<close>

lemma swap_loop_append:
  "swap_loop (length ys) (length xs) (xs @ x # ys @ zs) = Done (xs @ ys @ x # zs)"
proof (induction ys arbitrary: xs)
  case Nil
  then show ?case by simp
next
  case (Cons y ys)
  have "array_swap (xs @ x # (y # ys) @ zs) (length xs) (length xs + 1)
      = Done ((xs @ [y]) @ x # ys @ zs)"
    by (simp add: array_swap_def nth_append list_update_append)
  then show ?case using Cons.IH [of "xs @ [y]"] by simp
qed

lemma take_Suc_drop:
  "i < length xs \<Longrightarrow> xs = take i xs @ xs ! i # drop (Suc i) xs"
  by (rule id_take_nth_drop)

lemma swap_loop_eq:
  assumes "i + n < length xs"
  shows "swap_loop n i xs
    = Done (take i xs @ take n (drop (Suc i) xs) @ xs ! i # drop (Suc (i + n)) xs)"
proof -
  let ?ys = "take n (drop (Suc i) xs)" and ?zs = "drop (Suc (i + n)) xs"
  have "drop (Suc i) xs = ?ys @ ?zs"
    by (metis add_Suc append_take_drop_id drop_drop add.commute)
  then have "xs = take i xs @ xs ! i # ?ys @ ?zs"
    using assms by (metis add_lessD1 id_take_nth_drop)
  moreover have "length ?ys = n" "length (take i xs) = i"
    using assms by auto
  ultimately show ?thesis
    by (metis swap_loop_append)
qed

lemma delete_wf:
  assumes "wf_arr rs" and "idx < used rs"
  shows "\<exists>rs'. delete rs idx = Done (Inr (), rs') \<and> wf_arr rs'
    \<and> ents rs' = take idx (ents rs) @ drop (Suc idx) (ents rs)"
proof -
  let ?n = "used rs - 1 - idx" and ?xs = "ranges rs"
  let ?ys = "take idx ?xs @ take ?n (drop (Suc idx) ?xs) @ ?xs ! idx # drop (Suc (idx + ?n)) ?xs"
  let ?rs = "rs\<lparr>ranges := ?ys, in_use := in_use rs - 1\<rparr>"
  have len: "idx + ?n < length ?xs"
    using assms by (auto simp: wf_arr_def)
  then have del: "delete rs idx = Done (Inr (), ?rs)"
    using assms by (simp add: delete_def swap_loop_eq)
  then have used: "used rs = Suc (used ?rs)"
    by (rule delete_used)
  have "ents ?rs = take idx ?xs @ take ?n (drop (Suc idx) ?xs)"
    using used len assms by (auto simp: ents_def wf_arr_def)
  also have "\<dots> = take idx (ents rs) @ drop (Suc idx) (ents rs)"
    using assms by (simp add: ents_def drop_take)
  finally have "ents ?rs = take idx (ents rs) @ drop (Suc idx) (ents rs)" .
  moreover have "wf_arr ?rs"
    using len used assms by (auto simp: wf_arr_def)
  ultimately show ?thesis using del by blast
qed

section \<open>Insertion\<close>

definition merge :: "range \<Rightarrow> range \<Rightarrow> range" where
  "merge e r = \<lparr>rstart = min (rstart e) (rstart r), rend = max (rend e) (rend r)\<rparr>"

text \<open>The loop of \<open>insert\<close> on the list of entries: whether it ran to its end, the entries passed
  over, the merged range, and the entries not reached.\<close>

fun scan :: "range \<Rightarrow> range list \<Rightarrow> bool \<times> range list \<times> range \<times> range list" where
  "scan r [] = (True, [], r, [])"
| "scan r (e # es) =
     (if rend e = - 1 then (False, [], r, e # es)
      else if rstart r > rend e + 1 then
        (let (ok, sk, r', rest) = scan r es in (ok, e # sk, r', rest))
      else if rend r < rstart e then (True, [], r, e # es)
      else scan (merge e r) es)"

lemma drop_ents_Cons:
  "wf_arr rs \<Longrightarrow> idx < used rs \<Longrightarrow> drop idx (ents rs) = ranges rs ! idx # drop (Suc idx) (ents rs)"
  by (metis Cons_nth_drop_Suc length_ents nth_ents)

lemma insert_loop_scan:
  assumes "wf_arr rs" and "idx \<le> used rs"
    and "scan r (drop idx (ents rs)) = (ok, sk, r', rest)"
  shows "\<exists>rs'. insert_loop rs r idx
      = Done (if ok then Inr (r', idx + length sk) else Inl RangeSetOverflow, rs')
    \<and> wf_arr rs' \<and> ents rs' = take idx (ents rs) @ sk @ rest"
  using assms
proof (induction rs r idx arbitrary: ok sk r' rest rule: insert_loop.induct)
  case (1 rs r idx)
  show ?case
  proof (cases "idx < used rs")
    case False
    then have "insert_loop rs r idx = Done (Inr (r, idx), rs)"
      by (simp add: insert_loop.simps [of rs r idx])
    with False "1.prems" show ?thesis by auto
  next
    case True
    let ?e = "ranges rs ! idx"
    have get: "array_get (ranges rs) idx = Done ?e"
      using True "1.prems" by (simp add: wf_arr_def)
    have drop: "drop idx (ents rs) = ?e # drop (Suc idx) (ents rs)"
      using True "1.prems" by (simp add: drop_ents_Cons)
    have take: "take (Suc idx) (ents rs) = take idx (ents rs) @ [?e]"
      using True "1.prems" by (simp add: take_Suc_conv_app_nth nth_ents)
    consider (max) "rend ?e = - 1"
      | (skip) "rend ?e \<noteq> - 1" "rend ?e + 1 < rstart r"
      | (stop) "rend ?e \<noteq> - 1" "\<not> rend ?e + 1 < rstart r" "rend r < rstart ?e"
      | (merge) "rend ?e \<noteq> - 1" "\<not> rend ?e + 1 < rstart r" "\<not> rend r < rstart ?e"
      by blast
    then show ?thesis
    proof cases
      case max
      with True get have "insert_loop rs r idx = Done (Inl RangeSetOverflow, rs)"
        by (simp add: insert_loop.simps [of rs r idx])
      with max "1.prems" drop show ?thesis by auto
    next
      case skip
      have add: "checked_add (rend ?e) 1 = Some (rend ?e + 1)"
        using skip by simp
      from skip "1.prems" drop obtain sk' where
        sk': "scan r (drop (Suc idx) (ents rs)) = (ok, sk', r', rest)" "sk = ?e # sk'"
        by (auto split: prod.splits)
      have "\<exists>rs'. insert_loop rs r (idx + 1)
          = Done (if ok then Inr (r', idx + 1 + length sk') else Inl RangeSetOverflow, rs')
        \<and> wf_arr rs' \<and> ents rs' = take (idx + 1) (ents rs) @ sk' @ rest"
        using skip True sk' "1.prems" by (intro "1.IH"(1) [OF True get add]) simp_all
      moreover have "insert_loop rs r idx = insert_loop rs r (idx + 1)"
        using skip True get by (simp add: insert_loop.simps [of rs r idx])
      ultimately show ?thesis
        using sk' take by (cases ok) auto
    next
      case stop
      with True get have "insert_loop rs r idx = Done (Inr (r, idx), rs)"
        by (simp add: insert_loop.simps [of rs r idx])
      with stop "1.prems" drop show ?thesis by auto
    next
      case merge
      have add: "checked_add (rend ?e) 1 = Some (rend ?e + 1)"
        using merge by simp
      obtain rs1 where rs1: "delete rs idx = Done (Inr (), rs1)" "wf_arr rs1"
        "ents rs1 = take idx (ents rs) @ drop (Suc idx) (ents rs)"
        using delete_wf True "1.prems" by blast
      let ?r = "\<lparr>rstart = min (rstart ?e) (rstart r), rend = max (rend ?e) (rend r)\<rparr>"
      have le: "idx \<le> used rs1"
        using True delete_used [OF rs1(1)] by simp
      have rest1: "drop idx (ents rs1) = drop (Suc idx) (ents rs)"
        "take idx (ents rs1) = take idx (ents rs)"
        using True "1.prems" rs1(3) by auto
      have "\<exists>rs'. insert_loop rs1 ?r idx
          = Done (if ok then Inr (r', idx + length sk) else Inl RangeSetOverflow, rs')
        \<and> wf_arr rs' \<and> ents rs' = take idx (ents rs1) @ sk @ rest"
        by (rule "1.IH"(2) [OF True get add merge(2,3) rs1(1) refl refl rs1(2) le])
          (use merge drop rest1 "1.prems"(3) in \<open>simp add: merge_def\<close>)
      moreover have "insert_loop rs r idx = insert_loop rs1 ?r idx"
        using merge True get rs1 by (simp add: insert_loop.simps [of rs r idx])
      ultimately show ?thesis
        using rest1 by auto
    qed
  qed
qed

lemma insert_scan:
  assumes "wf_arr rs" and "scan r (ents rs) = (ok, sk, r', rest)"
  shows "\<exists>rs'. wf_arr rs'
    \<and> (if ok \<and> length (sk @ rest) < 256
       then rs_insert rs r = Done (Inr (), rs') \<and> ents rs' = sk @ r' # rest
       else rs_insert rs r = Done (Inl RangeSetOverflow, rs') \<and> ents rs' = sk @ rest)"
proof -
  obtain rs1 where rs1: "insert_loop rs r 0
      = Done (if ok then Inr (r', length sk) else Inl RangeSetOverflow, rs1)"
    "wf_arr rs1" "ents rs1 = sk @ rest"
    using insert_loop_scan [of rs 0 r ok sk r' rest] assms by auto
  have used: "used rs1 = length (sk @ rest)"
    using rs1 length_ents by metis
  show ?thesis
  proof (cases "ok \<and> length (sk @ rest) < 256")
    case False
    then show ?thesis
      using rs1 used by (auto simp: rs_insert_def wf_arr_def intro!: exI [of _ rs1])
  next
    case True
    let ?xs = "ranges rs1" and ?i = "length sk" and ?n = "used rs1"
    define ys where "ys = (if ?i < ?n
      then take (?i + 1) ?xs @ take (?n - ?i) (drop ?i ?xs) @ drop (?n + 1) ?xs else ?xs)"
    let ?rs = "rs1\<lparr>ranges := ys[?i := r'], in_use := in_use rs1 + 1\<rparr>"
    have len: "length ?xs = 256" "?n < 256" "?i \<le> ?n" "?n = ?i + length rest"
      using rs1 used True by (auto simp: wf_arr_def)
    have split: "?xs = sk @ rest @ drop ?n ?xs"
      using rs1(3) by (metis append_assoc append_take_drop_id ents_def)
    have ys: "(if ?i < ?n then copy_within ?xs ?i ?n (?i + 1) else Done ?xs) = Done ys"
      using len by (auto simp: ys_def copy_within_def)
    have len_ys: "length ys = 256"
      using len by (auto simp: ys_def)
    have not_max: "in_use rs1 \<noteq> - 1"
      using len(2) by (auto simp: unat_max_word)
    obtain t ts where "drop ?n ?xs = t # ts"
      using len by (metis Cons_nth_drop_Suc)
    with split have xs: "?xs = sk @ rest @ t # ts" by simp
    have upd: "ys[?i := r'] = sk @ r' # rest @ ts"
      using len(4) by (cases rest) (auto simp: ys_def xs list_update_append)
    have "rs_insert rs r = Done (Inr (), ?rs)"
      using rs1 True len ys len_ys not_max by (simp add: rs_insert_def padd_def)
    moreover have "wf_arr ?rs"
      using len_ys len not_max by (simp add: wf_arr_def unat_Suc_word)
    moreover have "ents ?rs = sk @ r' # rest"
      using len(4) not_max by (simp add: ents_def upd unat_Suc_word)
    ultimately show ?thesis
      using True by auto
  qed
qed

lemma addrs_merge:
  assumes "valid_range e" "valid_range r" "rend e \<noteq> - 1"
    and "rstart r \<le> rend e + 1" "rstart e \<le> rend r"
  shows "addrs (merge e r) = addrs e \<union> addrs r"
proof -
  have "x \<le> rend e \<or> rstart r \<le> x" for x
    using assms(3,4) by (meson linorder_not_le order_trans word_inc_le)
  then show ?thesis
    using assms(1,2,5)
    by (auto simp: merge_def min_le_iff_disj le_max_iff_disj) (meson order_trans linear)+
qed

lemma valid_merge: "valid_range e \<Longrightarrow> valid_range r \<Longrightarrow> valid_range (merge e r)"
  by (auto simp: merge_def min_def max_def)

lemma scan_lower:
  "scan r es = (ok, sk, r', rest) \<Longrightarrow> b < rstart r \<Longrightarrow> \<forall>f\<in>set es. b < rstart f
    \<Longrightarrow> b < rstart r' \<and> set (sk @ rest) \<subseteq> set es"
proof (induction r es arbitrary: ok sk r' rest rule: scan.induct)
  case (1 r)
  then show ?case by simp
next
  case (2 r e es)
  then show ?case
    by (auto simp: merge_def split: if_splits prod.splits)
qed

lemma scan_correct:
  "scan r es = (True, sk, r', rest) \<Longrightarrow> valid_range r \<Longrightarrow> list_inv es
    \<Longrightarrow> cover (sk @ r' # rest) = cover es \<union> addrs r \<and> list_inv (sk @ r' # rest)"
proof (induction r es arbitrary: sk r' rest rule: scan.induct)
  case (1 r)
  then show ?case by simp
next
  case (2 r e es)
  from "2.prems" have ne: "rend e \<noteq> - 1" by auto
  consider (skip) "rend e + 1 < rstart r"
    | (stop) "\<not> rend e + 1 < rstart r" "rend r < rstart e"
    | (merge) "\<not> rend e + 1 < rstart r" "\<not> rend r < rstart e"
    by blast
  then show ?case
  proof cases
    case skip
    with "2.prems" ne obtain sk' where
      sk': "scan r es = (True, sk', r', rest)" "sk = e # sk'"
      by (auto split: prod.splits)
    have "rend e < rstart r"
      using skip ne by (meson less_trans word_less_inc order_refl)
    with "2.prems" scan_lower [OF sk'(1), of "rend e"]
    have "\<forall>f\<in>set (sk' @ r' # rest). apart e f"
      by (auto simp: apart_def)
    moreover have "cover (sk' @ r' # rest) = cover es \<union> addrs r \<and> list_inv (sk' @ r' # rest)"
      using "2.IH"(1) [OF ne skip sk'(1)] "2.prems" by simp
    ultimately show ?thesis
      using "2.prems" sk'(2) by auto
  next
    case stop
    then have "\<forall>f\<in>set es. apart r f"
      using "2.prems" by (force simp: apart_def)
    with stop ne "2.prems" show ?thesis
      by (auto simp: apart_def)
  next
    case merge
    then have "cover (sk @ r' # rest) = cover es \<union> addrs (merge e r) \<and> list_inv (sk @ r' # rest)"
      using "2.IH"(2) [OF ne merge] "2.prems" ne valid_merge by auto
    moreover have "addrs (merge e r) = addrs e \<union> addrs r"
      using merge ne "2.prems" by (intro addrs_merge) auto
    ultimately show ?thesis by auto
  qed
qed

lemma scan_ok: "- 1 \<notin> rend ` set es \<Longrightarrow> fst (scan r es)"
  by (induction r es rule: scan.induct) (auto split: prod.splits)

lemma scan_length: "scan r es = (ok, sk, r', rest) \<Longrightarrow> length (sk @ rest) \<le> length es"
  by (induction r es arbitrary: ok sk r' rest rule: scan.induct)
    (fastforce split: if_splits prod.splits)+

text \<open>The contract of \<open>insert\<close> on an invariant set none of whose entries ends at the last address.\<close>

lemma insert_ok:
  assumes inv: "rs_inv rs" "valid_range r" and max: "- 1 \<notin> rs_cover rs" and room: "used rs < 256"
  shows "\<exists>rs'. rs_insert rs r = Done (Inr (), rs') \<and> rs_inv rs'
    \<and> rs_cover rs' = rs_cover rs \<union> addrs r \<and> used rs' \<le> Suc (used rs)"
proof -
  obtain ok sk r' rest where scan: "scan r (ents rs) = (ok, sk, r', rest)"
    by (metis prod_cases4)
  have "- 1 \<notin> rend ` set (ents rs)"
    using inv max by (fastforce simp: rs_inv_def list_inv_def rs_cover_def cover_def)
  then have ok: "ok"
    using scan_ok [of "ents rs" r] scan by simp
  have len: "length (sk @ rest) \<le> used rs"
    using scan_length [OF scan] inv by (simp add: rs_inv_def)
  with room have "length (sk @ rest) < 256" by simp
  then obtain rs' where rs': "wf_arr rs'" "rs_insert rs r = Done (Inr (), rs')"
    "ents rs' = sk @ r' # rest"
    using insert_scan [OF _ scan] ok inv by (auto simp: rs_inv_def)
  moreover have "used rs' \<le> Suc (used rs)"
    using rs' len length_ents [of rs'] by simp
  ultimately show ?thesis
    using scan_correct [of r "ents rs" sk r' rest] scan ok inv
    by (auto simp: rs_inv_def rs_cover_def)
qed

section \<open>Removal\<close>

text \<open>What \<open>remove\<close> leaves of one entry.\<close>

definition cut_entry :: "range \<Rightarrow> range \<Rightarrow> range list" where
  "cut_entry r e =
     (if overlaps e r = None then [e]
      else if range_contains r e then []
      else if rstart r \<le> rstart e then [e\<lparr>rstart := saturating_add (rend r) 1\<rparr>]
      else if rend r \<ge> rend e then [e\<lparr>rend := saturating_sub (rstart r) 1\<rparr>]
      else [e\<lparr>rend := saturating_sub (rstart r) 1\<rparr>,
            new_unchecked (saturating_add (rend r) 1) (rend e)])"

text \<open>The entries that removal splits in two, which takes one more slot.\<close>

definition inner :: "range \<Rightarrow> range \<Rightarrow> bool" where
  "inner r e \<longleftrightarrow> rstart e < rstart r \<and> rend r < rend e"

lemma inner_cut: "valid_range r \<Longrightarrow> inner r e \<Longrightarrow>
  cut_entry r e = [e\<lparr>rend := rstart r - 1\<rparr>, new_unchecked (rend r + 1) (rend e)]"
  by (auto simp: cut_entry_def inner_def overlaps_def range_contains_def saturating_sub_one
      saturating_add_one word_less_not_max word_less_pos)

lemma split_entry_wf:
  assumes wf: "wf_arr rs" and idx: "idx < used rs" and r: "valid_range r" "inner r (ranges rs ! idx)"
  shows "used rs < 256 \<Longrightarrow> \<exists>rs'. split_entry rs idx r = Done (Inr True, rs') \<and> wf_arr rs'
      \<and> ents rs' = take idx (ents rs) @ cut_entry r (ranges rs ! idx) @ drop (Suc idx) (ents rs)"
    and "used rs = 256 \<Longrightarrow> split_entry rs idx r = Done (Inl RangeSetOverflow, rs)"
proof -
  assume room: "used rs < 256"
  let ?e = "ranges rs ! idx" and ?n = "used rs" and ?xs = "ranges rs"
  let ?l = "?e\<lparr>rend := rstart r - 1\<rparr>" and ?r = "new_unchecked (rend r + 1) (rend ?e)"
  have cut: "cut_entry r ?e = [?l, ?r]"
    using r by (rule inner_cut)
  have pos: "0 < rstart r" "rend r \<noteq> - 1" "rend r < rend ?e" "rstart ?e < rstart r"
    using r by (auto simp: inner_def word_less_not_max word_less_pos)
  have le: "rend r + 1 \<le> rend ?e"
    using pos by (simp add: word_inc_le)
  have len: "length ?xs = 256" using wf by (simp add: wf_arr_def)
  obtain t ts where t: "drop ?n ?xs = t # ts"
    using len room by (metis Cons_nth_drop_Suc)
  define as where "as = take idx (ents rs)"
  define bs where "bs = drop (Suc idx) (ents rs)"
  have xs: "?xs = as @ ?e # bs @ t # ts"
    using t wf idx by (metis append_Cons append_assoc append_take_drop_id as_def bs_def drop_ents_Cons ents_def)
  have as: "length as = idx" "?n = Suc (idx + length bs)"
    using idx wf by (auto simp: as_def bs_def)
  have nth: "(as @ ?e # bs @ t # ts) ! idx = ?e"
    using as by (simp add: nth_append)
  have not_max: "in_use rs \<noteq> - 1"
    using room by (auto simp: unat_max_word)
  let ?rs = "rs\<lparr>ranges := as @ ?l # ?r # bs @ ts, in_use := in_use rs + 1\<rparr>"
  have "(as @ ?e # bs @ t # ts)[idx := ?l] = as @ ?l # bs @ t # ts"
    using as(1) by (metis list_update_length)
  then have set: "array_set ?xs idx ?l = Done (as @ ?l # bs @ t # ts)"
    using len idx room unfolding xs [symmetric] by (simp add: array_set_def)
  obtain u where cw: "(if idx + 1 < ?n then copy_within (as @ ?l # bs @ t # ts) (idx + 1) ?n (idx + 2)
         else Done (as @ ?l # bs @ t # ts)) = Done (as @ ?l # u # bs @ ts)"
    using as by (cases bs) (auto simp: copy_within_def numeral_3_eq_3)
  have set2: "array_set (as @ ?l # u # bs @ ts) (idx + 1) ?r = Done (as @ ?l # ?r # bs @ ts)"
    using as by (auto simp: array_set_def list_update_append)
  have "split_entry rs idx r = Done (Inr True, ?rs)"
    using idx room len set cw set2 pos r le not_max
    by (simp add: split_entry_def range_contains_def range_new_def saturating_sub_one
        saturating_add_one inner_def padd_def less_imp_le)
  moreover have "wf_arr ?rs"
    using len as not_max room by (subst (asm) xs) (simp add: wf_arr_def unat_Suc_word)
  moreover have "ents ?rs = as @ cut_entry r ?e @ bs"
    using as not_max cut by (simp add: ents_def unat_Suc_word)
  ultimately show "\<exists>rs'. split_entry rs idx r = Done (Inr True, rs') \<and> wf_arr rs'
      \<and> ents rs' = take idx (ents rs) @ cut_entry r (ranges rs ! idx) @ drop (Suc idx) (ents rs)"
    unfolding as_def bs_def by blast
next
  assume "used rs = 256"
  then show "split_entry rs idx r = Done (Inl RangeSetOverflow, rs)"
    using wf idx by (simp add: split_entry_def wf_arr_def)
qed

text \<open>The loop of \<open>remove\<close> refines \<open>cut_entry\<close> mapped over the entries.\<close>

lemma cut_cases:
  obtains (keep) "overlaps e r = None" "cut_entry r e = [e]" "\<not> inner r e"
  | (drop) "overlaps e r \<noteq> None" "range_contains r e" "cut_entry r e = []" "\<not> inner r e"
  | (low) "overlaps e r \<noteq> None" "\<not> range_contains r e" "rstart r \<le> rstart e"
      "cut_entry r e = [e\<lparr>rstart := saturating_add (rend r) 1\<rparr>]" "\<not> inner r e"
  | (high) "overlaps e r \<noteq> None" "\<not> range_contains r e" "\<not> rstart r \<le> rstart e" "rend r \<ge> rend e"
      "cut_entry r e = [e\<lparr>rend := saturating_sub (rstart r) 1\<rparr>]" "\<not> inner r e"
  | (inner) "overlaps e r \<noteq> None" "\<not> range_contains r e" "\<not> rstart r \<le> rstart e" "\<not> rend r \<ge> rend e"
      "inner r e"
  | (invalid) "\<not> valid_range r"
  by (cases "valid_range r"; cases "overlaps e r"; cases "range_contains r e";
      cases "rstart r \<le> rstart e"; cases "rend r \<ge> rend e")
    (auto simp: cut_entry_def inner_def overlaps_def range_contains_def not_le not_less split: if_splits)

lemma ents_update:
  assumes "wf_arr rs" and "idx < used rs"
  shows "ents (rs\<lparr>ranges := (ranges rs)[idx := e]\<rparr>) = take idx (ents rs) @ e # drop (Suc idx) (ents rs)"
    and "wf_arr (rs\<lparr>ranges := (ranges rs)[idx := e]\<rparr>)"
proof -
  have "ents (rs\<lparr>ranges := (ranges rs)[idx := e]\<rparr>) = (ents rs)[idx := e]"
    by (simp add: ents_def take_update_swap)
  also have "\<dots> = take idx (ents rs) @ e # drop (Suc idx) (ents rs)"
    using assms by (intro upd_conv_take_nth_drop) simp
  finally show "ents (rs\<lparr>ranges := (ranges rs)[idx := e]\<rparr>) = take idx (ents rs) @ e # drop (Suc idx) (ents rs)" .
  show "wf_arr (rs\<lparr>ranges := (ranges rs)[idx := e]\<rparr>)"
    using assms by (simp add: wf_arr_def)
qed

lemma remove_loop_step:
  assumes wf: "wf_arr rs" and idx: "idx < used rs" and r: "valid_range r"
    and room: "inner r (ranges rs ! idx) \<Longrightarrow> used rs < 256"
  shows "\<exists>rs'. remove_loop rs r idx b
      = remove_loop rs' r (idx + length (cut_entry r (ranges rs ! idx)))
          (b \<or> overlaps (ranges rs ! idx) r \<noteq> None)
    \<and> wf_arr rs' \<and> ents rs' = take idx (ents rs) @ cut_entry r (ranges rs ! idx) @ drop (Suc idx) (ents rs)"
proof -
  let ?e = "ranges rs ! idx"
  have get: "array_get (ranges rs) idx = Done ?e" and len: "idx < length (ranges rs)"
    using wf idx by (simp_all add: wf_arr_def)
  note step = remove_loop.simps [of rs r idx b]
  show ?thesis
  proof (cases rule: cut_cases [of ?e r])
    case keep
    then have "remove_loop rs r idx b = remove_loop rs r (idx + 1) b"
      using idx get by (simp add: step)
    moreover have "ents rs = take idx (ents rs) @ ?e # drop (Suc idx) (ents rs)"
      using wf idx by (metis drop_ents_Cons append_take_drop_id)
    ultimately show ?thesis using keep wf by auto
  next
    case drop
    obtain rs1 where rs1: "delete rs idx = Done (Inr (), rs1)" "wf_arr rs1"
      "ents rs1 = take idx (ents rs) @ drop (Suc idx) (ents rs)"
      using delete_wf wf idx by blast
    then have "remove_loop rs r idx b = remove_loop rs1 r idx True"
      using idx get drop by (auto simp: step)
    with rs1 drop show ?thesis by auto
  next
    case low
    then have "remove_loop rs r idx b = remove_loop
        (rs\<lparr>ranges := (ranges rs)[idx := ?e\<lparr>rstart := saturating_add (rend r) 1\<rparr>]\<rparr>) r (idx + 1) True"
      using idx get len by (auto simp: step)
    with low ents_update [OF wf idx] show ?thesis by auto
  next
    case high
    then have "remove_loop rs r idx b = remove_loop
        (rs\<lparr>ranges := (ranges rs)[idx := ?e\<lparr>rend := saturating_sub (rstart r) 1\<rparr>]\<rparr>) r (idx + 1) True"
      using idx get len by (auto simp: step)
    with high ents_update [OF wf idx] show ?thesis by auto
  next
    case inner
    then obtain rs1 where rs1: "split_entry rs idx r = Done (Inr True, rs1)" "wf_arr rs1"
      "ents rs1 = take idx (ents rs) @ cut_entry r ?e @ drop (Suc idx) (ents rs)"
      using split_entry_wf(1) [OF wf idx r] room by blast
    then have "remove_loop rs r idx b = remove_loop rs1 r (idx + 2) True"
      using idx get inner by (auto simp: step)
    with rs1 inner inner_cut [OF r] show ?thesis by auto
  qed (use r in simp)
qed

text \<open>The slots removal still needs: one for each entry that is to be split.\<close>

abbreviation splits :: "range \<Rightarrow> range list \<Rightarrow> nat" where
  "splits r es \<equiv> length (filter (inner r) es)"

lemma length_cut: "length (cut_entry r e) \<le> (if inner r e then 2 else 1)"
  by (auto simp: cut_entry_def inner_def)

lemma remove_loop_cut:
  assumes "wf_arr rs" and "idx \<le> used rs" and "valid_range r"
    and "used rs + splits r (drop idx (ents rs)) \<le> 256"
  shows "\<exists>rs'. remove_loop rs r idx b
      = Done (Inr (b \<or> (\<exists>e\<in>set (drop idx (ents rs)). overlaps e r \<noteq> None)), rs')
    \<and> wf_arr rs' \<and> ents rs' = take idx (ents rs) @ concat (map (cut_entry r) (drop idx (ents rs)))"
  using assms
proof (induction "used rs - idx" arbitrary: rs idx b)
  case 0
  then have "remove_loop rs r idx b = Done (Inr b, rs)"
    by (simp add: remove_loop.simps [of rs r idx b])
  with 0 show ?case by auto
next
  case (Suc n)
  let ?e = "ranges rs ! idx" and ?i = "idx + length (cut_entry r (ranges rs ! idx))"
  have idx: "idx < used rs" using Suc.hyps(2) by simp
  have drop: "drop idx (ents rs) = ?e # drop (Suc idx) (ents rs)"
    using idx Suc.prems by (simp add: drop_ents_Cons)
  have room: "inner r ?e \<Longrightarrow> used rs < 256"
    using Suc.prems(4) drop by simp
  obtain rs1 where rs1: "remove_loop rs r idx b
      = remove_loop rs1 r ?i (b \<or> overlaps ?e r \<noteq> None)"
    "wf_arr rs1" "ents rs1 = take idx (ents rs) @ cut_entry r ?e @ drop (Suc idx) (ents rs)"
    using remove_loop_step [OF Suc.prems(1) idx Suc.prems(3) room] by blast
  have used: "used rs1 + 1 = used rs + length (cut_entry r ?e)"
    using rs1(2,3) Suc.prems(1) idx length_ents [of rs1] by simp
  have rest: "drop ?i (ents rs1) = drop (Suc idx) (ents rs)"
    "take ?i (ents rs1) = take idx (ents rs) @ cut_entry r ?e"
    using rs1(3) idx Suc.prems(1) by auto
  have "\<exists>rs'. remove_loop rs1 r ?i (b \<or> overlaps ?e r \<noteq> None)
      = Done (Inr ((b \<or> overlaps ?e r \<noteq> None)
          \<or> (\<exists>e\<in>set (drop ?i (ents rs1)). overlaps e r \<noteq> None)), rs')
    \<and> wf_arr rs' \<and> ents rs' = take ?i (ents rs1) @ concat (map (cut_entry r) (drop ?i (ents rs1)))"
  proof (rule Suc.hyps(1))
    show "n = used rs1 - ?i" "?i \<le> used rs1"
      using Suc.hyps(2) used idx by auto
    show "used rs1 + splits r (drop ?i (ents rs1)) \<le> 256"
      using used Suc.prems(4) drop rest length_cut [of r ?e] by (auto split: if_splits)
  qed (use rs1 Suc.prems in simp_all)
  then show ?case
    using rs1(1) rest drop by auto
qed

lemma addrs_cut:
  assumes "valid_range e" and "valid_range r"
  shows "cover (cut_entry r e) = addrs e - addrs r"
    and "list_inv (cut_entry r e)"
    and "\<forall>f\<in>set (cut_entry r e). addrs f \<subseteq> addrs e"
proof -
  have pos: "rend r < rend e \<Longrightarrow> rend r \<noteq> - 1" "rstart e < rstart r \<Longrightarrow> 0 < rstart r"
    by (auto simp: word_less_not_max word_less_pos)
  show "cover (cut_entry r e) = addrs e - addrs r"
    using assms pos
    by (cases "rstart r \<le> rstart e"; cases "rend r \<ge> rend e")
      (auto simp: cut_entry_def overlaps_def range_contains_def new_unchecked_def not_le
        saturating_add_one saturating_sub_one word_inc_le word_le_dec)
  show "list_inv (cut_entry r e)"
    using assms pos
    by (cases "rstart r \<le> rstart e"; cases "rend r \<ge> rend e")
      (auto simp: cut_entry_def overlaps_def range_contains_def new_unchecked_def not_le apart_def
        saturating_add_one saturating_sub_one word_inc_le word_le_dec word_less_inc word_dec_less
        less_imp_le [OF word_dec_less [THEN iffD2]])
  show "\<forall>f\<in>set (cut_entry r e). addrs f \<subseteq> addrs e"
    using \<open>cover (cut_entry r e) = addrs e - addrs r\<close> unfolding cover_def by blast
qed

lemma cut_list_correct:
  assumes "list_inv es" and r: "valid_range r"
  shows "cover (concat (map (cut_entry r) es)) = cover es - addrs r
    \<and> list_inv (concat (map (cut_entry r) es))"
  using assms(1)
proof (induction es)
  case Nil
  then show ?case by simp
next
  case (Cons e es)
  have "apart f g" if "f \<in> set (cut_entry r e)" and g: "g \<in> set (concat (map (cut_entry r) es))" for f g
  proof -
    obtain h where h: "h \<in> set es" "g \<in> set (cut_entry r h)"
      using g by auto
    then have v: "valid_range h" "valid_range e" "apart e h"
      using Cons.prems by (auto simp: list_inv_def)
    with h r that(1) have "addrs f \<subseteq> addrs e" "addrs g \<subseteq> addrs h" "valid_range f" "valid_range g"
      using addrs_cut [OF v(1) r] addrs_cut [OF v(2) r] by (auto simp: list_inv_def)
    then show ?thesis
      using v(3) by (auto simp: apart_def)
  qed
  then show ?case
    using Cons addrs_cut [of e r] r by (auto simp: list_inv_append)
qed

lemma inner_alone:
  "inner r k \<Longrightarrow> apart h k \<or> apart k h \<Longrightarrow> valid_range h \<Longrightarrow> valid_range r
    \<Longrightarrow> \<not> inner r h \<and> overlaps h r = None"
  by (auto simp: inner_def overlaps_def apart_def)

text \<open>An entry to be split is the only one the removed range overlaps.\<close>

lemma inner_unique:
  "list_inv es \<Longrightarrow> valid_range r \<Longrightarrow> e \<in> set es \<Longrightarrow> inner r e
    \<Longrightarrow> splits r es = 1 \<and> (\<forall>f\<in>set es. f = e \<or> overlaps f r = None)"
proof (induction es)
  case (Cons g es)
  show ?case
  proof (cases "inner r g")
    case True
    then have "\<forall>h\<in>set es. \<not> inner r h \<and> overlaps h r = None"
      using Cons.prems inner_alone [of r g] by (simp add: list_inv_def)
    with True Cons.prems show ?thesis
      by (auto simp: filter_empty_conv)
  next
    case False
    with Cons.prems have "e \<in> set es" by auto
    moreover from this Cons.prems have "overlaps g r = None"
      using inner_alone [of r e g] by auto
    ultimately show ?thesis
      using Cons False by auto
  qed
qed simp

lemma length_cut_list: "length (concat (map (cut_entry r) es)) \<le> length es + splits r es"
proof (induction es)
  case (Cons e es)
  then show ?case using length_cut [of r e] by (auto split: if_splits)
qed simp

text \<open>A region given by its start and its length, short of the last address.\<close>

lemma region_end:
  fixes start len :: u64
  assumes "0 < len" "unat start + unat len < 2 ^ 64"
  shows "unat (start + (len - 1)) = unat start + (unat len - 1)" "start \<le> start + (len - 1)"
    and "checked_sub len 1 = Some (len - 1)" "checked_add start (len - 1) = Some (start + (len - 1))"
    and "- 1 \<notin> {start..start + (len - 1)}"
proof -
  have pos: "0 < unat len" using assms(1) by (simp add: unat_gt_0)
  have u: "unat (len - 1) = unat len - 1" using assms(1) by (simp add: unat_sub word_le_nat_alt unat_gt_0 Suc_le_eq)
  show ue: "unat (start + (len - 1)) = unat start + (unat len - 1)" using assms(2) u pos by (simp add: unat_add_no_overflow)
  show "start \<le> start + (len - 1)" using ue by (simp add: word_le_nat_alt)
  show "checked_sub len 1 = Some (len - 1)" "checked_add start (len - 1) = Some (start + (len - 1))"
    using assms(2) u pos by (simp_all add: checked_sub_def checked_add_eq_Some word_le_nat_alt Suc_le_eq)
  show "- 1 \<notin> {start..start + (len - 1)}" using ue assms(2) pos by (auto simp: word_le_nat_alt unat_max_word)
qed

lemma insert_region:
  assumes "rs_inv rs" "- 1 \<notin> rs_cover rs" "used rs < 256" "0 < len" "unat start + unat len < 2 ^ 64"
  shows "\<exists>rs'. rs_insert rs \<lparr>rstart = start, rend = start + (len - 1)\<rparr> = Done (Inr (), rs') \<and> rs_inv rs'
    \<and> rs_cover rs' = rs_cover rs \<union> {start..start + (len - 1)} \<and> used rs' \<le> Suc (used rs) \<and> - 1 \<notin> rs_cover rs'"
  using insert_ok [OF assms(1), of "\<lparr>rstart = start, rend = start + (len - 1)\<rparr>"] region_end(2,5) [OF assms(4,5)] assms(2,3) by auto

text \<open>The contract of \<open>remove\<close>: the removed addresses leave the set, and nothing else does. It needs
  a free slot only when the range lies strictly inside an entry.\<close>

lemma remove_ok:
  assumes inv: "rs_inv rs" "valid_range r"
    and room: "used rs < 256 \<or> (\<forall>e\<in>set (ents rs). \<not> inner r e)"
  shows "\<exists>rs'. rs_remove rs r = Done (Inr (rs_cover rs \<inter> addrs r \<noteq> {}), rs') \<and> rs_inv rs'
    \<and> rs_cover rs' = rs_cover rs - addrs r \<and> used rs' \<le> Suc (used rs)"
proof -
  have wf: "wf_arr rs" "used rs \<le> 256" and li: "list_inv (ents rs)"
    using inv by (auto simp: rs_inv_def wf_arr_def)
  have splits: "splits r (ents rs) \<le> 1"
    using inner_unique [OF li inv(2)] by (cases "\<exists>e\<in>set (ents rs). inner r e") (auto simp: filter_empty_conv)
  have "used rs + splits r (ents rs) \<le> 256"
    using room splits wf by (auto simp: filter_empty_conv)
  then obtain rs' where rs': "rs_remove rs r
      = Done (Inr (\<exists>e\<in>set (ents rs). overlaps e r \<noteq> None), rs')"
    "wf_arr rs'" "ents rs' = concat (map (cut_entry r) (ents rs))"
    using remove_loop_cut [OF wf(1) _ inv(2), of 0 False] by (auto simp: rs_remove_def)
  have ov: "overlaps e r \<noteq> None \<longleftrightarrow> addrs e \<inter> addrs r \<noteq> {}" if "e \<in> set (ents rs)" for e
    using that li inv(2) by (auto simp: overlaps_def list_inv_def)
  have "(\<exists>e\<in>set (ents rs). overlaps e r \<noteq> None) \<longleftrightarrow> (\<exists>e\<in>set (ents rs). addrs e \<inter> addrs r \<noteq> {})"
    using ov by blast
  also have "\<dots> \<longleftrightarrow> rs_cover rs \<inter> addrs r \<noteq> {}"
    unfolding rs_cover_def cover_def by blast
  finally have "(\<exists>e\<in>set (ents rs). overlaps e r \<noteq> None) \<longleftrightarrow> rs_cover rs \<inter> addrs r \<noteq> {}" .
  moreover have "used rs' \<le> Suc (used rs)"
    using length_cut_list [of r "ents rs"] rs' wf splits length_ents [of rs'] by simp
  ultimately show ?thesis
    using rs' cut_list_correct [OF li inv(2)] by (simp add: rs_inv_def rs_cover_def)
qed

lemma remove_loop_skip:
  assumes "wf_arr rs" and "idx + n \<le> used rs"
    and "\<forall>j<n. overlaps (ranges rs ! (idx + j)) r = None"
  shows "remove_loop rs r idx b = remove_loop rs r (idx + n) b"
  using assms(2,3)
proof (induction n)
  case (Suc n)
  then have "array_get (ranges rs) (idx + n) = Done (ranges rs ! (idx + n))"
    using assms(1) by (simp add: wf_arr_def)
  then have "remove_loop rs r (idx + n) b = remove_loop rs r (idx + Suc n) b"
    using Suc.prems by (simp add: remove_loop.simps [of rs r "idx + n" b])
  with Suc show ?case by simp
qed simp

text \<open>The error branch: with all slots taken, a range strictly inside an entry is refused and the
  set is left as it was.\<close>

lemma remove_full:
  assumes inv: "rs_inv rs" "valid_range r" "used rs = 256" and e: "e \<in> set (ents rs)" "inner r e"
  shows "rs_remove rs r = Done (Inl RangeSetOverflow, rs)"
proof -
  have wf: "wf_arr rs" and li: "list_inv (ents rs)" using inv by (auto simp: rs_inv_def)
  obtain ys zs where ys: "ents rs = ys @ e # zs" "e \<notin> set ys"
    using split_list_first [OF e(1)] by blast
  define k where "k = length ys"
  have k: "k < used rs" "ents rs ! k = e"
    using ys(1) length_ents [OF wf] by (auto simp: k_def nth_append)
  have "overlaps (ranges rs ! j) r = None" if "j < k" for j
  proof -
    have "ys ! j \<in> set ys" "ents rs ! j = ys ! j"
      using that ys(1) by (auto simp: k_def nth_append)
    moreover have "ranges rs ! j = ents rs ! j"
      using that k wf by (simp add: nth_ents)
    ultimately show ?thesis
      using inner_unique [OF li inv(2) e] ys by auto
  qed
  then have "\<forall>j<k. overlaps (ranges rs ! (0 + j)) r = None"
    by simp
  then have "rs_remove rs r = remove_loop rs r k False"
    using remove_loop_skip [OF wf, of 0 k r False] k by (simp add: rs_remove_def)
  moreover have get: "array_get (ranges rs) k = Done e" "inner r (ranges rs ! k)"
    using k wf e by (auto simp: wf_arr_def nth_ents)
  moreover have "overlaps e r \<noteq> None" "\<not> range_contains r e" "\<not> rstart r \<le> rstart e" "\<not> rend e \<le> rend r"
    using e(2) inv(2) by (auto simp: inner_def overlaps_def range_contains_def not_le)
  ultimately show ?thesis
    using k(1) split_entry_wf(2) [OF wf k(1) inv(2) get(2) inv(3)]
    by (auto simp: remove_loop.simps [of rs r k False])
qed

section \<open>Allocation\<close>

text \<open>A proposal for \<open>sz\<close> bytes inside an entry: the range to remove lies in the entry and ends
  with the allocation, which is aligned.\<close>

definition fits :: "u64 \<Rightarrow> u64 \<Rightarrow> range \<Rightarrow> proposal \<Rightarrow> bool" where
  "fits sz align entry = (\<lambda>(s, e, ptr).
     rstart entry \<le> s \<and> e \<le> rend entry \<and> s \<le> ptr \<and> ptr \<le> e \<and> e = ptr + (sz - 1)
     \<and> ptr AND (align - 1) = 0)"

lemma padding_fits:
  assumes sz: "sz \<noteq> 0" and al: "count_ones align = 1"
    and e: "Option.bind (checked_add (rstart entry) (sz - 1))
        (\<lambda>e. checked_add e (alloc_padding align (rstart entry))) = Some e"
    and le: "e \<le> rend entry"
  shows "fits sz align entry (rstart entry, e, rstart entry + alloc_padding align (rstart entry))"
proof -
  obtain k where k: "k < 64" "align = 2 ^ k"
    using count_ones_one [OF al] by auto
  let ?s = "rstart entry" and ?p = "alloc_padding align (rstart entry)"
  from e obtain m where m: "checked_add ?s (sz - 1) = Some m" "checked_add m ?p = Some e"
    by (auto simp: bind_eq_Some_conv)
  then have no: "unat ?s + unat (sz - 1) + unat ?p < 2 ^ 64"
    using unat_checked_add [OF m(1)] by (simp add: checked_add_eq_Some)
  have eq: "e = ?s + (sz - 1) + ?p"
    using m by (simp add: checked_add_eq_Some)
  have s: "?s AND (align - 1) \<le> align" "unat (?s AND (align - 1)) = unat ?s mod 2 ^ k"
    using k by (auto simp: unat_and_pow2 word_le_nat_alt unat_pow2 less_imp_le)
  have p: "unat ?p = (2 ^ k - unat ?s mod 2 ^ k) mod 2 ^ k"
    using k s by (simp add: alloc_padding_def unat_and_pow2 unat_sub unat_pow2)
  have sum: "unat (?s + ?p) = unat ?s + unat ?p"
    using no by (intro unat_add_no_overflow) simp
  have unat_e: "unat e = unat ?s + unat (sz - 1) + unat ?p"
    using unat_checked_add [OF m(1)] unat_checked_add [OF m(2)] by simp
  have "unat ?s + (2 ^ k - unat ?s mod 2 ^ k) = (unat ?s - unat ?s mod 2 ^ k) + 2 ^ k"
    by (simp add: less_imp_le)
  then have "2 ^ k dvd unat ?s + (2 ^ k - unat ?s mod 2 ^ k)"
    by (simp only: dvd_add_triv_right_iff dvd_minus_mod)
  moreover have "unat (?s + ?p) mod 2 ^ k = (unat ?s + (2 ^ k - unat ?s mod 2 ^ k)) mod 2 ^ k"
    unfolding sum p by (rule mod_add_right_eq)
  ultimately have "(?s + ?p) AND (align - 1) = 0"
    unfolding k(2) aligned_iff dvd_eq_mod_eq_0 by simp
  moreover have "?s \<le> ?s + ?p" "?s + ?p \<le> e"
    unfolding word_le_nat_alt sum unat_e by simp_all
  moreover have "e = (?s + ?p) + (sz - 1)"
    using eq by (simp add: ac_simps)
  ultimately show ?thesis
    unfolding fits_def using le by simp
qed

lemma overlaps_Some:
  "overlaps e r = Some v \<Longrightarrow> rstart e \<le> rstart v \<and> rend v \<le> rend e \<and> rstart r \<le> rstart v \<and> rend v \<le> rend r"
  by (auto simp: overlaps_def new_unchecked_def split: if_splits)

lemma and_not_and: "(x AND NOT m) AND m = 0" for x :: "'a::len word"
  by (rule bit_word_eqI) (simp add: bit_simps)

lemma region_fits:
  "region_loop sz align entry rgs = BreakSearch a \<Longrightarrow> fits sz align entry a"
proof (induction sz align entry rgs rule: region_loop.induct)
  case (2 sz align entry region rest)
  show ?case
  proof (cases "overlaps entry region")
    case (Some v)
    let ?a = "(rstart v + (align - 1)) AND NOT (align - 1)"
    show ?thesis
    proof (cases "?a \<ge> rstart v \<and> ?a \<le> rend v \<and> rend v - ?a \<ge> sz - 1")
      case True
      then have a: "a = (?a, ?a + (sz - 1), ?a)"
        using "2.prems" Some by (simp add: Let_def split: if_splits)
      have le: "?a \<le> rend v" "sz - 1 \<le> rend v - ?a" using True by auto
      then have sum: "unat ?a + unat (sz - 1) \<le> unat (rend v)"
        by (simp add: word_le_nat_alt unat_sub)
      moreover have "unat (rend v) < 2 ^ 64"
        using unsigned_less [of "rend v"] by simp
      ultimately have "unat (?a + (sz - 1)) = unat ?a + unat (sz - 1)"
        by (simp add: unat_word_ariths)
      then have "?a + (sz - 1) \<le> rend v" "?a \<le> ?a + (sz - 1)"
        using sum by (simp_all add: word_le_nat_alt)
      with True overlaps_Some [OF Some] show ?thesis
        unfolding a fits_def by (auto simp: and_not_and)
    next
      case False
      then show ?thesis using 2 Some by (simp add: Let_def split: if_splits)
    qed
  qed (use 2 in simp)
qed simp

text \<open>Whatever the search returns is a proposal inside one of the entries.\<close>

lemma search_fits:
  assumes "sz \<noteq> 0" and "count_ones align = 1"
  shows "search sz align regions best es = Some (Some a)
    \<Longrightarrow> best = Some a \<or> (\<exists>e\<in>set es. fits sz align e a \<and> (regions = None \<longrightarrow> fst a = rstart e))"
proof (induction es arbitrary: best)
  case (Cons entry es)
  let ?p = "alloc_padding align (rstart entry)" and ?s = "rstart entry"
  let ?loop = "case regions of None \<Rightarrow> RegionsDone | Some rgs \<Rightarrow> region_loop sz align entry rgs"
  from Cons.prems obtain e where
    e: "Option.bind (checked_add ?s (sz - 1)) (\<lambda>e. checked_add e ?p) = Some e"
    by (auto simp: Let_def split: option.splits)
  show ?case
  proof (cases "e > rend entry")
    case True
    then have "search sz align regions best es = Some (Some a)"
      using Cons.prems e by (simp add: Let_def)
    from Cons.IH [OF this] show ?thesis by auto
  next
    case False
    let ?best = "case best of None \<Rightarrow> Some (?s, e, ?s + ?p)
      | Some (bs, be, _) \<Rightarrow> if be - bs > e - ?s then Some (?s, e, ?s + ?p) else best"
    show ?thesis
    proof (cases ?loop)
      case SkipEntry
      then have "search sz align regions best es = Some (Some a)"
        using Cons.prems e False by (simp add: Let_def)
      from Cons.IH [OF this] show ?thesis by auto
    next
      case (BreakSearch b)
      then have "b = a"
        using Cons.prems e False by (simp add: Let_def)
      with BreakSearch show ?thesis
        using region_fits by (auto split: option.splits)
    next
      case RegionsDone
      then have "search sz align regions ?best es = Some (Some a)"
        using Cons.prems e False by (simp add: Let_def)
      from Cons.IH [OF this] show ?thesis
        using padding_fits [OF assms e] False [unfolded not_less]
        by (auto split: option.splits if_splits prod.splits)
    qed
  qed
qed simp

text \<open>The contract of an allocation that returned \<open>p\<close>: its bytes were free and are so no longer.\<close>

definition alloc_post :: "range_set \<Rightarrow> u64 \<Rightarrow> u64 \<Rightarrow> u64 \<Rightarrow> range_set \<Rightarrow> bool" where
  "alloc_post rs sz align p rs' \<longleftrightarrow>
     p \<le> p + (sz - 1) \<and> p AND (align - 1) = 0 \<and> {p..p + (sz - 1)} \<subseteq> rs_cover rs
     \<and> rs_cover rs' \<subseteq> rs_cover rs - {p..p + (sz - 1)}"

lemma allocate_prefer_spec:
  assumes inv: "rs_inv rs" and rgs: "\<forall>g. regions = Some g \<longrightarrow> wf_arr g"
    and room: "used rs < 256 \<or> regions = None"
    and args: "sz \<noteq> 0" "count_ones align = 1"
  shows "allocate_prefer rs sz align regions = Done (Inr None, rs)
    \<or> (\<exists>p rs'. allocate_prefer rs sz align regions = Done (Inr (Some p), rs')
         \<and> rs_inv rs' \<and> alloc_post rs sz align p rs')"
proof -
  let ?rgs = "map_option ents regions"
  have es: "entries rs = Done (ents rs)" and li: "list_inv (ents rs)"
    using inv by (simp_all add: rs_inv_def)
  have rg: "(case regions of None \<Rightarrow> Done None
               | Some rgs \<Rightarrow> obind (entries rgs) (\<lambda>xs. Done (Some xs))) = Done ?rgs"
    using rgs by (cases regions) simp_all
  consider "search sz align ?rgs None (ents rs) \<in> {None, Some None}"
    | s e p where "search sz align ?rgs None (ents rs) = Some (Some (s, e, p))"
    by (metis insertCI not_Some_eq prod_cases3)
  then show ?thesis
  proof cases
    case 1
    then show ?thesis
      using args es rg by (auto simp: allocate_prefer_def)
  next
    case 2
    let ?r = "\<lparr>rstart = s, rend = e\<rparr>"
    obtain f where f: "f \<in> set (ents rs)" "fits sz align f (s, e, p)" "regions = None \<Longrightarrow> s = rstart f"
      using search_fits [OF args 2] by auto
    have v: "valid_range ?r" "addrs ?r \<subseteq> addrs f" "{p..p + (sz - 1)} \<subseteq> addrs ?r"
      using f(2) by (auto simp: fits_def)
    have cov: "addrs f \<subseteq> rs_cover rs"
      using f(1) by (auto simp: rs_cover_def cover_def)
    then have sub: "{p..p + (sz - 1)} \<subseteq> rs_cover rs"
      using v by blast
    have "\<forall>g\<in>set (ents rs). \<not> inner ?r g" if "regions = None"
    proof -
      have "overlaps f ?r \<noteq> None" "\<not> inner ?r f"
        using v f(3) [OF that] by (auto simp: overlaps_def inner_def)
      then show ?thesis
        using inner_unique [OF li v(1)] f(1) by fastforce
    qed
    then obtain b rs' where rs': "rs_remove rs ?r = Done (Inr b, rs')" "rs_inv rs'"
      "rs_cover rs' = rs_cover rs - addrs ?r"
      using remove_ok [OF inv v(1)] room by blast
    have "allocate_prefer rs sz align regions = Done (Inr (Some p), rs')"
      using args es rg 2 rs' by (simp add: allocate_prefer_def)
    moreover have "alloc_post rs sz align p rs'"
      using rs'(3) v(3) sub f(2) unfolding alloc_post_def fits_def by blast
    ultimately show ?thesis using rs' by blast
  qed
qed

text \<open>An allocation succeeds when the search finds a place.\<close>

lemma allocate_found:
  assumes "rs_inv rs" "sz \<noteq> 0" "count_ones align = 1" "search sz align None None (ents rs) = Some (Some a)"
  shows "\<exists>p rs'. allocate rs sz align = Done (Inr (Some p), rs')"
proof -
  have "allocate rs sz align \<noteq> Done (Inr None, rs)"
    using assms by (cases a) (auto simp: allocate_def allocate_prefer_def rs_inv_def)
  then show ?thesis
    using allocate_prefer_spec [OF assms(1), of None sz align] assms by (auto simp: allocate_def)
qed

section \<open>The length of the set\<close>

lemma card_word_interval: "s \<le> e \<Longrightarrow> card {s..e} = Suc (unat (e - s))" for s e :: "'a::len word"
proof -
  assume "s \<le> e"
  have "inj_on unat {s..e}" by (simp add: inj_on_def word_unat_eq_iff)
  moreover have "unat ` {s..e} = {unat s..unat e}"
  proof (intro set_eqI iffI)
    fix n assume n: "n \<in> {unat s..unat e}"
    then have "unat (of_nat n :: 'a word) = n"
      by (metis atLeastAtMost_iff le_unat_uoi)
    with n show "n \<in> unat ` {s..e}"
      by (auto simp: word_le_nat_alt intro!: image_eqI [of _ _ "of_nat n"])
  qed (auto simp: word_le_nat_alt)
  ultimately have "card {s..e} = card {unat s..unat e}"
    using card_image by fastforce
  then show ?thesis
    using \<open>s \<le> e\<close> by (simp add: unat_sub Suc_diff_le word_le_nat_alt)
qed

lemma cover_apart: "list_inv (e # es) \<Longrightarrow> addrs e \<inter> cover es = {}"
  by (force simp: cover_def apart_def)

lemma finite_cover [simp]: "finite (cover es)"
  by simp

lemma card_word_set: "card A \<le> 2 ^ 64" for A :: "u64 set"
  using card_mono [of UNIV A] by (simp add: card_word)

lemma len_fold_card:
  "list_inv es \<Longrightarrow> unat acc + card (cover es) < 2 ^ 64
    \<Longrightarrow> \<exists>n. len_fold acc es = Done (Some n) \<and> unat n = unat acc + card (cover es)"
proof (induction es arbitrary: acc)
  case (Cons e es)
  have card: "card (cover (e # es)) = Suc (unat (rend e - rstart e)) + card (cover es)"
    using cover_apart [OF Cons.prems(1)] Cons.prems
    by (simp add: card_Un_disjoint card_word_interval)
  let ?d = "rend e - rstart e"
  have d: "?d \<noteq> - 1" "unat (?d + 1) = Suc (unat ?d)"
    using Cons.prems(2) card by (simp_all add: unat_less_max unat_word_ariths)
  have acc: "checked_add acc (?d + 1) = Some (acc + (?d + 1))"
    "unat (acc + (?d + 1)) = unat acc + Suc (unat ?d)"
    using Cons.prems(2) card d by (simp_all add: checked_add_eq_Some unat_word_ariths(1) [of acc])
  have step: "len_fold acc (e # es) = len_fold (acc + (?d + 1)) es"
    using Cons.prems(1) d acc by (simp add: psub_def checked_sub_def padd_def)
  show ?case
    using Cons.IH [of "acc + (?d + 1)"] Cons.prems acc card unfolding step
    by (simp add: add.assoc)
qed simp

lemma rs_len_card:
  assumes "rs_inv rs" and "card (rs_cover rs) < 2 ^ 64"
  shows "rs_len rs = Done (Some (of_nat (card (rs_cover rs))))"
proof -
  obtain n where n: "len_fold 0 (ents rs) = Done (Some n)" "unat n = card (rs_cover rs)"
    using len_fold_card [of "ents rs" 0] assms by (auto simp: rs_inv_def rs_cover_def)
  then have "n = of_nat (card (rs_cover rs))"
    by (simp flip: n(2))
  with n show ?thesis
    using assms(1) by (simp add: rs_len_def rs_inv_def)
qed

section \<open>The range set as a pool of physical memory\<close>

lemma scan_rest_inv:
  "scan r es = (ok, sk, r', rest) \<Longrightarrow> list_inv es \<Longrightarrow> list_inv (sk @ rest) \<and> set (sk @ rest) \<subseteq> set es"
proof (induction r es arbitrary: ok sk r' rest rule: scan.induct)
  case (2 r e es)
  consider (skip) "rend e \<noteq> - 1" "rend e + 1 < rstart r"
    | (stop) "rend e = - 1 \<or> \<not> rend e + 1 < rstart r \<and> rend r < rstart e"
    | (merge) "rend e \<noteq> - 1" "\<not> rend e + 1 < rstart r" "\<not> rend r < rstart e"
    by blast
  then show ?case
  proof cases
    case skip
    with "2.prems" obtain sk' where sk': "scan r es = (ok, sk', r', rest)" "sk = e # sk'"
      by (auto split: prod.splits)
    with "2.IH"(1) [OF skip sk'(1)] "2.prems" show ?thesis by auto
  next
    case stop
    with "2.prems" show ?thesis by (auto split: if_splits)
  next
    case merge
    with "2.IH"(2) [OF merge] "2.prems" show ?thesis by auto
  qed
qed simp

text \<open>Whatever \<open>insert\<close> returns, it keeps the invariant and adds no address beyond the range.\<close>

lemma insert_safe:
  assumes "rs_inv rs" and "valid_range r"
  shows "\<exists>res rs'. rs_insert rs r = Done (res, rs') \<and> rs_inv rs' \<and> rs_cover rs' \<subseteq> rs_cover rs \<union> addrs r"
proof -
  obtain ok sk r' rest where scan: "scan r (ents rs) = (ok, sk, r', rest)"
    by (metis prod_cases4)
  have li: "list_inv (ents rs)" "wf_arr rs" using assms by (auto simp: rs_inv_def)
  obtain rs' where rs': "wf_arr rs'" "if ok \<and> length (sk @ rest) < 256
       then rs_insert rs r = Done (Inr (), rs') \<and> ents rs' = sk @ r' # rest
       else rs_insert rs r = Done (Inl RangeSetOverflow, rs') \<and> ents rs' = sk @ rest"
    using insert_scan [OF li(2) scan] by blast
  have "list_inv (sk @ rest)" "cover (sk @ rest) \<subseteq> cover (ents rs)"
    using scan_rest_inv [OF scan li(1)] unfolding cover_def by blast+
  moreover have "ok \<Longrightarrow> cover (sk @ r' # rest) = cover (ents rs) \<union> addrs r \<and> list_inv (sk @ r' # rest)"
    using scan_correct [of r "ents rs" sk r' rest] scan li assms(2) by auto
  ultimately show ?thesis
    using rs' unfolding rs_inv_def rs_cover_def
    by (cases "ok \<and> length (sk @ rest) < 256") auto
qed

text \<open>Giving a block back is inserting its range.\<close>

definition rs_release :: "range_set \<Rightarrow> u64 \<Rightarrow> u64 \<Rightarrow> unit rs_result" where
  "rs_release rs a b = rs_insert rs \<lparr>rstart = a, rend = b\<rparr>"

interpretation rs_pool: frame_pool rs_inv rs_cover allocate rs_release
proof unfold_locales
  fix rs sz align
  assume inv: "rs_inv rs"
  note spec = allocate_prefer_spec [OF inv, of None sz align, folded allocate_def, simplified]
  have bad: "allocate rs sz align = Done (Inl ZeroSizedAllocation, rs)" if "sz = 0"
    using that by (simp add: allocate_def allocate_prefer_def)
  have bad2: "allocate rs sz align = Done (Inl (WrongAlignment align), rs)" if "sz \<noteq> 0" "count_ones align \<noteq> 1"
    using that by (simp add: allocate_def allocate_prefer_def)
  show "\<exists>res s'. allocate rs sz align = Done (res, s')"
    using spec bad bad2 by (cases "sz = 0"; cases "count_ones align = 1") auto
  show "rs_inv s' \<and> p \<le> p + (sz - 1) \<and> {p..p + (sz - 1)} \<subseteq> rs_cover rs
      \<and> rs_cover s' \<subseteq> rs_cover rs - {p..p + (sz - 1)}"
    if "allocate rs sz align = Done (Inr (Some p), s')" for p s'
    using spec bad bad2 that by (cases "sz = 0"; cases "count_ones align = 1") (auto simp: alloc_post_def)
  show "s' = rs" if "allocate rs sz align = Done (Inr None, s')" for s'
    using spec bad bad2 that by (cases "sz = 0"; cases "count_ones align = 1") auto
  show "s' = rs" if "allocate rs sz align = Done (Inl e, s')" for s' e
    using spec bad bad2 that by (cases "sz = 0"; cases "count_ones align = 1") auto
  show "\<exists>res s'. rs_release rs a b = Done (res, s') \<and> rs_inv s' \<and> rs_cover s' \<subseteq> rs_cover rs \<union> {a..b}"
    if "a \<le> b" for a b
    using insert_safe [OF inv, of "\<lparr>rstart = a, rend = b\<rparr>"] that by (simp add: rs_release_def)
qed

end
