(* ===== verification/Rangeset_Props.thy ===== *)
theory Rangeset_Props
  imports Rangeset_Correct
begin

text \<open>
  The properties of \<open>src/shared/rangeset\<close>: what each operation does to the set of addresses on every
  branch, and what follows for the memory handed out over a whole run.
\<close>

text \<open>A set with the single entry \<open>0x1000..=0x8fff\<close>, and one that also holds the last page of the
  address space, for the concrete instances below.\<close>

definition rs_low :: range_set where
  "rs_low = rs_new\<lparr>ranges := \<lparr>rstart = 0x1000, rend = 0x8fff\<rparr> # tl (ranges rs_new), in_use := 1\<rparr>"

definition rs_top :: range_set where
  "rs_top = rs_new\<lparr>ranges := \<lparr>rstart = 0x1000, rend = 0x8fff\<rparr>
      # \<lparr>rstart = 0xFFFFFFFFFFFFF000, rend = - 1\<rparr> # tl (tl (ranges rs_new)), in_use := 2\<rparr>"

lemma ents_low: "ents rs_low = [\<lparr>rstart = 0x1000, rend = 0x8fff\<rparr>]"
  by (simp add: ents_def rs_low_def)

lemma inv_low: "rs_inv rs_low"
  unfolding rs_inv_def ents_low by (simp add: wf_arr_def rs_low_def rs_new_def)

lemma ents_top: "ents rs_top = [\<lparr>rstart = 0x1000, rend = 0x8fff\<rparr>, \<lparr>rstart = 0xFFFFFFFFFFFFF000, rend = - 1\<rparr>]"
  by (simp add: ents_def rs_top_def)

lemma inv_top: "rs_inv rs_top"
  unfolding rs_inv_def ents_top by (simp add: wf_arr_def rs_top_def rs_new_def apart_def)

lemma cover_low: "rs_cover rs_low = {0x1000..0x8fff}" "used rs_low = 1"
  by (auto simp: rs_cover_def ents_low) (simp add: rs_low_def)



text \<open>C6: \<open>remove\<close> on every branch. With all 256 slots taken, a range strictly inside an entry is
  refused with the set unchanged. In every other case the range leaves the set, nothing else does,
  and the result says whether anything was removed.\<close>

theorem remove_correct:
  assumes "rs_inv rs" and "valid_range r"
  shows "if used rs = 256 \<and> (\<exists>e\<in>set (ents rs). inner r e)
    then rs_remove rs r = Done (Inl RangeSetOverflow, rs)
    else \<exists>rs'. rs_remove rs r = Done (Inr (rs_cover rs \<inter> addrs r \<noteq> {}), rs') \<and> rs_inv rs'
      \<and> rs_cover rs' = rs_cover rs - addrs r"
proof (cases "used rs = 256 \<and> (\<exists>e\<in>set (ents rs). inner r e)")
  case True
  then show ?thesis using remove_full [OF assms] by auto
next
  case False
  moreover have "used rs \<le> 256" using assms by (simp add: rs_inv_def wf_arr_def)
  ultimately show ?thesis using remove_ok [OF assms] by force
qed

theorem remove_correct_witness:
  "\<exists>rs'. rs_remove rs_low \<lparr>rstart = 0x2000, rend = 0x2fff\<rparr> = Done (Inr True, rs')
    \<and> rs_cover rs' = {0x1000..0x8fff} - {0x2000..0x2fff}"
  using remove_correct [OF inv_low, of "\<lparr>rstart = 0x2000, rend = 0x2fff\<rparr>"] cover_low by auto


lemma allocate_low_run:
  "map_outcome fst (allocate_prefer rs_low 0x800 0x1000 (Some rs_top)) = Done (Inr (Some 0x1000))"
  "map_outcome fst (allocate rs_low 0x800 0x1000) = Done (Inr (Some 0x1000))"
  by code_simp+


text \<open>C1: over any run of allocations and releases from a well-formed set, the blocks handed out and
  not given back are valid, disjoint from each other and disjoint from the free memory.\<close>

theorem live_blocks_disjoint:
  assumes "pool_reach allocate rs_release (rs, {}) (rs', live)" and "rs_inv rs"
  shows "rs_inv rs' \<and> pool_safe (rs_cover rs') live"
  using assms by (rule rs_pool.reach_safe)

theorem live_blocks_disjoint_witness:
  "\<exists>rs'. pool_reach allocate rs_release (rs_low, {}) (rs', {(0x1000, 0x17ff)})
    \<and> pool_safe (rs_cover rs') {(0x1000, 0x17ff)}"
proof -
  obtain rs' where "allocate rs_low 0x800 0x1000 = Done (Inr (Some 0x1000), rs')"
    using allocate_low_run(2) by (cases "allocate rs_low 0x800 0x1000") auto
  then have "pool_step allocate rs_release (rs_low, {}) (rs', {(0x1000, 0x1000 + (0x800 - 1))})"
    by (rule step_alloc)
  then have "pool_reach allocate rs_release (rs_low, {}) (rs', {(0x1000, 0x17ff)})"
    by (simp add: pool_reach_def r_into_rtranclp)
  then show ?thesis
    using live_blocks_disjoint [OF _ inv_low] by blast
qed

text \<open>\<open>len\<close> returns the number of addresses in the set, and it does not panic, unless the set
  is the whole address space.\<close>

theorem len_correct:
  assumes "rs_inv rs" and "rs_cover rs \<noteq> UNIV"
  shows "rs_len rs = Done (Some (of_nat (card (rs_cover rs))))"
proof -
  have "card (rs_cover rs) < card (UNIV :: u64 set)"
    using assms(2) by (intro psubset_card_mono) auto
  then show ?thesis
    using assms(1) by (intro rs_len_card) (simp_all add: card_word)
qed

theorem len_correct_witness: "rs_len rs_low = Done (Some (of_nat (card {0x1000..(0x8fff :: u64)})))"
proof -
  have "0 \<notin> {0x1000..(0x8fff :: u64)}" by simp
  then have "rs_cover rs_low \<noteq> UNIV" unfolding cover_low by blast
  then show ?thesis using len_correct [OF inv_low] cover_low by simp
qed

section \<open>Where the code loses memory\<close>

text \<open>merging deletes the entries it absorbs before it looks at the next one, so the error for an
  entry that ends at the last address leaves the absorbed memory out of the set: here
  \<open>0x1000..=0x8fff\<close> was free before the failed insertion and is lost after it.\<close>

theorem insert_error_loses_memory:
  "\<exists>rs'. rs_insert rs_top \<lparr>rstart = 0x9000, rend = 0x9fff\<rparr> = Done (Inl RangeSetOverflow, rs')
    \<and> 0x1000 \<in> rs_cover rs_top \<and> rs_cover rs' = {0xFFFFFFFFFFFFF000..}"
proof -
  let ?r = "\<lparr>rstart = 0x9000, rend = 0x9fff\<rparr>"
  have scan: "scan ?r (ents rs_top) = (False, [], \<lparr>rstart = 0x1000, rend = 0x9fff\<rparr>,
      [\<lparr>rstart = 0xFFFFFFFFFFFFF000, rend = - 1\<rparr>])"
    unfolding ents_top by (simp add: merge_def)
  show ?thesis
    using insert_scan [OF _ scan] inv_top by (auto simp: rs_inv_def rs_cover_def ents_top)
qed

text \<open>the search gives up, and drops the allocation it has already found, at the first entry too
  close to the end of the address space for the request: here \<open>0x1000..=0x8fff\<close> has room for
  \<open>0x2000\<close> bytes and the request is refused.\<close>

theorem allocate_gives_up:
  "allocate rs_top 0x2000 1 = Done (Inr None, rs_top) \<and> {0x1000..0x2fff} \<subseteq> rs_cover rs_top"
proof -
  have "search 0x2000 1 None None (ents rs_top) = None"
    unfolding ents_top by code_simp
  moreover have "count_ones (1 :: u64) = 1" by code_simp
  moreover have "entries rs_top = Done (ents rs_top)"
    using inv_top by (simp add: rs_inv_def)
  ultimately have "allocate rs_top 0x2000 1 = Done (Inr None, rs_top)"
    by (simp add: allocate_def allocate_prefer_def)
  moreover have "{0x1000..0x2fff} \<subseteq> {0x1000..(0x8fff :: u64)}" by simp
  then have "{0x1000..0x2fff} \<subseteq> rs_cover rs_top"
    unfolding rs_cover_def ents_top cover_simps range.simps by blast
  ultimately show ?thesis ..
qed

end
