(* ===== verification/Memory.thy ===== *)
theory Memory
  imports Prelude
begin

text \<open>
  Bytes and memory: the little- and big-endian encodings of \<open>core\<close>, and the memory that raw pointers
  address, one byte per address, with \<open>core::ptr::read\<close> and \<open>core::ptr::write\<close> of a \<open>u64\<close>.
\<close>

section \<open>Encodings\<close>

definition le_bytes :: "nat \<Rightarrow> 'a::len word \<Rightarrow> u8 list" where
  "le_bytes n w = map (\<lambda>i. ucast (drop_bit (8 * i) w)) [0..<n]"

fun from_le :: "u8 list \<Rightarrow> 'a::len word" where
  "from_le [] = 0"
| "from_le (b # bs) = ucast b OR push_bit 8 (from_le bs)"

definition be_bytes :: "nat \<Rightarrow> 'a::len word \<Rightarrow> u8 list" where
  "be_bytes n w = rev (le_bytes n w)"

definition from_be :: "u8 list \<Rightarrow> 'a::len word" where
  "from_be bs = from_le (rev bs)"

lemma length_le_bytes [simp]: "length (le_bytes n w) = n" "length (be_bytes n w) = n"
  by (simp_all add: le_bytes_def be_bytes_def)

lemma bit_from_le:
  "bit (from_le bs :: 'a::len word) k \<longleftrightarrow> k < LENGTH('a) \<and> k div 8 < length bs \<and> bit (bs ! (k div 8)) (k mod 8)"
proof (induction bs arbitrary: k)
  case (Cons b bs)
  show ?case
  proof (cases "k < 8")
    case True
    then show ?thesis by (auto simp: bit_or_iff bit_push_bit_iff bit_ucast_iff)
  next
    case False
    then have "k div 8 = Suc ((k - 8) div 8)" "k mod 8 = (k - 8) mod 8"
      by (simp_all add: div_if mod_if)
    moreover have "\<not> bit b k" using False by (auto dest: bit_imp_le_length)
    ultimately show ?thesis
      using Cons [of "k - 8"] False by (auto simp: bit_or_iff bit_push_bit_iff bit_ucast_iff)
  qed
qed simp

lemma nth_le_bytes: "i < n \<Longrightarrow> le_bytes n w ! i = ucast (drop_bit (8 * i) w)"
  by (simp add: le_bytes_def)

text \<open>\<open>uN::from_le_bytes\<close> undoes \<open>to_le_bytes\<close>, and likewise for the big-endian pair.\<close>

lemma from_le_bytes: "LENGTH('a) \<le> 8 * n \<Longrightarrow> from_le (le_bytes n w) = w" for w :: "'a::len word"
proof (rule bit_word_eqI)
  fix k assume k: "LENGTH('a) \<le> 8 * n" "k < LENGTH('a)"
  then have "k div 8 < n" by (simp add: less_mult_imp_div_less mult.commute)
  then show "bit (from_le (le_bytes n w) :: 'a word) k = bit w k"
    using k by (simp add: bit_from_le nth_le_bytes bit_ucast_iff bit_drop_bit_eq)
qed

lemma from_be_bytes: "LENGTH('a) \<le> 8 * n \<Longrightarrow> from_be (be_bytes n w) = w" for w :: "'a::len word"
  by (simp add: from_be_def be_bytes_def from_le_bytes)

lemma le_bytes_from_le:
  assumes "8 * length bs \<le> LENGTH('a)"
  shows "le_bytes (length bs) (from_le bs :: 'a::len word) = bs"
proof (rule nth_equalityI)
  fix i assume "i < length (le_bytes (length bs) (from_le bs :: 'a word))"
  then have i: "i < length bs" by simp
  show "le_bytes (length bs) (from_le bs :: 'a word) ! i = bs ! i"
  proof (rule bit_word_eqI)
    fix k assume "k < LENGTH(8)"
    then have "k < 8" by simp
    then have "(8 * i + k) div 8 = i" "(8 * i + k) mod 8 = k" by simp_all
    then show "bit (le_bytes (length bs) (from_le bs :: 'a word) ! i) k = bit (bs ! i) k"
      using assms i \<open>k < 8\<close> by (simp add: nth_le_bytes bit_ucast_iff bit_drop_bit_eq bit_from_le)
  qed
qed simp

lemma be_bytes_from_be:
  "8 * length bs \<le> LENGTH('a) \<Longrightarrow> be_bytes (length bs) (from_be bs :: 'a::len word) = bs"
  by (metis be_bytes_def from_be_def le_bytes_from_le length_rev rev_rev_ident)

section \<open>Memory\<close>

type_synonym memory = "u64 \<Rightarrow> u8"

definition read_bytes :: "memory \<Rightarrow> u64 \<Rightarrow> nat \<Rightarrow> u8 list" where
  "read_bytes m p n = map (\<lambda>i. m (p + of_nat i)) [0..<n]"

definition write_bytes_at :: "memory \<Rightarrow> u64 \<Rightarrow> u8 list \<Rightarrow> memory" where
  "write_bytes_at m p bs = (\<lambda>a. if unat (a - p) < length bs then bs ! unat (a - p) else m a)"

definition read_u64 :: "memory \<Rightarrow> u64 \<Rightarrow> u64" where
  "read_u64 m p = from_le (read_bytes m p 8)"

definition write_u64 :: "memory \<Rightarrow> u64 \<Rightarrow> u64 \<Rightarrow> memory" where
  "write_u64 m p v = write_bytes_at m p (le_bytes 8 v)"

text \<open>\<open>core::ptr::write_bytes\<close>.\<close>

definition fill_bytes :: "memory \<Rightarrow> u64 \<Rightarrow> u8 \<Rightarrow> nat \<Rightarrow> memory" where
  "fill_bytes m p b n = write_bytes_at m p (replicate n b)"

lemma length_read_bytes [simp]: "length (read_bytes m p n) = n"
  by (simp add: read_bytes_def)

lemma unat_of_nat_small: "n < 2 ^ 64 \<Longrightarrow> unat (of_nat n :: u64) = n"
  by (simp add: unsigned_of_nat take_bit_nat_eq_self)

lemma read_write_same: "length bs = n \<Longrightarrow> n < 2 ^ 64 \<Longrightarrow> read_bytes (write_bytes_at m p bs) p n = bs"
  by (rule nth_equalityI) (simp_all add: read_bytes_def write_bytes_at_def unat_of_nat_small)

lemma read_u64_write_same [simp]: "read_u64 (write_u64 m p v) p = v"
  by (simp add: read_u64_def write_u64_def read_write_same from_le_bytes)

lemma read_bytes_cong: "(\<And>i. i < n \<Longrightarrow> m (p + of_nat i) = m' (p + of_nat i)) \<Longrightarrow> read_bytes m p n = read_bytes m' p n"
  by (simp add: read_bytes_def)

lemma read_u64_cong: "(\<And>i. i < 8 \<Longrightarrow> m (p + of_nat i) = m' (p + of_nat i)) \<Longrightarrow> read_u64 m p = read_u64 m' p"
  by (simp add: read_u64_def cong: read_bytes_cong)

lemma from_le_zero: "from_le (replicate n 0) = (0 :: 'a::len word)"
  by (induction n) simp_all

text \<open>Two different multiples of \<open>2 ^ k\<close> are at least that far apart, in either direction around the
  address space.\<close>

lemma aligned_add:
  assumes "2 ^ k dvd unat (q :: u64)" "i < 2 ^ k" "k \<le> 64"
  shows "unat (q + of_nat i) = unat q + i"
proof -
  obtain c where c: "unat q = 2 ^ k * c" using assms(1) by (auto simp: dvd_def)
  have "2 ^ k * c < 2 ^ k * 2 ^ (64 - k)"
    using unat_u64_less [of q] c assms(3) by (simp flip: power_add)
  then have "2 ^ k * Suc c \<le> 2 ^ k * 2 ^ (64 - k)"
    by (simp only: mult_less_cancel1 mult_le_cancel1 Suc_le_eq) simp
  then have "2 ^ k * c + 2 ^ k \<le> 2 ^ 64"
    using assms(3) by (simp flip: power_add)
  then have "unat q + i < 2 ^ 64" using c assms(2) by simp
  then show ?thesis
    using unat_add_no_overflow [of q "of_nat i"] unat_of_nat_small [of i] by simp
qed

lemma aligned_apart:
  fixes p q :: u64
  assumes al: "2 ^ k dvd unat p" "2 ^ k dvd unat q" "k \<le> 64" and "p \<noteq> q" "i < 2 ^ k"
  shows "2 ^ k \<le> unat (q + of_nat i - p)"
proof (rule ccontr)
  assume "\<not> 2 ^ k \<le> unat (q + of_nat i - p)"
  then obtain j where j: "j < 2 ^ k" "unat (q + of_nat i - p) = j" by auto
  then have "q + of_nat i - p = of_nat j"
    by (metis of_nat_unat ucast_id)
  then have "q + of_nat i = p + of_nat j"
    by (simp add: algebra_simps)
  then have "unat q + i = unat p + j"
    using aligned_add [OF al(1) j(1) al(3)] aligned_add [OF al(2) \<open>i < 2 ^ k\<close> al(3)] by simp
  moreover have "(unat q + i) mod 2 ^ k = i" "(unat p + j) mod 2 ^ k = j"
    using al(1,2) j(1) \<open>i < 2 ^ k\<close> by (metis add_0 dvd_imp_mod_0 mod_add_left_eq mod_less)+
  ultimately have "unat q = unat p" by simp
  with \<open>p \<noteq> q\<close> show False by (simp add: word_unat_eq_iff)
qed

text \<open>The distance from the start of a block that does not wrap tells what lies in it.\<close>

lemma unat_diff_less:
  fixes x p :: u64
  assumes "unat p + n \<le> 2 ^ 64"
  shows "unat (x - p) < n \<longleftrightarrow> p \<le> x \<and> unat x < unat p + n"
proof (cases "p \<le> x")
  case True
  then show ?thesis by (auto simp: unat_sub word_le_nat_alt)
next
  case False
  then have "unat (x - p) = unat x + 2 ^ 64 - unat p"
    by (simp add: unat_sub_if' word_le_nat_alt)
  then show ?thesis using False assms by simp
qed

lemma write_u64_outside: "8 \<le> unat (a - p) \<Longrightarrow> write_u64 m p v a = m a"
  by (simp add: write_u64_def write_bytes_at_def)

lemma read_u64_write_other:
  "8 dvd unat p \<Longrightarrow> 8 dvd unat q \<Longrightarrow> p \<noteq> q \<Longrightarrow> read_u64 (write_u64 m p v) q = read_u64 m q"
  using aligned_apart [of 3 p q] by (intro read_u64_cong) (simp add: write_u64_outside)

lemma fill_bytes_simps:
  "unat (a - p) < n \<Longrightarrow> fill_bytes m p b n a = b"
  "n \<le> unat (a - p) \<Longrightarrow> fill_bytes m p b n a = m a"
  by (simp_all add: fill_bytes_def write_bytes_at_def)

lemma read_u64_fill:
  assumes "unat (q - p) + 8 \<le> n" "n < 2 ^ 64"
  shows "read_u64 (fill_bytes m p 0 n) q = 0"
proof -
  have "unat (q + of_nat i - p) < n" if "i < 8" for i
  proof -
    have "unat ((q - p) + of_nat i) = unat (q - p) + i"
      using that assms by (subst unat_add_no_overflow) (simp_all add: unat_of_nat_small)
    then show ?thesis using that assms by (simp add: algebra_simps)
  qed
  then have "read_bytes (fill_bytes m p 0 n) q 8 = replicate 8 0"
    by (intro nth_equalityI) (simp_all add: read_bytes_def fill_bytes_simps)
  then show ?thesis by (simp add: read_u64_def from_le_zero)
qed

end
