(* ===== verification/Page_Table.thy ===== *)
theory Page_Table
  imports Memory
begin

text \<open>
  4-level page tables, \<open>src/shared/page_table/src/lib.rs\<close>. Tables live in memory: every walk and every
  update goes through \<open>translate\<close> and reads and writes 8-byte entries of a byte memory.

  The trait \<open>PhysMem\<close> is a record of its methods, passed to the functions that are generic over it.
  The allocator behind it is a state \<open>'s\<close>; a translation reads that state and does not change it, as
  in both implementations. \<open>PhysAddr\<close> and \<open>VirtAddr\<close> are transparent wrappers of \<open>u64\<close>.
\<close>

section \<open>Flags, addresses and permissions\<close>

definition PAGE_PRESENT :: u64 where "PAGE_PRESENT = push_bit 0 1"
definition PAGE_WRITE :: u64 where "PAGE_WRITE = push_bit 1 1"
definition PAGE_USER :: u64 where "PAGE_USER = push_bit 2 1"
definition PAGE_CACHE_DISABLE :: u64 where "PAGE_CACHE_DISABLE = push_bit 4 1"
definition PAGE_SIZE :: u64 where "PAGE_SIZE = push_bit 7 1"
definition PAGE_NXE :: u64 where "PAGE_NXE = push_bit 63 1"

type_synonym phys_addr = u64
type_synonym virt_addr = u64

text \<open>\<open>cpu::canonicalize_address\<close>: a shift left, then an arithmetic shift right.\<close>

definition canonicalize_address :: "nat \<Rightarrow> u64 \<Rightarrow> u64 outcome" where
  "canonicalize_address high_bits addr =
     assert_that (high_bits < 64) (Done (signed_drop_bit high_bits (push_bit high_bits addr)))"

datatype page_type = Page4K | Page2M | Page1G

text \<open>\<open>page_type as u64\<close>.\<close>

fun page_size :: "page_type \<Rightarrow> u64" where
  "page_size Page4K = 4096"
| "page_size Page2M = 2 * 1024 * 1024"
| "page_size Page1G = 1 * 1024 * 1024 * 1024"

definition size_bit :: "page_type \<Rightarrow> u64" where
  "size_bit pt = (if pt = Page4K then 0 else PAGE_SIZE)"

definition is_aligned :: "u64 \<Rightarrow> u64 \<Rightarrow> bool outcome" where
  "is_aligned addr val = obind (psub val 1) (\<lambda>m. Done ((addr AND NOT m) = addr))"

definition is_aligned_to_page :: "u64 \<Rightarrow> page_type \<Rightarrow> bool outcome" where
  "is_aligned_to_page addr pt = is_aligned addr (page_size pt)"

datatype pt_error =
    InvalidPage
  | MappedAlready
  | SmallerPagesPresent
  | AddressNotCanonical
  | AddressUnaligned

record permissions =
  p_write :: bool
  p_execute :: bool
  p_user :: bool
  p_cache :: bool

definition permissions_new :: "bool \<Rightarrow> bool \<Rightarrow> bool \<Rightarrow> permissions" where
  "permissions_new w x u = \<lparr>p_write = w, p_execute = x, p_user = u, p_cache = False\<rparr>"

definition permissions_uncached :: "bool \<Rightarrow> bool \<Rightarrow> bool \<Rightarrow> permissions" where
  "permissions_uncached w x u = \<lparr>p_write = w, p_execute = x, p_user = u, p_cache = True\<rparr>"

definition permission_bits :: "permissions \<Rightarrow> u64" where
  "permission_bits p =
     0 OR (if p_write p then PAGE_WRITE else 0)
       OR (if p_user p then PAGE_USER else 0)
       OR (if p_execute p then 0 else PAGE_NXE)
       OR (if p_cache p then 0 else PAGE_CACHE_DISABLE)"

record map_request =
  mr_page_type :: page_type
  mr_vaddr :: virt_addr
  mr_size :: u64
  mr_permissions :: permissions

definition map_request_new ::
  "virt_addr \<Rightarrow> page_type \<Rightarrow> u64 \<Rightarrow> permissions \<Rightarrow> (pt_error + map_request) outcome" where
  "map_request_new vaddr pt sz perms =
     obind (is_aligned_to_page vaddr pt) (\<lambda>al.
       Done (ok_or (if al then Some \<lparr>mr_page_type = pt, mr_vaddr = vaddr, mr_size = sz,
                                     mr_permissions = perms\<rparr> else None) AddressUnaligned))"

section \<open>Mappings\<close>

record pt_mapping =
  pml4e :: "phys_addr option"
  pdpe :: "phys_addr option"
  pde :: "phys_addr option"
  pte :: "phys_addr option"
  page :: "(phys_addr \<times> u64 \<times> u64) option"

definition mapping_default :: pt_mapping where
  "mapping_default = \<lparr>pml4e = None, pdpe = None, pde = None, pte = None, page = None\<rparr>"

definition unwrap_or :: "'a option \<Rightarrow> 'a \<Rightarrow> 'a" where
  "unwrap_or x d = (case x of Some a \<Rightarrow> a | None \<Rightarrow> d)"

definition virt_base :: "pt_mapping \<Rightarrow> virt_addr option outcome" where
  "virt_base m =
     (if page m = None then Done None
      else obind (canonicalize_address 16
             (push_bit 39 ((unwrap_or (pml4e m) 0 AND 0xFFF) div 8) OR
              push_bit 30 ((unwrap_or (pdpe m) 0 AND 0xFFF) div 8) OR
              push_bit 21 ((unwrap_or (pde m) 0 AND 0xFFF) div 8) OR
              push_bit 12 ((unwrap_or (pte m) 0 AND 0xFFF) div 8))) (\<lambda>v. Done (Some v)))"

definition mapping_page_type :: "pt_mapping \<Rightarrow> page_type option" where
  "mapping_page_type m =
     (if page m = None then None
      else if pde m = None then Some Page1G
      else if pte m = None then Some Page2M
      else Some Page4K)"

definition get_indices :: "virt_addr \<Rightarrow> u64 list" where
  "get_indices v =
     [drop_bit 39 v AND 0x1FF, drop_bit 30 v AND 0x1FF, drop_bit 21 v AND 0x1FF, drop_bit 12 v AND 0x1FF]"

section \<open>The trait for physical memory\<close>

text \<open>The allocator's state and the memory that pointers address.\<close>

type_synonym 's machine = "'s \<times> memory"

record 's phys_mem =
  translate :: "'s \<Rightarrow> phys_addr \<Rightarrow> nat \<Rightarrow> u64 option outcome"
  translate_mut :: "'s \<Rightarrow> phys_addr \<Rightarrow> nat \<Rightarrow> u64 option outcome"
  alloc_phys :: "'s machine \<Rightarrow> nat \<Rightarrow> nat \<Rightarrow> (phys_addr option \<times> 's machine) outcome"

definition alloc_phys_zeroed ::
  "'s phys_mem \<Rightarrow> 's machine \<Rightarrow> nat \<Rightarrow> nat \<Rightarrow> (phys_addr option \<times> 's machine) outcome" where
  "alloc_phys_zeroed pm st sz align =
     obind (alloc_phys pm st sz align) (\<lambda>(allocation, st).
       case allocation of
         None \<Rightarrow> Done (None, st)
       | Some a \<Rightarrow>
           obind (translate_mut pm (fst st) a sz) (\<lambda>ptr.
             case ptr of
               None \<Rightarrow> Done (None, st)
             | Some bytes \<Rightarrow> Done (Some a, (fst st, fill_bytes (snd st) bytes 0 sz))))"

section \<open>Page tables\<close>

text \<open>\<open>PageTable\<close> is a wrapper of the address of its top-level table.\<close>

type_synonym page_table = phys_addr

definition page_table_new :: "'s phys_mem \<Rightarrow> 's machine \<Rightarrow> (page_table option \<times> 's machine) outcome" where
  "page_table_new pm st = alloc_phys_zeroed pm st 4096 4096"

text \<open>The assignment of the entry's address by depth.\<close>

fun set_level :: "nat \<Rightarrow> phys_addr \<Rightarrow> pt_mapping \<Rightarrow> pt_mapping outcome" where
  "set_level depth ptp ret =
     (if depth = 0 then Done (ret\<lparr>pml4e := Some ptp\<rparr>)
      else if depth = 1 then Done (ret\<lparr>pdpe := Some ptp\<rparr>)
      else if depth = 2 then Done (ret\<lparr>pde := Some ptp\<rparr>)
      else if depth = 3 then Done (ret\<lparr>pte := Some ptp\<rparr>)
      else Panic)"

fun page_mask :: "nat \<Rightarrow> u64 outcome" where
  "page_mask depth =
     (if depth = 1 then Done (page_size Page1G - 1)
      else if depth = 2 then Done (page_size Page2M - 1)
      else if depth = 3 then Done (page_size Page4K - 1)
      else Panic)"

text \<open>The loop over the indices.\<close>

fun components_loop ::
  "'s phys_mem \<Rightarrow> 's machine \<Rightarrow> virt_addr \<Rightarrow> phys_addr \<Rightarrow> nat \<Rightarrow> u64 list \<Rightarrow> pt_mapping \<Rightarrow> pt_mapping outcome"
where
  "components_loop pm st vaddr table depth [] ret = Done ret"
| "components_loop pm st vaddr table depth (index # rest) ret =
     obind (padd table (index * 8)) (\<lambda>ptp.
       obind (set_level depth ptp ret) (\<lambda>ret.
         obind (translate pm (fst st) ptp 8) (\<lambda>vad.
           obind (unwrap vad) (\<lambda>vad.
             let ent = read_u64 (snd st) vad in
             if ent AND PAGE_PRESENT = 0 then Done ret
             else
               let table = ent AND 0xffffffffff000 in
               if depth = 3 \<or> ent AND PAGE_SIZE \<noteq> 0 then
                 if depth = 0 then Done ret
                 else obind (page_mask depth) (\<lambda>mask.
                        Done (ret\<lparr>page := Some (table AND NOT mask, vaddr AND mask, ent)\<rparr>))
               else components_loop pm st vaddr table (depth + 1) rest ret))))"

definition components_inner ::
  "'s phys_mem \<Rightarrow> 's machine \<Rightarrow> page_table \<Rightarrow> virt_addr \<Rightarrow> (pt_error + pt_mapping) outcome" where
  "components_inner pm st pt vaddr =
     obind (canonicalize_address 16 vaddr) (\<lambda>c.
       if c \<noteq> vaddr then Done (Inl AddressNotCanonical)
       else obind (components_loop pm st vaddr pt 0 (get_indices vaddr) mapping_default)
              (\<lambda>ret. Done (Inr ret)))"

definition components ::
  "'s phys_mem \<Rightarrow> 's machine \<Rightarrow> page_table \<Rightarrow> virt_addr \<Rightarrow> (pt_error + pt_mapping) outcome" where
  "components pm st pt vaddr = components_inner pm st pt vaddr"

text \<open>The update of the reference count kept in bits 52 to 61 of an entry.\<close>

definition bump_refcount :: "u64 \<Rightarrow> u64" where
  "bump_refcount nent =
     (let in_use = drop_bit 52 nent AND 0x3ff in
      (nent AND NOT (push_bit 52 0x3FF)) OR push_bit 52 (in_use + 1))"

definition bump_entry :: "'s phys_mem \<Rightarrow> 's machine \<Rightarrow> phys_addr \<Rightarrow> 's machine outcome" where
  "bump_entry pm st ent =
     obind (translate_mut pm (fst st) ent 8) (\<lambda>ptr.
       obind (unwrap ptr) (\<lambda>ptr.
         Done (fst st, write_u64 (snd st) ptr (bump_refcount (read_u64 (snd st) ptr)))))"

text \<open>The loop \<open>for idx in 1..depth\<close> that creates the missing tables, \<open>n\<close> iterations from \<open>idx\<close>.\<close>

fun table_loop ::
  "'s phys_mem \<Rightarrow> u64 list \<Rightarrow> nat \<Rightarrow> nat \<Rightarrow> phys_addr option list \<Rightarrow> 's machine
    \<Rightarrow> (phys_addr option list \<times> 's machine) outcome"
where
  "table_loop pm indices 0 idx entries st = Done (entries, st)"
| "table_loop pm indices (Suc n) idx entries st =
     obind (array_get entries idx) (\<lambda>cur.
       if cur \<noteq> None then table_loop pm indices n (idx + 1) entries st
       else
         obind (alloc_phys_zeroed pm st 4096 4096) (\<lambda>(table, st).
         obind (unwrap table) (\<lambda>table.
         obind (array_get entries (idx - 1)) (\<lambda>above.
         obind (unwrap above) (\<lambda>above.
         obind (translate_mut pm (fst st) above 8) (\<lambda>ptr.
         obind (unwrap ptr) (\<lambda>ptr.
         obind (if idx \<ge> 2 then
                  obind (array_get entries (idx - 2)) (\<lambda>e.
                  obind (unwrap e) (\<lambda>e. bump_entry pm st e))
                else Done st) (\<lambda>st.
         let st = (fst st, write_u64 (snd st) ptr (table OR PAGE_USER OR PAGE_WRITE OR PAGE_PRESENT)) in
         obind (array_get indices idx) (\<lambda>i.
         obind (padd table (i * 8)) (\<lambda>e.
         obind (array_set entries idx (Some e)) (\<lambda>entries.
           table_loop pm indices n (idx + 1) entries st)))))))))))"

definition page_depth :: "page_type \<Rightarrow> nat" where
  "page_depth pt = (case pt of Page4K \<Rightarrow> 4 | Page2M \<Rightarrow> 3 | Page1G \<Rightarrow> 2)"

definition map_raw ::
  "'s phys_mem \<Rightarrow> 's machine \<Rightarrow> page_table \<Rightarrow> virt_addr \<Rightarrow> page_type \<Rightarrow> u64
    \<Rightarrow> ((pt_error + unit) \<times> 's machine) outcome" where
  "map_raw pm st pt vaddr ptype raw =
     (if raw AND PAGE_PRESENT = 0 \<or> (ptype \<noteq> Page4K \<and> raw AND PAGE_SIZE = 0)
      then Done (Inl InvalidPage, st)
      else obind (components pm st pt vaddr) (\<lambda>res.
        case res of
          Inl e \<Rightarrow> Done (Inl e, st)
        | Inr m \<Rightarrow>
            if page m \<noteq> None then Done (Inl MappedAlready, st)
            else
              let entries = [pml4e m, pdpe m, pde m, pte m]; depth = page_depth ptype in
              if depth < length entries \<and> entries ! depth \<noteq> None
              then Done (Inl SmallerPagesPresent, st)
              else assert_that (pml4e m \<noteq> None) (
                obind (table_loop pm (get_indices vaddr) (depth - 1) 1 entries st) (\<lambda>(entries, st).
                obind (array_get entries (depth - 2)) (\<lambda>e.
                obind (unwrap e) (\<lambda>e.
                obind (bump_entry pm st e) (\<lambda>st.
                obind (array_get entries (depth - 1)) (\<lambda>e.
                obind (unwrap e) (\<lambda>e.
                obind (translate_mut pm (fst st) e 8) (\<lambda>ptr.
                obind (unwrap ptr) (\<lambda>ptr.
                  Done (Inr (), (fst st, write_u64 (snd st) ptr raw))))))))))))) "

text \<open>The loop over the pages of a request; \<open>ks\<close> are the numbers of the pages still to map.\<close>

fun map_pages ::
  "'s phys_mem \<Rightarrow> page_table \<Rightarrow> map_request \<Rightarrow> (u64 \<Rightarrow> u8) option \<Rightarrow> nat list \<Rightarrow> 's machine
    \<Rightarrow> (unit option \<times> 's machine) outcome"
where
  "map_pages pm pt req init [] st = Done (Some (), st)"
| "map_pages pm pt req init (k # ks) st =
     (let psize = unat (page_size (mr_page_type req));
          vaddr = mr_vaddr req + of_nat (k * psize) in
      obind (alloc_phys pm st psize psize) (\<lambda>(pg, st).
        case pg of
          None \<Rightarrow> Done (None, st)
        | Some pg \<Rightarrow>
            let entry = pg OR PAGE_PRESENT OR permission_bits (mr_permissions req)
                           OR size_bit (mr_page_type req) in
            obind (case init of
                     None \<Rightarrow> Done (Some st)
                   | Some ini \<Rightarrow>
                       obind (translate_mut pm (fst st) pg psize) (\<lambda>bytes.
                         case bytes of
                           None \<Rightarrow> Done None
                         | Some bytes \<Rightarrow> Done (Some (fst st, write_bytes_at (snd st) bytes
                             (map (\<lambda>off. ini (vaddr - mr_vaddr req + of_nat off)) [0..<psize]))))) (\<lambda>st1.
              case st1 of
                None \<Rightarrow> Done (None, st)
              | Some st1 \<Rightarrow>
                  obind (map_raw pm st1 pt vaddr (mr_page_type req) entry) (\<lambda>(res, st2).
                    case res of
                      Inl _ \<Rightarrow> Done (None, st2)
                    | Inr _ \<Rightarrow> map_pages pm pt req init ks st2))))"

definition map_init ::
  "'s phys_mem \<Rightarrow> 's machine \<Rightarrow> page_table \<Rightarrow> map_request \<Rightarrow> (u64 \<Rightarrow> u8) option
    \<Rightarrow> (unit option \<times> 's machine) outcome" where
  "map_init pm st pt req init =
     (let vaddr = mr_vaddr req in
      if mr_size req \<le> 0 \<or> vaddr AND (page_size (mr_page_type req) - 1) \<noteq> 0 then Done (None, st)
      else case checked_add vaddr (mr_size req - 1) of
        None \<Rightarrow> Done (None, st)
      | Some end_vaddr \<Rightarrow>
          map_pages pm pt req init
            [0..<Suc (unat (end_vaddr - vaddr) div unat (page_size (mr_page_type req)))] st)"

definition pt_map ::
  "'s phys_mem \<Rightarrow> 's machine \<Rightarrow> page_table \<Rightarrow> map_request \<Rightarrow> (unit option \<times> 's machine) outcome" where
  "pt_map pm st pt req = map_init pm st pt req None"

end
