(* ===== verification/Page_Table_Walk.thy ===== *)
theory Page_Table_Walk
  imports Page_Table
begin

text \<open>
  Page tables as trees: what a walk returns, the invariant that the tables in memory form a tree, and
  the three updates of an entry that \<open>map_raw\<close> makes (a reference count, a link to a fresh table, a
  page), each with its effect on every walk.
\<close>

section \<open>Entries\<close>

text \<open>The address bits of an entry.\<close>

definition target :: "u64 \<Rightarrow> phys_addr" where
  "target e = e AND 0xffffffffff000"

lemma bit_target: "bit (target e) k \<longleftrightarrow> bit e k \<and> 12 \<le> k \<and> k < 52"
proof -
  have "(0xffffffffff000 :: u64) = push_bit 12 (mask 40)"
    by code_simp
  then show ?thesis
    by (simp only: target_def bit_and_iff bit_push_bit_iff bit_mask_iff) auto
qed

lemma bit_flags:
  "bit PAGE_PRESENT k \<longleftrightarrow> k = 0" "bit PAGE_WRITE k \<longleftrightarrow> k = 1" "bit PAGE_USER k \<longleftrightarrow> k = 2"
  "bit PAGE_CACHE_DISABLE k \<longleftrightarrow> k = 4" "bit PAGE_SIZE k \<longleftrightarrow> k = 7" "bit PAGE_NXE k \<longleftrightarrow> k = 63"
  unfolding PAGE_PRESENT_def PAGE_WRITE_def PAGE_USER_def PAGE_CACHE_DISABLE_def PAGE_SIZE_def PAGE_NXE_def
  by (simp_all only: bit_push_bit_iff bit_1_iff) auto

lemma and_zero_iff: "a AND b = 0 \<longleftrightarrow> (\<forall>k. bit b k \<longrightarrow> \<not> bit a k)" for a b :: "'a::len word"
  by (auto simp: bit_eq_iff bit_and_iff dest: bit_imp_le_length)

lemma present_iff [simp]: "e AND PAGE_PRESENT = 0 \<longleftrightarrow> \<not> bit e 0"
  and large_iff [simp]: "e AND PAGE_SIZE = 0 \<longleftrightarrow> \<not> bit e 7"
  by (simp_all add: and_zero_iff bit_flags)

lemma bit_bump_refcount: "k < 52 \<Longrightarrow> bit (bump_refcount e) k = bit e k"
  unfolding bump_refcount_def Let_def
  by (simp only: bit_or_iff bit_and_iff bit_not_iff bit_push_bit_iff) (auto dest: bit_imp_le_length)

lemma target_bump_refcount: "target (bump_refcount e) = target e"
  by (rule bit_word_eqI) (auto simp: bit_target bit_bump_refcount)

lemma aligned_low_bits: "2 ^ n dvd unat a \<Longrightarrow> k < n \<Longrightarrow> \<not> bit a k" for a :: "'a::len word"
proof -
  assume "2 ^ n dvd unat a" "k < n"
  then have "take_bit n (unat a) = 0" by (simp add: take_bit_eq_mod dvd_eq_mod_eq_0)
  then have "\<not> bit (take_bit n (unat a)) k" by simp
  then show ?thesis using \<open>k < n\<close> by (auto simp: bit_take_bit_iff bit_unsigned_iff dest: bit_imp_le_length)
qed

lemma table_entry:
  assumes "4096 dvd unat t" "unat t < 2 ^ 52"
  shows "target (t OR PAGE_USER OR PAGE_WRITE OR PAGE_PRESENT) = t"
    and "bit (t OR PAGE_USER OR PAGE_WRITE OR PAGE_PRESENT) 0"
    and "\<not> bit (t OR PAGE_USER OR PAGE_WRITE OR PAGE_PRESENT) 7"
proof -
  have low: "\<not> bit t k" if "k < 12" for k
    using assms(1) aligned_low_bits [of 12 t k] that by simp
  have high: "\<not> bit t k" if "52 \<le> k" for k
    using small_high_bits [OF assms(2) that] .
  show "target (t OR PAGE_USER OR PAGE_WRITE OR PAGE_PRESENT) = t"
    by (rule bit_word_eqI) (use low high in \<open>auto simp: bit_target bit_or_iff bit_flags not_le intro: leI\<close>)
  show "bit (t OR PAGE_USER OR PAGE_WRITE OR PAGE_PRESENT) 0"
    by (simp add: bit_or_iff bit_flags)
  show "\<not> bit (t OR PAGE_USER OR PAGE_WRITE OR PAGE_PRESENT) 7"
    using low [of 7] by (simp add: bit_or_iff bit_flags)
qed

lemma indices_le: "i \<in> set (get_indices v) \<Longrightarrow> i \<le> 0x1FF"
  by (auto simp: get_indices_def intro: word_and_le1)

lemma length_indices [simp]: "length (get_indices v) = 4"
  by (simp add: get_indices_def)

lemma entry_addr:
  assumes t: "4096 dvd unat (t :: u64)" "unat t + 4096 \<le> 2 ^ 64" and i: "i \<le> (0x1FF :: u64)"
  shows "unat (t + i * 8) = unat t + 8 * unat i" and "checked_add t (i * 8) = Some (t + i * 8)"
    and "8 dvd unat (t + i * 8)"
proof -
  have i': "unat i \<le> 511" using i by (simp add: word_le_nat_alt)
  have i8: "unat (i * 8) = 8 * unat i"
    using i' unat_mult_lem [THEN iffD1, of i 8] by simp
  show *: "unat (t + i * 8) = unat t + 8 * unat i"
    using t i' i8 by (subst unat_add_no_overflow) simp_all
  show "checked_add t (i * 8) = Some (t + i * 8)"
    using t i' i8 by (simp add: checked_add_eq_Some)
  show "8 dvd unat (t + i * 8)"
    unfolding * using t(1) by (auto intro: dvd_trans [of 8 4096])
qed

lemma entry_addr_inj:
  assumes t: "4096 dvd unat (t :: u64)" "unat t + 4096 \<le> 2 ^ 64" "i \<le> (0x1FF :: u64)"
    and t': "4096 dvd unat (t' :: u64)" "unat t' + 4096 \<le> 2 ^ 64" "i' \<le> (0x1FF :: u64)"
  shows "t + i * 8 = t' + i' * 8 \<longleftrightarrow> t = t' \<and> i = i'"
proof -
  have le: "unat i \<le> 511" "unat i' \<le> 511" using t(3) t'(3) by (simp_all add: word_le_nat_alt)
  obtain k k' where k: "unat t = 4096 * k" "unat t' = 4096 * k'"
    using t(1) t'(1) by (auto elim!: dvdE)
  have "unat t = unat t' \<and> unat i = unat i'" if "t + i * 8 = t' + i' * 8"
  proof -
    have eq: "4096 * k + 8 * unat i = 4096 * k' + 8 * unat i'"
      using that entry_addr(1) [OF t] entry_addr(1) [OF t'] k by simp
    then have "(4096 * k + 8 * unat i) mod 4096 = (4096 * k' + 8 * unat i') mod 4096" by simp
    then have "unat i = unat i'" using le by simp
    with eq k show ?thesis by simp
  qed
  then have "t = t' \<and> i = i'" if "t + i * 8 = t' + i' * 8"
    using that by (simp add: word_unat_eq_iff)
  then show ?thesis by blast
qed

section \<open>Walks\<close>

text \<open>The entry at a physical address, when physical memory starts at the pointer \<open>w\<close>.\<close>

definition ent :: "u64 \<Rightarrow> memory \<Rightarrow> phys_addr \<Rightarrow> u64" where
  "ent w m a = read_u64 m (a + w)"

text \<open>A present entry ends the walk at depth 3 or when it is a large page.\<close>

definition leaf :: "nat \<Rightarrow> u64 \<Rightarrow> bool" where
  "leaf d e \<longleftrightarrow> d = 3 \<or> bit e 7"

fun depth_mask :: "nat \<Rightarrow> u64" where
  "depth_mask d = (if d = 1 then page_size Page1G else if d = 2 then page_size Page2M else page_size Page4K) - 1"

text \<open>The translation of an address: the page, the offset and the raw entry.\<close>

definition leaf_page :: "nat \<Rightarrow> virt_addr \<Rightarrow> u64 \<Rightarrow> (phys_addr \<times> u64 \<times> u64) option" where
  "leaf_page d v e =
     (if d = 0 then None else Some (target e AND NOT (depth_mask d), v AND depth_mask d, e))"

fun walk :: "u64 \<Rightarrow> memory \<Rightarrow> virt_addr \<Rightarrow> phys_addr \<Rightarrow> nat \<Rightarrow> u64 list \<Rightarrow> (phys_addr \<times> u64 \<times> u64) option" where
  "walk w m v t d [] = None"
| "walk w m v t d (i # is) =
     (let e = ent w m (t + i * 8) in
      if \<not> bit e 0 then None
      else if leaf d e then leaf_page d v e
      else walk w m v (target e) (Suc d) is)"

text \<open>The addresses of the entries a walk reads.\<close>

fun path :: "u64 \<Rightarrow> memory \<Rightarrow> phys_addr \<Rightarrow> nat \<Rightarrow> u64 list \<Rightarrow> phys_addr list" where
  "path w m t d [] = []"
| "path w m t d (i # is) =
     (let e = ent w m (t + i * 8) in
      (t + i * 8) # (if \<not> bit e 0 \<or> leaf d e then [] else path w m (target e) (Suc d) is))"

definition lookup :: "u64 \<Rightarrow> memory \<Rightarrow> phys_addr \<Rightarrow> virt_addr \<Rightarrow> (phys_addr \<times> u64 \<times> u64) option" where
  "lookup w m root v = walk w m v root 0 (get_indices v)"

section \<open>Well-formed page tables\<close>

text \<open>\<open>T\<close> gives each table of the tree the indices that lead to it from the root. Tables are page
  aligned and below \<open>lim\<close>; every entry that refers to a table refers to one of the tree, at the
  position the indices say; and every table but the root is referred to. So no table is shared or
  reached in two ways.\<close>

definition refers :: "u64 \<Rightarrow> memory \<Rightarrow> nat \<Rightarrow> phys_addr \<Rightarrow> phys_addr \<Rightarrow> bool" where
  "refers w m d a t \<longleftrightarrow> bit (ent w m a) 0 \<and> \<not> leaf d (ent w m a) \<and> target (ent w m a) = t"

definition pt_wf :: "u64 \<Rightarrow> u64 \<Rightarrow> memory \<Rightarrow> phys_addr \<Rightarrow> (phys_addr \<rightharpoonup> u64 list) \<Rightarrow> bool" where
  "pt_wf w lim m root T \<longleftrightarrow> (\<forall>t. T t = Some [] \<longleftrightarrow> t = root)
     \<and> (\<forall>t p. T t = Some p \<longrightarrow> length p \<le> 3 \<and> 4096 dvd unat t \<and> unat t + 4096 \<le> unat lim)
     \<and> (\<forall>t p i n. T t = Some p \<and> i \<le> 0x1FF \<and> refers w m (length p) (t + i * 8) n \<longrightarrow> T n = Some (p @ [i]))
     \<and> (\<forall>n p i. T n = Some (p @ [i]) \<longrightarrow>
          (\<exists>t. T t = Some p \<and> i \<le> 0x1FF \<and> refers w m (length p) (t + i * 8) n))"

lemma pt_wf_root: "pt_wf w lim m root T \<Longrightarrow> T root = Some []"
  by (simp add: pt_wf_def)

lemma pt_wf_next:
  "pt_wf w lim m root T \<Longrightarrow> T t = Some p \<Longrightarrow> i \<le> 0x1FF \<Longrightarrow> refers w m (length p) (t + i * 8) n
    \<Longrightarrow> T n = Some (p @ [i])"
  by (auto simp: pt_wf_def)

lemma pt_wf_parent:
  assumes "pt_wf w lim m root T" "T n = Some (p @ [i])"
  obtains t where "T t = Some p" "i \<le> 0x1FF" "refers w m (length p) (t + i * 8) n"
proof -
  have "\<forall>n p i. T n = Some (p @ [i]) \<longrightarrow>
      (\<exists>t. T t = Some p \<and> i \<le> 0x1FF \<and> refers w m (length p) (t + i * 8) n)"
    using assms(1) by (simp add: pt_wf_def)
  with assms(2) that show ?thesis by blast
qed

lemma pt_path_inj: "pt_wf w lim m root T \<Longrightarrow> T t = Some p \<Longrightarrow> T t' = Some p \<Longrightarrow> t = t'"
proof (induction p arbitrary: t t' rule: rev_induct)
  case Nil
  then show ?case by (simp add: pt_wf_def)
next
  case (snoc i p)
  obtain u where u: "T u = Some p" "refers w m (length p) (u + i * 8) t"
    using pt_wf_parent [OF snoc.prems(1,2)] by blast
  obtain u' where u': "T u' = Some p" "refers w m (length p) (u' + i * 8) t'"
    using pt_wf_parent [OF snoc.prems(1,3)] by blast
  show ?case
    using snoc.IH [OF snoc.prems(1) u(1) u'(1)] u u' by (simp add: refers_def)
qed

lemma pt_wf_table:
  assumes "pt_wf w lim m root T" and "T t = Some p"
  shows "length p \<le> 3" "4096 dvd unat t" "unat t + 4096 \<le> unat lim" "unat t + 4096 \<le> 2 ^ 64"
proof -
  show "length p \<le> 3" "4096 dvd unat t" and lim: "unat t + 4096 \<le> unat lim"
    using assms by (auto simp: pt_wf_def)
  show "unat t + 4096 \<le> 2 ^ 64"
    using lim unat_u64_less [of lim] by simp
qed

text \<open>Entries of the tables of a tree are told apart by their table and index.\<close>

lemma pt_entry_inj:
  assumes "pt_wf w lim m root T" "T t = Some p" "T t' = Some p'" "i \<le> 0x1FF" "i' \<le> 0x1FF"
  shows "t + i * 8 = t' + i' * 8 \<longleftrightarrow> t = t' \<and> i = i'"
  using assms pt_wf_table by (intro entry_addr_inj) blast+

lemma walk_refers:
  "refers w m d (t + i * 8) n \<Longrightarrow> walk w m v t d (i # is) = walk w m v n (Suc d) is"
  by (simp add: refers_def Let_def)

lemma walk_reach:
  "pt_wf w lim m root T \<Longrightarrow> T t = Some p \<Longrightarrow> walk w m v root 0 (p @ is) = walk w m v t (length p) is"
proof (induction p arbitrary: t "is" rule: rev_induct)
  case Nil
  then show ?case by (simp add: pt_wf_def)
next
  case (snoc i p)
  obtain u where u: "T u = Some p" "refers w m (length p) (u + i * 8) t"
    using pt_wf_parent [OF snoc.prems] by blast
  show ?case
    using snoc.IH [OF snoc.prems(1) u(1), of "i # is"] walk_refers [OF u(2), of v "is"] by simp
qed

text \<open>Two memories agree on a walk that stays among entries they agree on.\<close>

lemma walk_cong:
  assumes wf: "pt_wf w lim m root T" and t: "T t = Some p" and "\<forall>i\<in>set is. i \<le> 0x1FF"
    and eq: "\<And>t p i is'. T t = Some p \<Longrightarrow> i \<le> 0x1FF \<Longrightarrow> p @ i # is' = js \<Longrightarrow>
      ent w m' (t + i * 8) = ent w m (t + i * 8)
      \<or> (\<exists>n. refers w m (length p) (t + i * 8) n \<and> refers w m' (length p) (t + i * 8) n)
      \<or> walk w m v t (length p) (i # is') = walk w m' v t (length p) (i # is')"
    and "p @ is = js"
  shows "walk w m' v t (length p) is = walk w m v t (length p) is"
  using assms(2,3,5)
proof (induction "is" arbitrary: t p)
  case (Cons i "is")
  let ?e = "ent w m (t + i * 8)"
  have i: "i \<le> 0x1FF" using Cons.prems by simp
  have step: "walk w m' v n (Suc (length p)) is = walk w m v n (Suc (length p)) is"
    if "refers w m (length p) (t + i * 8) n" for n
    using Cons.IH [OF pt_wf_next [OF wf Cons.prems(1) i that]] Cons.prems by simp
  show ?case
    using eq [OF Cons.prems(1) i Cons.prems(3)]
  proof (elim disjE exE conjE)
    assume same: "ent w m' (t + i * 8) = ?e"
    show ?case
    proof (cases "bit ?e 0 \<and> \<not> leaf (length p) ?e")
      case True
      then have "refers w m (length p) (t + i * 8) (target ?e)" by (simp add: refers_def)
      from step [OF this] show ?thesis using True same by (simp add: Let_def)
    qed (use same in \<open>auto simp: Let_def\<close>)
  next
    fix n assume "refers w m (length p) (t + i * 8) n" "refers w m' (length p) (t + i * 8) n"
    then show ?case using step walk_refers by metis
  qed simp
qed simp

lemma lookup_cong:
  assumes wf: "pt_wf w lim m root T"
    and eq: "\<And>t p i is'. T t = Some p \<Longrightarrow> i \<le> 0x1FF \<Longrightarrow> p @ i # is' = get_indices v \<Longrightarrow>
      ent w m' (t + i * 8) = ent w m (t + i * 8)
      \<or> (\<exists>n. refers w m (length p) (t + i * 8) n \<and> refers w m' (length p) (t + i * 8) n)
      \<or> walk w m v t (length p) (i # is') = walk w m' v t (length p) (i # is')"
  shows "lookup w m' root v = lookup w m root v"
proof -
  have "walk w m' v root (length ([] :: u64 list)) (get_indices v)
      = walk w m v root (length ([] :: u64 list)) (get_indices v)"
    by (rule walk_cong [OF wf pt_wf_root [OF wf], where js = "get_indices v"])
      (use eq in \<open>auto intro: indices_le\<close>)
  then show ?thesis by (simp add: lookup_def)
qed

section \<open>Updates of entries\<close>

lemma aligned8_window: "8 dvd unat a \<Longrightarrow> 8 dvd unat w \<Longrightarrow> 8 dvd unat (a + w)" for a w :: u64
  unfolding unat_word_ariths by (intro dvd_mod) (simp_all add: dvd_add)

lemma ent_write:
  assumes "8 dvd unat w" "8 dvd unat a" "8 dvd unat b"
  shows "ent w (write_u64 m (a + w) v) b = (if b = a then v else ent w m b)"
  using assms by (auto simp: ent_def read_u64_write_other aligned8_window)

text \<open>Writing one entry of a table.\<close>

lemma ent_write_table:
  assumes w: "8 dvd unat w" and t: "4096 dvd unat t" "unat t + 4096 \<le> 2 ^ 64" "i \<le> 0x1FF"
    and t': "4096 dvd unat t'" "unat t' + 4096 \<le> 2 ^ 64" "i' \<le> 0x1FF"
  shows "ent w (write_u64 m (t + i * 8 + w) e) (t' + i' * 8)
    = (if t' = t \<and> i' = i then e else ent w m (t' + i' * 8))"
  using ent_write [OF w entry_addr(3) [OF t] entry_addr(3) [OF t']] entry_addr_inj [OF t' t] by auto

lemma ent_write_entry:
  assumes wf: "pt_wf w lim m root T" and w: "8 dvd unat w"
    and t: "T t = Some p" "i \<le> 0x1FF" and t': "T t' = Some p'" "i' \<le> 0x1FF"
  shows "ent w (write_u64 m (t + i * 8 + w) e) (t' + i' * 8)
    = (if t' = t \<and> i' = i then e else ent w m (t' + i' * 8))"
  using ent_write_table [OF w pt_wf_table(2,4) [OF wf t(1)] t(2) pt_wf_table(2,4) [OF wf t'(1)] t'(2)] .

text \<open>Changes outside the tables do not matter.\<close>

lemma pt_wf_same:
  assumes wf: "pt_wf w lim m root T"
    and same: "\<And>t p i. T t = Some p \<Longrightarrow> i \<le> 0x1FF \<Longrightarrow> ent w m' (t + i * 8) = ent w m (t + i * 8)"
  shows "pt_wf w lim m' root T" "lookup w m' root v = lookup w m root v"
proof -
  have ref: "refers w m' (length p) (t + i * 8) n = refers w m (length p) (t + i * 8) n"
    if "T t = Some p" "i \<le> 0x1FF" for t p i n
    using same [OF that] by (simp add: refers_def)
  show "pt_wf w lim m' root T"
    using wf by (simp add: pt_wf_def ref cong: conj_cong)
  show "lookup w m' root v = lookup w m root v"
    by (rule lookup_cong [OF wf]) (use same in blast)
qed

text \<open>An entry that refers to a table may change in the bits the walk does not look at.\<close>

lemma bump_wf:
  assumes wf: "pt_wf w lim m root T" and w: "8 dvd unat w" and t: "T t = Some p" "i \<le> 0x1FF"
    and e: "refers w m (length p) (t + i * 8) n"
  defines "m' \<equiv> write_u64 m (t + i * 8 + w) (bump_refcount (ent w m (t + i * 8)))"
  shows "pt_wf w lim m' root T" and "lookup w m' root v = lookup w m root v"
    and "T t' = Some p' \<Longrightarrow> i' \<le> 0x1FF \<Longrightarrow> (t', i') \<noteq> (t, i) \<Longrightarrow> ent w m' (t' + i' * 8) = ent w m (t' + i' * 8)"
    and "refers w m' (length p) (t + i * 8) n"
proof -
  note ent' = ent_write_entry [OF wf w t, of _ _ _ "bump_refcount (ent w m (t + i * 8))", folded m'_def]
  have bits: "bit (bump_refcount x) 0 = bit x 0" "bit (bump_refcount x) 7 = bit x 7" for x
    by (simp_all add: bit_bump_refcount)
  show same: "T t' = Some p' \<Longrightarrow> i' \<le> 0x1FF \<Longrightarrow> (t', i') \<noteq> (t, i) \<Longrightarrow> ent w m' (t' + i' * 8) = ent w m (t' + i' * 8)" for t' p' i'
    using ent' by auto
  show upd: "refers w m' (length p) (t + i * 8) n"
    using ent' [OF t] e bits by (simp add: refers_def leaf_def target_bump_refcount)
  have ref: "refers w m' (length p') (t' + i' * 8) n' = refers w m (length p') (t' + i' * 8) n'"
    if "T t' = Some p'" "i' \<le> 0x1FF" for t' p' i' n'
    using same [OF that] upd e t that by (cases "(t', i') = (t, i)") (auto simp: refers_def)
  show "pt_wf w lim m' root T"
    using wf by (simp add: pt_wf_def ref cong: conj_cong)
  have "ent w m' (t' + i' * 8) = ent w m (t' + i' * 8)
      \<or> (\<exists>n. refers w m (length p') (t' + i' * 8) n \<and> refers w m' (length p') (t' + i' * 8) n)"
    if "T t' = Some p'" "i' \<le> 0x1FF" for t' p' i'
    using same [OF that] upd e t that by (cases "(t', i') = (t, i)") auto
  then show "lookup w m' root v = lookup w m root v"
    by (intro lookup_cong [OF wf]) blast
qed

text \<open>An entry no walk gets past: it is not present, or a large page at the top level.\<close>

definition stuck :: "nat \<Rightarrow> u64 \<Rightarrow> bool" where
  "stuck d e \<longleftrightarrow> \<not> bit e 0 \<or> d = 0 \<and> bit e 7"

lemma stuck_walk: "stuck d (ent w m (t + i * 8)) \<Longrightarrow> walk w m v t d (i # is) = None"
  by (auto simp: stuck_def leaf_def leaf_page_def Let_def)

lemma stuck_refers: "stuck d (ent w m a) \<Longrightarrow> \<not> refers w m d a n"
  by (auto simp: stuck_def refers_def leaf_def)

lemma link_wf:
  assumes wf: "pt_wf w lim m root T" and w: "8 dvd unat w" and lim: "unat lim \<le> 2 ^ 52"
    and t: "T t = Some p" "i \<le> 0x1FF" "length p < 3" and e: "stuck (length p) (ent w m (t + i * 8))"
    and n: "T n = None" "4096 dvd unat n" "unat n + 4096 \<le> unat lim"
    and zero: "\<And>i. i \<le> 0x1FF \<Longrightarrow> ent w m (n + i * 8) = 0"
  defines "m' \<equiv> write_u64 m (t + i * 8 + w) (n OR PAGE_USER OR PAGE_WRITE OR PAGE_PRESENT)"
  shows "pt_wf w lim m' root (T(n \<mapsto> p @ [i]))" and "lookup w m' root v = lookup w m root v"
    and "T t' = Some p' \<Longrightarrow> i' \<le> 0x1FF \<Longrightarrow> (t', i') \<noteq> (t, i) \<Longrightarrow> ent w m' (t' + i' * 8) = ent w m (t' + i' * 8)"
    and "i' \<le> 0x1FF \<Longrightarrow> ent w m' (n + i' * 8) = 0"
    and "refers w m' (length p) (t + i * 8) n"
proof -
  let ?T = "T(n \<mapsto> p @ [i])"
  have nt: "t \<noteq> n" using t n by auto
  have n64: "unat n + 4096 \<le> 2 ^ 64" using n(3) unat_u64_less [of lim] by simp
  note ent' = ent_write_entry [OF wf w t(1,2), of _ _ _ "n OR PAGE_USER OR PAGE_WRITE OR PAGE_PRESENT", folded m'_def]
  show same: "T t' = Some p' \<Longrightarrow> i' \<le> 0x1FF \<Longrightarrow> (t', i') \<noteq> (t, i) \<Longrightarrow> ent w m' (t' + i' * 8) = ent w m (t' + i' * 8)" for t' p' i'
    using ent' by auto
  show zero': "ent w m' (n + i' * 8) = 0" if i': "i' \<le> 0x1FF" for i'
    using ent_write_table [OF w pt_wf_table(2,4) [OF wf t(1)] t(2) n(2) n64 i'] zero [OF i'] nt
    by (simp add: m'_def)
  show upd: "refers w m' (length p) (t + i * 8) n"
    using ent' [OF t(1,2)] table_entry [OF n(2)] n(3) lim t(3) by (simp add: refers_def leaf_def)
  have new: "\<not> refers w m' d (n + i' * 8) n'" if "i' \<le> 0x1FF" for d i' n'
    using zero' [OF that] by (simp add: refers_def)
  have ref: "refers w m' (length p') (t' + i' * 8) n' \<longleftrightarrow>
      (if t' = t \<and> i' = i then n' = n else refers w m (length p') (t' + i' * 8) n')"
    if "T t' = Some p'" "i' \<le> 0x1FF" for t' p' i' n'
    using same [OF that] upd t that by (cases "(t', i') = (t, i)") (auto simp: refers_def)
  show "pt_wf w lim m' root ?T"
    unfolding pt_wf_def
  proof (intro conjI allI impI)
    fix t'
    have "root \<noteq> n" using pt_wf_root [OF wf] n(1) by auto
    moreover have "T t' = Some [] \<longleftrightarrow> t' = root" using wf by (simp add: pt_wf_def)
    ultimately show "(?T t' = Some []) = (t' = root)" by auto
  next
    fix t' p' assume "?T t' = Some p'"
    then show "length p' \<le> 3" "4096 dvd unat t'" "unat t' + 4096 \<le> unat lim"
      using pt_wf_table [OF wf, of t'] n t(3) by (auto split: if_splits)
  next
    fix t' p' i' n' assume a: "?T t' = Some p' \<and> i' \<le> 0x1FF \<and> refers w m' (length p') (t' + i' * 8) n'"
    then have "t' \<noteq> n" using new by auto
    then have T: "T t' = Some p'" using a by simp
    show "?T n' = Some (p' @ [i'])"
      using pt_wf_next [OF wf T, of i' n'] ref [OF T, of i' n'] a T t n(1) by (auto split: if_splits)
  next
    fix n' p' i' assume a: "?T n' = Some (p' @ [i'])"
    show "\<exists>t'. ?T t' = Some p' \<and> i' \<le> 0x1FF \<and> refers w m' (length p') (t' + i' * 8) n'"
    proof (cases "n' = n")
      case True
      then show ?thesis using a t nt upd by auto
    next
      case False
      then have "T n' = Some (p' @ [i'])" using a by simp
      from pt_wf_parent [OF wf this] obtain t' where
        t': "T t' = Some p'" "i' \<le> 0x1FF" "refers w m (length p') (t' + i' * 8) n'" .
      moreover have "\<not> (t' = t \<and> i' = i)"
        using t' t e stuck_refers by auto
      ultimately show ?thesis
        using ref [of t' p' i' n'] n(1) by (intro exI [of _ t']) auto
    qed
  qed
  show "lookup w m' root v = lookup w m root v"
  proof (rule lookup_cong [OF wf])
    fix t' p' i' and is' :: "u64 list"
    assume a: "T t' = Some p'" "i' \<le> 0x1FF" "p' @ i' # is' = get_indices v"
    have "walk w m' v n d is' = None" for d
    proof (cases is')
      case (Cons j js)
      then have "j \<in> set (get_indices v)" unfolding a(3) [symmetric] by simp
      then show ?thesis using zero' [OF indices_le] Cons by (simp add: Let_def)
    qed simp
    then have "walk w m' v t (length p) (i # is') = None"
      using walk_refers [OF upd] by simp
    then show "ent w m' (t' + i' * 8) = ent w m (t' + i' * 8)
      \<or> (\<exists>n. refers w m (length p') (t' + i' * 8) n \<and> refers w m' (length p') (t' + i' * 8) n)
      \<or> walk w m v t' (length p') (i' # is') = walk w m' v t' (length p') (i' # is')"
      using same [OF a(1,2)] stuck_walk [OF e] t a by (cases "(t', i') = (t, i)") auto
  qed
qed

lemma leaf_wf:
  assumes wf: "pt_wf w lim m root T" and w: "8 dvd unat w"
    and t: "T t = Some p" "i \<le> 0x1FF" and e: "stuck (length p) (ent w m (t + i * 8))"
    and raw: "bit raw 0" "leaf (length p) raw"
  defines "m' \<equiv> write_u64 m (t + i * 8 + w) raw"
  shows "pt_wf w lim m' root T"
    and "lookup w m' root v = (if take (Suc (length p)) (get_indices v) = p @ [i]
      then leaf_page (length p) v raw else lookup w m root v)"
proof -
  note ent' = ent_write_entry [OF wf w t, of _ _ _ raw, folded m'_def]
  have same: "T t' = Some p' \<Longrightarrow> i' \<le> 0x1FF \<Longrightarrow> (t', i') \<noteq> (t, i) \<Longrightarrow> ent w m' (t' + i' * 8) = ent w m (t' + i' * 8)" for t' p' i'
    using ent' by auto
  have upd: "ent w m' (t + i * 8) = raw"
    using ent' [OF t] by simp
  have ref: "refers w m' (length p') (t' + i' * 8) n' = refers w m (length p') (t' + i' * 8) n'"
    if "T t' = Some p'" "i' \<le> 0x1FF" for t' p' i' n'
    using same [OF that] upd raw stuck_refers [OF e] t that
    by (cases "(t', i') = (t, i)") (auto simp: refers_def)
  show wf': "pt_wf w lim m' root T"
    using wf by (simp add: pt_wf_def ref cong: conj_cong)
  show "lookup w m' root v = (if take (Suc (length p)) (get_indices v) = p @ [i]
      then leaf_page (length p) v raw else lookup w m root v)"
  proof (cases "take (Suc (length p)) (get_indices v) = p @ [i]")
    case True
    then have "get_indices v = p @ i # drop (Suc (length p)) (get_indices v)"
      by (metis append.assoc append_Cons append_Nil append_take_drop_id)
    then have "lookup w m' root v = walk w m' v t (length p) (i # drop (Suc (length p)) (get_indices v))"
      unfolding lookup_def using walk_reach [OF wf' t(1)] by metis
    also have "\<dots> = leaf_page (length p) v raw"
      using upd raw by (simp add: Let_def)
    finally show ?thesis using True by simp
  next
    case False
    have "lookup w m' root v = lookup w m root v"
    proof (rule lookup_cong [OF wf])
      fix t' p' i' and is' :: "u64 list"
      assume a: "T t' = Some p'" "i' \<le> 0x1FF" "p' @ i' # is' = get_indices v"
      have "(t', i') \<noteq> (t, i)"
        using a(1) t(1) False unfolding a(3) [symmetric] by auto
      then show "ent w m' (t' + i' * 8) = ent w m (t' + i' * 8)
        \<or> (\<exists>n. refers w m (length p') (t' + i' * 8) n \<and> refers w m' (length p') (t' + i' * 8) n)
        \<or> walk w m v t' (length p') (i' # is') = walk w m' v t' (length p') (i' # is')"
        using same [OF a(1,2)] by blast
    qed
    then show ?thesis using False by simp
  qed
qed

section \<open>Indices and pages\<close>

text \<open>The first \<open>d\<close> indices of canonical addresses agree exactly when the addresses lie in the same page
  of that depth.\<close>

lemma index_eq_iff:
  "drop_bit s v AND 0x1FF = drop_bit s v' AND 0x1FF \<longleftrightarrow> (\<forall>k<9. bit v (s + k) = bit v' (s + k))" for v v' :: u64
proof -
  have "(0x1FF :: u64) = mask 9" by code_simp
  then have eq: "x AND 0x1FF = take_bit 9 x" for x :: u64
    by (simp add: take_bit_eq_mask)
  have "take_bit 9 x = take_bit 9 y \<longleftrightarrow> (\<forall>k<9. bit x k = bit y k)" for x y :: u64
  proof
    assume "take_bit 9 x = take_bit 9 y"
    then show "\<forall>k<9. bit x k = bit y k" by (metis bit_take_bit_iff)
  qed (auto intro!: bit_eqI simp: bit_take_bit_iff)
  then show ?thesis
    unfolding eq by (simp add: bit_drop_bit_eq)
qed

lemma canonical_bits:
  assumes "canonicalize_address 16 v = Done v" "47 \<le> k" "k < 64"
  shows "bit v k = bit v 47"
proof -
  have c: "v = signed_drop_bit 16 (push_bit 16 v)"
    using assms(1) by (simp add: canonicalize_address_def)
  have "bit (signed_drop_bit 16 (push_bit 16 v)) k = bit v 47"
    using assms(2,3) by (cases "k = 47") (auto simp: bit_signed_drop_bit_iff bit_push_bit_iff)
  with c show ?thesis by metis
qed

lemma nth_indices: "j < 4 \<Longrightarrow> get_indices v ! j = drop_bit (39 - 9 * j) v AND 0x1FF"
proof -
  assume "j < 4"
  then consider "j = 0" | "j = 1" | "j = 2" | "j = 3" by linarith
  then show ?thesis by cases (simp_all add: get_indices_def numeral_2_eq_2 numeral_3_eq_3)
qed

lemma index_ranges:
  assumes "d \<le> (4 :: nat)"
  shows "(\<forall>k. 48 - 9 * d \<le> k \<and> k < 48 \<longrightarrow> P k) \<longleftrightarrow> (\<forall>j<d. \<forall>r<9. P (39 - 9 * j + r))"
proof (intro iffI allI impI)
  fix j r :: nat assume a: "\<forall>k. 48 - 9 * d \<le> k \<and> k < 48 \<longrightarrow> P k" "j < d" "r < 9"
  then have "48 - 9 * d \<le> 39 - 9 * j + r" "39 - 9 * j + r < 48" using assms by linarith+
  with a(1) show "P (39 - 9 * j + r)" by blast
next
  fix k assume a: "\<forall>j<d. \<forall>r<9. P (39 - 9 * j + r)" "48 - 9 * d \<le> k \<and> k < 48"
  define j where "j = (47 - k) div 9"
  have j: "9 * j \<le> 47 - k" "47 - k < 9 * j + 9"
    unfolding j_def by (simp_all add: div_times_less_eq_dividend dividend_less_div_times)
  have "j < d" using j a(2) by linarith
  moreover have "k - (39 - 9 * j) < 9" "39 - 9 * j + (k - (39 - 9 * j)) = k"
    using j a(2) \<open>j < d\<close> assms by linarith+
  ultimately show "P k" using a(1) by metis
qed

lemma indices_eq_iff:
  assumes "d \<le> 4"
  shows "take d (get_indices v) = take d (get_indices v') \<longleftrightarrow> (\<forall>k. 48 - 9 * d \<le> k \<and> k < 48 \<longrightarrow> bit v k = bit v' k)"
proof -
  have "take d (get_indices v) = take d (get_indices v') \<longleftrightarrow> (\<forall>j<d. get_indices v ! j = get_indices v' ! j)"
    using assms by (auto simp: list_eq_iff_nth_eq min_def)
  also have "\<dots> \<longleftrightarrow> (\<forall>j<d. \<forall>r<9. bit v (39 - 9 * j + r) = bit v' (39 - 9 * j + r))"
    using assms by (simp add: nth_indices index_eq_iff)
  also have "\<dots> \<longleftrightarrow> (\<forall>k. 48 - 9 * d \<le> k \<and> k < 48 \<longrightarrow> bit v k = bit v' k)"
    using index_ranges [OF assms] by simp
  finally show ?thesis .
qed

lemma same_page_iff:
  assumes c: "canonicalize_address 16 v = Done v" "canonicalize_address 16 v' = Done v'" and "d \<le> 4" "1 \<le> d"
  shows "take d (get_indices v) = take d (get_indices v') \<longleftrightarrow> v AND NOT (mask (48 - 9 * d)) = v' AND NOT (mask (48 - 9 * d))"
proof -
  have "(\<forall>k. 48 - 9 * d \<le> k \<and> k < 48 \<longrightarrow> bit v k = bit v' k) \<longleftrightarrow> (\<forall>k. 48 - 9 * d \<le> k \<and> k < 64 \<longrightarrow> bit v k = bit v' k)"
    (is "?l \<longleftrightarrow> ?r")
  proof
    assume l: ?l
    then have "bit v 47 = bit v' 47" using assms(4) by simp
    then have "bit v k = bit v' k" if "47 \<le> k" "k < 64" for k
      using canonical_bits [OF c(1) that] canonical_bits [OF c(2) that] by simp
    then have "bit v k = bit v' k" if "48 - 9 * d \<le> k" "k < 64" for k
      using that l by (cases "k < 48") simp_all
    then show ?r by blast
  qed simp
  then show ?thesis
    unfolding indices_eq_iff [OF assms(3)]
    by (auto simp: bit_eq_iff bit_and_iff bit_not_iff bit_mask_iff dest: bit_imp_le_length)
qed

end
