(* ===== verification/Page_Table_Correct.thy ===== *)
theory Page_Table_Correct
  imports Page_Table_Walk
begin

text \<open>
  Correctness of \<open>components\<close> and \<open>map_raw\<close> over any implementation of \<open>PhysMem\<close> that keeps the
  contract \<open>phys_memory\<close>. The bootloader's implementation keeps it (\<open>Boot_Mm\<close>).
\<close>

section \<open>Walks read back from the mapping structure\<close>

definition levels :: "pt_mapping \<Rightarrow> phys_addr option list" where
  "levels r = [pml4e r, pdpe r, pde r, pte r]"

lemma length_levels [simp]: "length (levels r) = 4"
  by (simp add: levels_def)

lemma set_level_levels:
  assumes "d < 4"
  shows "\<exists>r. set_level d a ret = Done r \<and> levels r = (levels ret)[d := Some a] \<and> page r = page ret"
proof -
  from assms consider "d = 0" | "d = 1" | "d = 2" | "d = 3" by linarith
  then show ?thesis
    by cases (simp_all add: levels_def numeral_2_eq_2 numeral_3_eq_3)
qed

lemma page_mask_depth: "0 < d \<Longrightarrow> d \<le> 3 \<Longrightarrow> page_mask d = Done (depth_mask d)"
proof -
  assume "0 < d" "d \<le> 3"
  then consider "d = 1" | "d = 2" | "d = 3" by linarith
  then show ?thesis by cases simp_all
qed

text \<open>The tables a walk goes through, and where it stops.\<close>

lemma path_spec:
  assumes wf: "pt_wf w lim m root T"
  shows "T t = Some p \<Longrightarrow> length p + length is = 4 \<Longrightarrow> is \<noteq> [] \<Longrightarrow> \<forall>i\<in>set is. i \<le> 0x1FF \<Longrightarrow>
    \<exists>ts. length ts = length (path w m t (length p) is) \<and> 0 < length ts \<and> length ts \<le> length is
      \<and> (\<forall>j<length ts. T (ts ! j) = Some (p @ take j is) \<and> path w m t (length p) is ! j = ts ! j + is ! j * 8)
      \<and> (walk w m v t (length p) is = None \<longrightarrow>
          stuck (length p + (length ts - 1)) (ent w m (last (path w m t (length p) is))))"
proof (induction "is" arbitrary: t p)
  case (Cons i "is")
  let ?e = "ent w m (t + i * 8)"
  have i: "i \<le> 0x1FF" using Cons.prems by simp
  show ?case
  proof (cases "bit ?e 0 \<and> \<not> leaf (length p) ?e")
    case False
    then have "path w m t (length p) (i # is) = [t + i * 8]"
      by (auto simp: Let_def)
    moreover have "walk w m v t (length p) (i # is) = None \<longrightarrow> stuck (length p) ?e"
      using False by (auto simp: Let_def stuck_def leaf_page_def leaf_def split: if_splits)
    ultimately show ?thesis
      using Cons.prems by (intro exI [of _ "[t]"]) simp
  next
    case True
    let ?n = "target ?e" and ?p = "p @ [i]"
    have n: "T ?n = Some ?p"
      using pt_wf_next [OF wf Cons.prems(1) i] True by (simp add: refers_def)
    have ne: "is \<noteq> []"
      using True Cons.prems(2) by (auto simp: leaf_def)
    have path: "path w m t (length p) (i # is) = (t + i * 8) # path w m ?n (length ?p) is"
      and walk: "walk w m v t (length p) (i # is) = walk w m v ?n (length ?p) is"
      using True by (simp_all add: Let_def)
    obtain ts where ts: "length ts = length (path w m ?n (length ?p) is)" "0 < length ts" "length ts \<le> length is"
      "\<forall>j<length ts. T (ts ! j) = Some (?p @ take j is) \<and> path w m ?n (length ?p) is ! j = ts ! j + is ! j * 8"
      "walk w m v ?n (length ?p) is = None \<longrightarrow>
          stuck (length ?p + (length ts - 1)) (ent w m (last (path w m ?n (length ?p) is)))"
    proof -
      have "length ?p + length is = 4" "\<forall>i\<in>set is. i \<le> 0x1FF" using Cons.prems by auto
      from Cons.IH [OF n this(1) ne this(2)] show thesis
        by (elim exE conjE) (rule that)
    qed
    have ne': "path w m ?n (length ?p) is \<noteq> []" using ts(1,2) by auto
    have nths: "T ((t # ts) ! j) = Some (p @ take j (i # is))
        \<and> path w m t (length p) (i # is) ! j = (t # ts) ! j + (i # is) ! j * 8" if "j < Suc (length ts)" for j
      using that ts(4) Cons.prems(1) unfolding path by (cases j) simp_all
    have len: "length (t # ts) = length (path w m t (length p) (i # is))"
      unfolding path using ts(1) by simp
    have stop: "walk w m v t (length p) (i # is) = None \<longrightarrow>
        stuck (length p + (length (t # ts) - 1)) (ent w m (last (path w m t (length p) (i # is))))"
      unfolding walk path using ts(2,5) ne' by (cases ts) simp_all
    show ?thesis
    proof (intro exI [of _ "t # ts"] conjI)
      show "\<forall>j<length (t # ts). T ((t # ts) ! j) = Some (p @ take j (i # is))
          \<and> path w m t (length p) (i # is) ! j = (t # ts) ! j + (i # is) ! j * 8"
        using nths by (metis length_Cons)
      show "length (t # ts) = length (path w m t (length p) (i # is))" by (fact len)
      show "0 < length (t # ts)" "length (t # ts) \<le> length (i # is)" using ts(3) by simp_all
    qed (fact stop)
  qed
qed simp

text \<open>The entries \<open>map_raw\<close> accepts: present, and with the page size bit for large pages.\<close>

definition raw_valid :: "page_type \<Rightarrow> u64 \<Rightarrow> bool" where
  "raw_valid ptype raw \<longleftrightarrow> bit raw 0 \<and> (ptype = Page4K \<or> bit raw 7)"

section \<open>The contract of a physical memory\<close>

text \<open>The bytes of the tables of a tree.\<close>

definition tables :: "(phys_addr \<rightharpoonup> u64 list) \<Rightarrow> u64 set" where
  "tables T = {x. \<exists>t\<in>dom T. t \<le> x \<and> unat x < unat t + 4096}"

lemma table_in_tables: "T t = Some p \<Longrightarrow> t \<in> tables T"
  by (auto simp: tables_def dom_def)

lemma write_outside_tables:
  assumes wf: "pt_wf w lim m root T" and t: "T t = Some p" "i \<le> 0x1FF" and x: "x \<notin> tables T"
  shows "write_u64 m' (t + i * 8 + w) e (x + w) = m' (x + w)"
proof (rule write_u64_outside, rule ccontr)
  note tab = pt_wf_table [OF wf t(1)]
  have ui: "unat i \<le> 511" using t(2) by (simp add: word_le_nat_alt)
  have a: "unat (t + i * 8) = unat t + 8 * unat i" using entry_addr(1) [OF tab(2,4) t(2)] .
  assume "\<not> 8 \<le> unat (x + w - (t + i * 8 + w))"
  then have "unat (x - (t + i * 8)) < 8" by simp
  then have "t + i * 8 \<le> x \<and> unat x < unat (t + i * 8) + 8"
    using unat_diff_less [of "t + i * 8" 8 x] a ui tab(4) by simp
  then have "t \<le> x \<and> unat x < unat t + 4096"
    using a ui by (simp add: word_le_nat_alt)
  with x t(1) show False by (auto simp: tables_def dom_def)
qed

text \<open>That \<open>n\<close> allocations of a 4-KiB frame in a row succeed.\<close>

fun can_alloc :: "('s \<Rightarrow> nat \<Rightarrow> nat \<Rightarrow> (phys_addr option \<times> 's) outcome) \<Rightarrow> nat \<Rightarrow> 's \<Rightarrow> bool" where
  "can_alloc alloc 0 s = True"
| "can_alloc alloc (Suc n) s =
     (case alloc s 4096 4096 of Done (Some _, s') \<Rightarrow> can_alloc alloc n s' | _ \<Rightarrow> False)"

lemma can_alloc_Suc: "can_alloc alloc (Suc n) s \<Longrightarrow> can_alloc alloc n s"
  by (induction n arbitrary: s) (auto split: outcome.splits prod.splits option.splits)

text \<open>Physical memory up to \<open>lim\<close> is mapped at the pointer \<open>window\<close>; an allocated frame is aligned,
  was available, and is so no longer. The allocator \<open>alloc\<close> keeps its books outside the memory.\<close>

locale phys_memory =
  fixes pm :: "'s phys_mem"
    and alloc :: "'s \<Rightarrow> nat \<Rightarrow> nat \<Rightarrow> (phys_addr option \<times> 's) outcome"
    and inv :: "'s \<Rightarrow> bool"
    and avail :: "'s \<Rightarrow> u64 set"
    and window :: u64
    and lim :: u64
  assumes window_aligned: "8 dvd unat window"
    and lim_bound: "unat lim \<le> 2 ^ 52"
    and translate_eq: "translate pm s a n = translate_mut pm s a n"
    and translate_in: "inv s \<Longrightarrow> 0 < n \<Longrightarrow> unat a + n \<le> unat lim
      \<Longrightarrow> translate_mut pm s a n = Done (Some (a + window))"
    and alloc_pure: "alloc_phys pm (s, m) sz al = obind (alloc s sz al) (\<lambda>(r, s'). Done (r, (s', m)))"
    and alloc_total: "inv s \<Longrightarrow> k \<in> {12, 21, 30} \<Longrightarrow> \<exists>r s'. alloc s (2 ^ k) (2 ^ k) = Done (r, s')"
    and alloc_none: "inv s \<Longrightarrow> k \<in> {12, 21, 30} \<Longrightarrow> alloc s (2 ^ k) (2 ^ k) = Done (None, s')
      \<Longrightarrow> inv s' \<and> avail s' \<subseteq> avail s"
    and alloc_some: "inv s \<Longrightarrow> k \<in> {12, 21, 30} \<Longrightarrow> alloc s (2 ^ k) (2 ^ k) = Done (Some a, s')
      \<Longrightarrow> inv s' \<and> 2 ^ k dvd unat a \<and> unat a + 2 ^ k \<le> unat lim
        \<and> (\<forall>x. a \<le> x \<and> unat x < unat a + 2 ^ k \<longrightarrow> x \<in> avail s \<and> x \<notin> avail s') \<and> avail s' \<subseteq> avail s"
begin

text \<open>A machine whose memory holds the tree \<open>T\<close> of tables, none of it available to the allocator.\<close>

definition pt_ok :: "'s machine \<Rightarrow> page_table \<Rightarrow> (phys_addr \<rightharpoonup> u64 list) \<Rightarrow> bool" where
  "pt_ok st root T \<longleftrightarrow> inv (fst st) \<and> pt_wf window lim (snd st) root T \<and> tables T \<inter> avail (fst st) = {}"

lemma translate_entry:
  assumes "inv s" "pt_wf window lim m root T" "T t = Some p" "i \<le> 0x1FF"
  shows "padd t (i * 8) = Done (t + i * 8)" "translate pm s (t + i * 8) 8 = Done (Some (t + i * 8 + window))"
    "translate_mut pm s (t + i * 8) 8 = Done (Some (t + i * 8 + window))"
proof -
  note t = pt_wf_table [OF assms(2,3)]
  have "unat i \<le> 511" using assms(4) by (simp add: word_le_nat_alt)
  then have "unat (t + i * 8) + 8 \<le> unat lim"
    using entry_addr(1) [OF t(2,4) assms(4)] t(3) by simp
  then show "translate pm s (t + i * 8) 8 = Done (Some (t + i * 8 + window))"
    "translate_mut pm s (t + i * 8) 8 = Done (Some (t + i * 8 + window))"
    using translate_in [OF assms(1)] translate_eq by simp_all
  show "padd t (i * 8) = Done (t + i * 8)"
    using entry_addr(2) [OF t(2,4) assms(4)] by simp
qed

lemma components_loop_walk:
  assumes "inv s" and wf: "pt_wf window lim m root T"
  shows "T t = Some p \<Longrightarrow> length p + length is = 4 \<Longrightarrow> \<forall>i\<in>set is. i \<le> 0x1FF \<Longrightarrow> page ret = None \<Longrightarrow>
    \<exists>r. components_loop pm (s, m) v t (length p) is ret = Done r
      \<and> page r = walk window m v t (length p) is
      \<and> levels r = take (length p) (levels ret) @ map Some (path window m t (length p) is)
          @ drop (length p + length (path window m t (length p) is)) (levels ret)"
proof (induction "is" arbitrary: t p ret)
  case Nil
  then show ?case by simp
next
  case (Cons i "is")
  let ?a = "t + i * 8"
  let ?e = "ent window m ?a" and ?d = "length p"
  have i: "i \<le> 0x1FF" using Cons.prems by simp
  have d: "?d < 4" using Cons.prems(2) by simp
  obtain r where r: "set_level ?d ?a ret = Done r" "levels r = (levels ret)[?d := Some ?a]" "page r = None"
    using set_level_levels [OF d] Cons.prems(4) by metis
  have step: "components_loop pm (s, m) v t ?d (i # is) ret =
      (if \<not> bit ?e 0 then Done r
       else if leaf ?d ?e then
         if ?d = 0 then Done r
         else Done (r\<lparr>page := Some (target ?e AND NOT (depth_mask ?d), v AND depth_mask ?d, ?e)\<rparr>)
       else components_loop pm (s, m) v (target ?e) (Suc ?d) is r)"
    using translate_entry [OF assms(1) wf Cons.prems(1) i] r(1) page_mask_depth [of ?d] d
    by (auto simp: padd_def Let_def leaf_def target_def ent_def simp del: set_level.simps depth_mask.simps page_mask.simps)
  have upd: "take (Suc ?d) (levels r) = take ?d (levels ret) @ [Some ?a]" "drop (Suc ?d) (levels r) = drop (Suc ?d) (levels ret)"
    using d by (simp_all add: r(2) take_Suc_conv_app_nth)
  show ?case
  proof (cases "bit ?e 0 \<and> \<not> leaf ?d ?e")
    case False
    then have "path window m t ?d (i # is) = [?a]" by (auto simp: Let_def)
    moreover have "levels r = take ?d (levels ret) @ Some ?a # drop (Suc ?d) (levels ret)"
      using d by (simp add: r(2) upd_conv_take_nth_drop)
    moreover have "levels (r\<lparr>page := x\<rparr>) = levels r" for x
      by (simp add: levels_def)
    ultimately show ?thesis
      using False r(3) unfolding step by (auto simp: Let_def leaf_page_def)
  next
    case True
    have n: "T (target ?e) = Some (p @ [i])"
      using pt_wf_next [OF wf Cons.prems(1) i] True by (simp add: refers_def)
    obtain r' where r': "components_loop pm (s, m) v (target ?e) (Suc ?d) is r = Done r'"
      "page r' = walk window m v (target ?e) (Suc ?d) is"
      "levels r' = take (Suc ?d) (levels r) @ map Some (path window m (target ?e) (Suc ?d) is)
          @ drop (Suc ?d + length (path window m (target ?e) (Suc ?d) is)) (levels r)"
      using Cons.IH [OF n, of r] Cons.prems r(3) by auto
    have "drop (Suc ?d + k) (levels r) = drop (Suc ?d + k) (levels ret)" for k
      using upd(2) by (metis drop_drop add.commute)
    then show ?thesis
      using r' True upd(1) unfolding step by (simp add: Let_def)
  qed
qed

text \<open>The entries of a partial walk with \<open>N\<close> levels: each lies in the table its indices lead to, and
  the walk stops at the last one.\<close>

definition partial_path ::
  "memory \<Rightarrow> (phys_addr \<rightharpoonup> u64 list) \<Rightarrow> u64 list \<Rightarrow> phys_addr option list \<Rightarrow> nat \<Rightarrow> bool" where
  "partial_path m T is es N \<longleftrightarrow> 0 < N \<and> N \<le> 4 \<and> length es = 4
     \<and> (\<forall>j<N. \<exists>t. T t = Some (take j is) \<and> es ! j = Some (t + is ! j * 8))
     \<and> (\<forall>j. N \<le> j \<and> j < 4 \<longrightarrow> es ! j = None)
     \<and> (\<forall>t. T t = Some (take (N - 1) is) \<longrightarrow> stuck (N - 1) (ent window m (t + is ! (N - 1) * 8)))"

lemma partial_pathD:
  assumes "partial_path m T is es N"
  shows "0 < N" "N \<le> 4" "length es = 4"
    and "j < N \<Longrightarrow> \<exists>t. T t = Some (take j is) \<and> es ! j = Some (t + is ! j * 8)"
    and "N \<le> j \<Longrightarrow> j < 4 \<Longrightarrow> es ! j = None"
    and "T t = Some (take (N - 1) is) \<Longrightarrow> stuck (N - 1) (ent window m (t + is ! (N - 1) * 8))"
  using assms unfolding partial_path_def by blast+

abbreviation canonical :: "virt_addr \<Rightarrow> bool" where
  "canonical v \<equiv> canonicalize_address 16 v = Done v"

lemma components_spec:
  assumes "pt_ok st root T"
  shows "canonical v \<Longrightarrow> \<exists>r. components pm st root v = Done (Inr r)
      \<and> page r = lookup window (snd st) root v
      \<and> (page r = None \<longrightarrow> (\<exists>N. partial_path (snd st) T (get_indices v) (levels r) N))"
    and "\<not> canonical v \<Longrightarrow> components pm st root v = Done (Inl AddressNotCanonical)"
proof -
  obtain s m where st: "st = (s, m)" by fastforce
  have inv: "inv s" and wf: "pt_wf window lim m root T" using assms by (auto simp: pt_ok_def st)
  have "canonicalize_address 16 v = Done (signed_drop_bit 16 (push_bit 16 v))"
    by (simp add: canonicalize_address_def)
  then show "\<not> canonical v \<Longrightarrow> components pm st root v = Done (Inl AddressNotCanonical)"
    by (auto simp: components_def components_inner_def)
  assume c: "canonical v"
  let ?is = "get_indices v"
  let ?ps = "path window m root 0 ?is"
  obtain r where r: "components_loop pm (s, m) v root 0 ?is mapping_default = Done r"
    "page r = walk window m v root 0 ?is" "levels r = map Some ?ps @ drop (length ?ps) (levels mapping_default)"
    using components_loop_walk [OF inv wf pt_wf_root [OF wf], of ?is mapping_default v] indices_le
    by (auto simp: mapping_default_def)
  obtain ts where ts: "length ts = length ?ps" "0 < length ts" "length ts \<le> 4"
      "\<forall>j<length ts. T (ts ! j) = Some (take j ?is) \<and> ?ps ! j = ts ! j + ?is ! j * 8"
      "walk window m v root 0 ?is = None \<longrightarrow> stuck (length ts - 1) (ent window m (last ?ps))"
  proof -
    have ne: "?is \<noteq> []" and le: "\<forall>i\<in>set ?is. i \<le> 0x1FF" and len: "length ([] :: u64 list) + length ?is = 4"
      using indices_le by (auto simp: get_indices_def)
    note spec = path_spec [OF wf pt_wf_root [OF wf] len ne le, of v]
    show thesis
      using spec by (simp only: list.size(3) append_Nil add_0 length_indices) (elim exE conjE, rule that)
  qed
  have def: "levels mapping_default = replicate 4 None"
    by (simp add: levels_def mapping_default_def numeral_eq_Suc)
  have "partial_path m T ?is (levels r) (length ts)" if none: "page r = None"
    unfolding partial_path_def
  proof (intro conjI allI impI)
    fix j assume j: "j < length ts"
    then have "levels r ! j = Some (ts ! j + ?is ! j * 8)"
      using ts by (simp add: r(3) nth_append)
    then show "\<exists>t. T t = Some (take j ?is) \<and> levels r ! j = Some (t + ?is ! j * 8)"
      using ts(4) j by blast
  next
    fix j assume "length ts \<le> j \<and> j < 4"
    then have "j - length ?ps < 4 - length ?ps" "\<not> j < length ?ps" using ts(1) by auto
    then show "levels r ! j = None"
      by (simp add: r(3) def nth_append)
  next
    fix t assume t: "T t = Some (take (length ts - 1) ?is)"
    have l: "length ts - 1 < length ts" using ts(2) by simp
    with ts(4) have "T (ts ! (length ts - 1)) = Some (take (length ts - 1) ?is)" by blast
    then have "t = ts ! (length ts - 1)"
      using pt_path_inj [OF wf t] by blast
    then have "last ?ps = t + ?is ! (length ts - 1) * 8"
      using ts l by (metis last_conv_nth length_greater_0_conv)
    then show "stuck (length ts - 1) (ent window m (t + ?is ! (length ts - 1) * 8))"
      using ts(5) none r(2) by simp
  qed (use ts in simp_all)
  moreover have "components pm st root v = Done (Inr r)"
    using r(1) c by (simp add: components_def components_inner_def st)
  ultimately show "\<exists>r. components pm st root v = Done (Inr r)
      \<and> page r = lookup window (snd st) root v
      \<and> (page r = None \<longrightarrow> (\<exists>N. partial_path (snd st) T (get_indices v) (levels r) N))"
    using r(2) by (auto simp: lookup_def st)
qed

text \<open>A fresh table: a zeroed frame that is not one of the tree.\<close>

lemma fresh_table:
  assumes ok: "pt_ok (s, m) root T" and al: "alloc s 4096 4096 = Done (Some n, s')"
  defines "m' \<equiv> fill_bytes m (n + window) 0 4096"
  shows "alloc_phys_zeroed pm (s, m) 4096 4096 = Done (Some n, (s', m'))"
    and "T n = None" "4096 dvd unat n" "unat n + 4096 \<le> unat lim"
    and "pt_ok (s', m') root T" "tables (T(n \<mapsto> p)) \<inter> avail s' = {}"
    and "lookup window m' root v = lookup window m root v"
    and "i \<le> 0x1FF \<Longrightarrow> ent window m' (n + i * 8) = 0"
    and "T t = Some q \<Longrightarrow> i \<le> 0x1FF \<Longrightarrow> ent window m' (t + i * 8) = ent window m (t + i * 8)"
    and "x \<notin> avail s \<Longrightarrow> m' (x + window) = m (x + window)"
    and "avail s' \<subseteq> avail s"
proof -
  have inv: "inv s" and wf: "pt_wf window lim m root T" and dis: "tables T \<inter> avail s = {}"
    using ok by (auto simp: pt_ok_def)
  have some: "inv s' \<and> 2 ^ 12 dvd unat n \<and> unat n + 2 ^ 12 \<le> unat lim
      \<and> (\<forall>x. n \<le> x \<and> unat x < unat n + 2 ^ 12 \<longrightarrow> x \<in> avail s \<and> x \<notin> avail s') \<and> avail s' \<subseteq> avail s"
    using alloc_some [OF inv, of 12 n s'] al by simp
  then show n: "4096 dvd unat n" "unat n + 4096 \<le> unat lim" and sub: "avail s' \<subseteq> avail s" by simp_all
  have blk: "n \<le> x \<Longrightarrow> unat x < unat n + 4096 \<Longrightarrow> x \<in> avail s \<and> x \<notin> avail s'" for x
    using some by simp
  have n64: "unat n + 4096 \<le> 2 ^ 64" using n(2) unat_u64_less [of lim] by simp
  have "n \<in> avail s" using blk [of n] by simp
  then show Tn: "T n = None"
    using dis table_in_tables [of T n] by (cases "T n") auto
  show "alloc_phys_zeroed pm (s, m) 4096 4096 = Done (Some n, (s', m'))"
    using translate_in [of s' 4096 n] some al by (simp add: alloc_phys_zeroed_def alloc_pure m'_def)
  have pow12: "(2 :: nat) ^ 12 = 4096" by simp
  have diff: "a + window + k - (n + window) = a + k - n" for a k :: u64
    by (simp add: algebra_simps)
  show "x \<notin> avail s \<Longrightarrow> m' (x + window) = m (x + window)"
    using unat_diff_less [OF n64, of x] blk [of x] diff [of x 0]
    by (simp add: m'_def fill_bytes_def write_bytes_at_def) blast
  show "ent window m' (n + i * 8) = 0" if "i \<le> 0x1FF" for i
  proof -
    have "unat i \<le> 511" using that by (simp add: word_le_nat_alt)
    then have "unat (i * 8) + 8 \<le> 4096"
      using unat_mult_lem [THEN iffD1, of i 8] by simp
    then show ?thesis
      unfolding ent_def m'_def by (intro read_u64_fill) (simp_all add: algebra_simps)
  qed
  show same: "ent window m' (t + i * 8) = ent window m (t + i * 8)" if "T t = Some q" "i \<le> 0x1FF" for t q i
    unfolding ent_def
  proof (rule read_u64_cong)
    fix k :: nat assume k: "k < 8"
    have "unat i \<le> 511" using that(2) by (simp add: word_le_nat_alt)
    then have "unat i * 8 + k < 2 ^ 12" using k by simp
    moreover have "t \<noteq> n" using that Tn by auto
    ultimately have "2 ^ 12 \<le> unat (t + of_nat (unat i * 8 + k) - n)"
      using aligned_apart [of 12 n t "unat i * 8 + k"] n(1) pt_wf_table(2) [OF wf that(1)] by simp
    moreover have "t + of_nat (unat i * 8 + k) = t + i * 8 + of_nat k" by simp
    ultimately have "4096 \<le> unat (t + i * 8 + of_nat k - n)"
      by (metis pow12)
    then have "4096 \<le> unat (t + i * 8 + window + of_nat k - (n + window))"
      by (simp only: diff)
    then show "m' (t + i * 8 + window + of_nat k) = m (t + i * 8 + window + of_nat k)"
      by (simp add: m'_def fill_bytes_simps(2))
  qed
  show "lookup window m' root v = lookup window m root v"
    using pt_wf_same(2) [OF wf same] .
  show "pt_ok (s', m') root T"
    using pt_wf_same(1) [OF wf same] some dis by (auto simp: pt_ok_def)
  show "tables (T(n \<mapsto> p)) \<inter> avail s' = {}"
    using dis sub blk unfolding tables_def by (auto simp: dom_def split: if_splits)
qed

text \<open>Updating the reference count of an entry on the way.\<close>

lemma bump_entry_ok:
  assumes ok: "pt_ok (s, m) root T" and u: "T u = Some p" "i \<le> 0x1FF" and n: "T n = Some (p @ [i])"
  defines "m' \<equiv> write_u64 m (u + i * 8 + window) (bump_refcount (ent window m (u + i * 8)))"
  shows "bump_entry pm (s, m) (u + i * 8) = Done (s, m')" and "pt_ok (s, m') root T"
    and "lookup window m' root v = lookup window m root v"
    and "4096 dvd unat t \<Longrightarrow> unat t + 4096 \<le> 2 ^ 64 \<Longrightarrow> i' \<le> 0x1FF \<Longrightarrow> t \<noteq> u
      \<Longrightarrow> ent window m' (t + i' * 8) = ent window m (t + i' * 8)"
    and "x \<notin> tables T \<Longrightarrow> m' (x + window) = m (x + window)"
proof -
  have inv: "inv s" and wf: "pt_wf window lim m root T" and dis: "tables T \<inter> avail s = {}"
    using ok by (auto simp: pt_ok_def)
  obtain u' where "T u' = Some p" "refers window m (length p) (u' + i * 8) n"
    using pt_wf_parent [OF wf n] by blast
  then have ref: "refers window m (length p) (u + i * 8) n"
    using pt_path_inj [OF wf u(1)] by blast
  note bump = bump_wf [OF wf window_aligned u ref, folded m'_def]
  show "bump_entry pm (s, m) (u + i * 8) = Done (s, m')"
    using translate_entry(3) [OF inv wf u] by (simp add: bump_entry_def m'_def ent_def)
  show "pt_ok (s, m') root T"
    using bump(1) inv dis by (simp add: pt_ok_def)
  show "lookup window m' root v = lookup window m root v"
    by (rule bump(2))
  show "ent window m' (t + i' * 8) = ent window m (t + i' * 8)"
    if "4096 dvd unat t" "unat t + 4096 \<le> 2 ^ 64" "i' \<le> 0x1FF" "t \<noteq> u"
    using ent_write_table [OF window_aligned pt_wf_table(2,4) [OF wf u(1)] u(2) that(1-3)] that(4)
    by (simp add: m'_def)
  show "x \<notin> tables T \<Longrightarrow> m' (x + window) = m (x + window)"
    unfolding m'_def by (rule write_outside_tables [OF wf u])
qed

text \<open>What one table creation, and then the whole loop, leaves behind: a larger tree, the same
  translations, and memory unchanged outside the tables and the frames taken.\<close>

definition extends ::
  "page_table \<Rightarrow> 's machine \<Rightarrow> (phys_addr \<rightharpoonup> u64 list) \<Rightarrow> 's machine \<Rightarrow> (phys_addr \<rightharpoonup> u64 list) \<Rightarrow> bool" where
  "extends root st T st' T' \<longleftrightarrow> pt_ok st' root T' \<and> T \<subseteq>\<^sub>m T'
     \<and> tables T' \<subseteq> tables T \<union> avail (fst st) \<and> avail (fst st') \<subseteq> avail (fst st)
     \<and> (\<forall>v. lookup window (snd st') root v = lookup window (snd st) root v)
     \<and> (\<forall>x. x \<notin> tables T \<and> x \<notin> avail (fst st) \<longrightarrow> snd st' (x + window) = snd st (x + window))"

lemma extends_refl: "pt_ok st root T \<Longrightarrow> extends root st T st T"
  by (auto simp: extends_def)

lemma extends_trans:
  assumes a: "extends root st T st1 T1" and b: "extends root st1 T1 st2 T2"
  shows "extends root st T st2 T2"
  unfolding extends_def
proof (intro conjI allI impI)
  show "T \<subseteq>\<^sub>m T2" using a b map_le_trans by (auto simp: extends_def)
  fix x assume x: "x \<notin> tables T \<and> x \<notin> avail (fst st)"
  then have "x \<notin> tables T1 \<and> x \<notin> avail (fst st1)" using a by (auto simp: extends_def)
  then show "snd st2 (x + window) = snd st (x + window)" using a b x by (simp add: extends_def)
qed (use a b in \<open>auto simp: extends_def\<close>)

lemma partial_path_parent:
  assumes "pt_wf window lim m root T" "partial_path m T is es N" "Suc (Suc j) \<le> N" "length is = 4"
  obtains t n where "T t = Some (take j is)" "es ! j = Some (t + is ! j * 8)" "T n = Some (take j is @ [is ! j])"
    "es ! Suc j = Some (n + is ! Suc j * 8)"
proof -
  have j: "j < N" "Suc j < N" "N \<le> 4" using assms(2,3) by (auto simp: partial_path_def)
  obtain t where t: "T t = Some (take j is)" "es ! j = Some (t + is ! j * 8)"
    using assms(2) j(1) by (auto simp: partial_path_def)
  obtain n where n: "T n = Some (take (Suc j) is)" "es ! Suc j = Some (n + is ! Suc j * 8)"
    using assms(2) j(2) unfolding partial_path_def by blast
  have "take (Suc j) is = take j is @ [is ! j]"
    using j assms(4) by (intro take_Suc_conv_app_nth) simp
  with t n that show ?thesis by simp
qed

lemma partial_path_extend:
  assumes pp: "partial_path m T is es N" and N: "N < 4" and Tn: "T n = None"
    and wf: "pt_wf window lim m' root (T(n \<mapsto> take N is))" and n: "ent window m' (n + is ! N * 8) = 0"
  shows "partial_path m' (T(n \<mapsto> take N is)) is (es[N := Some (n + is ! N * 8)]) (Suc N)"
  unfolding partial_path_def
proof (intro conjI allI impI)
  let ?T = "T(n \<mapsto> take N is)"
  have es: "length es = 4" using pp by (simp add: partial_path_def)
  fix j assume j: "j < Suc N"
  show "\<exists>t. ?T t = Some (take j is) \<and> es[N := Some (n + is ! N * 8)] ! j = Some (t + is ! j * 8)"
  proof (cases "j = N")
    case True
    then show ?thesis using N es by (intro exI [of _ n]) simp
  next
    case False
    then have "j < N" using j by simp
    then obtain a where a: "T a = Some (take j is)" "es ! j = Some (a + is ! j * 8)"
      using pp unfolding partial_path_def by blast
    then have "a \<noteq> n" using Tn by auto
    with a False show ?thesis by (intro exI [of _ a]) simp
  qed
next
  fix j assume "Suc N \<le> j \<and> j < 4"
  then show "es[N := Some (n + is ! N * 8)] ! j = None"
    using pp by (simp add: partial_path_def)
next
  fix t' assume "(T(n \<mapsto> take N is)) t' = Some (take (Suc N - 1) is)"
  then have a: "(T(n \<mapsto> take N is)) t' = Some (take N is)" by (simp only: diff_Suc_1)
  have "t' = n"
    by (rule pt_path_inj [OF wf a fun_upd_same])
  then show "stuck (Suc N - 1) (ent window m' (t' + is ! (Suc N - 1) * 8))"
    using n by (simp add: stuck_def)
qed (use N pp in \<open>simp_all add: partial_path_def\<close>)

lemma create_table:
  assumes ok: "pt_ok (s, m) root T" and pp: "partial_path m T is es N" and N: "N < 4"
    and len: "length is = 4" and le: "\<forall>i\<in>set is. i \<le> 0x1FF"
    and al: "alloc s 4096 4096 = Done (Some n, s')"
  shows "\<exists>m' es'. table_loop pm is (Suc k) N es (s, m) = table_loop pm is k (Suc N) es' (s', m')
    \<and> extends root (s, m) T (s', m') (T(n \<mapsto> take N is))
    \<and> partial_path m' (T(n \<mapsto> take N is)) is es' (Suc N)"
proof -
  note fresh = fresh_table [OF ok al]
  let ?m1 = "fill_bytes m (n + window) 0 4096" and ?T = "T(n \<mapsto> take N is)"
  have le': "is ! j \<le> 0x1FF" if "j < 4" for j using le len that by simp
  have pp': "0 < N" "length es = 4" "es ! N = None" using pp N by (auto simp: partial_path_def)
  have ok1: "pt_ok (s', ?m1) root T" by (rule fresh(5))
  then have inv1: "inv s'" and wf1: "pt_wf window lim ?m1 root T" by (auto simp: pt_ok_def)
  obtain t where t: "T t = Some (take (N - 1) is)" "es ! (N - 1) = Some (t + is ! (N - 1) * 8)"
    and st: "stuck (N - 1) (ent window m (t + is ! (N - 1) * 8))"
    using pp pp'(1) unfolding partial_path_def by (metis diff_less zero_less_one)
  have lt: "length (take (N - 1) is) = N - 1" using len N by simp
  have tN: "take N is = take (N - 1) is @ [is ! (N - 1)]"
    using len N pp'(1) take_Suc_conv_app_nth [of "N - 1" "is"] by simp
  note tab = pt_wf_table [OF wf1 t(1)]
  have n64: "unat n + 4096 \<le> 2 ^ 64" using fresh(4) unat_u64_less [of lim] by simp
  obtain m2 where m2: "(if N \<ge> 2 then obind (array_get es (N - 2)) (\<lambda>e. obind (unwrap e) (\<lambda>e. bump_entry pm (s', ?m1) e))
      else Done (s', ?m1)) = Done (s', m2)"
    and ok2: "pt_ok (s', m2) root T" and lk2: "\<And>v. lookup window m2 root v = lookup window ?m1 root v"
    and t2: "ent window m2 (t + is ! (N - 1) * 8) = ent window ?m1 (t + is ! (N - 1) * 8)"
    and n2: "\<And>i. i \<le> 0x1FF \<Longrightarrow> ent window m2 (n + i * 8) = 0"
    and f2: "\<And>x. x \<notin> tables T \<Longrightarrow> m2 (x + window) = ?m1 (x + window)"
  proof (cases "N \<ge> 2")
    case False
    then show thesis using that [of ?m1] ok1 fresh(8) by simp
  next
    case True
    have wf: "pt_wf window lim m root T" using ok by (simp add: pt_ok_def)
    have "Suc (Suc (N - 2)) \<le> N" using True by simp
    then obtain u u' where u: "T u = Some (take (N - 2) is)" "es ! (N - 2) = Some (u + is ! (N - 2) * 8)"
      "T u' = Some (take (N - 2) is @ [is ! (N - 2)])"
      by (rule partial_path_parent [OF wf pp _ len])
    have "length (take (N - 1) is) \<noteq> length (take (N - 2) is)" using True N len by simp
    then have "u \<noteq> t" using u(1) t(1) by (metis option.inject)
    moreover have "u \<noteq> n" using u(1) fresh(2) by auto
    moreover have iu: "is ! (N - 2) \<le> 0x1FF" "is ! (N - 1) \<le> 0x1FF" using le' N by auto
    ultimately show thesis
      using that bump_entry_ok [OF ok1 u(1) iu(1) u(3)] True pp'(2) u(2) N tab(2,4) fresh(3,8) n64 by simp
  qed
  let ?link = "n OR PAGE_USER OR PAGE_WRITE OR PAGE_PRESENT"
  let ?m3 = "write_u64 m2 (t + is ! (N - 1) * 8 + window) ?link"
  have wf2: "pt_wf window lim m2 root T" using ok2 by (simp add: pt_ok_def)
  have i1: "is ! (N - 1) \<le> 0x1FF" "is ! N \<le> 0x1FF" using le' N by auto
  have "stuck (length (take (N - 1) is)) (ent window m2 (t + is ! (N - 1) * 8))"
    unfolding t2 lt using st fresh(9) [OF t(1) i1(1)] by simp
  note link = link_wf [OF wf2 window_aligned lim_bound t(1) i1(1) _ this fresh(2-4) n2, folded tN]
  have wf3: "pt_wf window lim ?m3 root ?T" and lk3: "\<And>v. lookup window ?m3 root v = lookup window m2 root v"
    and n3: "\<And>i. i \<le> 0x1FF \<Longrightarrow> ent window ?m3 (n + i * 8) = 0"
    using link(1,2,4) lt N by simp_all
  have ext: "extends root (s, m) T (s', ?m3) ?T"
    unfolding extends_def
  proof (intro conjI allI impI)
    show "pt_ok (s', ?m3) root ?T"
      using wf3 inv1 fresh(6) by (simp add: pt_ok_def)
    show "T \<subseteq>\<^sub>m ?T" using fresh(2) by (auto simp: map_le_def)
    show "tables ?T \<subseteq> tables T \<union> avail (fst (s, m))"
      using alloc_some [of s 12 n s'] al ok by (auto simp: tables_def dom_def pt_ok_def split: if_splits)
    fix x assume x: "x \<notin> tables T \<and> x \<notin> avail (fst (s, m))"
    then show "snd (s', ?m3) (x + window) = snd (s, m) (x + window)"
      using write_outside_tables [OF wf2 t(1) i1(1)] f2 fresh(10) by simp
  qed (use fresh(7,11) lk2 lk3 in simp_all)
  have "array_get is N = Done (is ! N)" "array_get es (N - 1) = Done (Some (t + is ! (N - 1) * 8))"
    "array_get es N = Done None"
    using N len pp' t(2) by simp_all
  then have "table_loop pm is (Suc k) N es (s, m)
      = table_loop pm is k (Suc N) (es[N := Some (n + is ! N * 8)]) (s', ?m3)"
    using fresh(1) translate_entry(3) [OF inv1 wf1 t(1) i1(1)] m2 pp' N
      entry_addr(2) [OF fresh(3) n64 i1(2)] by (simp add: Let_def padd_def)
  moreover have "partial_path ?m3 ?T is (es[N := Some (n + is ! N * 8)]) (Suc N)"
    using partial_path_extend [OF pp N fresh(2) wf3 n3 [OF i1(2)]] .
  ultimately show ?thesis using ext by blast
qed

text \<open>The loop from \<open>idx\<close>, \<open>n\<close> more iterations: it panics only when a frame cannot be allocated.\<close>

lemma table_loop_spec:
  assumes len: "length is = 4" and le: "\<forall>i\<in>set is. i \<le> 0x1FF"
  shows "pt_ok st root T \<Longrightarrow> partial_path (snd st) T is es N \<Longrightarrow> idx \<le> N \<Longrightarrow> idx + n \<le> 4 \<Longrightarrow>
    (\<exists>es' st' T'. table_loop pm is n idx es st = Done (es', st') \<and> extends root st T st' T'
       \<and> partial_path (snd st') T' is es' (max N (idx + n)))
    \<or> (table_loop pm is n idx es st = Panic \<and> \<not> can_alloc alloc n (fst st))"
proof (induction n arbitrary: st T es N idx)
  case 0
  then show ?case using extends_refl [OF "0.prems"(1)] by (auto simp: max_def)
next
  case (Suc n)
  obtain s m where st: "st = (s, m)" by fastforce
  have es: "length es = 4" using Suc.prems(2) by (simp add: partial_path_def)
  show ?case
  proof (cases "idx < N")
    case True
    then have "es ! idx \<noteq> None"
      using Suc.prems(2) by (auto simp: partial_path_def)
    then have step: "table_loop pm is (Suc n) idx es st = table_loop pm is n (Suc idx) es st"
      using es Suc.prems(4) by simp
    have m: "max N (Suc idx + n) = max N (idx + Suc n)" by simp
    show ?thesis
      using Suc.IH [OF Suc.prems(1,2), of "Suc idx"] Suc.prems(4) True can_alloc_Suc [of alloc n "fst st"]
      unfolding step m by auto
  next
    case False
    then have idx: "idx = N" and N: "N < 4" using Suc.prems(3,4) by auto
    have none: "es ! N = None" using Suc.prems(2) N by (simp add: partial_path_def)
    have inv: "inv s" using Suc.prems(1) by (simp add: pt_ok_def st)
    obtain r s' where al: "alloc s 4096 4096 = Done (r, s')"
      using alloc_total [OF inv, of 12] by auto
    show ?thesis
    proof (cases r)
      case None
      then have "table_loop pm is (Suc n) idx es st = Panic"
        using al es none N idx by (simp add: st alloc_phys_zeroed_def alloc_pure)
      then show ?thesis using al None by (simp add: st)
    next
      case (Some f)
      obtain m' es' T1 where c: "table_loop pm is (Suc n) N es (s, m) = table_loop pm is n (Suc N) es' (s', m')"
        "extends root (s, m) T (s', m') T1" "partial_path (snd (s', m')) T1 is es' (Suc N)"
        using create_table [OF Suc.prems(1,2) [unfolded st snd_conv] N len le] al Some
        unfolding snd_conv by blast
      have ok1: "pt_ok (s', m') root T1" using c(2) by (simp add: extends_def)
      have m: "max (Suc N) (Suc N + n) = max N (N + Suc n)" by simp
      have "Suc N + n \<le> 4" using Suc.prems(4) idx by simp
      from Suc.IH [OF ok1 c(3) order_refl this] show ?thesis
        unfolding idx m st c(1)
      proof (elim disjE exE conjE)
        fix es'' st' T'
        assume "table_loop pm is n (Suc N) es' (s', m') = Done (es'', st')"
          "extends root (s', m') T1 st' T'" "partial_path (snd st') T' is es'' (max N (N + Suc n))"
        then show "(\<exists>es'' st' T'. table_loop pm is n (Suc N) es' (s', m') = Done (es'', st')
            \<and> extends root (s, m) T st' T' \<and> partial_path (snd st') T' is es'' (max N (N + Suc n)))
          \<or> table_loop pm is n (Suc N) es' (s', m') = Panic \<and> \<not> can_alloc alloc (Suc n) (fst (s, m))"
          using extends_trans [OF c(2)] by blast
      qed (use al Some in simp)
    qed
  qed
qed

lemma tree_prefix:
  "pt_wf window lim m root T \<Longrightarrow> T t = Some (p @ q) \<Longrightarrow> \<exists>t'. T t' = Some p"
proof (induction q arbitrary: t rule: rev_induct)
  case (snoc i q)
  have "T t = Some ((p @ q) @ [i])" using snoc.prems(2) by simp
  from pt_wf_parent [OF snoc.prems(1) this] obtain u where "T u = Some (p @ q)" by blast
  from snoc.IH [OF snoc.prems(1) this] show ?case .
qed auto

text \<open>A partial walk stops above every table that the address does not lead to.\<close>

lemma partial_path_max:
  assumes wf: "pt_wf window lim m root T" and pp: "partial_path m T is es N" and "length is = 4" "d < 4"
  shows "es ! d \<noteq> None \<longleftrightarrow> (\<exists>t. T t = Some (take d is))"
proof
  assume "es ! d \<noteq> None"
  then have "d < N" using partial_pathD(5) [OF pp _ assms(4)] by (meson not_le)
  then show "\<exists>t. T t = Some (take d is)" using partial_pathD(4) [OF pp] by blast
next
  assume "\<exists>t. T t = Some (take d is)"
  then obtain t where t: "T t = Some (take d is)" ..
  have "\<not> N \<le> d"
  proof
    assume "N \<le> d"
    then have "take d is = take N is @ take (d - N) (drop N is)"
      by (metis take_add le_add_diff_inverse)
    moreover have tN: "take N is = take (N - 1) is @ [is ! (N - 1)]"
      using partial_pathD(1,2) [OF pp] assms(3) take_Suc_conv_app_nth [of "N - 1" "is"] by simp
    ultimately obtain n where "T n = Some (take N is)"
      using tree_prefix [OF wf] t by metis
    then have "T n = Some (take (N - 1) is @ [is ! (N - 1)])"
      unfolding tN .
    from pt_wf_parent [OF wf this] obtain u where u: "T u = Some (take (N - 1) is)"
      "refers window m (length (take (N - 1) is)) (u + is ! (N - 1) * 8) n" by blast
    moreover have "length (take (N - 1) is) = N - 1" using partial_pathD(2) [OF pp] assms(3) by simp
    ultimately show False using stuck_refers [OF partial_pathD(6) [OF pp u(1)]] by simp
  qed
  then show "es ! d \<noteq> None" using partial_pathD(4) [OF pp, of d] by auto
qed

text \<open>What adding a page does: the addresses that share its first \<open>d\<close> indices translate to it, all
  others as before, and memory is unchanged outside the tables and the frames taken for them.\<close>

definition page_added ::
  "page_table \<Rightarrow> virt_addr \<Rightarrow> nat \<Rightarrow> u64 \<Rightarrow> 's machine \<Rightarrow> (phys_addr \<rightharpoonup> u64 list) \<Rightarrow> 's machine
    \<Rightarrow> (phys_addr \<rightharpoonup> u64 list) \<Rightarrow> bool" where
  "page_added root v d raw st T st' T' \<longleftrightarrow> pt_ok st' root T'
     \<and> tables T' \<subseteq> tables T \<union> avail (fst st) \<and> avail (fst st') \<subseteq> avail (fst st)
     \<and> (\<forall>v'. lookup window (snd st') root v' =
          (if take d (get_indices v') = take d (get_indices v) then leaf_page (d - 1) v' raw
           else lookup window (snd st) root v'))
     \<and> (\<forall>x. x \<notin> tables T \<and> x \<notin> avail (fst st) \<longrightarrow> snd st' (x + window) = snd st (x + window))"

text \<open>The end of \<open>map_raw\<close>: the last reference count and the page itself.\<close>

lemma write_page:
  assumes ok: "pt_ok (s, m) root T" and pp: "partial_path m T (get_indices v) es d"
    and d: "2 \<le> d" "d \<le> 4" and raw: "bit raw 0" "leaf (d - 1) raw"
  shows "\<exists>e e' s2 m2 ptr. array_get es (d - 2) = Done (Some e) \<and> bump_entry pm (s, m) e = Done (s2, m2)
    \<and> array_get es (d - 1) = Done (Some e') \<and> translate_mut pm s2 e' 8 = Done (Some ptr)
    \<and> page_added root v d raw (s, m) T (s2, write_u64 m2 ptr raw) T"
proof -
  let ?is = "get_indices v"
  have inv: "inv s" and wf: "pt_wf window lim m root T" using ok by (auto simp: pt_ok_def)
  have d1: "Suc (Suc (d - 2)) \<le> d" "Suc (d - 2) = d - 1" "Suc (d - 1) = d" using d by auto
  have le: "?is ! j \<le> 0x1FF" if "j < 4" for j using that indices_le [of "?is ! j" v] by simp
  obtain u n where u: "T u = Some (take (d - 2) ?is)" "es ! (d - 2) = Some (u + ?is ! (d - 2) * 8)"
    "T n = Some (take (d - 2) ?is @ [?is ! (d - 2)])" "es ! (d - 1) = Some (n + ?is ! (d - 1) * 8)"
    using partial_path_parent [OF wf pp d1(1) length_indices] unfolding d1(2) by metis
  have tk: "take (d - 2) ?is @ [?is ! (d - 2)] = take (d - 1) ?is"
    using d take_Suc_conv_app_nth [of "d - 2" ?is] unfolding d1(2) by simp
  have n: "T n = Some (take (d - 1) ?is)" using u(3) tk by simp
  have len: "length (take (d - 1) ?is) = d - 1" using d by simp
  let ?m2 = "write_u64 m (u + ?is ! (d - 2) * 8 + window) (bump_refcount (ent window m (u + ?is ! (d - 2) * 8)))"
  have iu: "?is ! (d - 2) \<le> 0x1FF" "?is ! (d - 1) \<le> 0x1FF" using le d by auto
  note bump = bump_entry_ok [OF ok u(1) iu(1) u(3)]
  have wf2: "pt_wf window lim ?m2 root T" using bump(2) by (simp add: pt_ok_def)
  have "length (take (d - 2) ?is) \<noteq> length (take (d - 1) ?is)" using d by simp
  then have "n \<noteq> u" using u(1) n by (metis option.inject)
  then have "ent window ?m2 (n + ?is ! (d - 1) * 8) = ent window m (n + ?is ! (d - 1) * 8)"
    by (intro bump(4) iu(2) pt_wf_table(2,4) [OF wf n])
  then have stuck: "stuck (length (take (d - 1) ?is)) (ent window ?m2 (n + ?is ! (d - 1) * 8))"
    using pp n unfolding len by (simp add: partial_path_def)
  let ?m3 = "write_u64 ?m2 (n + ?is ! (d - 1) * 8 + window) raw"
  have "take (d - 1) ?is @ [?is ! (d - 1)] = take d ?is"
    using d take_Suc_conv_app_nth [of "d - 1" ?is] unfolding d1(3) by simp
  then have wf3: "pt_wf window lim ?m3 root T" and lk: "\<And>v'. lookup window ?m3 root v' =
      (if take d (get_indices v') = take d ?is then leaf_page (d - 1) v' raw else lookup window ?m2 root v')"
    using leaf_wf [OF wf2 window_aligned n iu(2) stuck raw(1)] raw(2) unfolding len d1(3) by simp_all
  have "page_added root v d raw (s, m) T (s, ?m3) T"
    using ok wf3 lk bump(3,5) write_outside_tables [OF wf n iu(2)]
    by (simp add: page_added_def pt_ok_def)
  moreover have "length es = 4" using pp by (simp add: partial_path_def)
  ultimately show ?thesis
    using bump(1) u(2,4) d translate_entry(3) [OF inv wf n iu(2)]
    by (intro exI [of _ "u + ?is ! (d - 2) * 8"] exI [of _ "n + ?is ! (d - 1) * 8"] exI [of _ s] exI [of _ ?m2]
        exI [of _ "n + ?is ! (d - 1) * 8 + window"]) simp
qed

lemma page_added_extends:
  assumes "extends root st T st1 T1" and "page_added root v d raw st1 T1 st2 T2"
  shows "page_added root v d raw st T st2 T2"
  unfolding page_added_def
proof (intro conjI allI impI)
  fix x assume x: "x \<notin> tables T \<and> x \<notin> avail (fst st)"
  then have "x \<notin> tables T1 \<and> x \<notin> avail (fst st1)" using assms(1) by (auto simp: extends_def)
  then show "snd st2 (x + window) = snd st (x + window)"
    using assms x by (simp add: extends_def page_added_def)
qed (use assms in \<open>auto simp: extends_def page_added_def\<close>)

text \<open>\<open>map_raw\<close> on every branch. The errors leave the machine as it was, and are reported exactly when
  they apply; otherwise the page is added, unless a frame for a table cannot be allocated.\<close>

lemma map_raw_error:
  assumes ok: "pt_ok st root T"
  shows "\<not> raw_valid ptype raw \<Longrightarrow> map_raw pm st root v ptype raw = Done (Inl InvalidPage, st)"
    and "raw_valid ptype raw \<Longrightarrow> \<not> canonical v
      \<Longrightarrow> map_raw pm st root v ptype raw = Done (Inl AddressNotCanonical, st)"
    and "raw_valid ptype raw \<Longrightarrow> canonical v \<Longrightarrow> lookup window (snd st) root v \<noteq> None
      \<Longrightarrow> map_raw pm st root v ptype raw = Done (Inl MappedAlready, st)"
    and "raw_valid ptype raw \<Longrightarrow> canonical v \<Longrightarrow> lookup window (snd st) root v = None
      \<Longrightarrow> ptype \<noteq> Page4K \<Longrightarrow> T t = Some (take (page_depth ptype) (get_indices v))
      \<Longrightarrow> map_raw pm st root v ptype raw = Done (Inl SmallerPagesPresent, st)"
proof -
  show "\<not> raw_valid ptype raw \<Longrightarrow> map_raw pm st root v ptype raw = Done (Inl InvalidPage, st)"
    by (auto simp: map_raw_def raw_valid_def)
  show "raw_valid ptype raw \<Longrightarrow> \<not> canonical v
      \<Longrightarrow> map_raw pm st root v ptype raw = Done (Inl AddressNotCanonical, st)"
    using components_spec(2) [OF ok] by (auto simp: map_raw_def raw_valid_def)
  show "raw_valid ptype raw \<Longrightarrow> canonical v \<Longrightarrow> lookup window (snd st) root v \<noteq> None
      \<Longrightarrow> map_raw pm st root v ptype raw = Done (Inl MappedAlready, st)"
    using components_spec(1) [OF ok] by (fastforce simp: map_raw_def raw_valid_def)
  assume a: "raw_valid ptype raw" "canonical v" "lookup window (snd st) root v = None"
    "ptype \<noteq> Page4K" "T t = Some (take (page_depth ptype) (get_indices v))"
  obtain r N where r: "components pm st root v = Done (Inr r)" "page r = None"
    and pp: "partial_path (snd st) T (get_indices v) (levels r) N"
    using components_spec(1) [OF ok a(2)] a(3) by auto
  have d: "page_depth ptype < 4" using a(4) by (cases ptype) (auto simp: page_depth_def)
  have "levels r ! page_depth ptype \<noteq> None"
    using partial_path_max [OF _ pp length_indices d] a(5) ok by (auto simp: pt_ok_def)
  then show "map_raw pm st root v ptype raw = Done (Inl SmallerPagesPresent, st)"
    using a(1) r d by (auto simp: map_raw_def raw_valid_def levels_def Let_def)
qed

lemma map_raw_done:
  assumes ok: "pt_ok st root T" and raw: "raw_valid ptype raw" and v: "canonical v"
    and none: "lookup window (snd st) root v = None"
    and small: "ptype = Page4K \<or> (\<forall>t. T t \<noteq> Some (take (page_depth ptype) (get_indices v)))"
  shows "(\<exists>st' T'. map_raw pm st root v ptype raw = Done (Inr (), st')
      \<and> page_added root v (page_depth ptype) raw st T st' T')
    \<or> (map_raw pm st root v ptype raw = Panic \<and> \<not> can_alloc alloc (page_depth ptype - 1) (fst st))"
proof -
  let ?d = "page_depth ptype" and ?is = "get_indices v"
  obtain r N where r: "components pm st root v = Done (Inr r)" "page r = None"
    and pp: "partial_path (snd st) T ?is (levels r) N"
    using components_spec(1) [OF ok v] none by auto
  have wf: "pt_wf window lim (snd st) root T" using ok by (simp add: pt_ok_def)
  have d: "2 \<le> ?d" "?d \<le> 4" "?d = 4 \<longleftrightarrow> ptype = Page4K" by (cases ptype; simp add: page_depth_def)+
  have no: "\<not> (?d < 4 \<and> levels r ! ?d \<noteq> None)"
    using partial_path_max [OF wf pp length_indices, of ?d] small d by auto
  have N: "N \<le> ?d"
    using no partial_pathD(2,4) [OF pp] d by (metis le_neq_implies_less not_le option.distinct(1))
  have pml4: "levels r ! 0 \<noteq> None" using partial_pathD(1,4) [OF pp] by (metis option.distinct(1))
  have step: "map_raw pm st root v ptype raw =
      obind (table_loop pm ?is (?d - 1) 1 (levels r) st) (\<lambda>(entries, st).
        obind (array_get entries (?d - 2)) (\<lambda>e. obind (unwrap e) (\<lambda>e. obind (bump_entry pm st e) (\<lambda>st.
        obind (array_get entries (?d - 1)) (\<lambda>e. obind (unwrap e) (\<lambda>e.
        obind (translate_mut pm (fst st) e 8) (\<lambda>ptr. obind (unwrap ptr) (\<lambda>ptr.
          Done (Inr (), (fst st, write_u64 (snd st) ptr raw))))))))))"
    using raw r no pml4 by (auto simp: map_raw_def raw_valid_def levels_def Let_def)
  have le: "\<forall>i\<in>set ?is. i \<le> 0x1FF" using indices_le by blast
  have mx: "max N (1 + (?d - 1)) = ?d" "1 \<le> N" "1 + (?d - 1) \<le> 4" using N d partial_pathD(1) [OF pp] by auto
  from table_loop_spec [OF length_indices le ok pp mx(2,3)] show ?thesis
    unfolding mx(1)
  proof (elim disjE exE conjE)
    fix es' st1 T1
    assume l: "table_loop pm ?is (?d - 1) 1 (levels r) st = Done (es', st1)"
      and ext: "extends root st T st1 T1" and pp1: "partial_path (snd st1) T1 ?is es' ?d"
    obtain s1 m1 where st1: "st1 = (s1, m1)" by fastforce
    have "leaf (?d - 1) raw" "bit raw 0" using raw d by (auto simp: raw_valid_def leaf_def)
    then obtain e e' s2 m2 ptr where w: "array_get es' (?d - 2) = Done (Some e)"
      "bump_entry pm (s1, m1) e = Done (s2, m2)" "array_get es' (?d - 1) = Done (Some e')"
      "translate_mut pm s2 e' 8 = Done (Some ptr)"
      "page_added root v ?d raw (s1, m1) T1 (s2, write_u64 m2 ptr raw) T1"
      using write_page [OF _ _ d(1,2), of s1 m1 root T1 v es' raw] ext pp1 unfolding extends_def st1 by auto
    have "map_raw pm st root v ptype raw = Done (Inr (), (s2, write_u64 m2 ptr raw))"
      unfolding step l using w by (simp add: st1)
    then show ?thesis
      using page_added_extends [OF ext] w(5) st1 by blast
  next
    assume "table_loop pm ?is (?d - 1) 1 (levels r) st = Panic" "\<not> can_alloc alloc (?d - 1) (fst st)"
    then show ?thesis by (simp add: step)
  qed
qed

text \<open>A new page table.\<close>

lemma new_table:
  assumes inv: "inv s" and new: "page_table_new pm (s, m) = Done (Some root, st')"
  shows "pt_ok st' root [root \<mapsto> []] \<and> (\<forall>v. lookup window (snd st') root v = None)
    \<and> root \<in> avail s \<and> root \<notin> avail (fst st')"
proof -
  from new obtain s' where al: "alloc s 4096 4096 = Done (Some root, s')"
    by (auto simp: page_table_new_def alloc_phys_zeroed_def alloc_pure split: option.splits)
  have some: "inv s' \<and> 4096 dvd unat root \<and> unat root + 4096 \<le> unat lim
      \<and> (\<forall>x. root \<le> x \<and> unat x < unat root + 4096 \<longrightarrow> x \<in> avail s \<and> x \<notin> avail s')"
    using alloc_some [OF inv, of 12 root s'] al by simp
  have st': "st' = (s', fill_bytes m (root + window) 0 4096)"
    using new al translate_in [of s' 4096 root] some by (simp add: page_table_new_def alloc_phys_zeroed_def alloc_pure)
  have zero: "ent window (snd st') (root + i * 8) = 0" if "i \<le> 0x1FF" for i
  proof -
    have "unat i \<le> 511" using that by (simp add: word_le_nat_alt)
    then have "unat (i * 8) + 8 \<le> 4096"
      using unat_mult_lem [THEN iffD1, of i 8] by simp
    then show ?thesis
      unfolding ent_def st' snd_conv by (intro read_u64_fill) (simp_all add: algebra_simps)
  qed
  have "pt_wf window lim (snd st') root [root \<mapsto> []]"
    using some zero by (auto simp: pt_wf_def refers_def split: if_splits)
  moreover have "tables [root \<mapsto> []] \<inter> avail s' = {}"
    using some by (auto simp: tables_def)
  moreover have "lookup window (snd st') root v = None" for v
  proof -
    have "get_indices v ! 0 \<le> 0x1FF" using indices_le [of "get_indices v ! 0" v] by simp
    then show ?thesis using zero [of "get_indices v ! 0"] by (simp add: lookup_def get_indices_def)
  qed
  ultimately show ?thesis
    using some by (simp add: pt_ok_def st')
qed

end

end
