(* ===== verification/Page_Map.thy ===== *)
theory Page_Map
  imports Page_Table_Correct
begin

text \<open>
  \<open>map_init\<close> of \<open>src/shared/page_table\<close>, for requests of 4-KiB pages, inside the contract of a physical memory:
  with enough memory it maps every page of the request to a frame of its own that holds the bytes of the
  initialiser, and changes no other translation.
\<close>

definition frame :: "phys_addr \<Rightarrow> u64 set" where
  "frame f = {x. f \<le> x \<and> unat x < unat f + 4096}"

lemma frame_offset:
  assumes "unat f + 4096 \<le> 2 ^ 64" "off < 4096"
  shows "f + of_nat off \<in> frame f" "unat (f + of_nat off - f) = off"
proof -
  have "unat (f + of_nat off) = unat f + off"
    using assms by (subst unat_add_no_overflow) (simp_all add: unat_of_nat_small)
  then show "f + of_nat off \<in> frame f" using assms(2) by (simp add: frame_def word_le_nat_alt)
  show "unat (f + of_nat off - f) = off" using assms(2) by (simp add: unat_of_nat_small)
qed

text \<open>The entry of a 4-KiB page.\<close>

lemma page_entry:
  fixes p :: permissions
  assumes "4096 dvd unat f" "unat f < 2 ^ 52"
  defines "e \<equiv> f OR PAGE_PRESENT OR permission_bits p OR size_bit Page4K"
  shows "target e = f" "bit e 0"
proof -
  have low: "\<not> bit f k" if "k < 12" for k using assms(1) aligned_low_bits [of 12 f k] that by simp
  have high: "\<not> bit f k" if "52 \<le> k" for k using small_high_bits [OF assms(2) that] .
  have perm: "\<not> bit (permission_bits p) k" if "12 \<le> k" "k < 52" for k
    using that by (simp add: permission_bits_def bit_or_iff bit_flags)
  show "target e = f"
    by (rule bit_word_eqI)
      (use low high perm in \<open>auto simp: e_def bit_target bit_or_iff bit_flags size_bit_def not_le intro: leI\<close>)
  show "bit e 0" by (simp add: e_def bit_or_iff bit_flags)
qed

lemma leaf_page_4k: "4096 dvd unat f \<Longrightarrow> target e = f \<Longrightarrow> leaf_page 3 v e = Some (f, v AND 0xFFF, e)"
proof -
  assume f: "4096 dvd unat f" "target e = f"
  have "f AND NOT 0xFFF = f"
  proof -
    have m: "(0xFFF :: u64) = mask 12" by code_simp
    show ?thesis
      unfolding m by (rule bit_word_eqI) (use aligned_low_bits [of 12 f] f(1) in
        \<open>auto simp: bit_and_iff bit_not_iff bit_mask_iff\<close>)
  qed
  then show ?thesis using f(2) by (simp add: leaf_page_def)
qed

definition page_addr :: "virt_addr \<Rightarrow> nat \<Rightarrow> virt_addr" where
  "page_addr v j = v + of_nat (j * 4096)"

lemma page_addr_unat:
  assumes "unat v + sz \<le> 2 ^ 64" "0 < sz" "j < Suc ((sz - 1) div 4096)"
  shows "unat (page_addr v j) = unat v + j * 4096"
proof -
  have "j * 4096 \<le> (sz - 1) div 4096 * 4096" using assms(3) by (intro mult_le_mono1) simp
  also have "\<dots> \<le> sz - 1" by (simp add: div_times_less_eq_dividend)
  finally have "j * 4096 < sz" using assms(2) by simp
  then show ?thesis unfolding page_addr_def
    using assms(1) by (subst unat_add_no_overflow) (simp_all add: unat_of_nat_small del: of_nat_mult)
qed

text \<open>Canonical addresses of pages with the same indices are equal.\<close>

lemma page_addr_eq:
  assumes "canonicalize_address 16 v = Done v" "canonicalize_address 16 v' = Done v'" "4096 dvd unat v" "4096 dvd unat v'"
    and "get_indices v = get_indices v'"
  shows "v = v'"
proof -
  have "v AND NOT (mask 12) = v' AND NOT (mask 12)"
    using same_page_iff [OF assms(1,2), of 4] assms(5) by simp
  moreover have "w AND NOT (mask 12) = w" if "4096 dvd unat w" for w :: u64
    by (rule bit_word_eqI) (use aligned_low_bits [of 12 w] that in \<open>auto simp: bit_and_iff bit_not_iff bit_mask_iff\<close>)
  ultimately show ?thesis using assms(3,4) by simp
qed

lemma can_alloc_le: "m \<le> n \<Longrightarrow> can_alloc alloc n s \<Longrightarrow> can_alloc alloc m s"
  by (induction n) (auto simp: le_Suc_eq dest: can_alloc_Suc simp del: can_alloc.simps)

context phys_memory
begin

text \<open>What every operation on the tables leaves alone.\<close>

definition grows :: "page_table \<Rightarrow> 's machine \<Rightarrow> (phys_addr \<rightharpoonup> u64 list) \<Rightarrow> 's machine \<Rightarrow> (phys_addr \<rightharpoonup> u64 list) \<Rightarrow> bool" where
  "grows root st T st' T' \<longleftrightarrow> pt_ok st' root T'
     \<and> tables T' \<subseteq> tables T \<union> avail (fst st) \<and> avail (fst st') \<subseteq> avail (fst st)
     \<and> (\<forall>x. x \<notin> tables T \<and> x \<notin> avail (fst st) \<longrightarrow> snd st' (x + window) = snd st (x + window))"

lemma grows_refl: "pt_ok st root T \<Longrightarrow> grows root st T st T"
  by (simp add: grows_def)

lemma grows_trans: "grows root st T st1 T1 \<Longrightarrow> grows root st1 T1 st2 T2 \<Longrightarrow> grows root st T st2 T2"
  unfolding grows_def by (auto simp: subset_iff)

lemma page_added_grows: "page_added root v d raw st T st' T' \<Longrightarrow> grows root st T st' T'"
  by (simp add: page_added_def grows_def)

text \<open>Writes to free memory do not touch the tables.\<close>

lemma write_to_free:
  assumes ok: "pt_ok (s, m) root T" and inv: "inv s'" "avail s' \<subseteq> avail s"
    and same: "\<And>x. x \<notin> avail s \<Longrightarrow> m' (x + window) = m (x + window)"
  shows "grows root (s, m) T (s', m') T" "lookup window m' root v = lookup window m root v"
proof -
  have wf: "pt_wf window lim m root T" and dis: "tables T \<inter> avail s = {}" using ok by (auto simp: pt_ok_def)
  have e: "ent window m' (t + i * 8) = ent window m (t + i * 8)" if t: "T t = Some p" "i \<le> 0x1FF" for t p i
    unfolding ent_def
  proof (rule read_u64_cong)
    fix k :: nat assume k: "k < 8"
    note tab = pt_wf_table [OF wf t(1)]
    have ui: "unat i \<le> 511" using t(2) by (simp add: word_le_nat_alt)
    have a: "unat (t + i * 8) = unat t + 8 * unat i" using entry_addr(1) [OF tab(2,4) t(2)] .
    have "unat (t + i * 8 + of_nat k) = unat t + 8 * unat i + k"
      using a ui k tab(4) by (subst unat_add_no_overflow) (simp_all add: unat_of_nat_small)
    then have "t + i * 8 + of_nat k \<in> tables T"
      using t(1) ui k by (auto simp: tables_def dom_def word_le_nat_alt)
    then have "t + i * 8 + of_nat k \<notin> avail s" using dis by blast
    then show "m' (t + i * 8 + window + of_nat k) = m (t + i * 8 + window + of_nat k)"
      using same [of "t + i * 8 + of_nat k"] by (simp add: algebra_simps)
  qed
  show "lookup window m' root v = lookup window m root v" by (rule pt_wf_same(2) [OF wf e])
  show "grows root (s, m) T (s', m') T"
    using pt_wf_same(1) [OF wf e] inv dis same by (auto simp: grows_def pt_ok_def)
qed

lemma fresh_frame:
  assumes ok: "pt_ok (s, m) root T" and al: "alloc s 4096 4096 = Done (Some f, s')" and len: "length bytes = 4096"
  defines "m' \<equiv> write_bytes_at m (f + window) bytes"
  shows "grows root (s, m) T (s', m') T" "\<And>v. lookup window m' root v = lookup window m root v"
    and "4096 dvd unat f" "unat f + 4096 \<le> unat lim" "frame f \<subseteq> avail s" "frame f \<inter> avail s' = {}"
    and "\<And>off. off < 4096 \<Longrightarrow> m' (f + of_nat off + window) = bytes ! off"
proof -
  have "inv s" using ok by (simp add: pt_ok_def)
  then have some: "inv s' \<and> 2 ^ 12 dvd unat f \<and> unat f + 2 ^ 12 \<le> unat lim
      \<and> (\<forall>x. f \<le> x \<and> unat x < unat f + 2 ^ 12 \<longrightarrow> x \<in> avail s \<and> x \<notin> avail s') \<and> avail s' \<subseteq> avail s"
    using alloc_some [of s 12 f s'] al by simp
  then show f: "4096 dvd unat f" "unat f + 4096 \<le> unat lim" "frame f \<subseteq> avail s" "frame f \<inter> avail s' = {}"
    by (auto simp: frame_def)
  have f64: "unat f + 4096 \<le> 2 ^ 64" using f(2) unat_u64_less [of lim] by simp
  have diff: "a + window - (f + window) = a - f" for a :: u64 by simp
  have same: "m' (x + window) = m (x + window)" if "x \<notin> avail s" for x
  proof -
    have "\<not> unat (x - f) < 4096" using that f(3) unat_diff_less [OF f64, of x] by (auto simp: frame_def)
    then show ?thesis by (simp add: m'_def write_bytes_at_def len)
  qed
  show "m' (f + of_nat off + window) = bytes ! off" if "off < 4096" for off
    using that by (simp add: m'_def write_bytes_at_def len unat_of_nat_small)
  show "grows root (s, m) T (s', m') T" "lookup window m' root v = lookup window m root v" for v
    using write_to_free [OF ok, of s' m'] some same by blast+
qed

text \<open>How many frames the tables of a page may take.\<close>

lemma bump_entry_fst: "bump_entry pm st a = Done st' \<Longrightarrow> fst st' = fst st"
  by (auto simp: bump_entry_def)

lemma alloc_phys_zeroed_fst:
  assumes "alloc_phys_zeroed pm st 4096 4096 = Done (Some t, st')" "can_alloc alloc (Suc n) (fst st)"
  shows "can_alloc alloc n (fst st')"
proof -
  obtain s m where st: "st = (s, m)" by fastforce
  obtain a s' where "alloc s 4096 4096 = Done (Some a, s')" "fst st' = s'"
    using assms(1) by (auto simp: alloc_phys_zeroed_def st alloc_pure split: option.splits)
  then show ?thesis using assms(2) by (simp add: st)
qed

lemma table_loop_new:
  assumes "table_loop pm is (Suc n) idx es st = Done r" "array_get es idx = Done None"
    "alloc_phys_zeroed pm st 4096 4096 = Done (Some f, st1)"
  shows "\<exists>es1 st2. table_loop pm is n (idx + 1) es1 st2 = Done r \<and> fst st2 = fst st1"
proof -
  let ?bump = "if idx \<ge> 2 then obind (array_get es (idx - 2)) (\<lambda>e. obind (unwrap e) (\<lambda>e. bump_entry pm st1 e)) else Done st1"
  obtain ptr st2 es1 where b: "?bump = Done st2"
    and r: "table_loop pm is n (idx + 1) es1 (fst st2, write_u64 (snd st2) ptr (f OR PAGE_USER OR PAGE_WRITE OR PAGE_PRESENT)) = Done r"
    using assms by (simp only: table_loop.simps obind_simps obind_eq_Done prod.case Let_def option.distinct
        not_Some_eq simp_thms if_False unwrap_simps) blast
  have "fst st2 = fst st1" using b by (auto dest: bump_entry_fst split: if_splits)
  then show ?thesis using r by (intro exI conjI) (assumption, simp)
qed

lemma table_loop_can_alloc:
  "table_loop pm is n idx es st = Done (es', st') \<Longrightarrow> can_alloc alloc (n + k) (fst st) \<Longrightarrow> can_alloc alloc k (fst st')"
proof (induction n arbitrary: idx es st)
  case (Suc n)
  have c: "can_alloc alloc (Suc (n + k)) (fst st)" using Suc.prems(2) by simp
  obtain cur where cur: "array_get es idx = Done cur" using Suc.prems(1) by auto
  show ?case
  proof (cases cur)
    case (Some a)
    then have "table_loop pm is n (idx + 1) es st = Done (es', st')" using Suc.prems(1) cur by simp
    then show ?thesis using Suc.IH can_alloc_Suc [OF c] by blast
  next
    case None
    obtain t st1 where al: "alloc_phys_zeroed pm st 4096 4096 = Done (t, st1)" "t \<noteq> None"
      using Suc.prems(1) cur None by (auto split: prod.splits)
    then obtain f where f: "t = Some f" by blast
    have c1: "can_alloc alloc (n + k) (fst st1)" using alloc_phys_zeroed_fst [of st f st1 "n + k"] al(1) f c by blast
    obtain es1 st2 where "table_loop pm is n (idx + 1) es1 st2 = Done (es', st')" "fst st2 = fst st1"
      using table_loop_new [OF Suc.prems(1), of f st1] cur None al(1) f by blast
    then show ?thesis using Suc.IH c1 by simp
  qed
qed simp

lemma map_raw_can_alloc:
  assumes "map_raw pm st root v ptype raw = Done (Inr (), st')" "can_alloc alloc (page_depth ptype - 1 + k) (fst st)"
  shows "can_alloc alloc k (fst st')"
proof -
  have "\<exists>m. components pm st root v = Done (Inr m)"
    using assms(1) by (cases "components pm st root v"; cases "\<exists>e. components pm st root v = Done (Inl e)")
      (auto simp: map_raw_def split: if_splits sum.splits)
  then obtain m where m: "components pm st root v = Done (Inr m)" by blast
  obtain es' st1 where l: "table_loop pm (get_indices v) (page_depth ptype - 1) 1 (levels m) st = Done (es', st1)"
    and e: "fst st' = fst st1"
    using assms(1) unfolding map_raw_def m levels_def
    by (auto simp: assert_that_def Let_def bump_entry_fst split: if_splits dest!: bump_entry_fst)
  then show ?thesis using table_loop_can_alloc [OF l assms(2)] by simp
qed

text \<open>The page of \<open>v\<close> is mapped to the frame \<open>f\<close>, which holds the bytes \<open>b\<close> and belongs to nobody else.\<close>

definition holds :: "'s machine \<Rightarrow> page_table \<Rightarrow> (phys_addr \<rightharpoonup> u64 list) \<Rightarrow> virt_addr \<Rightarrow> phys_addr \<Rightarrow> u64 \<Rightarrow> (nat \<Rightarrow> u8) \<Rightarrow> bool" where
  "holds st root T v f e b \<longleftrightarrow> unat f + 4096 \<le> 2 ^ 64 \<and> frame f \<inter> (tables T \<union> avail (fst st)) = {}
     \<and> (\<forall>v'. get_indices v' = get_indices v \<longrightarrow> lookup window (snd st) root v' = Some (f, v' AND 0xFFF, e))
     \<and> (\<forall>off < 4096. snd st (f + of_nat off + window) = b off)"

lemma holds_grows:
  assumes h: "holds st root T v f e b" and g: "grows root st T st' T'"
    and l: "\<And>v'. get_indices v' = get_indices v \<Longrightarrow> lookup window (snd st') root v' = lookup window (snd st) root v'"
  shows "holds st' root T' v f e b"
proof -
  have f: "unat f + 4096 \<le> 2 ^ 64" "frame f \<inter> (tables T \<union> avail (fst st)) = {}" using h by (simp_all add: holds_def)
  have "frame f \<inter> (tables T' \<union> avail (fst st')) = {}" using f(2) g by (auto simp: grows_def)
  moreover have "snd st' (f + of_nat off + window) = b off" if off: "off < 4096" for off
  proof -
    have "f + of_nat off \<notin> tables T \<and> f + of_nat off \<notin> avail (fst st)" using frame_offset(1) [OF f(1) off] f(2) by blast
    then have "snd st' (f + of_nat off + window) = snd st (f + of_nat off + window)" using g unfolding grows_def by blast
    then show ?thesis using h off by (simp add: holds_def)
  qed
  ultimately show ?thesis using h l f(1) unfolding holds_def by simp
qed

text \<open>One page of a request.\<close>

lemma map_page:
  assumes ok: "pt_ok st root T" and v: "canonical v" "lookup window (snd st) root v = None"
    and mem: "can_alloc alloc (4 + k) (fst st)" and len: "length bytes = 4096"
  shows "\<exists>f s1 st' T'. alloc_phys pm st 4096 4096 = Done (Some f, (s1, snd st))
    \<and> translate_mut pm s1 f 4096 = Done (Some (f + window))
    \<and> map_raw pm (s1, write_bytes_at (snd st) (f + window) bytes) root v Page4K
        (f OR PAGE_PRESENT OR permission_bits p OR size_bit Page4K) = Done (Inr (), st')
    \<and> grows root st T st' T' \<and> can_alloc alloc k (fst st')
    \<and> holds st' root T' v f (f OR PAGE_PRESENT OR permission_bits p OR size_bit Page4K) (\<lambda>off. bytes ! off)
    \<and> (\<forall>v'. get_indices v' \<noteq> get_indices v \<longrightarrow> lookup window (snd st') root v' = lookup window (snd st) root v')"
proof -
  obtain s m where st: "st = (s, m)" by fastforce
  have "can_alloc alloc (Suc (3 + k)) s" using mem st by simp
  then obtain f s1 where al: "alloc s 4096 4096 = Done (Some f, s1)" and c1: "can_alloc alloc (3 + k) s1"
    unfolding can_alloc.simps by (auto split: outcome.splits option.splits)
  let ?e = "f OR PAGE_PRESENT OR permission_bits p OR size_bit Page4K" and ?m = "write_bytes_at m (f + window) bytes"
  note fr = fresh_frame [OF ok [unfolded st] al len]
  have ok1: "pt_ok (s1, ?m) root T" and inv1: "inv s1" using fr(1) by (simp_all add: grows_def pt_ok_def)
  have f52: "unat f < 2 ^ 52" using fr(4) lim_bound by simp
  note entry = page_entry [OF fr(3) f52, of p]
  have raw: "raw_valid Page4K ?e" using entry(2) by (simp add: raw_valid_def)
  have d: "page_depth Page4K = 4" by (simp add: page_depth_def)
  have none: "lookup window (snd (s1, ?m)) root v = None" using fr(2) v(2) st by simp
  have "can_alloc alloc (page_depth Page4K - 1) s1" using c1 d can_alloc_le [of 3 "3 + k"] by simp
  then obtain st' T' where mr: "map_raw pm (s1, ?m) root v Page4K ?e = Done (Inr (), st')"
      and pa: "page_added root v 4 ?e (s1, ?m) T st' T'"
    using map_raw_done [OF ok1 raw v(1) none] unfolding d by auto
  note g = grows_trans [OF fr(1) page_added_grows [OF pa]]
  have t: "take 4 (get_indices w) = get_indices w" for w by (rule take_all) simp
  have look: "lookup window (snd st') root v' = (if get_indices v' = get_indices v then Some (f, v' AND 0xFFF, ?e)
      else lookup window m root v')" for v'
    using pa leaf_page_4k [OF fr(3) entry(1), of v'] fr(2) [of v'] by (simp add: page_added_def t)
  have free: "frame f \<inter> tables T = {}" using ok fr(5) by (auto simp: pt_ok_def st)
  have f64: "unat f + 4096 \<le> 2 ^ 64" using fr(4) unat_u64_less [of lim] by simp
  have "snd st' (f + of_nat off + window) = bytes ! off" if off: "off < 4096" for off
  proof -
    have "f + of_nat off \<notin> tables T \<and> f + of_nat off \<notin> avail s1" using frame_offset(1) [OF f64 off] free fr(6) by blast
    then have "snd st' (f + of_nat off + window) = ?m (f + of_nat off + window)"
      using page_added_grows [OF pa] unfolding grows_def by simp
    then show ?thesis using fr(7) [OF off] by simp
  qed
  moreover have "frame f \<inter> (tables T' \<union> avail (fst st')) = {}"
    using free fr(6) page_added_grows [OF pa] by (auto simp: grows_def)
  ultimately have "holds st' root T' v f ?e (\<lambda>off. bytes ! off)" using f64 look by (simp add: holds_def)
  moreover have "can_alloc alloc k (fst st')" using map_raw_can_alloc [OF mr] c1 d by simp
  moreover have "alloc_phys pm st 4096 4096 = Done (Some f, (s1, snd st))" using al by (simp add: st alloc_pure)
  moreover have "translate_mut pm s1 f 4096 = Done (Some (f + window))" using translate_in [OF inv1, of 4096 f] fr(4) by simp
  ultimately show ?thesis using mr g look
    by (intro exI [of _ f] exI [of _ s1] exI [of _ st'] exI [of _ T'] conjI) (simp_all add: st)
qed

text \<open>All pages of a request.\<close>

lemma map_pages_done:
  assumes req: "mr_page_type req = Page4K"
  defines "a \<equiv> \<lambda>j. mr_vaddr req + of_nat (j * 4096)"
  shows "pt_ok st root T \<Longrightarrow> distinct (map (\<lambda>j. get_indices (a j)) ks)
    \<Longrightarrow> \<forall>j \<in> set ks. canonical (a j) \<and> lookup window (snd st) root (a j) = None
    \<Longrightarrow> can_alloc alloc (4 * length ks + k) (fst st)
    \<Longrightarrow> \<exists>st' T' F. map_pages pm root req (Some ini) ks st = Done (Some (), st')
      \<and> grows root st T st' T' \<and> can_alloc alloc k (fst st')
      \<and> (\<forall>j \<in> set ks. holds st' root T' (a j) (F j)
           (F j OR PAGE_PRESENT OR permission_bits (mr_permissions req) OR size_bit Page4K) (\<lambda>off. ini (of_nat (j * 4096 + off))))
      \<and> (\<forall>v. get_indices v \<notin> (\<lambda>j. get_indices (a j)) ` set ks \<longrightarrow> lookup window (snd st') root v = lookup window (snd st) root v)"
proof (induction ks arbitrary: st T)
  case Nil
  then show ?case using grows_refl [of st root T] by (intro exI [of _ st] exI [of _ T]) simp
next
  case (Cons j ks)
  let ?bytes = "map (\<lambda>off. ini (a j - mr_vaddr req + of_nat off)) [0..<4096]"
  let ?e = "\<lambda>f. f OR PAGE_PRESENT OR permission_bits (mr_permissions req) OR size_bit Page4K"
  have c: "can_alloc alloc (4 + (4 * length ks + k)) (fst st)" using Cons.prems(4) by (simp add: algebra_simps)
  have aj: "canonical (a j)" "lookup window (snd st) root (a j) = None" using Cons.prems(3) by simp_all
  obtain f s1 st1 T1 where al: "alloc_phys pm st 4096 4096 = Done (Some f, (s1, snd st))"
      and tr: "translate_mut pm s1 f 4096 = Done (Some (f + window))"
      and mr: "map_raw pm (s1, write_bytes_at (snd st) (f + window) ?bytes) root (a j) Page4K (?e f) = Done (Inr (), st1)"
      and g: "grows root st T st1 T1" and c1: "can_alloc alloc (4 * length ks + k) (fst st1)"
      and h: "holds st1 root T1 (a j) f (?e f) (\<lambda>off. ?bytes ! off)"
      and l: "\<forall>v'. get_indices v' \<noteq> get_indices (a j) \<longrightarrow> lookup window (snd st1) root v' = lookup window (snd st) root v'"
    using map_page [OF Cons.prems(1) aj c, of ?bytes "mr_permissions req"] by auto
  have ok1: "pt_ok st1 root T1" using g by (simp add: grows_def)
  have nin: "get_indices (a j) \<notin> (\<lambda>j. get_indices (a j)) ` set ks" using Cons.prems(2) by simp
  then have dist: "get_indices (a i) \<noteq> get_indices (a j)" if "i \<in> set ks" for i using that by (metis imageI)
  have p1: "\<forall>i \<in> set ks. canonical (a i) \<and> lookup window (snd st1) root (a i) = None"
    using Cons.prems(3) dist l by simp
  obtain st' T' F where r: "map_pages pm root req (Some ini) ks st1 = Done (Some (), st')"
      and g': "grows root st1 T1 st' T'" "can_alloc alloc k (fst st')"
      and h': "\<forall>i \<in> set ks. holds st' root T' (a i) (F i) (?e (F i)) (\<lambda>off. ini (of_nat (i * 4096 + off)))"
      and l': "\<forall>v. get_indices v \<notin> (\<lambda>j. get_indices (a j)) ` set ks \<longrightarrow> lookup window (snd st') root v = lookup window (snd st1) root v"
    using Cons.IH [OF ok1 _ p1 c1] Cons.prems(2) by auto
  have "map_pages pm root req (Some ini) (j # ks) st = Done (Some (), st')"
    using al tr mr r by (simp add: req a_def Let_def)
  moreover have "holds st' root T' (a j) f (?e f) (\<lambda>off. ini (of_nat (j * 4096 + off)))"
  proof -
    have "holds st' root T' (a j) f (?e f) (\<lambda>off. ?bytes ! off)"
      by (rule holds_grows [OF h g'(1)]) (use l' nin in simp)
    moreover have "?bytes ! off = ini (of_nat (j * 4096 + off))" if "off < 4096" for off
      using that by (simp add: a_def)
    ultimately show ?thesis by (simp add: holds_def)
  qed
  ultimately show ?case
    using grows_trans [OF g g'(1)] g'(2) h' l l' dist
    by (intro exI [of _ st'] exI [of _ T'] exI [of _ "F(j := f)"] conjI) auto
qed

text \<open>The pages of a request.\<close>

lemma map_init_done:
  assumes ok: "pt_ok st root T" and req: "mr_page_type req = Page4K" "4096 dvd unat (mr_vaddr req)" "0 < mr_size req"
    "unat (mr_vaddr req) + unat (mr_size req) \<le> 2 ^ 64"
    and n: "n = Suc (unat (mr_size req - 1) div 4096)"
    and pages: "\<forall>j < n. canonical (page_addr (mr_vaddr req) j) \<and> lookup window (snd st) root (page_addr (mr_vaddr req) j) = None"
    and mem: "can_alloc alloc (4 * n + k) (fst st)"
  shows "\<exists>st' T' F. map_init pm st root req (Some ini) = Done (Some (), st')
      \<and> grows root st T st' T' \<and> can_alloc alloc k (fst st')
      \<and> (\<forall>j < n. holds st' root T' (page_addr (mr_vaddr req) j) (F j)
           (F j OR PAGE_PRESENT OR permission_bits (mr_permissions req) OR size_bit Page4K) (\<lambda>off. ini (of_nat (j * 4096 + off))))
      \<and> (\<forall>v. (\<forall>j < n. get_indices v \<noteq> get_indices (page_addr (mr_vaddr req) j))
           \<longrightarrow> lookup window (snd st') root v = lookup window (snd st) root v)"
proof -
  let ?v = "mr_vaddr req" and ?a = "page_addr (mr_vaddr req)"
  have sz: "unat (mr_size req - 1) = unat (mr_size req) - 1" using req(3) by (simp add: unat_sub word_le_nat_alt unat_gt_0 Suc_le_eq)
  have pos: "0 < unat (mr_size req)" using req(3) by (simp add: unat_gt_0)
  have en: "checked_add ?v (mr_size req - 1) = Some (?v + (mr_size req - 1))" using sz pos req(4) by (simp add: checked_add_eq_Some)
  have ua: "unat (?a j) = unat ?v + j * 4096" if j: "j < n" for j
    using page_addr_unat [OF req(4) pos] j n sz by simp
  have "inj_on (\<lambda>j. get_indices (?a j)) {0..<n}"
  proof (rule inj_onI)
    fix i j assume ij: "i \<in> {0..<n}" "j \<in> {0..<n}" "get_indices (?a i) = get_indices (?a j)"
    have lt: "i < n" "j < n" using ij(1,2) by simp_all
    have "4096 dvd unat (?a i)" "4096 dvd unat (?a j)" unfolding ua [OF lt(1)] ua [OF lt(2)] using req(2) by (rule dvd_add, simp)+
    then have "?a i = ?a j" using page_addr_eq pages lt ij(3) by blast
    then have "unat ?v + i * 4096 = unat ?v + j * 4096" using ua [OF lt(1)] ua [OF lt(2)] by metis
    then show "i = j" by simp
  qed
  then have dist: "distinct (map (\<lambda>j. get_indices (?a j)) [0..<n])" by (simp add: distinct_map)
  have al: "?v AND (page_size Page4K - 1) = 0" using req(2) aligned_iff [of ?v 12] by simp
  have "map_init pm st root req (Some ini) = map_pages pm root req (Some ini) [0..<n] st"
    using req(1,3) al en n by (simp add: map_init_def Let_def del: upt_Suc)
  moreover have "\<exists>st' T' F. map_pages pm root req (Some ini) [0..<n] st = Done (Some (), st')
      \<and> grows root st T st' T' \<and> can_alloc alloc k (fst st')
      \<and> (\<forall>j \<in> set [0..<n]. holds st' root T' (?a j) (F j)
           (F j OR PAGE_PRESENT OR permission_bits (mr_permissions req) OR size_bit Page4K) (\<lambda>off. ini (of_nat (j * 4096 + off))))
      \<and> (\<forall>v. get_indices v \<notin> (\<lambda>j. get_indices (?a j)) ` set [0..<n] \<longrightarrow> lookup window (snd st') root v = lookup window (snd st) root v)"
    using map_pages_done [OF req(1) ok, folded page_addr_def, of "[0..<n]" k ini] dist pages mem by simp
  ultimately show ?thesis
    by (simp only: set_upt image_iff bex_simps ball_simps atLeastLessThan_iff le0 simp_thms Ball_def Bex_def not_ex imp_conjL de_Morgan_conj imp_conv_disj [symmetric])
qed

end

end
