(* ===== verification/Boot_Mm.thy ===== *)
theory Boot_Mm
  imports Rangeset_Correct Page_Map
begin

text \<open>
  The bootloader's memory manager, \<open>src/bootloader/src/mm.rs\<close>: \<open>PhysMem\<close> on top of the range set, and
  the global allocator. Physical memory is identity mapped, so a physical address is its own pointer.
  The contract \<open>phys_memory\<close> is discharged here for this implementation.
\<close>

section \<open>\<open>PhysMem\<close> for \<open>PhysicalMemory\<close>\<close>

definition boot_translate_mut :: "range_set \<Rightarrow> phys_addr \<Rightarrow> nat \<Rightarrow> u64 option outcome" where
  "boot_translate_mut rs paddr sz =
     assert_that (sz > 0)
       (Done (Option.bind (checked_add paddr (of_nat (sz - 1))) (\<lambda>pend. Some paddr)))"

definition boot_translate :: "range_set \<Rightarrow> phys_addr \<Rightarrow> nat \<Rightarrow> u64 option outcome" where
  "boot_translate rs paddr sz = boot_translate_mut rs paddr sz"

definition boot_alloc_phys :: "range_set \<Rightarrow> nat \<Rightarrow> nat \<Rightarrow> (phys_addr option \<times> range_set) outcome" where
  "boot_alloc_phys rs sz align =
     obind (allocate rs (of_nat sz) (of_nat align)) (\<lambda>(res, rs').
       obind (unwrap_result res) (\<lambda>p. Done (p, rs')))"

definition boot_mem :: "range_set phys_mem" where
  "boot_mem = \<lparr>translate = boot_translate, translate_mut = boot_translate_mut,
     alloc_phys = (\<lambda>(rs, m) sz align. obind (boot_alloc_phys rs sz align) (\<lambda>(p, rs). Done (p, (rs, m))))\<rparr>"

section \<open>The global allocator\<close>

text \<open>The shared free memory, \<open>None\<close> before \<open>init\<close>.\<close>

definition boot_mm_init :: "range_set option \<Rightarrow> range_set \<Rightarrow> range_set option" where
  "boot_mm_init free mem = (if free \<noteq> None then free else Some mem)"

text \<open>The pointer is null when the memory manager is not set up or the request fails.\<close>

definition boot_global_alloc :: "range_set option \<Rightarrow> nat \<Rightarrow> nat \<Rightarrow> (u64 \<times> range_set option) outcome" where
  "boot_global_alloc free sz align =
     (case free of
        None \<Rightarrow> Done (0, None)
      | Some x \<Rightarrow>
          obind (allocate x (of_nat sz) (of_nat align)) (\<lambda>(res, x').
            Done (unwrap_or (case res of Inl _ \<Rightarrow> None | Inr p \<Rightarrow> p) 0, Some x')))"

definition boot_global_dealloc :: "range_set option \<Rightarrow> u64 \<Rightarrow> nat \<Rightarrow> range_set option outcome" where
  "boot_global_dealloc free ptr sz =
     (case free of
        None \<Rightarrow> Panic
      | Some x \<Rightarrow>
          (case Option.bind (if 1 \<le> sz then Some (of_nat (sz - 1)) else None) (checked_add ptr) of
             None \<Rightarrow> Panic
           | Some e \<Rightarrow>
               obind (unwrap_result (range_new ptr e)) (\<lambda>r.
               obind (rs_insert x r) (\<lambda>(res, x').
               obind (unwrap_result res) (\<lambda>_. Done (Some x'))))))"

section \<open>The contract\<close>

text \<open>All free memory lies below the 52-bit limit of physical addresses.\<close>

definition phys_limit :: u64 where
  "phys_limit = 2 ^ 52"

lemma unat_phys_limit: "unat phys_limit = 2 ^ 52"
  by (simp add: phys_limit_def)

definition boot_inv :: "range_set \<Rightarrow> bool" where
  "boot_inv rs \<longleftrightarrow> rs_inv rs \<and> rs_cover rs \<subseteq> {x. unat x < 2 ^ 52}"

lemma frame_sizes:
  assumes "k \<in> {12, 21, 30 :: nat}"
  shows "count_ones (2 ^ k :: u64) = 1" "(of_nat (2 ^ k) :: u64) = 2 ^ k" "(2 ^ k :: u64) \<noteq> 0"
    "unat (2 ^ k - 1 :: u64) = 2 ^ k - 1" "k < 64"
proof -
  have "count_ones (2 ^ 12 :: u64) = 1" "count_ones (2 ^ 21 :: u64) = 1" "count_ones (2 ^ 30 :: u64) = 1"
    by code_simp+
  then show "count_ones (2 ^ k :: u64) = 1" using assms by auto
  show "(of_nat (2 ^ k) :: u64) = 2 ^ k" "(2 ^ k :: u64) \<noteq> 0" "unat (2 ^ k - 1 :: u64) = 2 ^ k - 1" "k < 64"
    using assms by auto
qed

lemma boot_alloc_frame:
  assumes "boot_inv rs" and k: "k \<in> {12, 21, 30 :: nat}"
  shows "boot_alloc_phys rs (2 ^ k) (2 ^ k) = Done (None, rs)
    \<or> (\<exists>p rs'. boot_alloc_phys rs (2 ^ k) (2 ^ k) = Done (Some p, rs') \<and> rs_inv rs'
         \<and> alloc_post rs (2 ^ k) (2 ^ k) p rs')"
proof -
  have inv: "rs_inv rs" using assms by (simp add: boot_inv_def)
  note spec = allocate_prefer_spec [OF inv, of None "2 ^ k" "2 ^ k", folded allocate_def]
  show ?thesis
    using spec frame_sizes [OF k] by (auto simp: boot_alloc_phys_def simp del: of_nat_power)
qed

lemma alloc_post_block:
  assumes inv: "boot_inv rs" and k: "k \<in> {12, 21, 30 :: nat}" and p: "alloc_post rs (2 ^ k) (2 ^ k) p rs'"
  shows "2 ^ k dvd unat p" "unat p + 2 ^ k \<le> 2 ^ 52" "rs_cover rs' \<subseteq> rs_cover rs"
    and "p \<le> x \<Longrightarrow> unat x < unat p + 2 ^ k \<Longrightarrow> x \<in> rs_cover rs \<and> x \<notin> rs_cover rs'"
proof -
  let ?e = "p + (2 ^ k - 1)"
  have post: "p \<le> ?e" "p AND (2 ^ k - 1) = 0" "{p..?e} \<subseteq> rs_cover rs" "rs_cover rs' \<subseteq> rs_cover rs - {p..?e}"
    using p by (auto simp: alloc_post_def)
  have e: "unat ?e = unat p + (2 ^ k - 1)"
    using post(1) frame_sizes(4) [OF k] by (metis no_olen_add_nat unat_add_lem)
  show "2 ^ k dvd unat p" using post(2) by (simp add: aligned_iff)
  have "?e \<in> rs_cover rs" using post(1,3) by auto
  then have "unat ?e < 2 ^ 52" using inv by (auto simp: boot_inv_def)
  then show "unat p + 2 ^ k \<le> 2 ^ 52" unfolding e by linarith
  show "rs_cover rs' \<subseteq> rs_cover rs" using post(4) by blast
  assume "p \<le> x" "unat x < unat p + 2 ^ k"
  then have "x \<in> {p..?e}" using e by (auto simp: word_le_nat_alt)
  then show "x \<in> rs_cover rs \<and> x \<notin> rs_cover rs'" using post(3,4) by blast
qed

interpretation boot: phys_memory boot_mem boot_alloc_phys boot_inv rs_cover 0 phys_limit
proof unfold_locales
  show "8 dvd unat (0 :: u64)" "unat phys_limit \<le> 2 ^ 52" by (simp_all add: unat_phys_limit)
  show "translate boot_mem s a n = translate_mut boot_mem s a n" for s a n
    by (simp add: boot_mem_def boot_translate_def)
  show "translate_mut boot_mem s a n = Done (Some (a + 0))"
    if "0 < n" "unat a + n \<le> unat phys_limit" for s a n
  proof -
    have "unat (of_nat (n - 1) :: u64) = n - 1" using that unat_phys_limit by (intro unat_of_nat_small) simp
    then have "checked_add a (of_nat (n - 1)) = Some (a + of_nat (n - 1))"
      using that unat_phys_limit by (simp only: checked_add_eq_Some) simp
    then show ?thesis
      using that by (simp only: boot_mem_def boot_translate_mut_def phys_mem.simps) simp
  qed
  show "alloc_phys boot_mem (s, m) sz al = obind (boot_alloc_phys s sz al) (\<lambda>(r, s'). Done (r, (s', m)))" for s m sz al
    by (simp add: boot_mem_def)
  fix s k assume inv: "boot_inv s" and k: "k \<in> {12, 21, 30 :: nat}"
  note frame = boot_alloc_frame [OF inv k]
  show "\<exists>r s'. boot_alloc_phys s (2 ^ k) (2 ^ k) = Done (r, s')"
    using frame by (auto simp: boot_mem_def)
  show "boot_inv s' \<and> rs_cover s' \<subseteq> rs_cover s" if "boot_alloc_phys s (2 ^ k) (2 ^ k) = Done (None, s')" for s'
    using frame that inv by (auto simp: boot_mem_def)
  show "boot_inv s' \<and> 2 ^ k dvd unat a \<and> unat a + 2 ^ k \<le> unat phys_limit
      \<and> (\<forall>x. a \<le> x \<and> unat x < unat a + 2 ^ k \<longrightarrow> x \<in> rs_cover s \<and> x \<notin> rs_cover s') \<and> rs_cover s' \<subseteq> rs_cover s"
    if "boot_alloc_phys s (2 ^ k) (2 ^ k) = Done (Some a, s')" for a s'
  proof -
    from frame that have s': "rs_inv s'" "alloc_post s (2 ^ k) (2 ^ k) a s'"
      by (auto simp: boot_mem_def)
    with alloc_post_block [OF inv k s'(2)] inv show ?thesis by (auto simp: boot_inv_def unat_phys_limit)
  qed
qed

end
