(* ===== verification/Page_Table_Props.thy ===== *)
theory Page_Table_Props
  imports Boot_Mm
begin

text \<open>
  The properties of \<open>src/shared/page_table\<close> over the bootloader's physical memory: what \<open>components\<close>
  returns after \<open>map_raw\<close>, for every address, and the errors.
\<close>

text \<open>A machine of the bootloader that holds the tree \<open>T\<close> of tables under \<open>root\<close>.\<close>

definition boot_pt :: "range_set machine \<Rightarrow> page_table \<Rightarrow> (phys_addr \<rightharpoonup> u64 list) \<Rightarrow> bool" where
  "boot_pt st root T \<longleftrightarrow> boot_inv (fst st) \<and> pt_wf 0 phys_limit (snd st) root T \<and> tables T \<inter> rs_cover (fst st) = {}"

lemma boot_pt_ok: "boot_pt = boot.pt_ok"
  by (intro ext) (simp add: boot_pt_def boot.pt_ok_def)

lemma page_size_mask:
  "page_size ptype - 1 = mask (48 - 9 * page_depth ptype)"
  "depth_mask (page_depth ptype - 1) = page_size ptype - 1"
  by (cases ptype; simp add: page_depth_def mask_eq_exp_minus_1)+

lemma page_depth_le: "page_depth ptype \<le> 4" "1 \<le> page_depth ptype" "0 < page_depth ptype - 1"
  by (cases ptype; simp add: page_depth_def)+

text \<open>The set used in the concrete instances: the memory \<open>0x100000..=0x1fffff\<close>.\<close>

definition rs_mb :: range_set where
  "rs_mb = rs_new\<lparr>ranges := \<lparr>rstart = 0x100000, rend = 0x1fffff\<rparr> # tl (ranges rs_new), in_use := 1\<rparr>"

lemma ents_mb: "ents rs_mb = [\<lparr>rstart = 0x100000, rend = 0x1fffff\<rparr>]"
  by (simp add: ents_def rs_mb_def)

lemma inv_mb: "boot_inv rs_mb"
proof -
  have "rs_inv rs_mb"
    unfolding rs_inv_def ents_mb by (simp add: wf_arr_def rs_mb_def rs_new_def)
  moreover have "unat x < 2 ^ 52" if "x \<in> rs_cover rs_mb" for x
    using that by (auto simp: rs_cover_def ents_mb word_le_nat_alt)
  ultimately show ?thesis by (auto simp: boot_inv_def)
qed

text \<open>A machine with an empty page table at address 0, outside the free memory.\<close>

lemma boot_pt_mb: "boot_pt (rs_mb, \<lambda>_. 0) 0 [0 \<mapsto> []]"
proof -
  have "ent 0 (\<lambda>_. 0) a = 0" for a
    by (simp add: ent_def read_u64_def read_bytes_def from_le_zero map_replicate_const)
  then have "pt_wf 0 phys_limit (\<lambda>_. 0) 0 [0 \<mapsto> []]"
    by (auto simp: pt_wf_def refers_def unat_phys_limit)
  moreover have "tables [0 \<mapsto> []] \<inter> rs_cover rs_mb = {}"
    by (auto simp: tables_def rs_cover_def ents_mb word_le_nat_alt)
  ultimately show ?thesis
    using inv_mb by (simp add: boot_pt_def)
qed

text \<open>C7: \<open>map_raw\<close> of an address that is not mapped, with a valid entry and with memory for the tables
  that are missing, succeeds and keeps the tables a tree. Afterwards every address of the page
  translates to the page of the entry, at its offset, and every other address translates as it did
  before.\<close>

theorem map_raw_adds_page:
  assumes "boot_pt st root T" and "raw_valid ptype raw" and v: "canonicalize_address 16 v = Done v"
    and "lookup 0 (snd st) root v = None"
    and "ptype = Page4K \<or> (\<forall>t. T t \<noteq> Some (take (page_depth ptype) (get_indices v)))"
    and "can_alloc boot_alloc_phys (page_depth ptype - 1) (fst st)"
  shows "\<exists>st' T'. map_raw boot_mem st root v ptype raw = Done (Inr (), st') \<and> boot_pt st' root T'
    \<and> (\<forall>v'. canonicalize_address 16 v' = Done v' \<longrightarrow>
        (\<exists>r r'. components boot_mem st root v' = Done (Inr r) \<and> components boot_mem st' root v' = Done (Inr r')
          \<and> page r' = (if v' AND NOT (page_size ptype - 1) = v AND NOT (page_size ptype - 1)
                       then Some (target raw AND NOT (page_size ptype - 1), v' AND (page_size ptype - 1), raw)
                       else page r)))"
proof -
  have ok: "boot.pt_ok st root T" using assms(1) by (simp add: boot_pt_ok)
  obtain st' T' where st': "map_raw boot_mem st root v ptype raw = Done (Inr (), st')"
    and add: "boot.page_added root v (page_depth ptype) raw st T st' T'"
    using boot.map_raw_done [OF ok assms(2-5)] assms(6) by blast
  have ok': "boot.pt_ok st' root T'" using add by (simp add: boot.page_added_def)
  have "\<exists>r r'. components boot_mem st root v' = Done (Inr r) \<and> components boot_mem st' root v' = Done (Inr r')
      \<and> page r' = (if v' AND NOT (page_size ptype - 1) = v AND NOT (page_size ptype - 1)
                   then Some (target raw AND NOT (page_size ptype - 1), v' AND (page_size ptype - 1), raw)
                   else page r)" if v': "canonicalize_address 16 v' = Done v'" for v'
  proof -
    obtain r r' where "components boot_mem st root v' = Done (Inr r)" "page r = lookup 0 (snd st) root v'"
      "components boot_mem st' root v' = Done (Inr r')" "page r' = lookup 0 (snd st') root v'"
      using boot.components_spec(1) [OF ok v'] boot.components_spec(1) [OF ok' v'] by blast
    moreover have "lookup 0 (snd st') root v' =
        (if v' AND NOT (page_size ptype - 1) = v AND NOT (page_size ptype - 1)
         then leaf_page (page_depth ptype - 1) v' raw else lookup 0 (snd st) root v')"
      using add same_page_iff [OF v' v page_depth_le(1,2)] unfolding page_size_mask(1)
      by (simp add: boot.page_added_def)
    ultimately show ?thesis
      using page_depth_le(3) [of ptype] page_size_mask(2) [of ptype]
      by (auto simp: leaf_page_def simp del: depth_mask.simps)
  qed
  then show ?thesis using st' ok' by (auto simp: boot_pt_ok)
qed

lemma mb_alloc: "\<exists>p rs'. boot_alloc_phys rs_mb 4096 4096 = Done (Some p, rs')"
proof -
  have "search 4096 4096 None None (ents rs_mb) = Some (Some (0x100000, 0x100fff, 0x100000))"
    "count_ones (4096 :: u64) = 1"
    unfolding ents_mb by code_simp+
  then show ?thesis
    using allocate_found [of rs_mb 4096 4096] inv_mb by (auto simp: boot_alloc_phys_def boot_inv_def)
qed

lemma ent_zero: "ent w (\<lambda>_. 0) a = 0"
  by (simp add: ent_def read_u64_def read_bytes_def from_le_zero map_replicate_const)

theorem map_raw_adds_page_witness:
  "\<exists>st'. map_raw boot_mem (rs_mb, \<lambda>_. 0) 0 0x40000000 Page1G 0x80000083 = Done (Inr (), st')
    \<and> (\<exists>r. components boot_mem st' 0 0x40000000 = Done (Inr r) \<and> page r = Some (0x80000000, 0, 0x80000083))"
proof -
  have "lookup 0 (\<lambda>_. 0) 0 v = None" for v
    by (simp add: lookup_def get_indices_def ent_zero)
  moreover have "can_alloc boot_alloc_phys (page_depth Page1G - 1) rs_mb"
    using mb_alloc by (auto simp: page_depth_def boot_mem_def)
  moreover have "\<forall>t. [0 \<mapsto> []] t \<noteq> Some (take (page_depth Page1G) (get_indices 0x40000000))"
    by (simp add: page_depth_def get_indices_def)
  moreover have "raw_valid Page1G 0x80000083" "canonicalize_address 16 0x40000000 = Done 0x40000000"
    "target 0x80000083 AND NOT (page_size Page1G - 1) = 0x80000000" "0x40000000 AND (page_size Page1G - 1) = 0"
    by code_simp+
  ultimately show ?thesis
    using map_raw_adds_page [OF boot_pt_mb, of Page1G "0x80000083" "0x40000000"] by fastforce
qed



text \<open>a new page table is empty: when \<open>PageTable::new\<close> gets its frame, the table is well formed,
  no address translates, and its frame has left the free memory.\<close>

theorem page_table_new_empty:
  assumes "boot_inv rs" and "page_table_new boot_mem (rs, m) = Done (Some root, st')"
  shows "boot_pt st' root [root \<mapsto> []]
    \<and> (\<forall>v. canonicalize_address 16 v = Done v \<longrightarrow>
         (\<exists>r. components boot_mem st' root v = Done (Inr r) \<and> page r = None))
    \<and> root \<in> rs_cover rs \<and> root \<notin> rs_cover (fst st')"
proof -
  have new: "boot.pt_ok st' root [root \<mapsto> []] \<and> (\<forall>v. lookup 0 (snd st') root v = None)
    \<and> root \<in> rs_cover rs \<and> root \<notin> rs_cover (fst st')"
    using boot.new_table [OF assms] .
  then show ?thesis using boot.components_spec(1) by (fastforce simp: boot_pt_ok)
qed

theorem page_table_new_empty_witness:
  "\<exists>root st'. page_table_new boot_mem (rs_mb, \<lambda>_. 1) = Done (Some root, st') \<and> boot_pt st' root [root \<mapsto> []]"
proof -
  obtain root rs' where al: "boot_alloc_phys rs_mb 4096 4096 = Done (Some root, rs')"
    using mb_alloc by (auto simp: boot_mem_def)
  then have "unat root + 2 ^ 12 \<le> unat phys_limit" "boot_inv rs'"
    using boot.alloc_some [OF inv_mb, of 12 root rs'] by simp_all
  then have "translate_mut boot_mem rs' root 4096 = Done (Some (root + 0))"
    using boot.translate_in [of rs' 4096 root] by simp
  then have "\<exists>st'. page_table_new boot_mem (rs_mb, \<lambda>_. 1) = Done (Some root, st')"
    using al by (simp add: page_table_new_def alloc_phys_zeroed_def boot.alloc_pure)
  then show ?thesis
    using page_table_new_empty [OF inv_mb] by blast
qed

text \<open>The caching bit is inverted. \<open>Permissions::new\<close>, documented as cached, sets the flag that
  disables caching, and \<open>Permissions::uncached\<close> leaves it clear.\<close>

theorem permissions_cache_inverted:
  "bit (permission_bits (permissions_new w x u)) 4 \<and> \<not> bit (permission_bits (permissions_uncached w x u)) 4"
  by (simp add: permission_bits_def permissions_new_def permissions_uncached_def bit_or_iff bit_flags)

end
