(* ===== verification/Elf.thy ===== *)
theory Elf
  imports Page_Table
begin

text \<open>
  The parser of ELF files, \<open>src/shared/elf_parser\<close>: the validation of the header and the iterator over the
  loadable segments. A \<open>usize\<close> is a natural number with its overflow checks written out.
\<close>

section \<open>Definitions\<close>

datatype elf_error =
    ParseFailure
  | NotEnoughBytes
  | WrongMagic "u8 list"
  | WrongBitness
  | WrongEndian
  | WrongVersion u8
  | WrongType u16
  | WrongMachine u16
  | ElfWrongAlignment
  | RawSizeTooLarge
  | SegmentsClosureFailed

text \<open>The little-endian integer of \<open>n\<close> bytes at an offset; the macros differ in what they make of \<open>None\<close>.\<close>

definition get_bytes :: "u8 list \<Rightarrow> nat \<Rightarrow> nat \<Rightarrow> 'a::len word option" where
  "get_bytes bytes off n =
     (if off + n \<le> usize_max then map_option from_le (slice bytes off (off + n)) else None)"

definition get_field :: "u8 list \<Rightarrow> nat \<Rightarrow> nat \<Rightarrow> (elf_error + 'a::len word) outcome" where
  "get_field bytes off n = Done (ok_or (get_bytes bytes off n) ParseFailure)"

definition usize_add :: "nat \<Rightarrow> nat \<Rightarrow> nat outcome" where
  "usize_add a b = (if a + b \<le> usize_max then Done (a + b) else Panic)"

definition usize_mul :: "nat \<Rightarrow> nat \<Rightarrow> nat outcome" where
  "usize_mul a b = (if a * b \<le> usize_max then Done (a * b) else Panic)"

record elf_permissions =
  perm_read :: bool
  perm_write :: bool
  perm_execute :: bool

definition perms_new :: "bool \<Rightarrow> bool \<Rightarrow> bool \<Rightarrow> elf_permissions" where
  "perms_new r w x = \<lparr>perm_read = r, perm_write = w, perm_execute = x\<rparr>"

definition from_flags :: "u32 \<Rightarrow> elf_permissions" where
  "from_flags flags =
     (let execute = flags AND push_bit 0 1 \<noteq> 0;
          write = flags AND push_bit 1 1 \<noteq> 0;
          read = flags AND push_bit 2 1 \<noteq> 0 in
      perms_new read write execute)"

record segment =
  seg_vaddr :: virt_addr
  seg_offset :: u64
  seg_vsize :: u64
  seg_bytes :: "u8 list"
  seg_permissions :: elf_permissions

record elf =
  elf_bytes :: "u8 list"
  ph_offset :: nat
  ph_entry_size :: u16
  ph_num :: nat
  elf_entry :: virt_addr

text \<open>What \<open>next\<close> makes of a loadable program header at \<open>offset\<close>; \<open>None\<close> ends the iteration.\<close>

definition elf_segment :: "u8 list \<Rightarrow> nat \<Rightarrow> (elf_error + segment) option outcome" where
  "elf_segment bytes offset =
     obind (usize_add offset 0x04) (\<lambda>o1. oobind (Done (get_bytes bytes o1 4)) (\<lambda>flags.
     let perms = from_flags flags in
     obind (usize_add offset 0x08) (\<lambda>o2. oobind (Done (get_bytes bytes o2 8)) (\<lambda>(raw_offset :: u64).
     obind (usize_add offset 0x10) (\<lambda>o3. oobind (Done (get_bytes bytes o3 8)) (\<lambda>(vaddr :: u64).
     obind (usize_add offset 0x20) (\<lambda>o4. oobind (Done (get_bytes bytes o4 8)) (\<lambda>(raw_size :: u64).
     obind (usize_add offset 0x28) (\<lambda>o5. oobind (Done (get_bytes bytes o5 8)) (\<lambda>(vsize :: u64).
     if raw_size > vsize then Done (Some (Inl RawSizeTooLarge))
     else oobind (Done (checked_add raw_offset raw_size)) (\<lambda>raw_end.
     if unat raw_end > length bytes then Done (Some (Inl NotEnoughBytes))
     else
     obind (usize_add offset 0x30) (\<lambda>o6. oobind (Done (get_bytes bytes o6 8)) (\<lambda>(align :: u64).
     obind (psub align 1) (\<lambda>align_mask.
     if align_mask \<noteq> 0xFFF then Done (Some (Inl ElfWrongAlignment))
     else
     let aligned_vaddr = vaddr AND NOT align_mask in
     obind (psub vaddr aligned_vaddr) (\<lambda>virtual_offset.
     oobind (Done (slice bytes (unat raw_offset) (unat raw_end))) (\<lambda>segment_bytes.
       Done (Some (Inr \<lparr>seg_vaddr = aligned_vaddr, seg_offset = virtual_offset, seg_vsize = vsize,
                        seg_bytes = segment_bytes, seg_permissions = perms\<rparr>))))))))))))))))))"

text \<open>\<open>ElfSegments::next\<close> on the index, which it returns advanced.\<close>

function elf_next :: "elf \<Rightarrow> nat \<Rightarrow> ((elf_error + segment) option \<times> nat) outcome" where
  "elf_next e i =
     (if ph_num e \<le> i then Done (None, i)
      else
        obind (usize_mul i (unat (ph_entry_size e))) (\<lambda>d.
        obind (usize_add (ph_offset e) d) (\<lambda>offset.
        obind (usize_add offset 0x00) (\<lambda>o0.
          (case (get_bytes (elf_bytes e) o0 4 :: u32 option) of
             None \<Rightarrow> Done (None, i + 1)
           | Some t \<Rightarrow>
               if t \<noteq> 1 then elf_next e (i + 1)
               else obind (elf_segment (elf_bytes e) offset) (\<lambda>r. Done (r, i + 1)))))))"
  by pat_completeness auto
termination
  by (relation "measure (\<lambda>(e, i). ph_num e - i)") auto

declare elf_next.simps [simp del]

definition elf_parse :: "u8 list \<Rightarrow> (elf_error + elf) outcome" where
  "elf_parse bytes =
     (if slice bytes 0 4 \<noteq> Some [0x7F, 0x45, 0x4C, 0x46]
      then obind (unwrap (slice bytes 0 4)) (\<lambda>magic. Done (Inl (WrongMagic magic)))
      else
      orbind (get_field bytes 0x04 1) (\<lambda>(bitness :: u8).
      if bitness \<noteq> 2 then Done (Inl WrongBitness)
      else orbind (get_field bytes 0x05 1) (\<lambda>(endian :: u8).
      if endian \<noteq> 1 then Done (Inl WrongEndian)
      else orbind (get_field bytes 0x06 1) (\<lambda>(version :: u8).
      if version \<noteq> 1 then obind (array_get bytes 0x06) (\<lambda>v. Done (Inl (WrongVersion v)))
      else orbind (get_field bytes 0x10 2) (\<lambda>(typ :: u16).
      if typ \<noteq> 2 then obind (unwrap (slice bytes 0x10 0x12)) (\<lambda>b. Done (Inl (WrongType (from_le b))))
      else orbind (get_field bytes 0x12 2) (\<lambda>(machine :: u16).
      if machine \<noteq> 0x3E then obind (unwrap (slice bytes 0x12 0x14)) (\<lambda>b. Done (Inl (WrongMachine (from_le b))))
      else
      orbind (get_field bytes 0x18 8) (\<lambda>(entry :: u64).
      orbind (get_field bytes 0x20 8) (\<lambda>(phoff :: u64).
      orbind (get_field bytes 0x36 2) (\<lambda>(phentsize :: u16).
      orbind (get_field bytes 0x38 2) (\<lambda>(phnum :: u16).
      let phsize = unat phnum * unat phentsize; table_size = unat phoff + phsize in
      if phsize > usize_max \<or> table_size > usize_max then Done (Inl ParseFailure)
      else if length bytes < table_size then Done (Inl NotEnoughBytes)
      else Done (Inr \<lparr>elf_bytes = bytes, ph_offset = unat phoff, ph_entry_size = phentsize,
                      ph_num = unat phnum, elf_entry = entry\<rparr>)))))))))))"

text \<open>The items of the iterator that \<open>segments\<close> returns, up to the first \<open>None\<close>.\<close>

lemma elf_next_index: "elf_next e i = Done (Some r, j) \<Longrightarrow> i < j \<and> j \<le> ph_num e"
proof (induction e i rule: elf_next.induct)
  case (1 e i)
  show ?case
    using "1.prems" "1.IH"
    by (subst (asm) elf_next.simps) (fastforce simp: usize_add_def usize_mul_def split: if_splits option.splits)
qed

function elf_segments :: "elf \<Rightarrow> nat \<Rightarrow> (elf_error + segment) list outcome" where
  "elf_segments e i =
     (case elf_next e i of
        Panic \<Rightarrow> Panic
      | Done (None, _) \<Rightarrow> Done []
      | Done (Some r, j) \<Rightarrow> obind (elf_segments e j) (\<lambda>rs. Done (r # rs)))"
  by pat_completeness auto
termination
  by (relation "measure (\<lambda>(e, i). ph_num e - i)") (auto dest: elf_next_index)

declare elf_segments.simps [simp del]

definition segments :: "elf \<Rightarrow> (elf_error + segment) list outcome" where
  "segments e = elf_segments e 0"

end
