(* ===== verification/Sync.thy ===== *)
theory Sync
  imports Prelude
begin

text \<open>
  The synchronisation primitives: \<open>AutoRefCount\<close> (\<open>src/shared/autorefcount\<close>), the interrupt nesting of
  \<open>CoreLocals\<close> (\<open>src/kernel/src/core_locals.rs\<close>), the ticket lock \<open>SpinLock\<close>
  (\<open>src/shared/spinlock\<close>) and \<open>OnceLock\<close> (\<open>src/shared/oncelock\<close>). Each atomic access of the code is one
  step, so cores interleave between the accesses of a call.

  The trait \<open>InterruptState\<close> is a record of its methods over the state \<open>'c\<close> of a core.
\<close>

section \<open>Reference counts\<close>

type_synonym auto_ref_count = u64

definition arc_new :: "u64 \<Rightarrow> auto_ref_count" where "arc_new n = n"

definition arc_count :: "auto_ref_count \<Rightarrow> u64" where "arc_count c = c"

text \<open>\<open>fetch_add\<close> wraps; the overflow is noticed after it.\<close>

definition arc_increment :: "auto_ref_count \<Rightarrow> auto_ref_count outcome" where
  "arc_increment c = obind (unwrap (checked_add c 1)) (\<lambda>_. Done (c + 1))"

definition arc_guard_drop :: "auto_ref_count \<Rightarrow> auto_ref_count outcome" where
  "arc_guard_drop c = obind (unwrap (checked_sub c 1)) (\<lambda>_. Done (c - 1))"

section \<open>Interrupt nesting of a core\<close>

text \<open>\<open>interrupt_flag\<close> is the processor's interrupt flag, which \<open>cli\<close> and \<open>sti\<close> change.\<close>

record core_state =
  interrupt_disable_requests :: u64
  interrupt_depth :: auto_ref_count
  exception_depth :: auto_ref_count
  interrupt_flag :: bool

definition enter_interrupt :: "core_state \<Rightarrow> core_state outcome" where
  "enter_interrupt c = obind (arc_increment (interrupt_depth c)) (\<lambda>d. Done (c\<lparr>interrupt_depth := d\<rparr>))"

definition in_interrupt :: "core_state \<Rightarrow> bool" where
  "in_interrupt c \<longleftrightarrow> arc_count (interrupt_depth c) \<noteq> 0"

definition enter_exception :: "core_state \<Rightarrow> core_state outcome" where
  "enter_exception c = obind (arc_increment (exception_depth c)) (\<lambda>d. Done (c\<lparr>exception_depth := d\<rparr>))"

definition in_exception :: "core_state \<Rightarrow> bool" where
  "in_exception c \<longleftrightarrow> arc_count (exception_depth c) \<noteq> 0"

definition disable_interrupts :: "core_state \<Rightarrow> core_state outcome" where
  "disable_interrupts c =
     (let x = interrupt_disable_requests c; c = c\<lparr>interrupt_disable_requests := x + 1\<rparr> in
      obind (unwrap (checked_add x 1)) (\<lambda>_. Done (c\<lparr>interrupt_flag := False\<rparr>)))"

definition enable_interrupts :: "core_state \<Rightarrow> core_state outcome" where
  "enable_interrupts c =
     (let x = interrupt_disable_requests c; c = c\<lparr>interrupt_disable_requests := x - 1\<rparr> in
      obind (unwrap (checked_sub x 1)) (\<lambda>_.
        Done (if \<not> in_interrupt c \<and> x = 1 then c\<lparr>interrupt_flag := True\<rparr> else c)))"

section \<open>The trait\<close>

record 'c interrupt_state =
  is_in_interrupt :: "'c \<Rightarrow> bool"
  is_in_exception :: "'c \<Rightarrow> bool"
  enter_lock :: "'c \<Rightarrow> 'c outcome"
  exit_lock :: "'c \<Rightarrow> 'c outcome"

definition dummy_interrupt_state :: "'c interrupt_state" where
  "dummy_interrupt_state = \<lparr>is_in_interrupt = (\<lambda>_. False), is_in_exception = (\<lambda>_. False), enter_lock = Done, exit_lock = Done\<rparr>"

definition interrupt_lock :: "core_state interrupt_state" where
  "interrupt_lock = \<lparr>is_in_interrupt = in_interrupt, is_in_exception = in_exception,
     enter_lock = disable_interrupts, exit_lock = enable_interrupts\<rparr>"

section \<open>The ticket lock\<close>

record 'a spin_lock =
  ticket :: u64
  release :: u64
  disables_interrupts :: bool
  lock_value :: 'a

definition spin_lock_new :: "'a \<Rightarrow> 'a spin_lock" where
  "spin_lock_new v = \<lparr>ticket = 0, release = 0, disables_interrupts = False, lock_value = v\<rparr>"

definition new_no_preempt :: "'a \<Rightarrow> 'a spin_lock" where
  "new_no_preempt v = \<lparr>ticket = 0, release = 0, disables_interrupts = True, lock_value = v\<rparr>"

text \<open>\<open>lock\<close> up to the point where it has its ticket; then it spins until \<open>lock_free\<close> holds.\<close>

definition lock_begin :: "'c interrupt_state \<Rightarrow> 'a spin_lock \<Rightarrow> 'c \<Rightarrow> (u64 \<times> 'a spin_lock \<times> 'c) outcome" where
  "lock_begin I l c =
     assert_that (disables_interrupts l \<or> \<not> is_in_interrupt I c) (
       obind (if disables_interrupts l then enter_lock I c else Done c) (\<lambda>c.
         Done (ticket l, l\<lparr>ticket := ticket l + 1\<rparr>, c)))"

definition lock_free :: "u64 \<Rightarrow> 'a spin_lock \<Rightarrow> bool" where
  "lock_free t l \<longleftrightarrow> t = release l"

text \<open>Dropping the guard: the release, then the interrupts.\<close>

definition guard_release :: "'a spin_lock \<Rightarrow> 'a spin_lock" where
  "guard_release l = l\<lparr>release := release l + 1\<rparr>"

definition guard_exit :: "'c interrupt_state \<Rightarrow> 'a spin_lock \<Rightarrow> 'c \<Rightarrow> 'c outcome" where
  "guard_exit I l c = (if disables_interrupts l then exit_lock I c else Done c)"

definition guard_deref :: "'a spin_lock \<Rightarrow> 'a" where
  "guard_deref l = lock_value l"

definition guard_deref_mut :: "'a spin_lock \<Rightarrow> ('a \<Rightarrow> 'a) \<Rightarrow> 'a spin_lock" where
  "guard_deref_mut l f = l\<lparr>lock_value := f (lock_value l)\<rparr>"

section \<open>Cores sharing a lock\<close>

text \<open>Where a core is: outside, spinning with a ticket, holding the guard, after the release but before the
  interrupts are given back, or stopped by a panic.\<close>

datatype lock_pc = Outside | Spinning u64 | Holding | Leaving | Stopped

record ('a, 'c) lock_system =
  the_lock :: "'a spin_lock"
  pcs :: "nat \<Rightarrow> lock_pc"
  cores :: "nat \<Rightarrow> 'c"

definition goto :: "nat \<Rightarrow> lock_pc \<Rightarrow> ('a, 'c) lock_system \<Rightarrow> ('a, 'c) lock_system" where
  "goto i p s = s\<lparr>pcs := (pcs s)(i := p)\<rparr>"

text \<open>The steps of \<open>n\<close> cores. Between two steps the state of a core that is not in a step of the lock may
  change by what else it runs.\<close>

inductive lock_step :: "'c interrupt_state \<Rightarrow> nat \<Rightarrow> ('a, 'c) lock_system \<Rightarrow> ('a, 'c) lock_system \<Rightarrow> bool"
  for I :: "'c interrupt_state" and n :: nat where
  take_ticket: "i < n \<Longrightarrow> pcs s i = Outside \<Longrightarrow> lock_begin I (the_lock s) (cores s i) = Done (t, l, c) \<Longrightarrow>
    lock_step I n s (goto i (Spinning t) (s\<lparr>the_lock := l, cores := (cores s)(i := c)\<rparr>))"
| take_panic: "i < n \<Longrightarrow> pcs s i = Outside \<Longrightarrow> lock_begin I (the_lock s) (cores s i) = Panic \<Longrightarrow>
    lock_step I n s (goto i Stopped s)"
| acquire: "i < n \<Longrightarrow> pcs s i = Spinning t \<Longrightarrow> lock_free t (the_lock s) \<Longrightarrow> lock_step I n s (goto i Holding s)"
| access: "i < n \<Longrightarrow> pcs s i = Holding \<Longrightarrow> lock_step I n s (s\<lparr>the_lock := guard_deref_mut (the_lock s) f\<rparr>)"
| give_back: "i < n \<Longrightarrow> pcs s i = Holding \<Longrightarrow>
    lock_step I n s (goto i Leaving (s\<lparr>the_lock := guard_release (the_lock s)\<rparr>))"
| leave: "i < n \<Longrightarrow> pcs s i = Leaving \<Longrightarrow> guard_exit I (the_lock s) (cores s i) = Done c \<Longrightarrow>
    lock_step I n s (goto i Outside (s\<lparr>cores := (cores s)(i := c)\<rparr>))"
| leave_panic: "i < n \<Longrightarrow> pcs s i = Leaving \<Longrightarrow> guard_exit I (the_lock s) (cores s i) = Panic \<Longrightarrow>
    lock_step I n s (goto i Stopped s)"
| other: "i < n \<Longrightarrow> pcs s i = Outside \<or> pcs s i = Holding \<Longrightarrow> lock_step I n s (s\<lparr>cores := (cores s)(i := c)\<rparr>)"

inductive lock_reach :: "'c interrupt_state \<Rightarrow> nat \<Rightarrow> ('a, 'c) lock_system \<Rightarrow> bool"
  for I :: "'c interrupt_state" and n :: nat where
  start: "ticket (the_lock s) = 0 \<Longrightarrow> release (the_lock s) = 0 \<Longrightarrow> \<forall>i. pcs s i = Outside \<Longrightarrow> lock_reach I n s"
| step: "lock_reach I n s \<Longrightarrow> lock_step I n s s' \<Longrightarrow> lock_reach I n s'"

inductive_cases lock_stepE: "lock_step I n s s'"

section \<open>\<open>OnceLock\<close>\<close>

text \<open>\<open>once_value\<close> is \<open>None\<close> while the memory is uninitialised.\<close>

record 'a once_lock =
  once_initialized :: bool
  once_value :: "'a option"

definition once_new :: "'a once_lock" where
  "once_new = \<lparr>once_initialized = False, once_value = None\<rparr>"

text \<open>The memory that \<open>get\<close> refers to; it panics before the flag is set.\<close>

definition once_get :: "'a once_lock \<Rightarrow> 'a option outcome" where
  "once_get l = (if \<not> once_initialized l then Panic else Done (once_value l))"

definition once_try_get :: "'a once_lock \<Rightarrow> 'a option option" where
  "once_try_get l = (if once_initialized l then Some (once_value l) else None)"

text \<open>\<open>set\<close> is two accesses: the swap of the flag, then the write of the value.\<close>

definition once_swap :: "'a once_lock \<Rightarrow> 'a once_lock outcome" where
  "once_swap l = assert_that (\<not> once_initialized l) (Done (l\<lparr>once_initialized := True\<rparr>))"

definition once_write :: "'a once_lock \<Rightarrow> 'a \<Rightarrow> 'a once_lock" where
  "once_write l v = l\<lparr>once_value := Some v\<rparr>"

definition once_set :: "'a once_lock \<Rightarrow> 'a \<Rightarrow> 'a once_lock outcome" where
  "once_set l v = obind (once_swap l) (\<lambda>l. Done (once_write l v))"

datatype 'a once_pc = Ready | Setting 'a | Set 'a | Read "'a option" | Failed

record 'a once_system =
  the_once :: "'a once_lock"
  once_pcs :: "nat \<Rightarrow> 'a once_pc"

inductive once_step :: "'a once_system \<Rightarrow> 'a once_system \<Rightarrow> bool" where
  swap: "once_pcs s i = Ready \<Longrightarrow> once_swap (the_once s) = Done l \<Longrightarrow>
    once_step s (s\<lparr>the_once := l, once_pcs := (once_pcs s)(i := Setting v)\<rparr>)"
| swap_panic: "once_pcs s i = Ready \<Longrightarrow> once_swap (the_once s) = Panic \<Longrightarrow>
    once_step s (s\<lparr>once_pcs := (once_pcs s)(i := Failed)\<rparr>)"
| write_value: "once_pcs s i = Setting v \<Longrightarrow>
    once_step s (s\<lparr>the_once := once_write (the_once s) v, once_pcs := (once_pcs s)(i := Set v)\<rparr>)"
| read: "once_pcs s i = Ready \<Longrightarrow> once_get (the_once s) = Done x \<Longrightarrow>
    once_step s (s\<lparr>once_pcs := (once_pcs s)(i := Read x)\<rparr>)"
| read_panic: "once_pcs s i = Ready \<Longrightarrow> once_get (the_once s) = Panic \<Longrightarrow>
    once_step s (s\<lparr>once_pcs := (once_pcs s)(i := Failed)\<rparr>)"

inductive once_reach :: "'a once_system \<Rightarrow> bool" where
  start: "the_once s = once_new \<Longrightarrow> \<forall>i. once_pcs s i = Ready \<Longrightarrow> once_reach s"
| step: "once_reach s \<Longrightarrow> once_step s s' \<Longrightarrow> once_reach s'"

end
