(* ===== verification/Shared_Data.thy ===== *)
theory Shared_Data
  imports Rangeset Page_Table Sync
begin

text \<open>
  The memory map of the kernel and the data shared with the bootloader, \<open>src/shared/shared_data\<close>.
\<close>

section \<open>The memory map\<close>

definition floor_align :: "u64 \<Rightarrow> u64 \<Rightarrow> u64" where
  "floor_align val align = (val div align) * align"

definition REGION_PADDING :: u64 where "REGION_PADDING = 8 * 0x1000"
definition KERNEL_CODE_BASE :: u64 where "KERNEL_CODE_BASE = 0xFFFFFFFFCAFE0000"
definition MAX_TRAMPOLINE_SIZE :: u64 where "MAX_TRAMPOLINE_SIZE = 0x10000"

definition TRAMPOLINE_ADDR :: u64 where
  "TRAMPOLINE_ADDR = KERNEL_CODE_BASE - (REGION_PADDING + MAX_TRAMPOLINE_SIZE)"

definition KERNEL_PHYS_WINDOW_SIZE :: u64 where "KERNEL_PHYS_WINDOW_SIZE = 0x10000000000"

definition KERNEL_PHYS_WINDOW_BASE :: u64 where
  "KERNEL_PHYS_WINDOW_BASE =
     floor_align (TRAMPOLINE_ADDR - (KERNEL_PHYS_WINDOW_SIZE + REGION_PADDING)) 0x40000000"

definition KERNEL_VMEM_SIZE :: u64 where "KERNEL_VMEM_SIZE = 0x10000000000"

definition KERNEL_VMEM_BASE :: u64 where
  "KERNEL_VMEM_BASE = KERNEL_PHYS_WINDOW_BASE - (KERNEL_VMEM_SIZE + REGION_PADDING)"

definition KERNEL_STACK_BASE :: u64 where "KERNEL_STACK_BASE = KERNEL_VMEM_BASE - REGION_PADDING"
definition KERNEL_STACK_SIZE :: u64 where "KERNEL_STACK_SIZE = 128 * 0x1000"
definition KERNEL_STACK_SIZE_PADDED :: u64 where "KERNEL_STACK_SIZE_PADDED = KERNEL_STACK_SIZE + REGION_PADDING"

text \<open>The compile-time assertions.\<close>

definition is_4k_aligned :: "u64 \<Rightarrow> bool" where
  "is_4k_aligned x \<longleftrightarrow> (x AND NOT (0x1000 - 1)) = x"

definition is_1g_aligned :: "u64 \<Rightarrow> bool" where
  "is_1g_aligned x \<longleftrightarrow> (x AND NOT (0x40000000 - 1)) = x"

section \<open>Shared data\<close>

record bootloader_state =
  bs_page_table :: page_table
  bs_entry :: virt_addr
  bs_stack :: virt_addr

record sdt_table =
  n_entries :: nat
  sdt_base :: phys_addr

text \<open>The ELF image, parsed (\<open>'e\<close>), and the serial driver (\<open>'s\<close>) are kept by their own components.\<close>

record ('s, 'e) shared =
  rebooting :: bool
  serial :: "'s option spin_lock"
  print_lock :: "unit spin_lock"
  free_memory :: "range_set option spin_lock"
  kernel_image :: "'e option spin_lock"
  kernel_pt :: "page_table option spin_lock"
  next_stack :: u64
  acpi_sdt :: "sdt_table once_lock"
  bootloader :: "bootloader_state once_lock"

definition shared_new :: "('s, 'e) shared" where
  "shared_new = \<lparr>rebooting = True, serial = new_no_preempt None, print_lock = new_no_preempt (),
     free_memory = new_no_preempt None, kernel_image = spin_lock_new None, kernel_pt = new_no_preempt None,
     next_stack = KERNEL_STACK_BASE, acpi_sdt = once_new, bootloader = once_new\<rparr>"

definition reset_stack :: "('s, 'e) shared \<Rightarrow> ('s, 'e) shared" where
  "reset_stack sh = sh\<lparr>next_stack := KERNEL_STACK_BASE\<rparr>"

text \<open>\<open>fetch_sub\<close> wraps; the value before it is what is returned.\<close>

definition get_next_stack :: "('s, 'e) shared \<Rightarrow> u64 option \<times> ('s, 'e) shared" where
  "get_next_stack sh =
     (checked_sub (next_stack sh) KERNEL_STACK_SIZE_PADDED,
      sh\<lparr>next_stack := next_stack sh - KERNEL_STACK_SIZE_PADDED\<rparr>)"

definition is_rebooting :: "('s, 'e) shared \<Rightarrow> bool" where
  "is_rebooting sh = rebooting sh"

section \<open>The values of the map\<close>

lemma layout_values:
  "TRAMPOLINE_ADDR = 0xFFFFFFFFCAFC8000" "KERNEL_PHYS_WINDOW_BASE = 0xFFFFFEFFC0000000"
  "KERNEL_VMEM_BASE = 0xFFFFFDFFBFFF8000" "KERNEL_STACK_BASE = 0xFFFFFDFFBFFF0000" "KERNEL_STACK_SIZE_PADDED = 0x88000"
  by code_simp+

text \<open>The \<open>n\<close>-th stack.\<close>

lemma next_stack_funpow:
  "next_stack (((\<lambda>s. snd (get_next_stack s)) ^^ n) sh) = next_stack sh - of_nat n * KERNEL_STACK_SIZE_PADDED"
  by (induction n) (simp_all add: get_next_stack_def algebra_simps)

section \<open>Properties\<close>



end
