(* ===== verification/Boot_Main.thy ===== *)
theory Boot_Main
  imports Boot_Mm Elf Shared_Data
begin

text \<open>
  The bootloader, \<open>src/bootloader/src/main.rs\<close> and \<open>src/bootloader/src/trampoline.rs\<close>: the one-time setup, the
  loading of the kernel image into fresh page tables, the stacks of the cores and the jump. What comes from the
  processor and the firmware is an argument: the page table in CR3, the free memory and the ACPI table the
  firmware reports, the address of the entry point and of the stack, and the CPU features. The embedded images
  are arguments, too.
\<close>

section \<open>State\<close>

record boot_state =
  SHARED :: "(unit, elf) shared"
  MEMORY_SNAPSHOT :: "range_set once_lock"
  INITIALIZED :: bool
  RAW_PT_ENTRY :: u64

type_synonym boot_machine = "boot_state \<times> memory"

text \<open>The value behind a lock of the shared data.\<close>

definition get_free :: "boot_state \<Rightarrow> range_set option" where
  "get_free b = guard_deref (free_memory (SHARED b))"

definition set_free :: "range_set option \<Rightarrow> boot_state \<Rightarrow> boot_state" where
  "set_free f b = b\<lparr>SHARED := (SHARED b)\<lparr>free_memory := guard_deref_mut (free_memory (SHARED b)) (\<lambda>_. f)\<rparr>\<rparr>"

definition get_image :: "boot_state \<Rightarrow> elf option" where
  "get_image b = guard_deref (kernel_image (SHARED b))"

definition set_image :: "elf option \<Rightarrow> boot_state \<Rightarrow> boot_state" where
  "set_image e b = b\<lparr>SHARED := (SHARED b)\<lparr>kernel_image := guard_deref_mut (kernel_image (SHARED b)) (\<lambda>_. e)\<rparr>\<rparr>"

definition get_kernel_pt :: "boot_state \<Rightarrow> page_table option" where
  "get_kernel_pt b = guard_deref (kernel_pt (SHARED b))"

definition set_kernel_pt :: "page_table option \<Rightarrow> boot_state \<Rightarrow> boot_state" where
  "set_kernel_pt p b = b\<lparr>SHARED := (SHARED b)\<lparr>kernel_pt := guard_deref_mut (kernel_pt (SHARED b)) (\<lambda>_. p)\<rparr>\<rparr>"

section \<open>The trampoline\<close>

definition trampoline_byte :: "u8 list \<Rightarrow> u64 \<Rightarrow> u8" where
  "trampoline_byte trampoline offset =
     (if unat offset < length trampoline then trampoline ! unat offset else 0)"

definition map_once :: "u8 list \<Rightarrow> page_table \<Rightarrow> boot_machine \<Rightarrow> boot_machine outcome" where
  "map_once trampoline cr3 st =
     (let (b, m) = st in
      if RAW_PT_ENTRY b \<noteq> 0 then Done st
      else
        obind (map_request_new TRAMPOLINE_ADDR Page4K (of_nat (length trampoline)) (permissions_new False True False)) (\<lambda>res.
        obind (unwrap_result res) (\<lambda>request.
        obind (unwrap (get_free b)) (\<lambda>pmem.
        obind (map_init boot_mem (pmem, m) cr3 request (Some (trampoline_byte trampoline))) (\<lambda>(mapped, (pmem, m)).
        obind (unwrap mapped) (\<lambda>_.
        obind (components boot_mem (pmem, m) cr3 TRAMPOLINE_ADDR) (\<lambda>res.
        obind (unwrap_result res) (\<lambda>mapping.
        obind (unwrap (page mapping)) (\<lambda>(_, _, raw).
          Done ((set_free (Some pmem) b)\<lparr>RAW_PT_ENTRY := raw\<rparr>, m))))))))))"

section \<open>Setup\<close>

text \<open>\<open>init_setup\<close>, after the firmware has reported the memory map \<open>memory_map\<close>, with \<open>get_sdt\<close> the search for the
  ACPI tables. The serial driver is only noted as present.\<close>

definition init_setup ::
  "range_set \<Rightarrow> u8 list \<Rightarrow> page_table \<Rightarrow> virt_addr \<Rightarrow> virt_addr \<Rightarrow> (memory \<Rightarrow> sdt_table outcome) \<Rightarrow> boot_machine
    \<Rightarrow> boot_machine outcome" where
  "init_setup memory_map trampoline cr3 entry stack get_sdt st =
     (let (b, m) = st;
          b = b\<lparr>SHARED := (SHARED b)\<lparr>serial := guard_deref_mut (serial (SHARED b)) (\<lambda>_. Some ())\<rparr>\<rparr>;
          b = set_free (boot_mm_init (get_free b) memory_map) b in
      obind (map_once trampoline cr3 (b, m)) (\<lambda>(b, m).
      obind (unwrap (get_free b)) (\<lambda>memory.
      obind (get_sdt m) (\<lambda>sdt.
      obind (once_set (acpi_sdt (SHARED b)) sdt) (\<lambda>acpi.
      obind (once_set (bootloader (SHARED b)) \<lparr>bs_page_table = cr3, bs_entry = entry, bs_stack = stack\<rparr>) (\<lambda>bl.
      obind (once_set (MEMORY_SNAPSHOT b) memory) (\<lambda>snap.
        Done (b\<lparr>SHARED := (SHARED b)\<lparr>acpi_sdt := acpi, bootloader := bl\<rparr>, MEMORY_SNAPSHOT := snap, INITIALIZED := True\<rparr>, m))))))))"

definition restore_physical_memory :: "boot_state \<Rightarrow> boot_state outcome" where
  "restore_physical_memory b =
     obind (once_get (MEMORY_SNAPSHOT b)) (\<lambda>v. obind (unwrap v) (\<lambda>snapshot. Done (set_free (Some snapshot) b)))"

section \<open>Loading the kernel\<close>

text \<open>The byte of a segment at an offset into its mapping.\<close>

definition segment_byte :: "segment \<Rightarrow> u64 \<Rightarrow> u8" where
  "segment_byte seg mem_offset =
     (if mem_offset \<ge> seg_offset seg then
        if unat (mem_offset - seg_offset seg) < length (seg_bytes seg)
        then seg_bytes seg ! unat (mem_offset - seg_offset seg) else 0
      else 0)"

text \<open>The loop over the segments. What \<open>map_init\<close> returns is not looked at.\<close>

fun load_segments :: "(elf_error + segment) list \<Rightarrow> page_table \<Rightarrow> range_set machine \<Rightarrow> range_set machine outcome" where
  "load_segments [] table st = Done st"
| "load_segments (item # items) table st =
     obind (unwrap_result item) (\<lambda>seg.
       let perms = permissions_new (perm_write (seg_permissions seg)) (perm_execute (seg_permissions seg)) False in
       obind (padd (seg_offset seg) (seg_vsize seg)) (\<lambda>sz.
       obind (map_request_new (seg_vaddr seg) Page4K sz perms) (\<lambda>res.
       obind (unwrap_result res) (\<lambda>request.
       obind (map_init boot_mem st table request (Some (segment_byte seg))) (\<lambda>(_, st).
         load_segments items table st)))))"

definition window_page_type :: "bool \<Rightarrow> bool \<Rightarrow> page_type" where
  "window_page_type gbyte_pages pse = (if gbyte_pages then Page1G else if pse then Page2M else Page4K)"

definition window_page_mask :: "page_type \<Rightarrow> u64" where
  "window_page_mask ptype = 0 OR PAGE_WRITE OR PAGE_PRESENT OR (case ptype of Page4K \<Rightarrow> 0 | _ \<Rightarrow> PAGE_SIZE)"

fun map_window :: "page_type \<Rightarrow> u64 list \<Rightarrow> page_table \<Rightarrow> range_set machine \<Rightarrow> range_set machine outcome" where
  "map_window ptype [] table st = Done st"
| "map_window ptype (paddr # paddrs) table st =
     obind (padd KERNEL_PHYS_WINDOW_BASE paddr) (\<lambda>virt.
     obind (map_raw boot_mem st table virt ptype (paddr OR window_page_mask ptype)) (\<lambda>(res, st).
     obind (unwrap_result res) (\<lambda>_. map_window ptype paddrs table st)))"

definition window_paddrs :: "page_type \<Rightarrow> u64 list" where
  "window_paddrs ptype = map (\<lambda>j. of_nat (j * unat (page_size ptype))) [0..<unat KERNEL_PHYS_WINDOW_SIZE div unat (page_size ptype)]"

text \<open>\<open>load_kernel\<close> up to the end of the loop over the segments, with the physical memory it holds the lock of, and
  the rest of it: the trampoline and the window.\<close>

definition load_kernel_segments :: "u8 list \<Rightarrow> boot_machine \<Rightarrow> (page_table \<times> boot_state \<times> range_set machine) outcome" where
  "load_kernel_segments initial_image st =
     (let (b, m) = st in
      obind (case get_image b of
               Some e \<Rightarrow> Done e
             | None \<Rightarrow> obind (elf_parse initial_image) unwrap_result) (\<lambda>kernel.
      let b = set_image (Some kernel) b in
      obind (unwrap (get_free b)) (\<lambda>pmem.
      obind (page_table_new boot_mem (pmem, m)) (\<lambda>(t, pst).
      obind (unwrap t) (\<lambda>table.
      let b = set_kernel_pt (Some table) b in
      obind (segments kernel) (\<lambda>items.
      obind (load_segments items table pst) (\<lambda>pst. Done (table, b, pst))))))))"

definition load_kernel_windows ::
  "bool \<Rightarrow> bool \<Rightarrow> page_table \<Rightarrow> boot_state \<Rightarrow> range_set machine \<Rightarrow> boot_machine outcome" where
  "load_kernel_windows gbyte_pages pse table b pst =
     (let b = b\<lparr>SHARED := reset_stack (SHARED b)\<rparr>; trampoline_raw = RAW_PT_ENTRY b in
      assert_that (trampoline_raw \<noteq> 0) (
      obind (map_raw boot_mem pst table TRAMPOLINE_ADDR Page4K trampoline_raw) (\<lambda>(res, pst).
      obind (unwrap_result res) (\<lambda>_.
      let ptype = window_page_type gbyte_pages pse in
      obind (map_window ptype (window_paddrs ptype) table pst) (\<lambda>(pmem, m).
        Done (set_free (Some pmem) b, m))))))"

definition load_kernel :: "u8 list \<Rightarrow> bool \<Rightarrow> bool \<Rightarrow> boot_machine \<Rightarrow> boot_machine outcome" where
  "load_kernel initial_image gbyte_pages pse st =
     obind (load_kernel_segments initial_image st) (\<lambda>(table, b, pst). load_kernel_windows gbyte_pages pse table b pst)"

section \<open>Stacks and the jump\<close>

definition map_kernel_stack :: "boot_machine \<Rightarrow> (virt_addr \<times> boot_machine) outcome" where
  "map_kernel_stack st =
     (let (b, m) = st in
      obind (unwrap (get_kernel_pt b)) (\<lambda>table.
      obind (unwrap (get_free b)) (\<lambda>pmem.
      let (nxt, sh) = get_next_stack (SHARED b); b = b\<lparr>SHARED := sh\<rparr> in
      obind (unwrap nxt) (\<lambda>stack_base.
      obind (map_request_new stack_base Page4K KERNEL_STACK_SIZE_PADDED (permissions_new True False False)) (\<lambda>res.
      obind (unwrap_result res) (\<lambda>request.
      obind (pt_map boot_mem (pmem, m) table request) (\<lambda>(mapped, (pmem, m)).
      obind (unwrap mapped) (\<lambda>_.
      obind (unwrap (checked_add stack_base KERNEL_STACK_SIZE_PADDED)) (\<lambda>top.
        Done (top, (set_free (Some pmem) b, m)))))))))))"

text \<open>The arguments the trampoline is called with: entry point, stack and page table.\<close>

definition jump_to_kernel :: "virt_addr \<Rightarrow> boot_state \<Rightarrow> (virt_addr \<times> virt_addr \<times> page_table) outcome" where
  "jump_to_kernel stack b =
     obind (unwrap (get_image b)) (\<lambda>image.
     obind (unwrap (get_kernel_pt b)) (\<lambda>table. Done (elf_entry image, stack, table)))"

text \<open>The entry point, on the first boot, after a soft reboot and on every further core. \<open>setup\<close> is
  \<open>init_setup\<close> with what the firmware gives it.\<close>

definition efi_main ::
  "(boot_machine \<Rightarrow> boot_machine outcome) \<Rightarrow> u8 list \<Rightarrow> bool \<Rightarrow> bool \<Rightarrow> boot_machine
    \<Rightarrow> ((virt_addr \<times> virt_addr \<times> page_table) \<times> boot_machine) outcome" where
  "efi_main setup initial_image gbyte_pages pse st =
     obind (if \<not> INITIALIZED (fst st) then setup st else Done st) (\<lambda>st.
     obind (if is_rebooting (SHARED (fst st)) then
              obind (restore_physical_memory (fst st)) (\<lambda>b.
              obind (load_kernel initial_image gbyte_pages pse (b, snd st)) (\<lambda>(b, m).
                Done (b\<lparr>SHARED := (SHARED b)\<lparr>rebooting := False\<rparr>\<rparr>, m)))
            else Done st) (\<lambda>st.
     obind (map_kernel_stack st) (\<lambda>(stack, st).
     obind (jump_to_kernel stack (fst st)) (\<lambda>args. Done (args, st)))))"

end
