(* ===== verification/Elf_Props.thy ===== *)
theory Elf_Props
  imports Elf
begin

text \<open>
  What the ELF parser accepts, which segments its iterator yields, and where it stops without an error.
\<close>

section \<open>Fields\<close>

definition le_field :: "u8 list \<Rightarrow> nat \<Rightarrow> nat \<Rightarrow> 'a::len word" where
  "le_field bytes off n = from_le (take n (drop off bytes))"

lemma get_bytes_in: "off + n \<le> length bytes \<Longrightarrow> off + n \<le> usize_max \<Longrightarrow> get_bytes bytes off n = Some (le_field bytes off n)"
  by (simp add: get_bytes_def slice_def le_field_def)

lemma get_bytes_Some: "get_bytes bytes off n = Some v \<Longrightarrow> off + n \<le> length bytes \<and> v = le_field bytes off n"
  by (auto simp: get_bytes_def slice_def le_field_def split: if_splits)

lemma get_bytes_out: "length bytes < off + n \<Longrightarrow> get_bytes bytes off n = None"
  by (simp add: get_bytes_def slice_def)

lemma get_field_in: "off + n \<le> length bytes \<Longrightarrow> off + n \<le> usize_max \<Longrightarrow> get_field bytes off n = Done (Inr (le_field bytes off n))"
  by (simp add: get_field_def get_bytes_in)

lemma get_field_Inr: "get_field bytes off n = Done (Inr v) \<Longrightarrow> off + n \<le> length bytes \<and> v = le_field bytes off n"
  by (auto simp: get_field_def ok_or_def split: option.splits dest: get_bytes_Some)

lemma orbind_eq_Inr: "orbind m f = Done (Inr b) \<longleftrightarrow> (\<exists>a. m = Done (Inr a) \<and> f a = Done (Inr b))"
  unfolding orbind_def by (cases m; (simp split: sum.splits)?; blast?)

lemma get_field_Panic: "orbind (get_field bytes off n) f = Panic \<longleftrightarrow> (\<exists>a. get_field bytes off n = Done (Inr a) \<and> f a = Panic)"
  for f :: "'a::len word \<Rightarrow> (elf_error + 'b) outcome"
  by (cases "get_bytes bytes off n :: 'a word option") (simp_all add: get_field_def)

lemma from_le_byte [simp]: "from_le [b] = (b :: u8)"
  by simp

lemma le_field_byte: "i < length bytes \<Longrightarrow> le_field bytes i 1 = bytes ! i" for bytes :: "u8 list"
  using Cons_nth_drop_Suc [of i bytes] by (simp add: le_field_def flip: Cons_nth_drop_Suc)

section \<open>The header\<close>

definition elf_header_ok :: "u8 list \<Rightarrow> bool" where
  "elf_header_ok bytes \<longleftrightarrow> 0x3A \<le> length bytes \<and> take 4 bytes = [0x7F, 0x45, 0x4C, 0x46]
     \<and> bytes ! 4 = 2 \<and> bytes ! 5 = 1 \<and> bytes ! 6 = 1
     \<and> le_field bytes 0x10 2 = (2 :: u16) \<and> le_field bytes 0x12 2 = (0x3E :: u16)
     \<and> unat (le_field bytes 0x20 8 :: u64)
         + unat (le_field bytes 0x38 2 :: u16) * unat (le_field bytes 0x36 2 :: u16) \<le> length bytes"

definition elf_of :: "u8 list \<Rightarrow> elf" where
  "elf_of bytes = \<lparr>elf_bytes = bytes, ph_offset = unat (le_field bytes 0x20 8 :: u64),
     ph_entry_size = le_field bytes 0x36 2, ph_num = unat (le_field bytes 0x38 2 :: u16), elf_entry = le_field bytes 0x18 8\<rparr>"

lemma elf_parse_Inr:
  assumes "elf_parse bytes = Done (Inr e)"
  shows "elf_header_ok bytes \<and> e = elf_of bytes"
proof -
  have magic: "slice bytes 0 4 = Some [0x7F, 0x45, 0x4C, 0x46]"
    using assms by (auto simp: elf_parse_def split: if_splits)
  obtain bitness endian version :: u8 and ty mach phentsize phnum :: u16 and entry phoff :: u64 where
    f: "get_field bytes 0x04 1 = Done (Inr bitness)" "bitness = 2"
      "get_field bytes 0x05 1 = Done (Inr endian)" "endian = 1"
      "get_field bytes 0x06 1 = Done (Inr version)" "version = 1"
      "get_field bytes 0x10 2 = Done (Inr ty)" "ty = 2"
      "get_field bytes 0x12 2 = Done (Inr mach)" "mach = 0x3E"
      "get_field bytes 0x18 8 = Done (Inr entry)" "get_field bytes 0x20 8 = Done (Inr phoff)"
      "get_field bytes 0x36 2 = Done (Inr phentsize)" "get_field bytes 0x38 2 = Done (Inr phnum)"
    and t: "unat phoff + unat phnum * unat phentsize \<le> length bytes"
    and e: "e = \<lparr>elf_bytes = bytes, ph_offset = unat phoff, ph_entry_size = phentsize,
                      ph_num = unat phnum, elf_entry = entry\<rparr>"
    using assms magic by (auto simp: elf_parse_def orbind_eq_Inr Let_def split: if_splits)
  note g = f(1,3,5,7,9,11-14) [THEN get_field_Inr]
  have len: "0x3A \<le> length bytes" using g(9) by simp
  have "take 4 bytes = [0x7F, 0x45, 0x4C, 0x46]" using magic by (simp add: slice_def split: if_splits)
  moreover have "bytes ! 4 = 2" "bytes ! 5 = 1" "bytes ! 6 = 1"
    using g(1-3) f(2,4,6) len le_field_byte [of _ bytes] by simp_all
  ultimately show ?thesis
    using len g(4-9) f(8,10) t e unfolding elf_header_ok_def elf_of_def by simp
qed

lemma elf_parse_ok:
  assumes "elf_header_ok bytes" "length bytes \<le> usize_max"
  shows "elf_parse bytes = Done (Inr (elf_of bytes))"
proof -
  have ok: "0x3A \<le> length bytes" "take 4 bytes = [0x7F, 0x45, 0x4C, 0x46]" "bytes ! 4 = 2" "bytes ! 5 = 1" "bytes ! 6 = 1"
    "le_field bytes 0x10 2 = (2 :: u16)" "le_field bytes 0x12 2 = (0x3E :: u16)"
    "unat (le_field bytes 0x20 8 :: u64) + unat (le_field bytes 0x38 2 :: u16) * unat (le_field bytes 0x36 2 :: u16) \<le> length bytes"
    using assms(1) by (simp_all add: elf_header_ok_def)
  have g: "get_field bytes off n = Done (Inr (le_field bytes off n))" if "off + n \<le> 0x3A" for off n
    using that ok(1) assms(2) by (intro get_field_in) simp_all
  have "le_field bytes 4 1 = (2 :: u8)" "le_field bytes 5 1 = (1 :: u8)" "le_field bytes 6 1 = (1 :: u8)"
    using le_field_byte [of _ bytes] ok by simp_all
  moreover have "slice bytes 0 4 = Some [0x7F, 0x45, 0x4C, 0x46]" using ok(1,2) by (simp add: slice_def)
  ultimately show ?thesis
    using ok(6-8) assms(2) by (simp add: elf_parse_def g elf_of_def Let_def)
qed

lemma elf_parse_Panic:
  assumes "length bytes \<le> usize_max"
  shows "elf_parse bytes = Panic \<longleftrightarrow> length bytes < 4"
proof
  assume "length bytes < 4"
  then show "elf_parse bytes = Panic" by (simp add: elf_parse_def slice_def)
next
  assume p: "elf_parse bytes = Panic"
  show "length bytes < 4"
  proof (rule ccontr)
    assume "\<not> length bytes < 4"
    then have "slice bytes 0 4 = Some [0x7F, 0x45, 0x4C, 0x46]" using p by (auto simp: elf_parse_def slice_def split: if_splits)
    then show False
      using p by (auto simp: elf_parse_def get_field_Panic Let_def array_get_def slice_def dest!: get_field_Inr split: if_splits)
  qed
qed

section \<open>Segments\<close>

text \<open>What a program header at \<open>off\<close> asks for.\<close>

definition loadable :: "u8 list \<Rightarrow> nat \<Rightarrow> bool" where
  "loadable bytes off \<longleftrightarrow> le_field bytes off 4 = (1 :: u32)"

definition segment_of :: "u8 list \<Rightarrow> nat \<Rightarrow> segment" where
  "segment_of bytes off =
     (let flags = le_field bytes (off + 0x04) 4 :: u32; vaddr = le_field bytes (off + 0x10) 8 in
      \<lparr>seg_vaddr = vaddr AND NOT 0xFFF, seg_offset = vaddr AND 0xFFF, seg_vsize = le_field bytes (off + 0x28) 8,
       seg_bytes = take (unat (le_field bytes (off + 0x20) 8 :: u64)) (drop (unat (le_field bytes (off + 0x08) 8 :: u64)) bytes),
       seg_permissions = \<lparr>perm_read = bit flags 2, perm_write = bit flags 1, perm_execute = bit flags 0\<rparr>\<rparr>)"

definition segment_ok :: "u8 list \<Rightarrow> nat \<Rightarrow> bool" where
  "segment_ok bytes off \<longleftrightarrow>
     unat (le_field bytes (off + 0x20) 8 :: u64) \<le> unat (le_field bytes (off + 0x28) 8 :: u64)
     \<and> unat (le_field bytes (off + 0x08) 8 :: u64) + unat (le_field bytes (off + 0x20) 8 :: u64) \<le> length bytes
     \<and> le_field bytes (off + 0x30) 8 = (0x1000 :: u64)"

lemma sub_aligned: "(v :: u64) - (v AND NOT m) = v AND m"
proof -
  have "(v AND m) + (v AND NOT m) = (v AND m) OR (v AND NOT m)"
    by (rule disjunctive_add) (auto simp: bit_and_iff bit_not_iff)
  also have "\<dots> = v" by (rule bit_word_eqI) (auto simp: bit_or_iff bit_and_iff bit_not_iff)
  finally show ?thesis by (simp add: algebra_simps)
qed

text \<open>A well-formed header gives its segment.\<close>

lemma elf_segment_ok:
  assumes off: "off + 56 \<le> length bytes" "length bytes \<le> usize_max" and ok: "segment_ok bytes off"
  shows "elf_segment bytes off = Done (Some (Inr (segment_of bytes off)))"
proof -
  let ?fs = "le_field bytes (off + 0x20) 8 :: u64" and ?ms = "le_field bytes (off + 0x28) 8 :: u64"
  let ?po = "le_field bytes (off + 0x08) 8 :: u64" and ?v = "le_field bytes (off + 0x10) 8 :: u64"
  have seg: "unat ?fs \<le> unat ?ms" "unat ?po + unat ?fs \<le> length bytes" "le_field bytes (off + 0x30) 8 = (0x1000 :: u64)"
    using ok by (simp_all add: segment_ok_def)
  have u: "usize_add off 0x04 = Done (off + 0x04)" "usize_add off 0x08 = Done (off + 0x08)" "usize_add off 0x10 = Done (off + 0x10)"
    "usize_add off 0x20 = Done (off + 0x20)" "usize_add off 0x28 = Done (off + 0x28)" "usize_add off 0x30 = Done (off + 0x30)"
    using off by (simp_all add: usize_add_def)
  have g: "get_bytes bytes (off + d) n = Some (le_field bytes (off + d) n)" if "d + n \<le> 56" for d n
    using that off by (simp add: get_bytes_in)
  have b: "get_bytes bytes (off + 0x04) 4 = Some (le_field bytes (off + 0x04) 4 :: u32)" "get_bytes bytes (off + 0x08) 8 = Some ?po"
    "get_bytes bytes (off + 0x10) 8 = Some ?v" "get_bytes bytes (off + 0x20) 8 = Some ?fs" "get_bytes bytes (off + 0x28) 8 = Some ?ms"
    "get_bytes bytes (off + 0x30) 8 = Some (0x1000 :: u64)"
    using seg(3) by (simp_all add: g)
  have "unat ?po + unat ?fs < 2 ^ 64" using seg(2) off(2) by (simp add: usize_max_def)
  then have e: "checked_add ?po ?fs = Some (?po + ?fs)" "unat (?po + ?fs) = unat ?po + unat ?fs"
    by (simp_all add: checked_add_eq_Some unat_add_no_overflow)
  have sl: "slice bytes (unat ?po) (unat ?po + unat ?fs) = Some (take (unat ?fs) (drop (unat ?po) bytes))"
    using seg(2) by (simp add: slice_def)
  have "?v AND NOT 0xFFF \<le> ?v" by (rule word_and_le2)
  then have p: "psub ?v (?v AND NOT 0xFFF) = Done (?v AND 0xFFF)" by (simp only: psub_eq_Done sub_aligned simp_thms)
  have p1: "psub (0x1000 :: u64) 1 = Done 0xFFF" by simp
  have fl: "from_flags fs = \<lparr>perm_read = bit fs 2, perm_write = bit fs 1, perm_execute = bit fs 0\<rparr>" for fs
    by (simp only: from_flags_def perms_new_def flags_bit Let_def)
  have ms: "\<not> ?ms < ?fs" using seg(1) by (simp add: word_less_nat_alt)
  have le: "\<not> length bytes < unat ?po + unat ?fs" using seg(2) by simp
  show ?thesis
    unfolding elf_segment_def segment_of_def Let_def
    by (simp only: u b obind_simps oobind_simps ms e if_False p p1 sl fl le simp_thms)
qed

text \<open>The iterator visits the loadable headers in order, until one of them ends it.\<close>

fun collect :: "'a option outcome list \<Rightarrow> 'a list outcome" where
  "collect [] = Done []"
| "collect (r # rs) = (case r of Panic \<Rightarrow> Panic | Done None \<Rightarrow> Done []
     | Done (Some a) \<Rightarrow> obind (collect rs) (\<lambda>as. Done (a # as)))"

definition ph_at :: "elf \<Rightarrow> nat \<Rightarrow> nat" where
  "ph_at e i = ph_offset e + i * unat (ph_entry_size e)"

lemma elf_next_step:
  assumes ok: "elf_header_ok bytes" "length bytes \<le> usize_max" and e: "e = elf_of bytes"
    and sz: "56 \<le> unat (ph_entry_size e)" and i: "i < ph_num e"
  shows "ph_at e i + 56 \<le> length bytes"
    and "elf_next e i = (if loadable bytes (ph_at e i) then obind (elf_segment bytes (ph_at e i)) (\<lambda>r. Done (r, i + 1))
         else elf_next e (i + 1))"
proof -
  have "Suc i * unat (ph_entry_size e) \<le> ph_num e * unat (ph_entry_size e)" using i by (intro mult_le_mono1) simp
  moreover have "ph_offset e + ph_num e * unat (ph_entry_size e) \<le> length bytes"
    using ok(1) e by (simp add: elf_header_ok_def elf_of_def)
  ultimately show le: "ph_at e i + 56 \<le> length bytes" using sz by (simp add: ph_at_def)
  have u: "usize_mul i (unat (ph_entry_size e)) = Done (i * unat (ph_entry_size e))"
    "usize_add (ph_offset e) (i * unat (ph_entry_size e)) = Done (ph_at e i)" "usize_add (ph_at e i) 0 = Done (ph_at e i)"
    using le ok(2) by (simp_all add: usize_mul_def usize_add_def ph_at_def)
  have "get_bytes (elf_bytes e) (ph_at e i) 4 = Some (le_field bytes (ph_at e i) 4 :: u32)" "elf_bytes e = bytes"
    using le ok(2) e by (simp_all add: get_bytes_in elf_of_def)
  then show "elf_next e i = (if loadable bytes (ph_at e i) then obind (elf_segment bytes (ph_at e i)) (\<lambda>r. Done (r, i + 1))
         else elf_next e (i + 1))"
    using u i by (subst elf_next.simps) (simp add: loadable_def)
qed

lemma elf_segments_collect:
  assumes ok: "elf_header_ok bytes" "length bytes \<le> usize_max" and e: "e = elf_of bytes" and sz: "56 \<le> unat (ph_entry_size e)"
  shows "i \<le> ph_num e \<Longrightarrow> elf_segments e i
    = collect (map (\<lambda>i. elf_segment bytes (ph_at e i)) (filter (\<lambda>i. loadable bytes (ph_at e i)) [i..<ph_num e]))"
proof (induction "ph_num e - i" arbitrary: i)
  case 0
  then show ?case by (simp add: elf_segments.simps elf_next.simps)
next
  case (Suc d)
  then have i: "i < ph_num e" by simp
  have IH: "elf_segments e (Suc i)
      = collect (map (\<lambda>i. elf_segment bytes (ph_at e i)) (filter (\<lambda>i. loadable bytes (ph_at e i)) [Suc i..<ph_num e]))"
    using Suc by simp
  note step = elf_next_step(2) [OF ok e sz i]
  show ?case
  proof (cases "loadable bytes (ph_at e i)")
    case True
    then have "elf_segments e i = (case elf_segment bytes (ph_at e i) of Panic \<Rightarrow> Panic | Done None \<Rightarrow> Done []
        | Done (Some a) \<Rightarrow> obind (elf_segments e (Suc i)) (\<lambda>as. Done (a # as)))"
      using step by (subst elf_segments.simps) (auto split: outcome.splits option.splits)
    then show ?thesis unfolding IH using True i by (simp add: upt_conv_Cons)
  next
    case False
    then have "elf_segments e i = elf_segments e (Suc i)"
      using step elf_segments.simps [of e i] elf_segments.simps [of e "Suc i"] by simp
    then show ?thesis using False IH i by (simp add: upt_conv_Cons)
  qed
qed

lemma collect_Done: "collect (map (\<lambda>x. Done (Some (f x))) xs) = Done (map f xs)"
  by (induction xs) simp_all

text \<open>What any item of the iterator satisfies, on any file.\<close>

lemma collect_mem: "collect rs = Done as \<Longrightarrow> a \<in> set as \<Longrightarrow> Done (Some a) \<in> set rs"
proof (induction rs arbitrary: as)
  case (Cons r rs)
  then show ?case by (cases r) (auto split: option.splits)
qed simp

lemma elf_segment_Inr:
  assumes "elf_segment bytes off = Done (Some (Inr s))"
  shows "segment_ok bytes off \<and> s = segment_of bytes off"
proof -
  note o = oobind_eq_Some
  have fl: "from_flags fs = \<lparr>perm_read = bit fs 2, perm_write = bit fs 1, perm_execute = bit fs 0\<rparr>" for fs
    by (simp only: from_flags_def perms_new_def flags_bit Let_def)
  obtain flags :: u32 and po v fs ms en al mk vo :: u64 and sb where
    f: "get_bytes bytes (off + 0x04) 4 = Some flags" "get_bytes bytes (off + 0x08) 8 = Some po"
      "get_bytes bytes (off + 0x10) 8 = Some v" "get_bytes bytes (off + 0x20) 8 = Some fs" "get_bytes bytes (off + 0x28) 8 = Some ms"
      "get_bytes bytes (off + 0x30) 8 = Some al"
    and c: "\<not> ms < fs" "checked_add po fs = Some en" "\<not> length bytes < unat en" "psub al 1 = Done mk" "mk = 0xFFF"
      "psub v (v AND NOT mk) = Done vo" "slice bytes (unat po) (unat en) = Some sb"
    and s: "s = \<lparr>seg_vaddr = v AND NOT mk, seg_offset = vo, seg_vsize = ms, seg_bytes = sb, seg_permissions = from_flags flags\<rparr>"
    using assms unfolding elf_segment_def Let_def
    by (auto simp: o usize_add_def simp del: psub_eq_Done split: if_splits)
  note g = f [THEN get_bytes_Some]
  have en: "unat en = unat po + unat fs" using unat_checked_add [OF c(2)] .
  have vo: "vo = v AND 0xFFF" using c(5,6) by (simp only: psub_eq_Done sub_aligned)
  have al: "al = 0x1000" using c(4,5) by (auto simp: eq_diff_eq)
  have sb: "sb = take (unat fs) (drop (unat po) bytes)" using c(7) en by (auto simp: slice_def split: if_splits)
  have "segment_ok bytes off" unfolding segment_ok_def using g c(1,3) en al by (simp add: word_less_nat_alt)
  moreover have "s = segment_of bytes off"
    unfolding segment_of_def Let_def s fl vo sb c(5) using g by simp
  ultimately show ?thesis by blast
qed

section \<open>Properties\<close>

text \<open>C39: which files the parser accepts: exactly those with the magic, class, byte order, version, type and machine
  of a 64-bit little-endian x86-64 executable whose program headers lie inside the file, and it reads the
  entry point and the header table from their offsets. It panics on a file of fewer than four bytes and on no other.\<close>

theorem elf_parse_accepts:
  assumes "length bytes \<le> usize_max"
  shows "((\<exists>e. elf_parse bytes = Done (Inr e)) \<longleftrightarrow> elf_header_ok bytes)
    \<and> (elf_header_ok bytes \<longrightarrow> elf_parse bytes = Done (Inr (elf_of bytes)))
    \<and> (elf_parse bytes = Panic \<longleftrightarrow> length bytes < 4)"
  using elf_parse_Inr elf_parse_ok [OF _ assms] elf_parse_Panic [OF assms] by blast

lemma segments_collect:
  assumes ok: "elf_parse bytes = Done (Inr e)" "length bytes \<le> usize_max" and sz: "56 \<le> unat (ph_entry_size e)"
  defines "hs \<equiv> filter (loadable bytes) (map (ph_at e) [0..<ph_num e])"
  shows "segments e = collect (map (elf_segment bytes) hs)" "h \<in> set hs \<Longrightarrow> h + 56 \<le> length bytes"
proof -
  have hdr: "elf_header_ok bytes" "e = elf_of bytes" using elf_parse_Inr [OF ok(1)] by simp_all
  let ?is = "filter (\<lambda>i. loadable bytes (ph_at e i)) [0..<ph_num e]"
  have hs: "hs = map (ph_at e) ?is" by (simp add: hs_def filter_map comp_def)
  show "segments e = collect (map (elf_segment bytes) hs)"
    using elf_segments_collect [OF hdr(1) ok(2) hdr(2) sz, of 0] by (simp add: segments_def hs comp_def)
  show "h \<in> set hs \<Longrightarrow> h + 56 \<le> length bytes"
    using elf_next_step(1) [OF hdr(1) ok(2) hdr(2) sz] by (auto simp: hs)
qed

lemma segments_all_ok:
  assumes ok: "elf_parse bytes = Done (Inr e)" "length bytes \<le> usize_max" and sz: "56 \<le> unat (ph_entry_size e)"
    and all: "\<forall>h \<in> set (filter (loadable bytes) (map (ph_at e) [0..<ph_num e])). segment_ok bytes h"
  shows "segments e = Done (map (\<lambda>h. Inr (segment_of bytes h)) (filter (loadable bytes) (map (ph_at e) [0..<ph_num e])))"
proof -
  let ?hs = "filter (loadable bytes) (map (ph_at e) [0..<ph_num e])"
  have m: "map (elf_segment bytes) ?hs = map (\<lambda>h. Done (Some (Inr (segment_of bytes h)))) ?hs"
    by (rule map_cong) (use all segments_collect(2) [OF ok sz] elf_segment_ok [OF _ ok(2)] in blast)+
  show ?thesis unfolding segments_collect(1) [OF ok sz] m by (rule collect_Done)
qed

text \<open>C40: the segments of an accepted file, whose headers have the standard size. When every loadable header is
  well formed the iterator yields one segment for each, in order: its bytes are those of the file at the
  header's offset, its address is cut at a page boundary and its permissions are the header's. On any file
  every segment it does yield is one of these, so that its bytes lie in the file and fit its memory.\<close>

theorem elf_segments_correct:
  assumes ok: "elf_parse bytes = Done (Inr e)" "length bytes \<le> usize_max" and sz: "56 \<le> unat (ph_entry_size e)"
  defines "hs \<equiv> filter (loadable bytes) (map (ph_at e) [0..<ph_num e])"
  shows "((\<forall>h \<in> set hs. segment_ok bytes h) \<longrightarrow> segments e = Done (map (\<lambda>h. Inr (segment_of bytes h)) hs))
    \<and> (segments e = Done rs \<longrightarrow> Inr s \<in> set rs \<longrightarrow> (\<exists>h \<in> set hs. segment_ok bytes h \<and> s = segment_of bytes h))"
proof -
  have "\<exists>h \<in> set hs. segment_ok bytes h \<and> s = segment_of bytes h" if r: "segments e = Done rs" "Inr s \<in> set rs"
  proof -
    note seg = segments_collect(1) [OF ok sz, folded hs_def]
    have "Done (Some (Inr s)) \<in> set (map (elf_segment bytes) hs)" using collect_mem [OF r(1) [unfolded seg] r(2)] .
    then obtain h where h: "h \<in> set hs" "elf_segment bytes h = Done (Some (Inr s))" by auto
    then show ?thesis using elf_segment_Inr by blast
  qed
  then show ?thesis using segments_all_ok [OF ok sz] unfolding hs_def by blast
qed

text \<open>A small executable: a header, one loadable program header and four bytes of text.\<close>

definition elf_demo :: "u8 list" where
  "elf_demo = [0x7F, 0x45, 0x4C, 0x46, 2, 1, 1] @ replicate 9 0 @ [2, 0, 0x3E, 0] @ replicate 4 0
     @ le_bytes 8 (0x401010 :: u64) @ le_bytes 8 (64 :: u64) @ replicate 14 0 @ [56, 0, 1, 0] @ replicate 6 0
     @ le_bytes 4 (1 :: u32) @ le_bytes 4 (5 :: u32) @ le_bytes 8 (120 :: u64) @ le_bytes 8 (0x401010 :: u64)
     @ le_bytes 8 (0x401010 :: u64) @ le_bytes 8 (4 :: u64) @ le_bytes 8 (16 :: u64) @ le_bytes 8 (0x1000 :: u64)
     @ [0x90, 0x90, 0xF4, 0xC3]"

lemma elf_demo_parses: "elf_header_ok elf_demo" "length elf_demo \<le> usize_max"
  by code_simp+

theorem elf_parse_accepts_witness:
  "elf_parse elf_demo = Done (Inr (elf_of elf_demo)) \<and> elf_parse [0x7F, 0x45] = Panic"
  using elf_parse_accepts [of elf_demo] elf_parse_accepts [of "[0x7F, 0x45]"] elf_demo_parses by (simp add: usize_max_def)

theorem elf_segments_correct_witness:
  "segments (elf_of elf_demo) = Done [Inr \<lparr>seg_vaddr = 0x401000, seg_offset = 0x10, seg_vsize = 16,
     seg_bytes = [0x90, 0x90, 0xF4, 0xC3], seg_permissions = \<lparr>perm_read = True, perm_write = False, perm_execute = True\<rparr>\<rparr>]"
proof -
  have p: "elf_parse elf_demo = Done (Inr (elf_of elf_demo))" by (rule elf_parse_ok [OF elf_demo_parses])
  have hs: "filter (loadable elf_demo) (map (ph_at (elf_of elf_demo)) [0..<ph_num (elf_of elf_demo)]) = [64]" by code_simp
  have ok: "segment_ok elf_demo 64" by code_simp
  have sz: "56 \<le> unat (ph_entry_size (elf_of elf_demo))" by code_simp
  have s: "segment_of elf_demo 64 = \<lparr>seg_vaddr = 0x401000, seg_offset = 0x10, seg_vsize = 16,
     seg_bytes = [0x90, 0x90, 0xF4, 0xC3], seg_permissions = \<lparr>perm_read = True, perm_write = False, perm_execute = True\<rparr>\<rparr>"
    by code_simp
  have all: "\<forall>h \<in> set [64]. segment_ok elf_demo h" using ok by (simp only: list.set ball_simps simp_thms)
  have "segments (elf_of elf_demo) = Done (map (\<lambda>h. Inr (segment_of elf_demo h)) [64])"
    using elf_segments_correct [OF p elf_demo_parses(2) sz, unfolded hs] all by blast
  then show ?thesis by (simp only: list.map s)
qed

text \<open>A loadable header whose end overflows is no error: it ends the iteration, and the headers after it are
  never looked at.\<close>

theorem elf_overflow_ends:
  assumes off: "off + 56 \<le> length bytes" "length bytes \<le> usize_max"
    and fit: "unat (le_field bytes (off + 0x20) 8 :: u64) \<le> unat (le_field bytes (off + 0x28) 8 :: u64)"
    and over: "checked_add (le_field bytes (off + 0x08) 8 :: u64) (le_field bytes (off + 0x20) 8) = None"
  shows "elf_segment bytes off = Done None"
proof -
  have u: "usize_add off d = Done (off + d)" if "d \<le> 56" for d using that off by (simp add: usize_add_def)
  have g: "get_bytes bytes (off + d) n = Some (le_field bytes (off + d) n)" if "d + n \<le> 56" for d n
    using that off by (simp add: get_bytes_in)
  have "\<not> (le_field bytes (off + 0x28) 8 :: u64) < le_field bytes (off + 0x20) 8" using fit by (simp add: word_less_nat_alt)
  then show ?thesis using over unfolding elf_segment_def by (simp add: u g)
qed

end
