(* ===== verification/Boot_Main_Props.thy ===== *)
theory Boot_Main_Props
  imports Boot_Main Elf_Props Page_Table_Props
begin

text \<open>
  The kernel image in memory: after the bootloader has loaded the segments of an ELF file, every address of a
  segment reads, through the new page tables, as the file says.
\<close>

section \<open>The values behind the locks\<close>

lemma boot_state_access [simp]:
  "get_free (set_free f b) = f" "get_image (set_free f b) = get_image b" "get_kernel_pt (set_free f b) = get_kernel_pt b"
  "get_free (set_image e b) = get_free b" "get_image (set_image e b) = e" "get_kernel_pt (set_image e b) = get_kernel_pt b"
  "get_free (set_kernel_pt p b) = get_free b" "get_image (set_kernel_pt p b) = get_image b"
  "get_kernel_pt (set_kernel_pt p b) = p"
  by (simp_all add: get_free_def set_free_def get_image_def set_image_def get_kernel_pt_def set_kernel_pt_def
      guard_deref_def guard_deref_mut_def)

section \<open>Reading through the page tables\<close>

definition read_virt :: "range_set machine \<Rightarrow> page_table \<Rightarrow> virt_addr \<Rightarrow> u8 option" where
  "read_virt st root v =
     (case components boot_mem st root v of
        Done (Inr r) \<Rightarrow> map_option (\<lambda>(f, off, _). snd st (f + off)) (page r)
      | _ \<Rightarrow> None)"

lemma aligned_div: "4096 dvd a \<Longrightarrow> off < 4096 \<Longrightarrow> 12 \<le> n \<Longrightarrow> (a + off) div 2 ^ n = a div 2 ^ n" for a off n :: nat
proof -
  assume "4096 dvd a" "off < 4096" "12 \<le> n"
  then obtain c where a: "a = 4096 * c" by (auto elim: dvdE)
  have "(2 :: nat) ^ n = 4096 * 2 ^ (n - 12)" using \<open>12 \<le> n\<close> power_add [of "2 :: nat" 12 "n - 12"] by simp
  then show ?thesis using a \<open>off < 4096\<close> by (simp add: div_mult2_eq)
qed

lemma page_offset:
  assumes "4096 dvd unat a" "off < 4096"
  shows "get_indices (a + of_nat off) = get_indices a" "(a + of_nat off) AND 0xFFF = of_nat off"
proof -
  have u: "unat (a + of_nat off) = unat a + off" using aligned_add [of 12 a off] assms by simp
  have d: "drop_bit n (a + of_nat off) = drop_bit n a" if "12 \<le> n" for n
    unfolding word_unat_eq_iff unat_drop_bit_eq u unfolding drop_bit_eq_div by (rule aligned_div [OF assms that])
  show "get_indices (a + of_nat off) = get_indices a" by (simp add: get_indices_def d)
  have "unat ((a + of_nat off) AND (2 ^ 12 - 1)) = (unat a + off) mod 2 ^ 12" unfolding unat_and_pow2 u ..
  also have "\<dots> = off" using assms by (auto elim!: dvdE)
  finally show "(a + of_nat off) AND 0xFFF = of_nat off" using assms(2) by (simp add: word_unat_eq_iff unat_of_nat_small)
qed

lemma is_aligned_4k: "4096 dvd unat a \<Longrightarrow> is_aligned_to_page a Page4K = Done True"
proof -
  assume "4096 dvd unat a"
  then have "a AND 4095 = 0" using aligned_iff [of a 12] by simp
  moreover have "(a AND NOT m) OR (a AND m) = a" for m by (rule bit_eqI) (auto simp: bit_and_iff bit_or_iff bit_not_iff)
  from this [of 4095] have "(a AND NOT 4095) OR (a AND 4095) = a" .
  ultimately show ?thesis by (simp add: is_aligned_to_page_def is_aligned_def psub_def checked_sub_def)
qed

text \<open>A byte of a page that is held.\<close>

lemma read_virt_holds:
  assumes ok: "boot.pt_ok st root T" and h: "boot.holds st root T a f e b" and a: "4096 dvd unat a" "off < 4096"
    and c: "canonicalize_address 16 (a + of_nat off) = Done (a + of_nat off)"
  shows "read_virt st root (a + of_nat off) = Some (b off)"
proof -
  note p = page_offset [OF a]
  have "lookup 0 (snd st) root (a + of_nat off) = Some (f, of_nat off, e)" "snd st (f + of_nat off) = b off"
    using h p a(2) by (simp_all add: boot.holds_def)
  moreover obtain r where "components boot_mem st root (a + of_nat off) = Done (Inr r)" "page r = lookup 0 (snd st) root (a + of_nat off)"
    using boot.components_spec(1) [OF ok c] by blast
  ultimately show ?thesis by (simp add: read_virt_def)
qed

section \<open>Segments\<close>

definition seg_pages :: "segment \<Rightarrow> nat" where
  "seg_pages s = Suc ((unat (seg_offset s) + unat (seg_vsize s) - 1) div 4096)"

text \<open>A segment that can be mapped: not empty, below the end of the address space, on canonical pages.\<close>

definition seg_ok :: "segment \<Rightarrow> bool" where
  "seg_ok s \<longleftrightarrow> 4096 dvd unat (seg_vaddr s) \<and> 0 < seg_vsize s
     \<and> unat (seg_vaddr s) + unat (seg_offset s) + unat (seg_vsize s) \<le> 2 ^ 64
     \<and> unat (seg_offset s) + unat (seg_vsize s) < 2 ^ 64
     \<and> (\<forall>j < seg_pages s. canonicalize_address 16 (page_addr (seg_vaddr s) j) = Done (page_addr (seg_vaddr s) j))"

definition seg_indices :: "segment \<Rightarrow> u64 list list" where
  "seg_indices s = map (\<lambda>j. get_indices (page_addr (seg_vaddr s) j)) [0..<seg_pages s]"

definition seg_held :: "range_set machine \<Rightarrow> page_table \<Rightarrow> (phys_addr \<rightharpoonup> u64 list) \<Rightarrow> segment \<Rightarrow> bool" where
  "seg_held st root T s \<longleftrightarrow> (\<forall>j < seg_pages s. \<exists>f e. boot.holds st root T (page_addr (seg_vaddr s) j) f e
     (\<lambda>off. segment_byte s (of_nat (j * 4096 + off))))"

lemma load_segment:
  assumes ok: "boot.pt_ok st root T" and s: "seg_ok s"
    and none: "\<forall>j < seg_pages s. lookup 0 (snd st) root (page_addr (seg_vaddr s) j) = None"
    and mem: "can_alloc boot_alloc_phys (4 * seg_pages s + k) (fst st)"
  shows "\<exists>st' T'. load_segments (Inr s # items) root st = load_segments items root st'
    \<and> boot.grows root st T st' T' \<and> can_alloc boot_alloc_phys k (fst st') \<and> seg_held st' root T' s
    \<and> (\<forall>v. get_indices v \<notin> set (seg_indices s) \<longrightarrow> lookup 0 (snd st') root v = lookup 0 (snd st) root v)"
proof -
  let ?perms = "permissions_new (perm_write (seg_permissions s)) (perm_execute (seg_permissions s)) False"
  let ?req = "\<lparr>mr_page_type = Page4K, mr_vaddr = seg_vaddr s, mr_size = seg_offset s + seg_vsize s, mr_permissions = ?perms\<rparr>"
  have seg: "4096 dvd unat (seg_vaddr s)" "0 < unat (seg_vsize s)"
    "unat (seg_vaddr s) + unat (seg_offset s) + unat (seg_vsize s) \<le> 2 ^ 64"
    and v64: "unat (seg_offset s) + unat (seg_vsize s) < 2 ^ 64"
    using s by (simp_all add: seg_ok_def unat_gt_0 word_gt_0)
  have sz: "checked_add (seg_offset s) (seg_vsize s) = Some (seg_offset s + seg_vsize s)"
    "unat (seg_offset s + seg_vsize s) = unat (seg_offset s) + unat (seg_vsize s)"
    using v64 by (simp_all add: checked_add_eq_Some unat_add_no_overflow)
  have al: "map_request_new (seg_vaddr s) Page4K (seg_offset s + seg_vsize s) ?perms = Done (Inr ?req)"
    using is_aligned_4k [OF seg(1)] by (simp add: map_request_new_def)
  have pos: "0 < seg_offset s + seg_vsize s" using seg(2) sz(2) by (simp add: word_less_nat_alt)
  then have one: "unat (seg_offset s + seg_vsize s - 1) = unat (seg_offset s) + unat (seg_vsize s) - 1"
    using sz(2) seg(2) by (simp add: unat_sub [of 1 "seg_offset s + seg_vsize s"] word_le_nat_alt del: of_nat_add)
  obtain st' T' F where r: "map_init boot_mem st root ?req (Some (segment_byte s)) = Done (Some (), st')"
      and g: "boot.grows root st T st' T'" "can_alloc boot_alloc_phys k (fst st')"
      and h: "\<forall>j < seg_pages s. boot.holds st' root T' (page_addr (seg_vaddr s) j) (F j)
           (F j OR PAGE_PRESENT OR permission_bits ?perms OR size_bit Page4K) (\<lambda>off. segment_byte s (of_nat (j * 4096 + off)))"
      and l: "\<forall>v. (\<forall>j < seg_pages s. get_indices v \<noteq> get_indices (page_addr (seg_vaddr s) j))
           \<longrightarrow> lookup 0 (snd st') root v = lookup 0 (snd st) root v"
    using boot.map_init_done [OF ok, of ?req "seg_pages s" k "segment_byte s"] seg pos sz(2) one none mem s
    by (auto simp: seg_pages_def seg_ok_def)
  have "load_segments (Inr s # items) root st = load_segments items root st'"
    using sz(1) al r by (simp add: padd_def Let_def)
  moreover have "seg_held st' root T' s" using h unfolding seg_held_def by blast
  moreover have "lookup 0 (snd st') root v = lookup 0 (snd st) root v" if "get_indices v \<notin> set (seg_indices s)" for v
    using that l by (auto simp: seg_indices_def image_iff)
  ultimately show ?thesis using g by blast
qed

lemma seg_held_grows:
  assumes "seg_held st root T s" "boot.grows root st T st' T'"
    and "\<And>v. get_indices v \<in> set (seg_indices s) \<Longrightarrow> lookup 0 (snd st') root v = lookup 0 (snd st) root v"
  shows "seg_held st' root T' s"
  unfolding seg_held_def
proof (intro allI impI)
  fix j assume j: "j < seg_pages s"
  then have "get_indices (page_addr (seg_vaddr s) j) \<in> set (seg_indices s)" by (auto simp: seg_indices_def)
  then show "\<exists>f e. boot.holds st' root T' (page_addr (seg_vaddr s) j) f e (\<lambda>off. segment_byte s (of_nat (j * 4096 + off)))"
    using assms j boot.holds_grows [OF _ assms(2)] unfolding seg_held_def by metis
qed

text \<open>All the segments, one after the other.\<close>

lemma load_segments_done:
  assumes "boot.pt_ok st root T" "\<forall>s \<in> set segs. seg_ok s" "distinct (concat (map seg_indices segs))"
    and "\<forall>s \<in> set segs. \<forall>j < seg_pages s. lookup 0 (snd st) root (page_addr (seg_vaddr s) j) = None"
    and "can_alloc boot_alloc_phys (4 * sum_list (map seg_pages segs) + k) (fst st)"
  shows "\<exists>st' T'. load_segments (map Inr segs) root st = Done st' \<and> boot.grows root st T st' T'
    \<and> can_alloc boot_alloc_phys k (fst st') \<and> (\<forall>s \<in> set segs. seg_held st' root T' s)
    \<and> (\<forall>v. get_indices v \<notin> set (concat (map seg_indices segs)) \<longrightarrow> lookup 0 (snd st') root v = lookup 0 (snd st) root v)"
  using assms
proof (induction segs arbitrary: st T)
  case Nil
  then show ?case by (intro exI [of _ st] exI [of _ T]) (simp add: boot.grows_refl)
next
  case (Cons s segs)
  have mem: "can_alloc boot_alloc_phys (4 * seg_pages s + (4 * sum_list (map seg_pages segs) + k)) (fst st)"
    using Cons.prems(5) by (simp add: algebra_simps)
  have s: "seg_ok s" "\<forall>j < seg_pages s. lookup 0 (snd st) root (page_addr (seg_vaddr s) j) = None"
    using Cons.prems(2,4) by simp_all
  obtain st1 T1 where st1: "load_segments (Inr s # map Inr segs) root st = load_segments (map Inr segs) root st1"
    "boot.grows root st T st1 T1" "can_alloc boot_alloc_phys (4 * sum_list (map seg_pages segs) + k) (fst st1)" "seg_held st1 root T1 s"
    and l1: "\<And>v. get_indices v \<notin> set (seg_indices s) \<Longrightarrow> lookup 0 (snd st1) root v = lookup 0 (snd st) root v"
    using load_segment [OF Cons.prems(1) s mem, of "map Inr segs"] by blast
  have d: "set (seg_indices s) \<inter> set (concat (map seg_indices segs)) = {}" "distinct (concat (map seg_indices segs))"
    using Cons.prems(3) by simp_all
  have i: "get_indices (page_addr (seg_vaddr s') j) \<in> set (concat (map seg_indices segs))"
    if "s' \<in> set segs" "j < seg_pages s'" for s' j using that by (force simp: seg_indices_def)
  have "\<forall>s' \<in> set segs. \<forall>j < seg_pages s'. lookup 0 (snd st1) root (page_addr (seg_vaddr s') j) = None"
  proof (intro ballI allI impI)
    fix s' j assume s': "s' \<in> set segs" "j < seg_pages s'"
    then have "get_indices (page_addr (seg_vaddr s') j) \<notin> set (seg_indices s)" using i d(1) by blast
    then show "lookup 0 (snd st1) root (page_addr (seg_vaddr s') j) = None"
      using l1 Cons.prems(4) s' by simp
  qed
  moreover have "boot.pt_ok st1 root T1" "\<forall>s \<in> set segs. seg_ok s"
    using st1(2) Cons.prems(2) by (simp_all add: boot.grows_def)
  ultimately obtain st' T' where st': "load_segments (map Inr segs) root st1 = Done st'" "boot.grows root st1 T1 st' T'"
    "can_alloc boot_alloc_phys k (fst st')" "\<forall>s \<in> set segs. seg_held st' root T' s"
    and l2: "\<And>v. get_indices v \<notin> set (concat (map seg_indices segs)) \<Longrightarrow> lookup 0 (snd st') root v = lookup 0 (snd st1) root v"
    using Cons.IH [of st1 T1] d(2) st1(3) by blast
  have "seg_held st' root T' s" using seg_held_grows [OF st1(4) st'(2)] l2 d(1) by blast
  moreover have "lookup 0 (snd st') root v = lookup 0 (snd st) root v"
    if "get_indices v \<notin> set (concat (map seg_indices (s # segs)))" for v
    using that l1 l2 by simp
  ultimately show ?case
    using st1(1) st' boot.grows_trans [OF st1(2) st'(2)] unfolding list.map list.set ball_simps by metis
qed

text \<open>A byte of a held segment, by its distance from the start of the segment.\<close>

lemma seg_held_read:
  assumes ok: "boot.pt_ok st root T" and s: "seg_ok s" and h: "seg_held st root T s" and n: "n < unat (seg_vsize s)"
    and c: "canonicalize_address 16 (seg_vaddr s + seg_offset s + of_nat n) = Done (seg_vaddr s + seg_offset s + of_nat n)"
  shows "read_virt st root (seg_vaddr s + seg_offset s + of_nat n)
    = Some (if n < length (seg_bytes s) then seg_bytes s ! n else 0)"
proof -
  let ?d = "unat (seg_offset s) + n"
  have sz: "4096 dvd unat (seg_vaddr s)" "unat (seg_vaddr s) + unat (seg_offset s) + unat (seg_vsize s) \<le> 2 ^ 64"
    "unat (seg_offset s) + unat (seg_vsize s) < 2 ^ 64" using s by (simp_all add: seg_ok_def)
  have j: "?d div 4096 < seg_pages s" using n by (simp add: seg_pages_def less_Suc_eq_le div_le_mono)
  have "?d = ?d div 4096 * 4096 + ?d mod 4096" by simp
  then have a: "page_addr (seg_vaddr s) (?d div 4096) + of_nat (?d mod 4096) = seg_vaddr s + seg_offset s + of_nat n"
    unfolding page_addr_def add.assoc by (subst of_nat_add [symmetric]) (simp del: of_nat_mult)
  have u: "unat (page_addr (seg_vaddr s) (?d div 4096)) = unat (seg_vaddr s) + ?d div 4096 * 4096"
    using page_addr_unat [of "seg_vaddr s" "unat (seg_offset s) + unat (seg_vsize s)"] sz n j by (simp add: seg_pages_def)
  have "4096 dvd unat (page_addr (seg_vaddr s) (?d div 4096))" unfolding u using sz(1) by (rule dvd_add) simp
  moreover obtain f e where "boot.holds st root T (page_addr (seg_vaddr s) (?d div 4096)) f e
      (\<lambda>off. segment_byte s (of_nat (?d div 4096 * 4096 + off)))"
    using h j unfolding seg_held_def by blast
  ultimately have "read_virt st root (seg_vaddr s + seg_offset s + of_nat n) = Some (segment_byte s (of_nat ?d))"
    using read_virt_holds [OF ok, of "page_addr (seg_vaddr s) (?d div 4096)" f e _ "?d mod 4096"] c
    unfolding a by (simp del: of_nat_add of_nat_mult)
  moreover have "of_nat ?d = seg_offset s + of_nat n" by simp
  moreover have "n < 2 ^ 64" using n sz(3) by simp
  then have "unat (of_nat n :: u64) = n" by (simp add: unat_of_nat_small)
  moreover note \<open>unat (of_nat n :: u64) = n\<close>
  moreover have "seg_offset s \<le> seg_offset s + of_nat n"
    using n sz(3) \<open>unat (of_nat n :: u64) = n\<close> by (simp add: word_le_nat_alt unat_add_no_overflow)
  ultimately show ?thesis by (simp add: segment_byte_def)
qed

section \<open>Memory for the tables\<close>

definition one_range :: "u64 \<Rightarrow> u64 \<Rightarrow> range_set" where
  "one_range s e = rs_new\<lparr>ranges := \<lparr>rstart = s, rend = e\<rparr> # tl (ranges rs_new), in_use := 1\<rparr>"

lemma one_range_alloc:
  assumes "4096 dvd unat s" "unat s + 4096 \<le> unat e"
  shows "boot_alloc_phys (one_range s e) 4096 4096 = Done (Some s, one_range (s + 4096) e)"
proof -
  have "unat e < 2 ^ 64" using unsigned_less [of e] by simp
  then have u: "unat (s + 4095) = unat s + 4095" "unat (s + 4096) = unat s + 4096" 
    using assms(2) by (simp_all add: unat_add_no_overflow)
  have z: "s AND 4095 = 0" using aligned_iff [of s 12] assms(1) by simp
  have p: "alloc_padding 4096 s = 0" by (simp add: alloc_padding_def z)
  have lt: "s + 4095 < e" "s < s + 4095" "s \<le> e" using u assms(2) by (simp_all add: word_less_nat_alt word_le_nat_alt)
  have c: "count_ones (4096 :: u64) = 1" by code_simp
  have a: "checked_add s 4095 = Some (s + 4095)" "checked_add (s + 4095) 0 = Some (s + 4095)"
    using u \<open>unat e < 2 ^ 64\<close> assms(2) by (simp_all add: checked_add_eq_Some)
  have sat: "saturating_add (s + 4095) 1 = s + 4096"
    using u by (simp add: saturating_add_def word_less_nat_alt add.assoc)
  have en: "remove_loop (one_range (s + 4096) e) r 1 True = Done (Inr True, one_range (s + 4096) e)" for r
    by (subst remove_loop.simps) (simp add: one_range_def rs_new_def)
  have le: "s \<le> s + 4095" "\<not> e \<le> s + 4095" using lt by simp_all
  have r: "rs_remove (one_range s e) \<lparr>rstart = s, rend = s + 4095\<rparr> = Done (Inr True, one_range (s + 4096) e)"
    unfolding rs_remove_def
    by (subst remove_loop.simps)
      (use lt le sat en in \<open>simp add: one_range_def rs_new_def array_get_def array_set_def overlaps_def range_contains_def\<close>)
  have "entries (one_range s e) = Done [\<lparr>rstart = s, rend = e\<rparr>]" by (simp add: entries_def one_range_def rs_new_def slice_def)
  moreover have "search 4096 4096 None None [\<lparr>rstart = s, rend = e\<rparr>] = Some (Some (s, s + 4095, s))"
    using p lt a by simp
  ultimately show ?thesis using r c
    by (simp add: boot_alloc_phys_def allocate_def allocate_prefer_def)
qed

lemma one_range_can_alloc:
  "4096 dvd unat s \<Longrightarrow> unat s + n * 4096 \<le> unat e \<Longrightarrow> can_alloc boot_alloc_phys n (one_range s e)"
proof (induction n arbitrary: s)
  case (Suc n)
  have "unat e < 2 ^ 64" using unsigned_less [of e] by simp
  then have u: "unat (s + 4096) = unat s + 4096" using Suc.prems(2) by (simp add: unat_add_no_overflow)
  have "4096 dvd unat (s + 4096)" unfolding u using Suc.prems(1) by (rule dvd_add) simp
  moreover have "unat (s + 4096) + n * 4096 \<le> unat e" using Suc.prems(2) u by simp
  ultimately show ?case using one_range_alloc [of s e] Suc.prems Suc.IH [of "s + 4096"] by simp
qed simp

lemma one_range_ents: "ents (one_range s e) = [\<lparr>rstart = s, rend = e\<rparr>]"
  by (simp add: ents_def one_range_def)

lemma one_range_inv: "s \<le> e \<Longrightarrow> unat e < 2 ^ 52 \<Longrightarrow> boot_inv (one_range s e)"
  by (auto simp: boot_inv_def rs_inv_def list_inv_def wf_arr_def rs_cover_def cover_def one_range_ents word_le_nat_alt)
    (simp_all add: one_range_def rs_new_def)

section \<open>From the file to memory\<close>

definition image_segments :: "u8 list \<Rightarrow> segment list" where
  "image_segments img = map (segment_of img) (filter (loadable img) (map (ph_at (elf_of img)) [0..<ph_num (elf_of img)]))"

text \<open>An image that can be loaded: a well-formed header, well-formed segments on distinct pages.\<close>

definition image_ok :: "u8 list \<Rightarrow> bool" where
  "image_ok img \<longleftrightarrow> elf_header_ok img \<and> length img \<le> usize_max \<and> 56 \<le> unat (ph_entry_size (elf_of img))
     \<and> (\<forall>h \<in> set (filter (loadable img) (map (ph_at (elf_of img)) [0..<ph_num (elf_of img)])). segment_ok img h)
     \<and> (\<forall>s \<in> set (image_segments img). seg_ok s) \<and> distinct (concat (map seg_indices (image_segments img)))"

lemma image_segments_run:
  assumes "image_ok img"
  shows "elf_parse img = Done (Inr (elf_of img))" "segments (elf_of img) = Done (map Inr (image_segments img))"
proof -
  show p: "elf_parse img = Done (Inr (elf_of img))" using assms by (intro elf_parse_ok) (simp_all add: image_ok_def)
  show "segments (elf_of img) = Done (map Inr (image_segments img))"
    using segments_all_ok [OF p] assms by (simp add: image_ok_def image_segments_def comp_def)
qed

lemma boot_fresh_table:
  assumes "boot_inv rs" "can_alloc boot_alloc_phys (Suc k) rs"
  shows "\<exists>root st. page_table_new boot_mem (rs, m) = Done (Some root, st) \<and> boot.pt_ok st root [root \<mapsto> []]
    \<and> can_alloc boot_alloc_phys k (fst st) \<and> (\<forall>v. lookup 0 (snd st) root v = None)"
proof -
  obtain root rs' where al: "boot_alloc_phys rs 4096 4096 = Done (Some root, rs')" "can_alloc boot_alloc_phys k rs'"
    using assms(2) by (auto split: outcome.splits option.splits)
  then have "unat root + 2 ^ 12 \<le> unat phys_limit" "boot_inv rs'"
    using boot.alloc_some [OF assms(1), of 12 root rs'] by simp_all
  then have tr: "translate_mut boot_mem rs' root 4096 = Done (Some (root + 0))"
    using boot.translate_in [of rs' 4096 root] by simp
  let ?st = "(rs', fill_bytes m root 0 4096)"
  have st: "page_table_new boot_mem (rs, m) = Done (Some root, ?st)"
    using al(1) tr by (simp add: page_table_new_def alloc_phys_zeroed_def boot.alloc_pure)
  show ?thesis
    using boot.new_table [OF assms(1) st] st al(2) by (intro exI [of _ root] exI [of _ ?st]) simp
qed

text \<open>C2: loading a kernel image. When the image is well formed and there is memory for its pages and the tables,
  \<open>load_kernel\<close> gets past the loop over the segments, with the new table as the kernel's page table. From
  then on every address of a segment reads, through the new tables, the byte the file has for it, and zero past the
  bytes of the file.\<close>

theorem kernel_segments_loaded:
  assumes img: "image_ok img" and b: "get_image b = None" "get_free b = Some rs" and inv: "boot_inv rs"
    and mem: "can_alloc boot_alloc_phys (Suc (4 * sum_list (map seg_pages (image_segments img)))) rs"
  shows "\<exists>root b' st'. load_kernel_segments img (b, m) = Done (root, b', st')
    \<and> get_image b' = Some (elf_of img) \<and> get_kernel_pt b' = Some root
    \<and> (\<forall>s \<in> set (image_segments img). \<forall>n < unat (seg_vsize s).
         let v = seg_vaddr s + seg_offset s + of_nat n in
         canonicalize_address 16 v = Done v
           \<longrightarrow> read_virt st' root v = Some (if n < length (seg_bytes s) then seg_bytes s ! n else 0))"
proof -
  let ?segs = "image_segments img"
  note run = image_segments_run [OF img]
  have segs: "\<forall>s \<in> set ?segs. seg_ok s" "distinct (concat (map seg_indices ?segs))" using img by (simp_all add: image_ok_def)
  obtain root st where new: "page_table_new boot_mem (rs, m) = Done (Some root, st)" "boot.pt_ok st root [root \<mapsto> []]"
    "can_alloc boot_alloc_phys (4 * sum_list (map seg_pages ?segs) + 0) (fst st)" "\<forall>v. lookup 0 (snd st) root v = None"
    using boot_fresh_table [OF inv mem, of m] by auto
  obtain st' T' where st': "load_segments (map Inr ?segs) root st = Done st'" "boot.grows root st [root \<mapsto> []] st' T'"
    and held: "\<forall>s \<in> set ?segs. seg_held st' root T' s"
    using load_segments_done [OF new(2) segs _ new(3)] new(4) by blast
  have ok: "boot.pt_ok st' root T'" using st'(2) by (simp add: boot.grows_def)
  let ?b = "set_kernel_pt (Some root) (set_image (Some (elf_of img)) b)"
  have "load_kernel_segments img (b, m) = Done (root, ?b, st')"
    using b run new(1) st'(1) by (simp add: load_kernel_segments_def Let_def)
  moreover have "get_image ?b = Some (elf_of img)" "get_kernel_pt ?b = Some root" by simp_all
  ultimately show ?thesis
    using seg_held_read [OF ok] segs(1) held by (intro exI [of _ root] exI [of _ ?b] exI [of _ st']) (simp add: Let_def)
qed

definition boot_demo :: boot_state where
  "boot_demo = set_free (Some (one_range 0x100000 0x1fffff))
     \<lparr>SHARED = shared_new, MEMORY_SNAPSHOT = once_new, INITIALIZED = False, RAW_PT_ENTRY = 0\<rparr>"

definition seg_demo :: segment where
  "seg_demo = \<lparr>seg_vaddr = 0x401000, seg_offset = 0x10, seg_vsize = 16, seg_bytes = [0x90, 0x90, 0xF4, 0xC3],
     seg_permissions = \<lparr>perm_read = True, perm_write = False, perm_execute = True\<rparr>\<rparr>"

lemma image_demo: "image_segments elf_demo = [seg_demo]" "image_ok elf_demo"
proof -
  show segs: "image_segments elf_demo = [seg_demo]" by code_simp
  have hs: "filter (loadable elf_demo) (map (ph_at (elf_of elf_demo)) [0..<ph_num (elf_of elf_demo)]) = [64]" by code_simp
  have "segment_ok elf_demo 64" "56 \<le> unat (ph_entry_size (elf_of elf_demo))" by code_simp+
  moreover have "canonicalize_address 16 (page_addr 0x401000 0) = Done (page_addr 0x401000 0)" by code_simp
  then have "seg_ok seg_demo" "distinct (seg_indices seg_demo)"
    by (simp_all add: seg_ok_def seg_indices_def seg_pages_def seg_demo_def)
  ultimately show "image_ok elf_demo" using elf_demo_parses unfolding image_ok_def hs segs by simp
qed

theorem kernel_segments_loaded_witness:
  "\<exists>root b' st'. load_kernel_segments elf_demo (boot_demo, \<lambda>_. 1) = Done (root, b', st')
    \<and> read_virt st' root 0x401012 = Some 0xF4 \<and> read_virt st' root 0x401018 = Some 0"
proof -
  have b: "get_image boot_demo = None" "get_free boot_demo = Some (one_range 0x100000 0x1fffff)"
    by (simp_all add: boot_demo_def) (simp add: get_image_def shared_new_def guard_deref_def spin_lock_new_def)
  have inv: "boot_inv (one_range 0x100000 0x1fffff)" by (rule one_range_inv) simp_all
  have "seg_pages seg_demo = 1" by code_simp
  then have mem: "can_alloc boot_alloc_phys (Suc (4 * sum_list (map seg_pages (image_segments elf_demo)))) (one_range 0x100000 0x1fffff)"
    unfolding image_demo(1) by (intro one_range_can_alloc) simp_all
  obtain root b' st' where r: "load_kernel_segments elf_demo (boot_demo, \<lambda>_. 1) = Done (root, b', st')"
    "\<forall>n < unat (seg_vsize seg_demo). let v = seg_vaddr seg_demo + seg_offset seg_demo + of_nat n in
         canonicalize_address 16 v = Done v
           \<longrightarrow> read_virt st' root v = Some (if n < length (seg_bytes seg_demo) then seg_bytes seg_demo ! n else 0)"
    using kernel_segments_loaded [OF image_demo(2) b inv mem, of "\<lambda>_. 1"] unfolding image_demo(1) list.set by auto
  have "canonicalize_address 16 0x401012 = Done 0x401012" "canonicalize_address 16 0x401018 = Done 0x401018" by code_simp+
  then show ?thesis
    using r(1) r(2) [rule_format, of 2] r(2) [rule_format, of 8] by (auto simp: seg_demo_def Let_def)
qed

end
