(* ===== verification/Free_List.thy ===== *)
theory Free_List
  imports Shared_Data
begin

text \<open>
  The free lists of the kernel's allocator, \<open>FreeList\<close> in \<open>src/kernel/src/mm.rs\<close>. A list keeps its
  bookkeeping inside the free blocks themselves, so the model reads and writes the byte memory.

  \<open>FreeListNode\<close> has no \<open>repr\<close> attribute: where the compiler puts its three fields is not specified. The
  offsets are a parameter of the model; the code relies on the order in which the fields are declared.
\<close>

section \<open>Definitions\<close>

record node_layout =
  off_next :: u64
  off_free_slots :: u64
  off_free_addrs :: u64

text \<open>The fields as they are declared.\<close>

definition declared_layout :: node_layout where
  "declared_layout = \<lparr>off_next = 0, off_free_slots = 8, off_free_addrs = 16\<rparr>"

text \<open>\<open>size_of::<FreeListNode>()\<close>: an address, a count and an empty array.\<close>

definition NODE_SIZE :: nat where "NODE_SIZE = 16"

record free_list =
  fl_head :: virt_addr
  fl_size :: nat

definition free_list_new :: "nat \<Rightarrow> free_list outcome" where
  "free_list_new sz =
     assert_that (count_ones (of_nat sz :: u64) = 1) (assert_that (sz \<ge> 8)
       (Done \<lparr>fl_head = 0, fl_size = sz\<rparr>))"

definition available_slots :: "nat \<Rightarrow> nat" where
  "available_slots sz = sz div 8 - NODE_SIZE div 8"

definition fl_push :: "node_layout \<Rightarrow> free_list \<Rightarrow> memory \<Rightarrow> u64 \<Rightarrow> free_list \<times> memory" where
  "fl_push L fl m vaddr =
     (if fl_size fl \<le> NODE_SIZE then
        (fl\<lparr>fl_head := vaddr\<rparr>, write_u64 m (vaddr + off_next L) (fl_head fl))
      else if fl_head fl = 0 \<or> read_u64 m (fl_head fl + off_free_slots L) = 0 then
        let m = write_u64 m (vaddr + off_free_slots L) (of_nat (available_slots (fl_size fl)));
            m = write_u64 m (vaddr + off_next L) (fl_head fl)
        in (fl\<lparr>fl_head := vaddr\<rparr>, m)
      else
        let list = fl_head fl;
            slots = read_u64 m (list + off_free_slots L) - 1;
            m = write_u64 m (list + off_free_slots L) slots
        in (fl, write_u64 m (list + off_free_addrs L + 8 * slots) vaddr))"

text \<open>\<open>pop\<close> on a list that has a block, after it was refilled where it was empty.\<close>

definition fl_take :: "node_layout \<Rightarrow> free_list \<Rightarrow> memory \<Rightarrow> u64 \<times> free_list \<times> memory" where
  "fl_take L fl m =
     (if fl_size fl \<le> NODE_SIZE then
        (fl_head fl, fl\<lparr>fl_head := read_u64 m (fl_head fl + off_next L)\<rparr>, m)
      else
        let list = fl_head fl; slots = read_u64 m (list + off_free_slots L) in
        if unat slots < available_slots (fl_size fl) then
          (read_u64 m (list + off_free_addrs L + 8 * slots), fl,
           write_u64 m (list + off_free_slots L) (slots + 1))
        else (list, fl\<lparr>fl_head := read_u64 m (list + off_next L)\<rparr>, m))"

section \<open>Words inside a block\<close>

definition block_at :: "nat \<Rightarrow> u64 \<Rightarrow> u64 set" where
  "block_at sz a = {x. unat a \<le> unat x \<and> unat x < unat a + sz}"

definition block_fits :: "nat \<Rightarrow> u64 \<Rightarrow> bool" where
  "block_fits sz a \<longleftrightarrow> unat a + sz \<le> 2 ^ 64"

lemma unat_block_offset: "block_fits sz a \<Longrightarrow> i < sz \<Longrightarrow> unat (a + of_nat i) = unat a + i"
  unfolding block_fits_def by (subst unat_add_no_overflow) (simp_all add: unat_of_nat_small)

lemma block_at_offset: "block_fits sz a \<Longrightarrow> i < sz \<Longrightarrow> a + of_nat i \<in> block_at sz a"
  by (simp add: block_at_def unat_block_offset)

lemma read_in_block:
  assumes "\<And>x. x \<in> block_at sz a \<Longrightarrow> m' x = m x" "block_fits sz a" "i + 8 \<le> sz"
  shows "read_u64 m' (a + of_nat i) = read_u64 m (a + of_nat i)"
proof (rule read_u64_cong)
  fix j :: nat assume "j < 8"
  then have "a + of_nat (i + j) \<in> block_at sz a" using assms(2,3) by (intro block_at_offset) simp_all
  then show "m' (a + of_nat i + of_nat j) = m (a + of_nat i + of_nat j)" using assms(1) by (simp add: add.assoc)
qed

lemma write_outside_block:
  assumes "block_fits sz a" "i + 8 \<le> sz" "x \<notin> block_at sz a"
  shows "write_u64 m (a + of_nat i) v x = m x"
proof (rule write_u64_outside, rule ccontr)
  have u: "unat (a + of_nat i) = unat a + i" by (rule unat_block_offset [OF assms(1)]) (use assms(2) in linarith)
  assume "\<not> 8 \<le> unat (x - (a + of_nat i))"
  then have "a + of_nat i \<le> x \<and> unat x < unat (a + of_nat i) + 8"
    using unat_diff_less [of "a + of_nat i" 8 x] assms(1,2) u by (simp add: block_fits_def)
  then have "x \<in> block_at sz a" using u assms(2) by (simp add: block_at_def word_le_nat_alt)
  then show False using assms(3) by blast
qed

lemma read_write_in_block:
  assumes "block_fits sz a" "i + 8 \<le> sz" "j + 8 \<le> sz" "i + 8 \<le> j \<or> j + 8 \<le> i"
  shows "read_u64 (write_u64 m (a + of_nat i) v) (a + of_nat j) = read_u64 m (a + of_nat j)"
proof (rule read_u64_cong, rule write_u64_outside, rule ccontr)
  fix k :: nat assume k: "k < 8"
  have u: "unat (a + of_nat i) = unat a + i" by (rule unat_block_offset [OF assms(1)]) (use assms(2) in linarith)
  have w: "unat (a + of_nat j + of_nat k) = unat a + (j + k)"
    using unat_block_offset [of sz a "j + k"] assms k by (simp add: add.assoc)
  assume "\<not> 8 \<le> unat (a + of_nat j + of_nat k - (a + of_nat i))"
  then have "a + of_nat i \<le> a + of_nat j + of_nat k \<and> unat (a + of_nat j + of_nat k) < unat (a + of_nat i) + 8"
    using unat_diff_less [of "a + of_nat i" 8 "a + of_nat j + of_nat k"] assms(1,2) u by (simp add: block_fits_def)
  then show False using u w k assms(4) by (auto simp: word_le_nat_alt)
qed

section \<open>What a list stands for\<close>

text \<open>Blocks of the list's size that do not wrap, are not null and do not overlap.\<close>

definition blocks_ok :: "nat \<Rightarrow> u64 list \<Rightarrow> bool" where
  "blocks_ok sz bs \<longleftrightarrow> distinct bs \<and> (\<forall>b \<in> set bs. b \<noteq> 0 \<and> block_fits sz b)
     \<and> (\<forall>a \<in> set bs. \<forall>b \<in> set bs. a \<noteq> b \<longrightarrow> block_at sz a \<inter> block_at sz b = {})"

text \<open>Small blocks are linked through their first word.\<close>

fun chain_rep :: "memory \<Rightarrow> u64 \<Rightarrow> u64 list \<Rightarrow> bool" where
  "chain_rep m head [] \<longleftrightarrow> head = 0"
| "chain_rep m head (b # bs) \<longleftrightarrow> head = b \<and> chain_rep m (read_u64 m b) bs"

text \<open>A larger block holds a stack of addresses of other blocks, which grows towards its start.\<close>

definition node_rep :: "nat \<Rightarrow> memory \<Rightarrow> u64 \<Rightarrow> u64 list \<Rightarrow> bool" where
  "node_rep sz m a xs \<longleftrightarrow>
     length xs \<le> available_slots sz \<and> read_u64 m (a + of_nat 8) = of_nat (available_slots sz - length xs)
     \<and> (\<forall>i < length xs. read_u64 m (a + of_nat (16 + 8 * (available_slots sz - length xs + i))) = xs ! i)"

fun nodes_rep :: "nat \<Rightarrow> memory \<Rightarrow> u64 \<Rightarrow> (u64 \<times> u64 list) list \<Rightarrow> bool" where
  "nodes_rep sz m head [] \<longleftrightarrow> head = 0"
| "nodes_rep sz m head ((a, xs) # ns) \<longleftrightarrow> head = a \<and> node_rep sz m a xs \<and> nodes_rep sz m (read_u64 m a) ns"

definition node_blocks :: "(u64 \<times> u64 list) list \<Rightarrow> u64 list" where
  "node_blocks ns = concat (map (\<lambda>(a, xs). xs @ [a]) ns)"

text \<open>The list holds the blocks \<open>bs\<close>, the next one to be handed out first.\<close>

definition fl_rep :: "memory \<Rightarrow> free_list \<Rightarrow> u64 list \<Rightarrow> bool" where
  "fl_rep m fl bs \<longleftrightarrow> blocks_ok (fl_size fl) bs \<and> 8 dvd fl_size fl \<and> 8 \<le> fl_size fl \<and> fl_size fl < 2 ^ 63
     \<and> (if fl_size fl \<le> NODE_SIZE then chain_rep m (fl_head fl) bs
        else \<exists>ns. nodes_rep (fl_size fl) m (fl_head fl) ns \<and> bs = node_blocks ns)"

lemma available_fits: "8 dvd sz \<Longrightarrow> NODE_SIZE < sz \<Longrightarrow> k < available_slots sz \<Longrightarrow> 16 + 8 * k + 8 \<le> sz"
  by (auto simp: available_slots_def NODE_SIZE_def dvd_def)

lemma chain_frame:
  assumes "\<forall>b \<in> set bs. block_fits sz b \<and> (\<forall>x \<in> block_at sz b. m' x = m x)" "8 \<le> sz"
  shows "chain_rep m' head bs \<longleftrightarrow> chain_rep m head bs"
  using assms(1)
proof (induction bs arbitrary: head)
  case (Cons b bs)
  have "read_u64 m' b = read_u64 m b" using read_in_block [of sz b m' m 0] Cons.prems assms(2) by simp
  with Cons show ?case by simp
qed simp

lemma node_frame:
  assumes "block_fits sz a" "\<forall>x \<in> block_at sz a. m' x = m x" "8 dvd sz" "NODE_SIZE < sz"
  shows "node_rep sz m' a xs \<longleftrightarrow> node_rep sz m a xs" "read_u64 m' a = read_u64 m a"
proof -
  have r: "read_u64 m' (a + of_nat i) = read_u64 m (a + of_nat i)" if "i + 8 \<le> sz" for i
    using read_in_block [of sz a m' m i] assms(1,2) that by blast
  have s: "16 \<le> sz" using assms(4) by (simp add: NODE_SIZE_def)
  have "read_u64 m' (a + of_nat 8) = read_u64 m (a + of_nat 8)" by (rule r) (use s in simp)
  moreover have "read_u64 m' (a + of_nat (16 + 8 * k)) = read_u64 m (a + of_nat (16 + 8 * k))" if "k < available_slots sz" for k
    using r available_fits [OF assms(3,4) that] by blast
  ultimately show "node_rep sz m' a xs \<longleftrightarrow> node_rep sz m a xs"
    unfolding node_rep_def by (smt (verit, best) add_less_cancel_left le_add_diff_inverse2 add.commute)
  show "read_u64 m' a = read_u64 m a" using r [of 0] s by simp
qed

lemma nodes_frame:
  assumes "\<forall>a \<in> set (map fst ns). block_fits sz a \<and> (\<forall>x \<in> block_at sz a. m' x = m x)" "8 dvd sz" "NODE_SIZE < sz"
  shows "nodes_rep sz m' head ns \<longleftrightarrow> nodes_rep sz m head ns"
  using assms(1)
proof (induction ns arbitrary: head)
  case (Cons n ns)
  obtain a xs where n: "n = (a, xs)" by force
  show ?case using Cons node_frame [of sz a m' m, OF _ _ assms(2,3)] n by simp
qed simp

lemma node_blocks_simps [simp]: "node_blocks [] = []" "node_blocks ((a, xs) # ns) = xs @ a # node_blocks ns"
  by (simp_all add: node_blocks_def)

lemma fst_in_blocks: "a \<in> set (map fst ns) \<Longrightarrow> a \<in> set (node_blocks ns)"
  by (force simp: node_blocks_def)

lemma of_nat_slot: "a + 16 + 8 * of_nat k = (a + of_nat (16 + 8 * k) :: u64)"
  by simp

lemma available_bound: "sz < 2 ^ 63 \<Longrightarrow> available_slots sz < 2 ^ 64"
  by (simp add: available_slots_def)

text \<open>A new node on top of the list.\<close>

lemma push_new_node:
  assumes sz: "8 dvd sz" "NODE_SIZE < sz" and b: "block_fits sz b" and rep: "nodes_rep sz m head ns"
    and apart: "\<forall>a \<in> set (map fst ns). block_fits sz a \<and> block_at sz a \<inter> block_at sz b = {}"
  defines "m' \<equiv> write_u64 (write_u64 m (b + 8) (of_nat (available_slots sz))) b head"
  shows "nodes_rep sz m' b ((b, []) # ns)" "\<And>x. x \<notin> block_at sz b \<Longrightarrow> m' x = m x"
proof -
  have s: "0 + 8 \<le> sz" "8 + 8 \<le> sz" using sz(2) by (simp_all add: NODE_SIZE_def)
  show out: "m' x = m x" if "x \<notin> block_at sz b" for x
    using write_outside_block [OF b s(1) that] write_outside_block [OF b s(2) that] by (simp add: m'_def)
  have "read_u64 m' (b + of_nat 8) = of_nat (available_slots sz)"
    using read_write_in_block [OF b s, of "write_u64 m (b + 8) (of_nat (available_slots sz))" head] by (simp add: m'_def)
  then have "node_rep sz m' b []" by (simp add: node_rep_def)
  moreover have "nodes_rep sz m' head ns"
    using nodes_frame [of ns sz m' m head, OF _ sz] apart out rep by blast
  moreover have "read_u64 m' b = head" by (simp add: m'_def)
  ultimately show "nodes_rep sz m' b ((b, []) # ns)" by simp
qed

text \<open>A block put into the first node.\<close>

lemma push_into_node:
  fixes b :: u64
  assumes sz: "8 dvd sz" "NODE_SIZE < sz" "sz < 2 ^ 63" and a: "block_fits sz a" and rep: "node_rep sz m a xs"
    and room: "read_u64 m (a + 8) \<noteq> 0"
  defines "slots \<equiv> read_u64 m (a + 8) - 1"
  defines "m' \<equiv> write_u64 (write_u64 m (a + 8) slots) (a + 16 + 8 * slots) b"
  shows "node_rep sz m' a (b # xs)" "read_u64 m' a = read_u64 m a" "\<And>x. x \<notin> block_at sz a \<Longrightarrow> m' x = m x"
proof -
  let ?n = "available_slots sz"
  have len: "length xs \<le> ?n" and r8: "read_u64 m (a + of_nat 8) = of_nat (?n - length xs)"
    and xs: "\<forall>i < length xs. read_u64 m (a + of_nat (16 + 8 * (?n - length xs + i))) = xs ! i"
    using rep unfolding node_rep_def by blast+
  have r: "read_u64 m (a + 8) = of_nat (?n - length xs)" using r8 by (simp only: of_nat_numeral)
  have lt: "length xs < ?n" using len room r by (cases "length xs = ?n") auto
  define k where "k = ?n - length (b # xs)"
  have k: "?n - length xs = Suc k" "k < ?n" using lt by (simp_all add: k_def)
  have slots: "slots = of_nat k" unfolding slots_def r k(1) by simp
  have m': "m' = write_u64 (write_u64 m (a + of_nat 8) slots) (a + of_nat (16 + 8 * k)) b"
    unfolding m'_def slots of_nat_slot by simp
  have s: "0 + 8 \<le> sz" "8 + 8 \<le> sz" "16 + 8 * k + 8 \<le> sz" using available_fits [OF sz(1,2) k(2)] by simp_all
  show "m' x = m x" if "x \<notin> block_at sz a" for x
    unfolding m' using write_outside_block [OF a s(3) that] write_outside_block [OF a s(2) that] by simp
  show "read_u64 m' a = read_u64 m a"
    unfolding m' using read_write_in_block [OF a s(3,1)] read_write_in_block [OF a s(2,1)] by simp
  have "read_u64 m' (a + of_nat 8) = of_nat k"
    unfolding m' using read_write_in_block [OF a s(3,2)] by (simp add: slots)
  moreover have "read_u64 m' (a + of_nat (16 + 8 * (k + i))) = (b # xs) ! i" if i: "i < length (b # xs)" for i
  proof (cases i)
    case 0
    then show ?thesis by (simp add: m')
  next
    case (Suc j)
    have kj: "k + i < ?n" using i lt by (simp add: k_def)
    have si: "16 + 8 * (k + i) + 8 \<le> sz" by (rule available_fits [OF sz(1,2) kj])
    have "read_u64 m' (a + of_nat (16 + 8 * (k + i))) = read_u64 m (a + of_nat (16 + 8 * (k + i)))"
      unfolding m' using read_write_in_block [OF a s(3) si] read_write_in_block [OF a s(2) si] Suc by simp
    also have "\<dots> = xs ! j"
    proof -
      have e: "k + i = ?n - length xs + j" using Suc k(1) by simp
      have "j < length xs" using i Suc by simp
      then show ?thesis unfolding e using xs by blast
    qed
    finally show ?thesis using Suc by simp
  qed
  ultimately show "node_rep sz m' a (b # xs)"
    using lt by (simp add: node_rep_def k_def del: of_nat_add of_nat_mult)
qed

text \<open>Taking a block out of the first node.\<close>

lemma take_from_node:
  assumes sz: "8 dvd sz" "NODE_SIZE < sz" "sz < 2 ^ 63" and a: "block_fits sz a" and rep: "node_rep sz m a (b # xs)"
  defines "slots \<equiv> read_u64 m (a + 8)"
  defines "m' \<equiv> write_u64 m (a + 8) (slots + 1)"
  shows "unat slots < available_slots sz" "read_u64 m (a + 16 + 8 * slots) = b" "node_rep sz m' a xs"
    "read_u64 m' a = read_u64 m a" "\<And>x. x \<notin> block_at sz a \<Longrightarrow> m' x = m x"
proof -
  let ?n = "available_slots sz"
  define k where "k = ?n - length (b # xs)"
  have len: "length xs < ?n" using rep by (simp add: node_rep_def)
  have slots: "slots = of_nat k" using rep by (simp add: node_rep_def slots_def k_def)
  have kn: "k < ?n" "?n - length xs = Suc k" using len by (simp_all add: k_def)
  then have "k < 2 ^ 64" using available_bound [OF sz(3)] by linarith
  then show "unat slots < ?n" using kn(1) unat_of_nat_small slots by metis
  have xs: "read_u64 m (a + of_nat (16 + 8 * (k + i))) = (b # xs) ! i" if "i < length (b # xs)" for i
    using rep that unfolding node_rep_def k_def by blast
  show "read_u64 m (a + 16 + 8 * slots) = b" unfolding slots of_nat_slot using xs [of 0] by simp
  have s: "0 + 8 \<le> sz" "8 + 8 \<le> sz" using sz(2) by (simp_all add: NODE_SIZE_def)
  have m': "m' = write_u64 m (a + of_nat 8) (of_nat (Suc k))" unfolding m'_def slots by (simp add: add.commute)
  show "m' x = m x" if "x \<notin> block_at sz a" for x
    unfolding m' by (rule write_outside_block [OF a s(2) that])
  show "read_u64 m' a = read_u64 m a"
    unfolding m' using read_write_in_block [OF a s(2,1)] by simp
  have "read_u64 m' (a + of_nat (16 + 8 * (Suc k + i))) = xs ! i" if i: "i < length xs" for i
  proof -
    have "k + Suc i < ?n" using i len by (simp add: k_def)
    then have si: "16 + 8 * (k + Suc i) + 8 \<le> sz" by (rule available_fits [OF sz(1,2)])
    have "read_u64 m' (a + of_nat (16 + 8 * (k + Suc i))) = read_u64 m (a + of_nat (16 + 8 * (k + Suc i)))"
      unfolding m' using read_write_in_block [OF a s(2) si] by simp
    then show ?thesis using xs [of "Suc i"] i by simp
  qed
  then show "node_rep sz m' a xs"
    unfolding node_rep_def kn(2) using len by (simp add: m' del: of_nat_add of_nat_mult of_nat_Suc)
qed

section \<open>A free list is a stack of blocks\<close>

lemma blocks_ok_tl: "blocks_ok sz (b # bs) \<Longrightarrow> blocks_ok sz bs"
  unfolding blocks_ok_def by simp

lemma blocks_ok_fits: "blocks_ok sz bs \<Longrightarrow> a \<in> set bs \<Longrightarrow> block_fits sz a"
  unfolding blocks_ok_def by blast

lemma blocks_ok_apart: "blocks_ok sz bs \<Longrightarrow> a \<in> set bs \<Longrightarrow> c \<in> set bs \<Longrightarrow> a \<noteq> c \<Longrightarrow> block_at sz a \<inter> block_at sz c = {}"
  unfolding blocks_ok_def by blast

lemma blocks_ok_apart_hd:
  assumes "blocks_ok sz (b # bs)" "a \<in> set bs"
  shows "block_fits sz a \<and> block_at sz a \<inter> block_at sz b = {}"
proof -
  have "a \<noteq> b" using assms by (auto simp: blocks_ok_def)
  then show ?thesis using blocks_ok_fits [OF assms(1)] blocks_ok_apart [OF assms(1)] assms(2) by simp
qed

text \<open>A write inside the first node leaves the other nodes alone.\<close>

lemma later_nodes_frame:
  assumes ok: "blocks_ok sz (xs @ a # node_blocks ns)" and out: "\<And>x. x \<notin> block_at sz a \<Longrightarrow> m' x = m x"
    and sz: "8 dvd sz" "NODE_SIZE < sz"
  shows "nodes_rep sz m' head ns \<longleftrightarrow> nodes_rep sz m head ns"
proof (rule nodes_frame [OF _ sz], rule ballI, rule conjI)
  fix c assume c: "c \<in> set (map fst ns)"
  have cb: "c \<in> set (node_blocks ns)" by (rule fst_in_blocks [OF c])
  then have ne: "c \<noteq> a" using ok by (auto simp: blocks_ok_def)
  show "block_fits sz c" by (rule blocks_ok_fits [OF ok]) (use cb in simp)
  have "block_at sz c \<inter> block_at sz a = {}" by (rule blocks_ok_apart [OF ok _ _ ne]) (use cb in simp_all)
  then show "\<forall>x \<in> block_at sz c. m' x = m x" using out by blast
qed

lemma fl_push_rep:
  assumes rep: "fl_rep m fl bs" and ok: "blocks_ok (fl_size fl) (b # bs)" and p: "fl_push declared_layout fl m b = (fl', m')"
  shows "fl_rep m' fl' (b # bs)" "fl_size fl' = fl_size fl" "\<And>x. x \<notin> (\<Union>a \<in> set (b # bs). block_at (fl_size fl) a) \<Longrightarrow> m' x = m x"
proof -
  let ?sz = "fl_size fl"
  have sz: "8 dvd ?sz" "8 \<le> ?sz" "?sz < 2 ^ 63" and bok: "blocks_ok ?sz bs" using rep by (simp_all add: fl_rep_def)
  have b: "block_fits ?sz b" by (rule blocks_ok_fits [OF ok]) simp
  note apart = blocks_ok_apart_hd [OF ok]
  have "fl_rep m' fl' (b # bs) \<and> fl_size fl' = ?sz \<and> (\<forall>x. x \<notin> (\<Union>a \<in> set (b # bs). block_at ?sz a) \<longrightarrow> m' x = m x)"
  proof (cases "?sz \<le> NODE_SIZE")
    case True
    then have fl': "fl' = fl\<lparr>fl_head := b\<rparr>" and m': "m' = write_u64 m (b + of_nat 0) (fl_head fl)"
      using p by (simp_all add: fl_push_def declared_layout_def)
    have out: "m' x = m x" if "x \<notin> block_at ?sz b" for x
      unfolding m' by (rule write_outside_block [OF b _ that]) (use sz in simp)
    have "chain_rep m' (fl_head fl) bs \<longleftrightarrow> chain_rep m (fl_head fl) bs"
      by (rule chain_frame [OF _ sz(2)]) (use apart out in blast)
    then have "chain_rep m' b (b # bs)" using rep True by (simp add: fl_rep_def m')
    then show ?thesis using True ok sz out by (simp add: fl_rep_def fl')
  next
    case False
    then obtain ns where ns: "nodes_rep ?sz m (fl_head fl) ns" "bs = node_blocks ns" using rep by (auto simp: fl_rep_def)
    have big: "NODE_SIZE < ?sz" using False by simp
    have na: "\<forall>a \<in> set (map fst ns). block_fits ?sz a \<and> block_at ?sz a \<inter> block_at ?sz b = {}"
      using apart fst_in_blocks ns(2) by blast
    show ?thesis
    proof (cases "fl_head fl = 0 \<or> read_u64 m (fl_head fl + 8) = 0")
      case True
      then have fl': "fl' = fl\<lparr>fl_head := b\<rparr>"
        and m': "m' = write_u64 (write_u64 m (b + 8) (of_nat (available_slots ?sz))) b (fl_head fl)"
        using p False by (auto simp: fl_push_def declared_layout_def Let_def)
      note new = push_new_node [OF sz(1) big b ns(1) na, folded m']
      have "\<exists>ns'. nodes_rep ?sz m' b ns' \<and> b # bs = node_blocks ns'"
        using new(1) ns(2) by (intro exI [of _ "(b, []) # ns"]) simp
      then show ?thesis using False ok sz new(2) by (simp add: fl_rep_def fl')
    next
      case room: False
      then obtain a xs ns' where n: "ns = (a, xs) # ns'" using ns(1) by (cases ns) auto
      then have h: "fl_head fl = a" and nr: "node_rep ?sz m a xs" "nodes_rep ?sz m (read_u64 m a) ns'" using ns(1) by simp_all
      have abs: "a \<in> set bs" using ns(2) n by simp
      have a: "block_fits ?sz a" using apart abs by blast
      have fl': "fl' = fl" and m': "m' = write_u64 (write_u64 m (a + 8) (read_u64 m (a + 8) - 1))
          (a + 16 + 8 * (read_u64 m (a + 8) - 1)) b"
        using p False room by (simp_all add: fl_push_def declared_layout_def Let_def h)
      have rm: "read_u64 m (a + 8) \<noteq> 0" using room h by simp
      note into = push_into_node [OF sz(1) big sz(3) a nr(1) rm, where b = b, folded m']
      have "nodes_rep ?sz m' (read_u64 m' a) ns'"
        using later_nodes_frame [OF bok [unfolded ns(2) n node_blocks_simps], of m' m] into(2,3) nr(2) sz(1) big by simp
      then have "nodes_rep ?sz m' a ((a, b # xs) # ns')" using into(1) by simp
      then have "\<exists>ns''. nodes_rep ?sz m' (fl_head fl') ns'' \<and> b # bs = node_blocks ns''"
        using ns(2) n h fl' by (intro exI [of _ "(a, b # xs) # ns'"]) simp
      moreover have "\<forall>x. x \<notin> (\<Union>a \<in> set (b # bs). block_at ?sz a) \<longrightarrow> m' x = m x" using into(3) abs by auto
      ultimately show ?thesis using False ok sz by (simp add: fl_rep_def fl')
    qed
  qed
  then show "fl_rep m' fl' (b # bs)" "fl_size fl' = fl_size fl"
    "\<And>x. x \<notin> (\<Union>a \<in> set (b # bs). block_at (fl_size fl) a) \<Longrightarrow> m' x = m x" by blast+
qed

lemma fl_take_rep:
  assumes rep: "fl_rep m fl (b # bs)" and p: "fl_take declared_layout fl m = (r, fl', m')"
  shows "r = b" "fl_rep m' fl' bs" "fl_size fl' = fl_size fl" "\<And>x. x \<notin> (\<Union>a \<in> set bs. block_at (fl_size fl) a) \<Longrightarrow> m' x = m x"
proof -
  let ?sz = "fl_size fl"
  have sz: "8 dvd ?sz" "8 \<le> ?sz" "?sz < 2 ^ 63" and ok: "blocks_ok ?sz (b # bs)" using rep by (simp_all add: fl_rep_def)
  have bok: "blocks_ok ?sz bs" by (rule blocks_ok_tl [OF ok])
  have "r = b \<and> fl_rep m' fl' bs \<and> fl_size fl' = ?sz \<and> (\<forall>x. x \<notin> (\<Union>a \<in> set bs. block_at ?sz a) \<longrightarrow> m' x = m x)"
  proof (cases "?sz \<le> NODE_SIZE")
    case True
    then show ?thesis using p rep bok sz by (auto simp: fl_take_def fl_rep_def declared_layout_def)
  next
    case False
    then obtain ns where ns: "nodes_rep ?sz m (fl_head fl) ns" "b # bs = node_blocks ns" using rep by (auto simp: fl_rep_def)
    have big: "NODE_SIZE < ?sz" using False by simp
    obtain a xs ns' where n: "ns = (a, xs) # ns'" using ns by (cases ns) auto
    then have h: "fl_head fl = a" and nr: "node_rep ?sz m a xs" "nodes_rep ?sz m (read_u64 m a) ns'" using ns(1) by simp_all
    have a: "block_fits ?sz a" "a \<in> set (b # bs)" using ok ns(2) n by (simp_all add: blocks_ok_def)
    show ?thesis
    proof (cases xs)
      case Nil
      have "read_u64 m (a + of_nat 8) = of_nat (available_slots ?sz)" using nr(1) Nil by (simp add: node_rep_def)
      then have "unat (read_u64 m (a + 8)) = available_slots ?sz"
        using unat_of_nat_small [OF available_bound [OF sz(3)]] by simp
      then have "r = a" "fl' = fl\<lparr>fl_head := read_u64 m a\<rparr>" "m' = m"
        using p False by (auto simp: fl_take_def declared_layout_def Let_def h)
      then show ?thesis using ns(2) n Nil nr(2) False bok sz by (auto simp: fl_rep_def)
    next
      case (Cons c ys)
      note tk = take_from_node [OF sz(1) big sz(3) a(1) nr(1) [unfolded Cons]]
      have r: "r = c" "fl' = fl" and m': "m' = write_u64 m (a + 8) (read_u64 m (a + 8) + 1)"
        using p False tk(1,2) by (simp_all add: fl_take_def declared_layout_def Let_def h)
      note tk = tk(3-5) [folded m']
      have bs: "b = c" "bs = ys @ a # node_blocks ns'" using ns(2) n Cons by simp_all
      have "nodes_rep ?sz m' (read_u64 m' a) ns'"
        using later_nodes_frame [OF bok [unfolded bs(2)], of m' m] tk(2,3) nr(2) sz(1) big by simp
      then have "\<exists>ns''. nodes_rep ?sz m' a ns'' \<and> bs = node_blocks ns''"
        using tk(1) bs by (intro exI [of _ "(a, ys) # ns'"]) simp
      moreover have "\<forall>x. x \<notin> (\<Union>a \<in> set bs. block_at ?sz a) \<longrightarrow> m' x = m x" using tk(3) bs by auto
      ultimately show ?thesis using False bok sz r bs by (simp add: fl_rep_def h)
    qed
  qed
  then show "r = b" "fl_rep m' fl' bs" "fl_size fl' = fl_size fl"
    "\<And>x. x \<notin> (\<Union>a \<in> set bs. block_at (fl_size fl) a) \<Longrightarrow> m' x = m x" by blast+
qed

section \<open>Properties\<close>

text \<open>Any sequence of operations, on the list and on a stack of blocks. The stack refuses a block that
  overlaps one it holds and a take when it is empty.\<close>

datatype fl_op = Push u64 | Take

fun fl_run :: "node_layout \<Rightarrow> fl_op list \<Rightarrow> free_list \<Rightarrow> memory \<Rightarrow> u64 list \<times> free_list \<times> memory" where
  "fl_run L [] fl m = ([], fl, m)"
| "fl_run L (Push b # ops) fl m = (let (fl, m) = fl_push L fl m b in fl_run L ops fl m)"
| "fl_run L (Take # ops) fl m =
     (let (r, fl, m) = fl_take L fl m; (rs, fl, m) = fl_run L ops fl m in (r # rs, fl, m))"

fun stack_run :: "nat \<Rightarrow> fl_op list \<Rightarrow> u64 list \<Rightarrow> (u64 list \<times> u64 list) option" where
  "stack_run sz [] bs = Some ([], bs)"
| "stack_run sz (Push b # ops) bs = (if blocks_ok sz (b # bs) then stack_run sz ops (b # bs) else None)"
| "stack_run sz (Take # ops) [] = None"
| "stack_run sz (Take # ops) (b # bs) = map_option (\<lambda>(rs, bs). (b # rs, bs)) (stack_run sz ops bs)"

fun pushed :: "fl_op list \<Rightarrow> u64 list" where
  "pushed [] = []"
| "pushed (Push b # ops) = b # pushed ops"
| "pushed (Take # ops) = pushed ops"

lemma block_at_apart: "unat a + sz \<le> unat b \<Longrightarrow> block_at sz a \<inter> block_at sz b = {}"
  by (auto simp: block_at_def)

text \<open>C17: a free list is a stack of free blocks: any sequence of frees and allocations that a stack of
  disjoint blocks can run gives the same blocks back in the same order, the list stands for the same stack
  afterwards, and no byte outside the blocks that were free at some time is written.\<close>

theorem free_list_refines_stack:
  assumes "fl_rep m fl bs" "stack_run (fl_size fl) ops bs = Some (rs, bs')"
  shows "\<exists>fl' m'. fl_run declared_layout ops fl m = (rs, fl', m') \<and> fl_rep m' fl' bs' \<and> fl_size fl' = fl_size fl
    \<and> (\<forall>x. x \<notin> (\<Union>a \<in> set bs \<union> set (pushed ops). block_at (fl_size fl) a) \<longrightarrow> m' x = m x)"
  using assms
proof (induction "fl_size fl" ops bs arbitrary: fl m rs rule: stack_run.induct)
  case (1 bs)
  then show ?case by simp
next
  case (2 b ops bs)
  have ok: "blocks_ok (fl_size fl) (b # bs)" and run: "stack_run (fl_size fl) ops (b # bs) = Some (rs, bs')"
    using "2.prems"(2) by (simp_all split: if_splits)
  obtain fl1 m1 where p: "fl_push declared_layout fl m b = (fl1, m1)" by force
  note push = fl_push_rep [OF "2.prems"(1) ok p]
  have "\<exists>fl' m'. fl_run declared_layout ops fl1 m1 = (rs, fl', m') \<and> fl_rep m' fl' bs' \<and> fl_size fl' = fl_size fl1
    \<and> (\<forall>x. x \<notin> (\<Union>a \<in> set (b # bs) \<union> set (pushed ops). block_at (fl_size fl1) a) \<longrightarrow> m' x = m1 x)"
    by (rule "2.hyps" [OF ok _ push(1)]) (use push(2) run in simp_all)
  then obtain fl' m' where r: "fl_run declared_layout ops fl1 m1 = (rs, fl', m')" "fl_rep m' fl' bs'" "fl_size fl' = fl_size fl1"
    "\<forall>x. x \<notin> (\<Union>a \<in> set (b # bs) \<union> set (pushed ops). block_at (fl_size fl1) a) \<longrightarrow> m' x = m1 x" by blast
  have "m' x = m x" if "x \<notin> (\<Union>a \<in> set bs \<union> set (pushed (Push b # ops)). block_at (fl_size fl) a)" for x
    using r(4) [unfolded push(2)] push(3) [of x] that by simp
  then show ?case using r push(2) p by simp
next
  case (3 ops)
  then show ?case by simp
next
  case (4 ops b bs)
  obtain rs1 where run: "stack_run (fl_size fl) ops bs = Some (rs1, bs')" "rs = b # rs1"
    using "4.prems"(2) by auto
  obtain r fl1 m1 where t: "fl_take declared_layout fl m = (r, fl1, m1)" by (metis prod_cases3)
  note tk = fl_take_rep [OF "4.prems"(1) t]
  have "\<exists>fl' m'. fl_run declared_layout ops fl1 m1 = (rs1, fl', m') \<and> fl_rep m' fl' bs' \<and> fl_size fl' = fl_size fl1
    \<and> (\<forall>x. x \<notin> (\<Union>a \<in> set bs \<union> set (pushed ops). block_at (fl_size fl1) a) \<longrightarrow> m' x = m1 x)"
    by (rule "4.hyps" [OF _ tk(2)]) (use tk(3) run in simp_all)
  then obtain fl' m' where r: "fl_run declared_layout ops fl1 m1 = (rs1, fl', m')" "fl_rep m' fl' bs'" "fl_size fl' = fl_size fl1"
    "\<forall>x. x \<notin> (\<Union>a \<in> set bs \<union> set (pushed ops). block_at (fl_size fl1) a) \<longrightarrow> m' x = m1 x" by blast
  have "m' x = m x" if "x \<notin> (\<Union>a \<in> set (b # bs) \<union> set (pushed (Take # ops)). block_at (fl_size fl) a)" for x
    using r(4) [unfolded tk(3)] tk(4) [of x] that by simp
  then show ?case using r tk(1,3) t run(2) by simp
qed

theorem free_list_refines_stack_witness:
  "\<exists>fl' m'. fl_run declared_layout [Push 0x1000, Push 0x1020, Push 0x1040, Take, Take] \<lparr>fl_head = 0, fl_size = 32\<rparr> (\<lambda>_. 7)
      = ([0x1040, 0x1020], fl', m') \<and> fl_rep m' fl' [0x1000]"
proof -
  have rep: "fl_rep (\<lambda>_. 7) \<lparr>fl_head = 0, fl_size = 32\<rparr> []"
    by (auto simp: fl_rep_def blocks_ok_def NODE_SIZE_def intro: exI [of _ "[]"])
  have ap: "block_at 32 0x1000 \<inter> block_at 32 0x1020 = {}" "block_at 32 0x1000 \<inter> block_at 32 0x1040 = {}"
    "block_at 32 0x1020 \<inter> block_at 32 0x1040 = {}"
    by (rule block_at_apart, simp)+
  then have "blocks_ok 32 [0x1000]" "blocks_ok 32 [0x1020, 0x1000]" "blocks_ok 32 [0x1040, 0x1020, 0x1000]"
    by (simp_all add: blocks_ok_def block_fits_def Int_commute)
  then have run: "stack_run (fl_size \<lparr>fl_head = 0, fl_size = 32\<rparr>) [Push 0x1000, Push 0x1020, Push 0x1040, Take, Take] []
      = Some ([0x1040, 0x1020], [0x1000])"
    by simp
  show ?thesis using free_list_refines_stack [OF rep run] by blast
qed

text \<open>The declaration of \<open>FreeListNode\<close> fixes no layout. With the empty array at the start of the structure,
  which the compiler may choose, the second block pushed overwrites the bookkeeping of the first: the next
  allocation returns the first block, and the second is lost.\<close>

theorem free_list_layout_dependent:
  assumes "a \<noteq> 0" "2 \<le> b" "block_fits 32 a"
  shows "\<exists>fl' m'. fl_run \<lparr>off_next = 0, off_free_slots = 8, off_free_addrs = 0\<rparr> [Push a, Push b, Take]
      \<lparr>fl_head = 0, fl_size = 32\<rparr> m = ([a], fl', m') \<and> fl_head fl' = 0"
proof -
  have r: "read_u64 (write_u64 m' (a + 8) v) a = read_u64 m' a" for m' v
    using read_write_in_block [OF assms(3), of 8 0] by simp
  have r8: "read_u64 (write_u64 m' a v) (a + 8) = read_u64 m' (a + 8)" for m' v
    using read_write_in_block [OF assms(3), of 0 8] by simp
  have b: "\<not> unat b < 2" using assms(2) by (simp add: word_le_nat_alt)
  show ?thesis using assms(1) b
    by (simp add: fl_push_def fl_take_def available_slots_def NODE_SIZE_def r r8)
qed

end
