(* ===== verification/Kernel_Mm.thy ===== *)
theory Kernel_Mm
  imports Rangeset_Correct Free_List
begin

text \<open>
  The kernel's memory manager, \<open>src/kernel/src/mm.rs\<close>, with the free lists each core keeps
  (\<open>src/kernel/src/core_locals.rs\<close>): physical memory behind a window of virtual addresses, NUMA preferences,
  the free lists refilled from the shared range set or by mapping new pages, and the global allocator.

  The locks around the shared values are those of the theory \<open>Sync\<close>; here one core runs alone.
\<close>

section \<open>State\<close>

text \<open>What the allocator of a core reads and writes: the memory shared with the bootloader, the kernel's page
  table, the statics \<open>NEXT_VADDR\<close> and \<open>APIC_TO_MEM_RANGE\<close>, the core's APIC ID and its free lists.\<close>

record kernel_state =
  ks_free_memory :: "range_set option"
  ks_kernel_pt :: "page_table option"
  NEXT_VADDR :: u64
  APIC_TO_MEM_RANGE :: "range_set option list option"
  ks_apic_id :: "u32 option"
  ks_free_lists :: "free_list list"

type_synonym kmachine = "kernel_state machine"

section \<open>NUMA\<close>

definition mem_range :: "kernel_state \<Rightarrow> range_set option outcome" where
  "mem_range k =
     (case APIC_TO_MEM_RANGE k of
        None \<Rightarrow> Done None
      | Some mapping \<Rightarrow>
          (case ks_apic_id k of
             None \<Rightarrow> Done None
           | Some x \<Rightarrow> array_get mapping (unat x)))"

text \<open>The loop over \<open>ad\<close>, a B-tree map and so visited by ascending APIC ID; \<open>md.remove\<close> takes the domain out.\<close>

fun numa_loop ::
  "(u32 \<times> u32) list \<Rightarrow> (u32 \<rightharpoonup> range_set) \<Rightarrow> range_set option list \<Rightarrow> range_set option list outcome"
where
  "numa_loop [] md mappings = Done mappings"
| "numa_loop ((apic, domain) # ad) md mappings =
     obind (array_set mappings (unat apic) (md domain)) (\<lambda>mappings.
       numa_loop ad (md(domain := None)) mappings)"

text \<open>\<open>OnceLock::set\<close> panics when the mapping was registered before.\<close>

definition register_numa ::
  "u32 \<Rightarrow> (u32 \<times> u32) list \<Rightarrow> (u32 \<rightharpoonup> range_set) \<Rightarrow> kernel_state \<Rightarrow> kernel_state outcome" where
  "register_numa max_apic_id ad md k =
     assert_that (max_apic_id \<noteq> 0) (
       obind (numa_loop ad md (replicate (Suc (unat max_apic_id)) None)) (\<lambda>mappings.
         assert_that (APIC_TO_MEM_RANGE k = None) (Done (k\<lparr>APIC_TO_MEM_RANGE := Some mappings\<rparr>))))"

section \<open>Addresses\<close>

definition phys_ptr :: "phys_addr \<Rightarrow> virt_addr outcome" where
  "phys_ptr addr = unwrap (checked_add addr KERNEL_PHYS_WINDOW_BASE)"

text \<open>\<open>fetch_add\<close> wraps; the overflow is noticed after it.\<close>

definition receive_vaddr_4k :: "u64 \<Rightarrow> kernel_state \<Rightarrow> (virt_addr \<times> kernel_state) outcome" where
  "receive_vaddr_4k sz k =
     assert_that (sz > 0 \<and> sz AND 0xFFF = 0) (
       obind (unwrap (checked_add REGION_PADDING sz)) (\<lambda>reserve.
         let ret = NEXT_VADDR k; k = k\<lparr>NEXT_VADDR := ret + reserve\<rparr> in
         obind (unwrap (checked_add ret reserve)) (\<lambda>_. Done (ret, k))))"

definition slice_phys_mut :: "phys_addr \<Rightarrow> u64 \<Rightarrow> virt_addr outcome" where
  "slice_phys_mut paddr sz =
     obind (unwrap (Option.bind (checked_sub sz 1) (\<lambda>x. checked_add x paddr))) (\<lambda>pend.
       assert_that (pend < KERNEL_PHYS_WINDOW_SIZE) (padd KERNEL_PHYS_WINDOW_BASE paddr))"

definition kernel_translate_mut :: "kernel_state \<Rightarrow> phys_addr \<Rightarrow> nat \<Rightarrow> u64 option outcome" where
  "kernel_translate_mut k paddr sz =
     (case Option.bind (checked_sub (of_nat sz) 1) (\<lambda>x. checked_add x paddr) of
        None \<Rightarrow> Done None
      | Some pend \<Rightarrow>
          if pend \<ge> KERNEL_PHYS_WINDOW_SIZE then Done None
          else obind (padd paddr KERNEL_PHYS_WINDOW_BASE) (\<lambda>p. Done (Some p)))"

definition kernel_translate :: "kernel_state \<Rightarrow> phys_addr \<Rightarrow> nat \<Rightarrow> u64 option outcome" where
  "kernel_translate k paddr sz = kernel_translate_mut k paddr sz"

section \<open>The free lists of a core\<close>

text \<open>\<open>usize::leading_zeros\<close>.\<close>

definition leading_zeros :: "u64 \<Rightarrow> nat" where
  "leading_zeros x = length (takeWhile (\<lambda>i. \<not> bit x i) (rev [0..<64]))"

definition free_list_index :: "nat \<Rightarrow> nat \<Rightarrow> nat outcome" where
  "free_list_index lsize lalign =
     (let sz = max lsize 8;
          idx = 64 - leading_zeros (of_nat (sz - 1));
          free_list_align = 2 ^ min idx 12 in
      assert_that (free_list_align \<ge> lalign) (
        assert_that (idx \<ge> 3) (assert_that (idx - 3 < 61) (Done (idx - 3)))))"

fun free_lists_of :: "nat list \<Rightarrow> free_list list outcome" where
  "free_lists_of [] = Done []"
| "free_lists_of (sz # szs) =
     obind (free_list_new sz) (\<lambda>fl. obind (free_lists_of szs) (\<lambda>fls. Done (fl # fls)))"

definition generate_freelists :: "free_list list outcome" where
  "generate_freelists = free_lists_of (map (\<lambda>i. 8 * 2 ^ i) [0..<61])"

section \<open>Refilling a list\<close>

text \<open>\<open>allocate_prefer\<close> on the shared memory with the preference of the core, then \<open>.ok().flatten()\<close>.\<close>

definition alloc_shared :: "range_set \<Rightarrow> u64 \<Rightarrow> u64 \<Rightarrow> kernel_state \<Rightarrow> (u64 option \<times> kernel_state) outcome" where
  "alloc_shared phys_mem sz align k =
     obind (mem_range k) (\<lambda>regions.
       obind (allocate_prefer phys_mem sz align regions) (\<lambda>(res, phys_mem).
         Done (case res of Inl _ \<Rightarrow> None | Inr p \<Rightarrow> p, k\<lparr>ks_free_memory := Some phys_mem\<rparr>)))"

text \<open>The offsets of \<open>(0..page_size).step_by(size)\<close>.\<close>

definition block_offsets :: "nat \<Rightarrow> u64 list" where
  "block_offsets sz = map (\<lambda>j. of_nat (j * sz)) [0..<(4096 + sz - 1) div sz]"

fun push_blocks :: "node_layout \<Rightarrow> u64 \<Rightarrow> u64 list \<Rightarrow> free_list \<Rightarrow> memory \<Rightarrow> (free_list \<times> memory) outcome" where
  "push_blocks L allocation [] fl m = Done (fl, m)"
| "push_blocks L allocation (offset # offsets) fl m =
     obind (padd allocation offset) (\<lambda>paddr.
     obind (slice_phys_mut paddr (of_nat (fl_size fl))) (\<lambda>vaddr.
       let (fl, m) = fl_push L fl m vaddr in push_blocks L allocation offsets fl m))"

definition allocate_page_for_blocks :: "node_layout \<Rightarrow> free_list \<Rightarrow> kmachine \<Rightarrow> (free_list \<times> kmachine) outcome" where
  "allocate_page_for_blocks L fl st =
     assert_that (fl_size fl \<le> 4096) (
       obind (unwrap (ks_free_memory (fst st))) (\<lambda>phys_mem.
       obind (alloc_shared phys_mem 4096 4096 (fst st)) (\<lambda>(res, k).
       obind (unwrap res) (\<lambda>allocation.
       obind (push_blocks L allocation (block_offsets (fl_size fl)) fl (snd st)) (\<lambda>(fl, m).
         Done (fl, (k, m)))))))"

text \<open>\<open>pop\<close>, with \<open>allocate_virt_block\<close> as an argument: that function maps pages, which pops 4-KiB blocks from
  another list, whose blocks never come from it.\<close>

definition pop_with ::
  "(free_list \<Rightarrow> kmachine \<Rightarrow> (u64 \<times> kmachine) outcome) \<Rightarrow> node_layout \<Rightarrow> free_list \<Rightarrow> kmachine
    \<Rightarrow> (u64 \<times> free_list \<times> kmachine) outcome" where
  "pop_with virt_block L fl st =
     (if fl_head fl = 0 \<and> \<not> fl_size fl \<le> 4096 then
        obind (virt_block fl st) (\<lambda>(p, st). Done (p, fl, st))
      else
        obind (if fl_head fl = 0 then allocate_page_for_blocks L fl st else Done (fl, st)) (\<lambda>(fl, st).
          let (p, fl, m) = fl_take L fl (snd st) in Done (p, fl, (fst st, m))))"

text \<open>A pop from the list of the core at an index, which is written back.\<close>

definition pop_at ::
  "(free_list \<Rightarrow> kmachine \<Rightarrow> (u64 \<times> kmachine) outcome) \<Rightarrow> node_layout \<Rightarrow> nat \<Rightarrow> kmachine \<Rightarrow> (u64 \<times> kmachine) outcome" where
  "pop_at virt_block L i st =
     obind (array_get (ks_free_lists (fst st)) i) (\<lambda>fl.
     obind (pop_with virt_block L fl st) (\<lambda>(p, fl, (k, m)).
     obind (array_set (ks_free_lists k) i fl) (\<lambda>fls. Done (p, (k\<lparr>ks_free_lists := fls\<rparr>, m)))))"

section \<open>\<open>PhysMem\<close> for \<open>PhysicalMemory\<close>\<close>

definition kernel_alloc_phys :: "node_layout \<Rightarrow> kmachine \<Rightarrow> nat \<Rightarrow> nat \<Rightarrow> (phys_addr option \<times> kmachine) outcome" where
  "kernel_alloc_phys L st sz align =
     (if sz = 4096 \<and> align = 4096 then
        obind (free_list_index sz align) (\<lambda>i.
        obind (pop_at (\<lambda>_ _. Panic) L i st) (\<lambda>(ptr, st).
        obind (psub ptr KERNEL_PHYS_WINDOW_BASE) (\<lambda>p. Done (Some p, st))))
      else
        (case ks_free_memory (fst st) of
           None \<Rightarrow> Done (None, st)
         | Some phys_mem \<Rightarrow>
             obind (alloc_shared phys_mem (of_nat sz) (of_nat align) (fst st)) (\<lambda>(p, k). Done (p, (k, snd st)))))"

definition kernel_mem :: "node_layout \<Rightarrow> kernel_state phys_mem" where
  "kernel_mem L = \<lparr>translate = kernel_translate, translate_mut = kernel_translate_mut, alloc_phys = kernel_alloc_phys L\<rparr>"

definition allocate_virt_block :: "node_layout \<Rightarrow> free_list \<Rightarrow> kmachine \<Rightarrow> (virt_addr \<times> kmachine) outcome" where
  "allocate_virt_block L fl st =
     obind (receive_vaddr_4k (of_nat (fl_size fl)) (fst st)) (\<lambda>(vaddr, k).
     obind (map_request_new vaddr Page4K (of_nat (fl_size fl)) (permissions_new True False False)) (\<lambda>res.
     obind (unwrap_result res) (\<lambda>request.
     obind (unwrap (ks_kernel_pt k)) (\<lambda>table.
     obind (pt_map (kernel_mem L) (k, snd st) table request) (\<lambda>(done, st).
     obind (unwrap done) (\<lambda>_. Done (vaddr, st)))))))"

definition pop :: "node_layout \<Rightarrow> free_list \<Rightarrow> kmachine \<Rightarrow> (u64 \<times> free_list \<times> kmachine) outcome" where
  "pop L = pop_with (allocate_virt_block L) L"

section \<open>The global allocator\<close>

definition global_alloc :: "node_layout \<Rightarrow> nat \<Rightarrow> nat \<Rightarrow> kmachine \<Rightarrow> (u64 \<times> kmachine) outcome" where
  "global_alloc L sz align st =
     obind (free_list_index sz align) (\<lambda>i. pop_at (allocate_virt_block L) L i st)"

definition global_dealloc :: "node_layout \<Rightarrow> u64 \<Rightarrow> nat \<Rightarrow> nat \<Rightarrow> kmachine \<Rightarrow> kmachine outcome" where
  "global_dealloc L ptr sz align st =
     obind (free_list_index sz align) (\<lambda>i.
     obind (array_get (ks_free_lists (fst st)) i) (\<lambda>fl.
       let (fl, m) = fl_push L fl (snd st) ptr in
       obind (array_set (ks_free_lists (fst st)) i fl) (\<lambda>fls. Done ((fst st)\<lparr>ks_free_lists := fls\<rparr>, m))))"

section \<open>Page-aligned allocations\<close>

record contig_page_aligned =
  cpa_vaddr :: virt_addr
  cpa_paddr :: phys_addr
  cpa_size :: nat

text \<open>\<open>bytes\<close> are the bytes of the value, \<open>size_of::<T>()\<close> of them.\<close>

definition contig_new :: "node_layout \<Rightarrow> u8 list \<Rightarrow> kmachine \<Rightarrow> (contig_page_aligned \<times> kmachine) outcome" where
  "contig_new L bytes st =
     assert_that (length bytes > 0) (
       let pages = (length bytes + 4096 - 1) div 4096; alloc_size = pages * 4096 in
       obind (global_alloc L alloc_size 4096 st) (\<lambda>(alloc, st).
         assert_that (alloc \<noteq> 0) (
           obind (psub alloc KERNEL_PHYS_WINDOW_BASE) (\<lambda>paddr.
             Done (\<lparr>cpa_vaddr = alloc, cpa_paddr = paddr, cpa_size = alloc_size\<rparr>,
                   (fst st, write_bytes_at (snd st) alloc bytes))))))"

definition contig_drop :: "node_layout \<Rightarrow> contig_page_aligned \<Rightarrow> kmachine \<Rightarrow> kmachine outcome" where
  "contig_drop L c st = global_dealloc L (cpa_vaddr c) (cpa_size c) 4096 st"

end
