(* ===== verification/Kernel_Mm_Props.thy ===== *)
theory Kernel_Mm_Props
  imports Kernel_Mm Page_Table_Props
begin

text \<open>
  What the kernel's allocator promises: which list serves a request, what an allocation from an empty list
  of small blocks gives, that virtual regions never overlap, and two cases where it does not keep its word.
\<close>

section \<open>The list that serves a request\<close>

lemma bit_unat: "bit x i \<longleftrightarrow> odd (unat x div 2 ^ i)" for x :: u64
proof -
  have "bit (unat x) i = bit x i" by (simp add: bit_unsigned_iff)
  then show ?thesis by (simp only: bit_iff_odd)
qed

lemma upt_split_64: "n < 64 \<Longrightarrow> [0..<64] = [0..<n] @ n # [Suc n..<64]"
  using upt_add_eq_append [of 0 n "64 - n"] upt_conv_Cons [of n 64] by simp

lemma leading_zeros_eq:
  assumes "2 ^ n \<le> unat x" "unat x < 2 ^ Suc n" "n < 64"
  shows "leading_zeros x = 63 - n"
proof -
  have "\<not> bit x i" if "n < i" for i
  proof -
    have "(2 :: nat) ^ Suc n \<le> 2 ^ i" using that by (intro power_increasing) simp_all
    then show ?thesis using assms(2) by (simp add: bit_unat)
  qed
  moreover have "unat x div 2 ^ n = 1"
    using assms(1,2) by (intro div_nat_eqI) simp_all
  then have "bit x n" by (simp add: bit_unat)
  ultimately have "takeWhile (\<lambda>i. \<not> bit x i) (rev [Suc n..<64] @ n # rev [0..<n]) = rev [Suc n..<64]"
    by (subst takeWhile_append2) simp_all
  then show ?thesis by (simp add: leading_zeros_def upt_split_64 [OF assms(3)])
qed

lemma free_list_index_eq:
  assumes n: "2 ^ n \<le> max lsize 8 - 1" "max lsize 8 - 1 < 2 ^ Suc n" "n < 63"
  shows "2 \<le> n \<and> free_list_index lsize lalign = (if lalign \<le> 2 ^ min (Suc n) 12 then Done (n - 2) else Panic)"
proof -
  have two: "2 \<le> n"
  proof (rule ccontr)
    assume "\<not> 2 \<le> n"
    then have "Suc n \<le> 2" by simp
    then have "(2 :: nat) ^ Suc n \<le> 2 ^ 2" by (intro power_increasing) simp_all
    then show False using n(2) by simp
  qed
  have "(2 :: nat) ^ Suc n \<le> 2 ^ 63" using n(3) by (intro power_increasing) simp_all
  then have "unat (of_nat (max lsize 8 - 1) :: u64) = max lsize 8 - 1"
    using n(2) by (intro unat_of_nat_small) simp
  then have "leading_zeros (of_nat (max lsize 8 - 1)) = 63 - n"
    using n by (intro leading_zeros_eq) simp_all
  moreover have "n - 2 < 61" using two n(3) by simp
  ultimately show ?thesis using two n(3) by (simp add: free_list_index_def Let_def)
qed

lemma bit_length_ex: "0 < (x :: nat) \<Longrightarrow> \<exists>n. 2 ^ n \<le> x \<and> x < 2 ^ Suc n"
  using ex_power_ivl1 [of 2 x] by simp

lemma count_ones_pow2: "k < 64 \<Longrightarrow> count_ones (2 ^ k :: u64) = 1"
proof -
  assume k: "k < 64"
  have "filter (bit (2 ^ k :: u64)) [0..<k] = []" "filter (bit (2 ^ k :: u64)) [Suc k..<64] = []"
    by (auto simp: filter_empty_conv bit_exp_iff)
  then have "filter (bit (2 ^ k :: u64)) [0..<64] = [k]"
    unfolding upt_split_64 [OF k] using k by (simp add: bit_exp_iff)
  then show ?thesis by (simp add: count_ones_def)
qed

lemma free_lists_of_pow2:
  "\<forall>sz \<in> set szs. \<exists>k < 64. 3 \<le> k \<and> sz = 2 ^ k
    \<Longrightarrow> free_lists_of szs = Done (map (\<lambda>sz. \<lparr>fl_head = 0, fl_size = sz\<rparr>) szs)"
proof (induction szs)
  case (Cons sz szs)
  then obtain k where k: "k < 64" "3 \<le> k" "sz = 2 ^ k" by auto
  have "(2 :: nat) ^ 3 \<le> 2 ^ k" using k(2) by (intro power_increasing) simp_all
  then show ?case using Cons k count_ones_pow2 [OF k(1)] by (simp add: free_list_new_def)
qed simp

lemma generate_freelists_nth:
  "\<exists>fls. generate_freelists = Done fls \<and> length fls = 61 \<and> (\<forall>i < 61. fls ! i = \<lparr>fl_head = 0, fl_size = 8 * 2 ^ i\<rparr>)"
proof -
  let ?szs = "map (\<lambda>i. 8 * 2 ^ i) [0..<61] :: nat list"
  have "\<forall>sz \<in> set ?szs. \<exists>k < 64. 3 \<le> k \<and> sz = 2 ^ k"
  proof
    fix sz assume "sz \<in> set ?szs"
    then obtain i where i: "i < 61" "sz = 8 * 2 ^ i" by (auto simp del: upt_rec_numeral)
    then show "\<exists>k < 64. 3 \<le> k \<and> sz = 2 ^ k" by (intro exI [of _ "i + 3"]) (simp add: power_add)
  qed
  then have "generate_freelists = Done (map (\<lambda>sz. \<lparr>fl_head = 0, fl_size = sz\<rparr>) ?szs)"
    unfolding generate_freelists_def by (rule free_lists_of_pow2)
  moreover have "map (\<lambda>sz. \<lparr>fl_head = 0, fl_size = sz\<rparr>) ?szs ! i = \<lparr>fl_head = 0, fl_size = 8 * 2 ^ i\<rparr>" if "i < 61" for i
    using that by (simp del: upt_rec_numeral)
  moreover have "length (map (\<lambda>sz. \<lparr>fl_head = 0, fl_size = sz\<rparr> :: free_list) ?szs) = 61" by (simp del: upt_rec_numeral)
  ultimately show ?thesis by blast
qed

text \<open>C19: the list that serves a request: for every size up to \<open>2 ^ 63\<close> the core has exactly one list whose
  blocks are the smallest that hold the request, and it is chosen when the alignment asked for is at most
  that of its blocks; otherwise the request panics.\<close>

theorem free_list_serves:
  assumes "lsize \<le> 2 ^ 63"
  shows "\<exists>fls i. generate_freelists = Done fls \<and> i < length fls \<and> lsize \<le> fl_size (fls ! i)
    \<and> (\<forall>j < i. fl_size (fls ! j) < lsize)
    \<and> free_list_index lsize lalign = (if lalign \<le> min (fl_size (fls ! i)) 4096 then Done i else Panic)"
proof -
  obtain fls where fls: "generate_freelists = Done fls" "length fls = 61"
    "\<And>i. i < 61 \<Longrightarrow> fls ! i = \<lparr>fl_head = 0, fl_size = 8 * 2 ^ i\<rparr>"
    using generate_freelists_nth by blast
  have "0 < max lsize 8 - 1" by (simp add: max_def)
  then obtain n where n: "2 ^ n \<le> max lsize 8 - 1" "max lsize 8 - 1 < 2 ^ Suc n"
    using bit_length_ex by blast
  have "(2 :: nat) ^ n < 2 ^ 63" using n(1) assms by simp
  then have n63: "n < 63" by (rule power_less_imp_less_exp [rotated]) simp
  note idx = free_list_index_eq [OF n n63]
  define i where "i = n - 2"
  have "2 \<le> n" using idx by blast
  then have ni: "n = i + 2" and i: "i < 61" using n63 by (simp_all add: i_def)
  have size: "fl_size (fls ! i) = 8 * 2 ^ i" using fls(3) [OF i] by simp
  have "2 ^ min (Suc n) 12 = min (8 * 2 ^ i) (4096 :: nat)"
    using power_increasing_iff [of "2 :: nat" "Suc n" 12] by (cases "Suc n \<le> 12") (simp_all add: ni min_def power_add)
  then have "free_list_index lsize lalign = (if lalign \<le> min (fl_size (fls ! i)) 4096 then Done i else Panic)"
    using idx unfolding size by (simp add: i_def)
  moreover have "lsize \<le> fl_size (fls ! i)" using n(2) unfolding size by (simp add: ni power_add)
  moreover have "fl_size (fls ! j) < lsize" if j: "j < i" for j
  proof -
    have "(2 :: nat) ^ Suc j \<le> 2 ^ i" using j by (intro power_increasing) simp_all
    then have "8 * 2 ^ j \<le> (4 * 2 ^ i :: nat)" by simp
    also have "\<dots> \<le> max lsize 8 - 1" using n(1) by (simp add: ni power_add)
    finally have le: "8 * 2 ^ j \<le> max lsize 8 - 1" .
    have "(8 :: nat) * 1 \<le> 8 * 2 ^ j" by (rule mult_left_mono) simp_all
    then have "8 * 2 ^ j < lsize" using le by linarith
    then show ?thesis using fls(3) [of j] i j by simp
  qed
  ultimately show ?thesis using fls(1,2) i by (intro exI [of _ fls] exI [of _ i]) simp
qed

theorem free_list_serves_witness:
  "free_list_index 100 8 = Done 4 \<and> (\<exists>fls i. generate_freelists = Done fls \<and> i < length fls \<and> 100 \<le> fl_size (fls ! i))"
proof -
  have "free_list_index 100 8 = Done 4" by code_simp
  then show ?thesis using free_list_serves [of 100 8] by fastforce
qed

section \<open>Refilling an empty list\<close>

text \<open>The blocks of a page at the virtual address \<open>v\<close>.\<close>

definition page_blocks :: "u64 \<Rightarrow> nat \<Rightarrow> nat \<Rightarrow> u64 list" where
  "page_blocks v sz n = rev (map (\<lambda>j. v + of_nat (j * sz)) [0..<n])"

lemma page_blocks_Suc: "page_blocks v sz (Suc n) = (v + of_nat (n * sz)) # page_blocks v sz n"
  by (simp add: page_blocks_def)

lemma page_blocks_ex: "b \<in> set (page_blocks v sz n) \<Longrightarrow> \<exists>j < n. b = v + of_nat (j * sz)"
  unfolding page_blocks_def set_rev set_map by (elim imageE) (auto simp del: of_nat_mult)

lemma unat_page_block:
  fixes v :: u64
  assumes "unat v + 4096 \<le> 2 ^ 64" "j * sz < 4096"
  shows "unat (v + of_nat (j * sz)) = unat v + j * sz"
  by (rule unat_block_offset [of 4096]) (use assms in \<open>simp_all add: block_fits_def\<close>)

lemma page_blocks_ok:
  assumes v: "unat v + 4096 \<le> 2 ^ 64" "v \<noteq> 0" and sz: "0 < sz" "n * sz \<le> 4096"
  shows "blocks_ok sz (page_blocks v sz n)"
proof -
  have lt: "j * sz + sz \<le> 4096" if "j < n" for j
    using mult_le_mono1 [of "Suc j" n sz] that sz(2) by simp
  have u: "unat (v + of_nat (j * sz)) = unat v + j * sz" if "j < n" for j
    using unat_page_block [OF v(1)] lt [OF that] sz(1) by simp
  have apart: "unat (v + of_nat (i * sz)) + sz \<le> unat (v + of_nat (j * sz))" if "i < j" "j < n" for i j
    using u [of i] u [of j] mult_le_mono1 [of "Suc i" j sz] that by simp
  have inj: "inj_on (\<lambda>j. v + of_nat (j * sz)) {0..<n}"
  proof (rule inj_onI)
    fix i j assume ij: "i \<in> {0..<n}" "j \<in> {0..<n}" and eq: "v + of_nat (i * sz) = v + of_nat (j * sz)"
    have "i * sz = j * sz" using u [of i] u [of j] ij arg_cong [OF eq, of unat] by simp
    then show "i = j" using sz(1) by simp
  qed
  then have "distinct (page_blocks v sz n)" unfolding page_blocks_def by (simp add: distinct_map)
  moreover have "b \<noteq> 0 \<and> block_fits sz b" if b: "b \<in> set (page_blocks v sz n)" for b
  proof -
    obtain j where j: "j < n" "b = v + of_nat (j * sz)" using page_blocks_ex [OF b] by blast
    have "0 < unat v" using v(2) by (simp add: unat_gt_0)
    then show ?thesis using u [OF j(1)] lt [OF j(1)] j(2) v(1) by (auto simp: block_fits_def)
  qed
  moreover have "block_at sz a \<inter> block_at sz b = {}"
    if ab: "a \<in> set (page_blocks v sz n)" "b \<in> set (page_blocks v sz n)" "a \<noteq> b" for a b
  proof -
    obtain i j where ij: "i < n" "j < n" "a = v + of_nat (i * sz)" "b = v + of_nat (j * sz)"
      using page_blocks_ex [OF ab(1)] page_blocks_ex [OF ab(2)] by blast
    then consider "i < j" | "j < i" using ab(3) by (metis nat_neq_iff)
    then show ?thesis
      by cases (use ij apart block_at_apart Int_commute in metis)+
  qed
  ultimately show ?thesis unfolding blocks_ok_def by blast
qed

lemma page_blocks_inside:
  assumes v: "unat v + 4096 \<le> 2 ^ 64" and sz: "0 < sz" "n * sz \<le> 4096" and x: "x \<notin> block_at 4096 v"
  shows "x \<notin> (\<Union>a \<in> set (page_blocks v sz n). block_at sz a)"
proof (rule notI, elim UN_E)
  fix a assume a: "a \<in> set (page_blocks v sz n)" "x \<in> block_at sz a"
  then obtain j where j: "j < n" "a = v + of_nat (j * sz)" using page_blocks_ex by blast
  have "j * sz + sz \<le> 4096" using mult_le_mono1 [of "Suc j" n sz] j(1) sz(2) by simp
  then have "x \<in> block_at 4096 v"
    using unat_page_block [OF v, of j sz] sz(1) a(2) j(2) by (auto simp: block_at_def)
  then show False using x by blast
qed

lemma unat_window:
  assumes "unat p + 4096 \<le> unat KERNEL_PHYS_WINDOW_SIZE"
  shows "unat (KERNEL_PHYS_WINDOW_BASE + p) + 4096 \<le> 2 ^ 64" "KERNEL_PHYS_WINDOW_BASE + p \<noteq> 0"
proof -
  have win: "unat KERNEL_PHYS_WINDOW_SIZE = 0x10000000000" "unat KERNEL_PHYS_WINDOW_BASE = 0xFFFFFEFFC0000000"
    by (simp_all add: KERNEL_PHYS_WINDOW_SIZE_def layout_values)
  have "unat (KERNEL_PHYS_WINDOW_BASE + p) = unat KERNEL_PHYS_WINDOW_BASE + unat p"
    using assms win by (intro unat_add_no_overflow) simp
  then show "unat (KERNEL_PHYS_WINDOW_BASE + p) + 4096 \<le> 2 ^ 64" "KERNEL_PHYS_WINDOW_BASE + p \<noteq> 0"
    using assms win by auto
qed

lemma slice_phys_mut_in:
  assumes "0 < sz" "unat p + sz \<le> unat KERNEL_PHYS_WINDOW_SIZE"
  shows "slice_phys_mut p (of_nat sz) = Done (KERNEL_PHYS_WINDOW_BASE + p)"
proof -
  have win: "unat KERNEL_PHYS_WINDOW_SIZE = 0x10000000000" "unat KERNEL_PHYS_WINDOW_BASE = 0xFFFFFEFFC0000000"
    by (simp_all add: KERNEL_PHYS_WINDOW_SIZE_def layout_values)
  have s: "unat (of_nat sz :: u64) = sz" using assms(2) win by (intro unat_of_nat_small) simp
  then have one: "(1 :: u64) \<le> of_nat sz" using assms(1) by (simp add: word_le_nat_alt)
  then have s1: "unat (of_nat sz - 1 :: u64) = sz - 1" using s by (simp add: unat_sub)
  have e: "checked_add (of_nat sz - 1) p = Some (of_nat sz - 1 + p)"
    using assms s1 win by (simp add: checked_add_eq_Some)
  have "unat (of_nat sz - 1 + p) = sz - 1 + unat p" using unat_checked_add [OF e] s1 by simp
  then have lt: "of_nat sz - 1 + p < KERNEL_PHYS_WINDOW_SIZE" using assms by (simp add: word_less_nat_alt)
  have "checked_add KERNEL_PHYS_WINDOW_BASE p = Some (KERNEL_PHYS_WINDOW_BASE + p)"
    using assms win by (simp add: checked_add_eq_Some)
  then have "padd KERNEL_PHYS_WINDOW_BASE p = Done (KERNEL_PHYS_WINDOW_BASE + p)" by simp
  moreover have "checked_sub (of_nat sz) (1 :: u64) = Some (of_nat sz - 1)" using one by (simp add: checked_sub_def)
  ultimately show ?thesis using e lt by (simp add: slice_phys_mut_def)
qed

lemma push_blocks_page:
  assumes p: "unat p + 4096 \<le> unat KERNEL_PHYS_WINDOW_SIZE" and sz: "0 < sz" "N * sz = 4096"
  defines "v \<equiv> KERNEL_PHYS_WINDOW_BASE + p"
  shows "fl_rep m fl (page_blocks v sz i) \<Longrightarrow> fl_size fl = sz \<Longrightarrow> i \<le> N
    \<Longrightarrow> \<exists>fl' m'. push_blocks declared_layout p (map (\<lambda>j. of_nat (j * sz)) [i..<N]) fl m = Done (fl', m')
      \<and> fl_rep m' fl' (page_blocks v sz N) \<and> fl_size fl' = sz \<and> (\<forall>x. x \<notin> block_at 4096 v \<longrightarrow> m' x = m x)"
proof (induction "N - i" arbitrary: i fl m)
  case 0
  then show ?case by simp
next
  case (Suc d)
  have win: "unat KERNEL_PHYS_WINDOW_SIZE = 0x10000000000" "unat KERNEL_PHYS_WINDOW_BASE = 0xFFFFFEFFC0000000"
    by (simp_all add: KERNEL_PHYS_WINDOW_SIZE_def layout_values)
  note v = unat_window [OF p, folded v_def]
  have i: "i < N" using Suc.hyps(2) by simp
  have isz: "n * sz + sz \<le> 4096" if "n < N" for n using mult_le_mono1 [of "Suc n" N sz] that sz(2) by simp
  let ?o = "of_nat (i * sz) :: u64"
  have uo: "unat ?o = i * sz" using isz [OF i] by (intro unat_of_nat_small) simp
  have pa: "padd p ?o = Done (p + ?o)" using uo isz [OF i] p win by (simp only: padd_eq_Done checked_add_eq_Some) simp
  have up: "unat (p + ?o) = unat p + i * sz"
    using uo isz [OF i] p win by (subst unat_add_no_overflow) simp_all
  have sl: "slice_phys_mut (p + ?o) (of_nat sz) = Done (v + ?o)"
    using slice_phys_mut_in [OF sz(1), of "p + ?o"] up isz [OF i] p by (simp add: v_def add.assoc del: of_nat_mult)
  obtain fl1 m1 where push: "fl_push declared_layout fl m (v + ?o) = (fl1, m1)" by force
  have ok: "blocks_ok (fl_size fl) ((v + ?o) # page_blocks v sz i)"
    using page_blocks_ok [OF v sz(1), of "Suc i"] isz [OF i] unfolding page_blocks_Suc Suc.prems(2) by simp
  note rep = fl_push_rep [OF Suc.prems(1) ok push, folded page_blocks_Suc, unfolded Suc.prems(2)]
  have d: "d = N - Suc i" "Suc i \<le> N" using Suc.hyps(2) by simp_all
  obtain fl' m' where r: "push_blocks declared_layout p (map (\<lambda>j. of_nat (j * sz)) [Suc i..<N]) fl1 m1 = Done (fl', m')"
      "fl_rep m' fl' (page_blocks v sz N)" "fl_size fl' = sz" "\<forall>x. x \<notin> block_at 4096 v \<longrightarrow> m' x = m1 x"
    using Suc.hyps(1) [OF d(1) rep(1,2) d(2)] by blast
  have "m1 x = m x" if x: "x \<notin> block_at 4096 v" for x
    by (rule rep(3), rule page_blocks_inside [OF v(1) sz(1) _ x]) (use isz [OF i] in simp)
  moreover have "map (\<lambda>j. of_nat (j * sz) :: u64) [i..<N] = ?o # map (\<lambda>j. of_nat (j * sz)) [Suc i..<N]"
    by (simp only: upt_conv_Cons [OF i] list.map)
  ultimately show ?case using r pa sl push Suc.prems(2) by (simp del: of_nat_mult)
qed

lemma pow2_page:
  assumes "3 \<le> n" "n \<le> 12"
  shows "8 dvd (2 :: nat) ^ n" "(8 :: nat) \<le> 2 ^ n" "(2 :: nat) ^ n \<le> 4096" "2 ^ (12 - n) * 2 ^ n = (4096 :: nat)"
proof -
  show "8 dvd (2 :: nat) ^ n" using assms(1) le_imp_power_dvd [of 3 n "2 :: nat"] by simp
  show "(8 :: nat) \<le> 2 ^ n" using assms(1) power_increasing [of 3 n "2 :: nat"] by simp
  show "(2 :: nat) ^ n \<le> 4096" using assms(2) power_increasing [of n 12 "2 :: nat"] by simp
  show "2 ^ (12 - n) * 2 ^ n = (4096 :: nat)" using assms(2) by (simp flip: power_add)
qed

text \<open>C18: an allocation from an empty list whose blocks fit a page takes a page from the shared memory, cuts it
  into blocks, gives out the last one and keeps the others, in order and without overlap; nothing outside
  the page is written.\<close>

theorem pop_refills:
  assumes fl: "fl_head fl = 0" "fl_size fl = 2 ^ n" "3 \<le> n" "n \<le> 12"
    and alloc: "ks_free_memory k = Some rs" "alloc_shared rs 4096 4096 k = Done (Some p, k')"
    and win: "unat p + 4096 \<le> unat KERNEL_PHYS_WINDOW_SIZE"
  defines "v \<equiv> KERNEL_PHYS_WINDOW_BASE + p" and "N \<equiv> 2 ^ (12 - n)"
  shows "\<exists>fl' m'. pop declared_layout fl (k, m) = Done (v + of_nat ((N - 1) * 2 ^ n), fl', (k', m'))
    \<and> fl_rep m' fl' (page_blocks v (2 ^ n) (N - 1)) \<and> fl_size fl' = 2 ^ n
    \<and> (\<forall>x. x \<notin> block_at 4096 v \<longrightarrow> m' x = m x)"
proof -
  note pw = pow2_page [OF fl(3,4)]
  have N: "N * 2 ^ n = 4096" "0 < N" using pw(4) by (simp_all add: N_def)
  have split: "page_blocks v (2 ^ n) N = (v + of_nat ((N - 1) * 2 ^ n)) # page_blocks v (2 ^ n) (N - 1)"
    using page_blocks_Suc [of v "2 ^ n" "N - 1"] N(2) by simp
  have "fl_rep m fl (page_blocks v (2 ^ n) 0)"
    using fl(1,2) pw by (auto simp: fl_rep_def blocks_ok_def page_blocks_def intro: exI [of _ "[]"])
  then obtain fl1 m1 where push: "push_blocks declared_layout p (map (\<lambda>j. of_nat (j * 2 ^ n)) [0..<N]) fl m = Done (fl1, m1)"
      "fl_rep m1 fl1 (page_blocks v (2 ^ n) N)" "fl_size fl1 = 2 ^ n" "\<forall>x. x \<notin> block_at 4096 v \<longrightarrow> m1 x = m x"
    using push_blocks_page [OF win _ N(1), of m fl 0] fl(2) unfolding v_def by auto
  have "(4096 + 2 ^ n - 1) div 2 ^ n = N"
    unfolding N(1) [symmetric] by (rule div_nat_eqI) (use pw(2) in \<open>simp_all add: mult.commute\<close>)
  then have offs: "block_offsets (2 ^ n) = map (\<lambda>j. of_nat (j * 2 ^ n)) [0..<N]" by (simp add: block_offsets_def)
  have page: "allocate_page_for_blocks declared_layout fl (k, m) = Done (fl1, (k', m1))"
    using fl(2) pw(3) alloc push(1) offs by (simp add: allocate_page_for_blocks_def del: of_nat_mult of_nat_power)
  obtain r fl' m' where t: "fl_take declared_layout fl1 m1 = (r, fl', m')" by (metis prod_cases3)
  note tk = fl_take_rep [OF push(2) [unfolded split] t]
  have "pop declared_layout fl (k, m) = Done (r, fl', (k', m'))"
    using fl(1,2) pw(3) page t by (simp add: pop_def pop_with_def)
  moreover have "m' x = m x" if x: "x \<notin> block_at 4096 v" for x
  proof -
    have "(N - 1) * 2 ^ n \<le> 4096" using N(1) mult_le_mono1 [of "N - 1" N "2 ^ n"] by simp
    then have "x \<notin> (\<Union>a \<in> set (page_blocks v (2 ^ n) (N - 1)). block_at (2 ^ n) a)"
      using unat_window(1) [OF win, folded v_def] by (intro page_blocks_inside x) simp_all
    then show ?thesis using tk(4) push(3,4) x by simp
  qed
  ultimately show ?thesis using tk(1,2,3) push(3) by auto
qed

text \<open>A core with a megabyte of shared memory and no NUMA mapping.\<close>

definition kernel_demo :: kernel_state where
  "kernel_demo = \<lparr>ks_free_memory = Some rs_mb, ks_kernel_pt = None, NEXT_VADDR = KERNEL_VMEM_BASE,
     APIC_TO_MEM_RANGE = None, ks_apic_id = None, ks_free_lists = []\<rparr>"

lemma alloc_demo:
  "\<exists>p k'. alloc_shared rs_mb 4096 4096 kernel_demo = Done (Some p, k') \<and> unat p + 4096 \<le> unat KERNEL_PHYS_WINDOW_SIZE"
proof -
  obtain p rs' res where "allocate rs_mb 4096 4096 = Done (res, rs')" "unwrap_result res = Done (Some p)"
    using mb_alloc by (auto simp: boot_alloc_phys_def)
  then have al: "allocate rs_mb 4096 4096 = Done (Inr (Some p), rs')" by (cases res) simp_all
  have "rs_inv rs_mb" using inv_mb by (simp add: boot_inv_def)
  moreover have "count_ones (4096 :: u64) = 1" by code_simp
  ultimately have "alloc_post rs_mb 4096 4096 p rs'"
    using allocate_prefer_spec [of rs_mb None 4096 4096] al by (auto simp: allocate_def)
  then have "p \<in> rs_cover rs_mb" by (auto simp: alloc_post_def)
  then have "unat p + 4096 \<le> unat KERNEL_PHYS_WINDOW_SIZE"
    by (auto simp: rs_cover_def ents_mb word_le_nat_alt KERNEL_PHYS_WINDOW_SIZE_def)
  then show ?thesis using al by (simp add: alloc_shared_def mem_range_def kernel_demo_def allocate_def)
qed

theorem pop_refills_witness:
  "\<exists>p r fl' k' m'. pop declared_layout \<lparr>fl_head = 0, fl_size = 1024\<rparr> (kernel_demo, \<lambda>_. 0) = Done (r, fl', (k', m'))
    \<and> r = KERNEL_PHYS_WINDOW_BASE + p + 0xC00 \<and> fl_rep m' fl' (page_blocks (KERNEL_PHYS_WINDOW_BASE + p) 1024 3)"
proof -
  obtain p k' where a: "alloc_shared rs_mb 4096 4096 kernel_demo = Done (Some p, k')" "unat p + 4096 \<le> unat KERNEL_PHYS_WINDOW_SIZE"
    using alloc_demo by blast
  have k: "ks_free_memory kernel_demo = Some rs_mb" by (simp add: kernel_demo_def)
  show ?thesis
    using pop_refills [of "\<lparr>fl_head = 0, fl_size = 1024\<rparr>" 10 kernel_demo rs_mb p k' "\<lambda>_. 0", OF _ _ _ _ k a] by auto
qed

section \<open>Virtual regions\<close>

fun receive_all :: "u64 list \<Rightarrow> kernel_state \<Rightarrow> (virt_addr list \<times> kernel_state) outcome" where
  "receive_all [] k = Done ([], k)"
| "receive_all (sz # szs) k =
     obind (receive_vaddr_4k sz k) (\<lambda>(v, k). obind (receive_all szs k) (\<lambda>(vs, k). Done (v # vs, k)))"

lemma receive_vaddr_4k_Done:
  assumes "receive_vaddr_4k sz k = Done (v, k')"
  shows "v = NEXT_VADDR k" "unat (NEXT_VADDR k') = unat v + unat sz + unat REGION_PADDING" "sz AND 0xFFF = 0" "0 < unat sz"
proof -
  obtain r e where r: "checked_add REGION_PADDING sz = Some r" "checked_add (NEXT_VADDR k) r = Some e"
    and k': "v = NEXT_VADDR k" "k' = k\<lparr>NEXT_VADDR := NEXT_VADDR k + r\<rparr>" and sz: "0 < sz" "sz AND 0xFFF = 0"
    using assms by (auto simp: receive_vaddr_4k_def assert_that_def Let_def split: if_splits)
  have "e = NEXT_VADDR k + r" using r(2) by (simp add: checked_add_eq_Some)
  then show "unat (NEXT_VADDR k') = unat v + unat sz + unat REGION_PADDING"
    using unat_checked_add [OF r(1)] unat_checked_add [OF r(2)] k' by simp
  show "v = NEXT_VADDR k" "sz AND 0xFFF = 0" "0 < unat sz" using k' sz by (simp_all add: unat_gt_0)
qed

lemma receive_all_Done:
  assumes "receive_all szs k = Done (vs, k')"
  shows "length vs = length szs
    \<and> (\<forall>i < length szs. unat (NEXT_VADDR k) \<le> unat (vs ! i) \<and> unat (vs ! i) + unat (szs ! i) + unat REGION_PADDING \<le> unat (NEXT_VADDR k'))
    \<and> (\<forall>i j. i < j \<and> j < length szs \<longrightarrow> unat (vs ! i) + unat (szs ! i) + unat REGION_PADDING \<le> unat (vs ! j))
    \<and> unat (NEXT_VADDR k) \<le> unat (NEXT_VADDR k')
    \<and> (4096 dvd unat (NEXT_VADDR k) \<longrightarrow> (\<forall>v \<in> set vs. 4096 dvd unat v))"
  using assms
proof (induction szs arbitrary: k vs)
  case (Cons sz szs)
  obtain v k1 vs1 where v: "receive_vaddr_4k sz k = Done (v, k1)" and r: "receive_all szs k1 = Done (vs1, k')"
    and vs: "vs = v # vs1" using Cons.prems by auto
  note one = receive_vaddr_4k_Done [OF v]
  note all = Cons.IH [OF r]
  have "sz AND (2 ^ 12 - 1) = 0" using one(3) by simp
  then have "4096 dvd unat sz" using aligned_iff [of sz 12] by simp
  then have dvd: "4096 dvd unat (NEXT_VADDR k1)" if "4096 dvd unat (NEXT_VADDR k)"
    using that one(1,2) by (simp add: REGION_PADDING_def)
  have le: "unat (NEXT_VADDR k) \<le> unat (NEXT_VADDR k1)" using one(1,2) by simp
  show ?case
  proof (intro conjI allI impI)
    fix i assume i: "i < length (sz # szs)"
    show "unat (NEXT_VADDR k) \<le> unat (vs ! i)" using all one(1) le i vs by (cases i) auto
    show "unat (vs ! i) + unat ((sz # szs) ! i) + unat REGION_PADDING \<le> unat (NEXT_VADDR k')"
      using all one(2) i vs by (cases i) auto
  next
    fix i j assume ij: "i < j \<and> j < length (sz # szs)"
    then obtain j' where j: "j = Suc j'" "j' < length szs" by (cases j) auto
    show "unat (vs ! i) + unat ((sz # szs) ! i) + unat REGION_PADDING \<le> unat (vs ! j)"
      using all one(2) ij j vs by (cases i) auto
  next
    show "length vs = length (sz # szs)" "unat (NEXT_VADDR k) \<le> unat (NEXT_VADDR k')" using all le vs by auto
  next
    assume k: "4096 dvd unat (NEXT_VADDR k)"
    then have "\<forall>v \<in> set vs1. 4096 dvd unat v" using all dvd [OF k] by blast
    then show "\<forall>v \<in> set vs. 4096 dvd unat v" using k unfolding vs one(1) by (simp only: set_simps ball_simps)
  qed
qed simp

text \<open>C20: the virtual regions handed out never overlap: over any sequence of requests the regions are aligned
  to pages, follow each other with at least the padding between them, and start above the base.\<close>

theorem virtual_regions_disjoint:
  assumes "NEXT_VADDR k = KERNEL_VMEM_BASE" "receive_all szs k = Done (vs, k')"
  shows "length vs = length szs
    \<and> (\<forall>i < length szs. 4096 dvd unat (vs ! i) \<and> KERNEL_VMEM_BASE \<le> vs ! i)
    \<and> (\<forall>i j. i < j \<and> j < length szs \<longrightarrow> unat (vs ! i) + unat (szs ! i) + unat REGION_PADDING \<le> unat (vs ! j))"
proof -
  note all = receive_all_Done [OF assms(2)]
  have "4096 dvd unat (NEXT_VADDR k)" unfolding assms(1) layout_values by simp
  then have "4096 dvd unat (vs ! i)" if "i < length szs" for i
    using all nth_mem [of i vs] that by simp
  moreover have "KERNEL_VMEM_BASE \<le> vs ! i" if "i < length szs" for i
    using all that assms(1) by (simp add: word_le_nat_alt)
  ultimately show ?thesis using all by blast
qed

theorem virtual_regions_disjoint_witness:
  "\<exists>k'. receive_all [0x2000, 0x1000] kernel_demo = Done ([0xFFFFFDFFBFFF8000, 0xFFFFFDFFC0002000], k')
    \<and> (unat (0xFFFFFDFFBFFF8000 :: u64) + 0x2000 + unat REGION_PADDING \<le> unat (0xFFFFFDFFC0002000 :: u64))"
proof -
  have k: "NEXT_VADDR kernel_demo = KERNEL_VMEM_BASE" by (simp add: kernel_demo_def)
  have r: "receive_all [0x2000, 0x1000] kernel_demo
      = Done ([0xFFFFFDFFBFFF8000, 0xFFFFFDFFC0002000], kernel_demo\<lparr>NEXT_VADDR := 0xFFFFFDFFC000B000\<rparr>)"
    by (simp add: receive_vaddr_4k_def kernel_demo_def layout_values REGION_PADDING_def checked_add_def Let_def)
  show ?thesis using virtual_regions_disjoint [OF k r] r by auto
qed

section \<open>Findings\<close>

text \<open>The memory of a NUMA domain goes to the first core of the domain only: \<open>register_numa\<close> takes the domain
  out of the map, so that a later core of the domain has no preference.\<close>

theorem numa_first_core_only:
  assumes "a \<noteq> b" "a \<le> mx" "b \<le> mx" "mx \<noteq> 0" "APIC_TO_MEM_RANGE k = None"
  shows "\<exists>k'. register_numa mx [(a, d), (b, d)] md k = Done k'
    \<and> mem_range (k'\<lparr>ks_apic_id := Some a\<rparr>) = Done (md d) \<and> mem_range (k'\<lparr>ks_apic_id := Some b\<rparr>) = Done None"
proof -
  have l: "unat a < Suc (unat mx)" "unat b < Suc (unat mx)" "unat a \<noteq> unat b"
    using assms(1-3) by (simp_all add: word_le_nat_alt word_unat_eq_iff)
  have "register_numa mx [(a, d), (b, d)] md k
      = Done (k\<lparr>APIC_TO_MEM_RANGE := Some ((replicate (Suc (unat mx)) None)[unat a := md d, unat b := None])\<rparr>)"
    using l assms(4,5) by (simp add: register_numa_def del: replicate_Suc)
  then show ?thesis using l by (simp add: mem_range_def del: replicate_Suc)
qed

text \<open>A page-aligned allocation of more than a page is not physically contiguous and has no physical address:
  with the free list empty the block is a fresh virtual region, below the window of physical memory, and
  the subtraction of the window's base overflows.\<close>

lemma allocate_virt_block_vaddr: "allocate_virt_block L fl (k, m) = Done (v, st) \<Longrightarrow> v = NEXT_VADDR k"
  unfolding allocate_virt_block_def by (auto dest: receive_vaddr_4k_Done(1))

theorem contig_large_panics:
  assumes fl: "i < length (ks_free_lists k)" "fl_head (ks_free_lists k ! i) = 0" "4096 < fl_size (ks_free_lists k ! i)"
    and i: "free_list_index ((length bytes + 4096 - 1) div 4096 * 4096) 4096 = Done i"
    and v: "NEXT_VADDR k < KERNEL_PHYS_WINDOW_BASE"
  shows "contig_new L bytes (k, m) = Panic"
proof (cases "global_alloc L ((length bytes + 4096 - 1) div 4096 * 4096) 4096 (k, m)")
  case (Done r)
  obtain p st where r: "r = (p, st)" by (cases r)
  have "\<not> fl_size (ks_free_lists k ! i) \<le> 4096" using fl(3) by simp
  then obtain st' where "allocate_virt_block L (ks_free_lists k ! i) (k, m) = Done (p, st')"
    using Done i fl unfolding global_alloc_def pop_at_def r by (auto simp: pop_with_def)
  then have "p < KERNEL_PHYS_WINDOW_BASE" using allocate_virt_block_vaddr v by blast
  then have "psub p KERNEL_PHYS_WINDOW_BASE = Panic" by (simp add: psub_def checked_sub_def)
  then show ?thesis using Done r by (simp add: contig_new_def assert_that_def Let_def)
next
  case Panic
  then show ?thesis by (simp add: contig_new_def assert_that_def Let_def)
qed

end
