(* ===== verification/Sync_Props.thy ===== *)
theory Sync_Props
  imports Sync
begin

text \<open>
  The ticket lock refines a first-in first-out queue of cores, which gives mutual exclusion and fairness;
  interrupts stay off as long as anyone asked for it; \<open>OnceLock\<close> is set at most once, but can be read
  before its value is there.
\<close>

section \<open>The queue behind the tickets\<close>

text \<open>The cores with a ticket that is not given back, in the order of their tickets.\<close>

definition waits :: "lock_pc \<Rightarrow> bool" where
  "waits p \<longleftrightarrow> p = Holding \<or> (\<exists>t. p = Spinning t)"

definition lock_queue :: "nat \<Rightarrow> ('a, 'c) lock_system \<Rightarrow> nat list \<Rightarrow> bool" where
  "lock_queue n s q \<longleftrightarrow>
     distinct q \<and> (\<forall>i. i \<in> set q \<longleftrightarrow> waits (pcs s i)) \<and> (\<forall>i \<in> set q. i < n)
     \<and> ticket (the_lock s) = release (the_lock s) + of_nat (length q)
     \<and> (\<forall>k < length q. pcs s (q ! k) = Spinning (release (the_lock s) + of_nat k) \<or> (k = 0 \<and> pcs s (q ! k) = Holding))"

lemma waits_simps [simp]: "waits Holding" "waits (Spinning t)" "\<not> waits Outside" "\<not> waits Leaving" "\<not> waits Stopped"
  by (simp_all add: waits_def)

lemma goto_simps [simp]: "pcs (goto i p s) = (pcs s)(i := p)" "the_lock (goto i p s) = the_lock s"
  "cores (goto i p s) = cores s"
  by (simp_all add: goto_def)

lemma lock_queueD:
  assumes "lock_queue n s q"
  shows "distinct q" "\<And>i. i \<in> set q \<longleftrightarrow> waits (pcs s i)" "\<And>i. i \<in> set q \<Longrightarrow> i < n"
    "ticket (the_lock s) = release (the_lock s) + of_nat (length q)"
    "\<And>k. k < length q \<Longrightarrow> pcs s (q ! k) = Spinning (release (the_lock s) + of_nat k) \<or> (k = 0 \<and> pcs s (q ! k) = Holding)"
  using assms by (auto simp: lock_queue_def)

lemma lock_queue_short: "lock_queue n s q \<Longrightarrow> length q \<le> n"
proof -
  assume q: "lock_queue n s q"
  then have "set q \<subseteq> {..<n}" using lock_queueD(3) by auto
  then have "card (set q) \<le> n" using card_mono [of "{..<n}" "set q"] by simp
  then show ?thesis using lock_queueD(1) [OF q] by (simp add: distinct_card)
qed

text \<open>A core that holds the lock, or whose ticket is due, is the first of the queue.\<close>

lemma holding_first:
  assumes "lock_queue n s q" "pcs s i = Holding"
  shows "\<exists>q'. q = i # q'"
proof -
  have "i \<in> set q" using assms lock_queueD(2) by fastforce
  then obtain k where k: "k < length q" "q ! k = i" by (auto simp: in_set_conv_nth)
  then have "k = 0" using lock_queueD(5) [OF assms(1), of k] assms(2) by auto
  then show ?thesis using k by (cases q) auto
qed

lemma spinning_place:
  assumes "lock_queue n s q" "pcs s i = Spinning t" "n < 2 ^ 64"
  shows "\<exists>k < length q. q ! k = i \<and> t = release (the_lock s) + of_nat k \<and> unat (t - release (the_lock s)) = k"
proof -
  have "i \<in> set q" using assms lock_queueD(2) by fastforce
  then obtain k where k: "k < length q" "q ! k = i" by (auto simp: in_set_conv_nth)
  have t: "t = release (the_lock s) + of_nat k" using lock_queueD(5) [OF assms(1) k(1)] k assms(2) by auto
  have "k < 2 ^ 64" using k lock_queue_short [OF assms(1)] assms(3) by linarith
  then have "unat (of_nat k :: u64) = k" by (simp only: unsigned_of_nat) (simp add: take_bit_nat_eq_self)
  then show ?thesis using k t by auto
qed

text \<open>The abstract lock: cores join at the end and leave from the front.\<close>

inductive fifo_step :: "nat list \<Rightarrow> nat list \<Rightarrow> bool" where
  stay: "fifo_step q q"
| join: "i \<notin> set q \<Longrightarrow> fifo_step q (q @ [i])"
| leave_front: "fifo_step (i # q) q"

lemma lock_queue_same:
  assumes "lock_queue n s q" "ticket (the_lock s') = ticket (the_lock s)" "release (the_lock s') = release (the_lock s)"
    "\<And>i. i \<in> set q \<Longrightarrow> pcs s' i = pcs s i" "\<And>i. waits (pcs s' i) \<longleftrightarrow> waits (pcs s i)"
  shows "lock_queue n s' q"
proof -
  note D = lock_queueD [OF assms(1)]
  have "pcs s' (q ! k) = pcs s (q ! k)" if "k < length q" for k using assms(4) that by simp
  then show ?thesis using assms(2,3,5) D unfolding lock_queue_def by simp
qed

lemma queue_goto:
  assumes q: "lock_queue n s q" and i: "\<not> waits (pcs s i)" "\<not> waits p"
  shows "lock_queue n (goto i p (s\<lparr>cores := cs\<rparr>)) q" "lock_queue n (goto i p s) q"
proof -
  have "j \<noteq> i" if "j \<in> set q" for j using lock_queueD(2) [OF q] i that by auto
  then show "lock_queue n (goto i p (s\<lparr>cores := cs\<rparr>)) q" "lock_queue n (goto i p s) q"
    using i by (auto intro!: lock_queue_same [OF q] split: if_splits)
qed

lemma queue_take:
  assumes q: "lock_queue n s q" and i: "i < n" "pcs s i = Outside" and l: "lock_begin I (the_lock s) (cores s i) = Done (t, l, c)"
  shows "lock_queue n (goto i (Spinning t) (s\<lparr>the_lock := l, cores := (cores s)(i := c)\<rparr>)) (q @ [i])" "i \<notin> set q"
proof -
  have l': "t = ticket (the_lock s)" "l = (the_lock s)\<lparr>ticket := ticket (the_lock s) + 1\<rparr>"
    using l by (auto simp: lock_begin_def assert_that_def split: if_splits)
  show n: "i \<notin> set q" using lock_queueD(2) [OF q] i by simp
  note D = lock_queueD [OF q]
  show "lock_queue n (goto i (Spinning t) (s\<lparr>the_lock := l, cores := (cores s)(i := c)\<rparr>)) (q @ [i])"
    unfolding lock_queue_def
  proof (intro conjI allI ballI impI)
    fix k assume k: "k < length (q @ [i])"
    show "pcs (goto i (Spinning t) (s\<lparr>the_lock := l, cores := (cores s)(i := c)\<rparr>)) ((q @ [i]) ! k)
        = Spinning (release (the_lock (goto i (Spinning t) (s\<lparr>the_lock := l, cores := (cores s)(i := c)\<rparr>))) + of_nat k)
      \<or> k = 0 \<and> pcs (goto i (Spinning t) (s\<lparr>the_lock := l, cores := (cores s)(i := c)\<rparr>)) ((q @ [i]) ! k) = Holding"
    proof (cases "k = length q")
      case True
      then show ?thesis using D(4) by (simp add: l')
    next
      case False
      then have "k < length q" using k by simp
      moreover from this n have "q ! k \<noteq> i" by (metis nth_mem)
      ultimately show ?thesis using D(5) [of k] by (simp add: nth_append l')
    qed
  qed (use D i n in \<open>auto simp: l'\<close>)
qed

lemma queue_give_back:
  assumes q: "lock_queue n s q" and i: "pcs s i = Holding"
  shows "\<exists>q'. q = i # q' \<and> lock_queue n (goto i Leaving (s\<lparr>the_lock := guard_release (the_lock s)\<rparr>)) q'"
proof -
  obtain q' where q': "q = i # q'" using holding_first [OF q i] by blast
  note D = lock_queueD [OF q [unfolded q']]
  have "pcs s (q' ! k) = Spinning (release (the_lock s) + 1 + of_nat k) \<and> q' ! k \<noteq> i" if "k < length q'" for k
    using D(5) [of "Suc k"] D(1) that by (auto simp: ac_simps)
  then have "lock_queue n (goto i Leaving (s\<lparr>the_lock := guard_release (the_lock s)\<rparr>)) q'"
    using D(1,2,3,4) unfolding lock_queue_def by (auto simp: guard_release_def ac_simps)
  then show ?thesis using q' by blast
qed

lemma queue_step:
  assumes q: "lock_queue n s q" and n: "n < 2 ^ 64" and st: "lock_step I n s s'"
  shows "\<exists>q'. lock_queue n s' q' \<and> fifo_step q q'"
  using st
proof cases
  case (take_ticket i t l c)
  then show ?thesis using queue_take [OF q, of i I t l c] fifo_step.join by metis
next
  case (acquire i t)
  obtain k where k: "k < length q" "q ! k = i" "t = release (the_lock s) + of_nat k"
    "unat (t - release (the_lock s)) = k" using spinning_place [OF q acquire(3) n] by blast
  then have k0: "k = 0" using acquire(4) by (simp add: lock_free_def)
  note D = lock_queueD [OF q]
  have "lock_queue n s' q"
    unfolding lock_queue_def
  proof (intro conjI allI ballI impI)
    fix m assume m: "m < length q"
    show "pcs s' (q ! m) = Spinning (release (the_lock s') + of_nat m) \<or> m = 0 \<and> pcs s' (q ! m) = Holding"
      using D(5) [OF m] D(1) k k0 m acquire(1) by (cases "m = 0") (auto simp: nth_eq_iff_index_eq)
  qed (use D k k0 acquire in \<open>auto simp: nth_mem\<close>)
  then show ?thesis using fifo_step.stay by blast
next
  case (give_back i)
  then show ?thesis using queue_give_back [OF q, of i] fifo_step.leave_front by blast
next
  case (access i f)
  then have "lock_queue n s' q" by (intro lock_queue_same [OF q]) (simp_all add: guard_deref_mut_def)
  then show ?thesis using fifo_step.stay by blast
next
  case (take_panic i)
  then have "lock_queue n s' q" using queue_goto(2) [OF q, of i Stopped] by simp
  then show ?thesis using fifo_step.stay by blast
next
  case (leave i c)
  then have "lock_queue n s' q" using queue_goto(1) [OF q, of i Outside] by simp
  then show ?thesis using fifo_step.stay by blast
next
  case (leave_panic i)
  then have "lock_queue n s' q" using queue_goto(2) [OF q, of i Stopped] by simp
  then show ?thesis using fifo_step.stay by blast
next
  case (other i c)
  then have "lock_queue n s' q" by (intro lock_queue_same [OF q]) simp_all
  then show ?thesis using fifo_step.stay by blast
qed

lemma reach_queue:
  assumes "lock_reach I n s" "n < 2 ^ 64"
  shows "\<exists>q. lock_queue n s q"
  using assms(1)
proof induction
  case (start s)
  then have "lock_queue n s []" by (simp add: lock_queue_def)
  then show ?case by blast
next
  case (step s s')
  then show ?case using queue_step assms(2) by blast
qed

section \<open>What a lock asks of the interrupt state\<close>

text \<open>Leaving undoes entering, on the states \<open>ok\<close> that the program is in.\<close>

locale lock_context =
  fixes I :: "'c interrupt_state" and ok :: "'c \<Rightarrow> bool"
  assumes enter_ok: "ok c \<Longrightarrow> enter_lock I c = Done c' \<Longrightarrow> ok c'"
    and exit_enter: "ok c \<Longrightarrow> enter_lock I c = Done c' \<Longrightarrow> exit_lock I c' = Done c"
begin

lemma lock_unlock:
  assumes "ok c" "lock_begin I l c = Done (t, l', c')"
  shows "ok c'" "guard_exit I (guard_release l') c' = Done c"
    "t = ticket l" "ticket (guard_release l') = ticket l + 1" "release (guard_release l') = release l + 1"
    "disables_interrupts (guard_release l') = disables_interrupts l"
  using assms enter_ok exit_enter
  by (auto simp: lock_begin_def assert_that_def guard_exit_def guard_release_def split: if_splits)

end

interpretation dummy: lock_context dummy_interrupt_state "\<lambda>_. True"
  by unfold_locales (simp_all add: dummy_interrupt_state_def)

text \<open>On a core: interrupts are on exactly when nobody asked for them to be off and no handler runs.\<close>

definition core_ok :: "core_state \<Rightarrow> bool" where
  "core_ok c \<longleftrightarrow> (interrupt_flag c \<longleftrightarrow> interrupt_disable_requests c = 0 \<and> \<not> in_interrupt c)"

lemma disable_interrupts_eq: "disable_interrupts c =
  (if interrupt_disable_requests c = - 1 then Panic
   else Done (c\<lparr>interrupt_disable_requests := interrupt_disable_requests c + 1, interrupt_flag := False\<rparr>))"
  by (simp add: disable_interrupts_def Let_def)

lemma enable_interrupts_eq: "enable_interrupts c =
  (if interrupt_disable_requests c = 0 then Panic
   else Done (c\<lparr>interrupt_disable_requests := interrupt_disable_requests c - 1,
     interrupt_flag := interrupt_flag c \<or> (\<not> in_interrupt c \<and> interrupt_disable_requests c = 1)\<rparr>))"
proof -
  let ?x = "interrupt_disable_requests c"
  have "1 \<le> ?x \<longleftrightarrow> ?x \<noteq> 0" by (simp add: word_le_nat_alt Suc_le_eq unat_gt_0)
  then show ?thesis
    by (cases "?x = 0"; cases "\<not> in_interrupt c \<and> ?x = 1"; cases c)
      (auto simp: enable_interrupts_def Let_def checked_sub_def in_interrupt_def)
qed

lemma core_ok_disable: "core_ok c \<Longrightarrow> disable_interrupts c = Done c' \<Longrightarrow> core_ok c'"
  using unat_Suc_word [of "interrupt_disable_requests c"]
  by (auto simp: disable_interrupts_eq core_ok_def unat_eq_0 [symmetric] simp del: unat_eq_0 split: if_splits)

lemma core_ok_enable: "core_ok c \<Longrightarrow> enable_interrupts c = Done c' \<Longrightarrow> core_ok c'"
  by (auto simp: enable_interrupts_eq core_ok_def in_interrupt_def split: if_splits)

lemma enable_disable: "core_ok c \<Longrightarrow> disable_interrupts c = Done c' \<Longrightarrow> enable_interrupts c' = Done c"
  using unat_Suc_word [of "interrupt_disable_requests c"]
  by (cases c) (auto simp: disable_interrupts_eq enable_interrupts_eq core_ok_def in_interrupt_def unat_eq_0 [symmetric]
      simp del: unat_eq_0 split: if_splits)

interpretation core: lock_context interrupt_lock core_ok
  by unfold_locales (simp_all add: interrupt_lock_def core_ok_disable enable_disable)

lemma request_count:
  "disable_interrupts c = Done d \<Longrightarrow>
    in_interrupt d = in_interrupt c \<and> unat (interrupt_disable_requests d) = Suc (unat (interrupt_disable_requests c))"
  "enable_interrupts c = Done d \<Longrightarrow>
    in_interrupt d = in_interrupt c \<and> Suc (unat (interrupt_disable_requests d)) = unat (interrupt_disable_requests c)"
proof -
  show "in_interrupt d = in_interrupt c \<and> unat (interrupt_disable_requests d) = Suc (unat (interrupt_disable_requests c))"
    if "disable_interrupts c = Done d"
    using that unfolding disable_interrupts_eq
    by (cases "interrupt_disable_requests c = - 1") (auto simp: in_interrupt_def unat_Suc_word)
  have "Suc (unat (x - 1)) = unat x" if "x \<noteq> 0" for x :: u64
    using that by (simp add: unat_minus_one unat_gt_0)
  then show "in_interrupt d = in_interrupt c \<and> Suc (unat (interrupt_disable_requests d)) = unat (interrupt_disable_requests c)"
    if "enable_interrupts c = Done d"
    using that unfolding enable_interrupts_eq
    by (cases "interrupt_disable_requests c = 0") (auto simp: in_interrupt_def)
qed

text \<open>A run of requests, \<open>True\<close> to disable and \<open>False\<close> to enable.\<close>

fun run_requests :: "bool list \<Rightarrow> core_state \<Rightarrow> core_state outcome" where
  "run_requests [] c = Done c"
| "run_requests (b # bs) c = obind (if b then disable_interrupts c else enable_interrupts c) (run_requests bs)"

section \<open>Setting a \<open>OnceLock\<close>\<close>

definition once_writer :: "'a once_system \<Rightarrow> nat \<Rightarrow> bool" where
  "once_writer s i \<longleftrightarrow> (\<exists>v. once_pcs s i = Setting v \<or> once_pcs s i = Set v)"

definition once_inv :: "'a once_system \<Rightarrow> bool" where
  "once_inv s \<longleftrightarrow>
     (\<forall>i j. once_writer s i \<longrightarrow> once_writer s j \<longrightarrow> i = j)
     \<and> ((\<exists>i. once_writer s i) \<longleftrightarrow> once_initialized (the_once s))
     \<and> (\<forall>v. once_value (the_once s) = Some v \<longleftrightarrow> (\<exists>i. once_pcs s i = Set v))
     \<and> (\<forall>i v. once_pcs s i = Read (Some v) \<longrightarrow> once_value (the_once s) = Some v)"

lemma once_writer_simps: "once_writer (s\<lparr>once_pcs := (once_pcs s)(i := p)\<rparr>) j
    \<longleftrightarrow> (if j = i then (\<exists>v. p = Setting v \<or> p = Set v) else once_writer s j)"
  "once_writer (s\<lparr>the_once := l, once_pcs := (once_pcs s)(i := p)\<rparr>) j
    \<longleftrightarrow> (if j = i then (\<exists>v. p = Setting v \<or> p = Set v) else once_writer s j)"
  by (auto simp: once_writer_def)

lemma once_inv_swap:
  assumes inv: "once_inv s" and i: "once_pcs s i = Ready" and l: "once_swap (the_once s) = Done l"
  shows "once_inv (s\<lparr>the_once := l, once_pcs := (once_pcs s)(i := Setting v)\<rparr>)"
proof -
  have n: "\<not> once_initialized (the_once s)" and l': "l = (the_once s)\<lparr>once_initialized := True\<rparr>"
    using l by (auto simp: once_swap_def assert_that_def split: if_splits)
  then have no: "\<not> once_writer s j" for j using inv by (auto simp: once_inv_def)
  then have none: "once_pcs s j \<noteq> Set w" for j w by (auto simp: once_writer_def)
  then have "once_value (the_once s) = None" using inv by (auto simp: once_inv_def)
  then show ?thesis
    using inv no none unfolding once_inv_def once_writer_simps l' by auto
qed

lemma once_inv_write:
  assumes inv: "once_inv s" and i: "once_pcs s i = Setting v"
  shows "once_inv (s\<lparr>the_once := once_write (the_once s) v, once_pcs := (once_pcs s)(i := Set v)\<rparr>)"
proof -
  have w: "once_writer s j \<longleftrightarrow> j = i" for j using inv i by (auto simp: once_inv_def once_writer_def)
  have none: "once_pcs s j \<noteq> Set u" for j u
  proof
    assume j: "once_pcs s j = Set u"
    then have "once_writer s j" by (auto simp: once_writer_def)
    then show False using w j i by simp
  qed
  then have "once_value (the_once s) = None" using inv by (auto simp: once_inv_def)
  then show ?thesis
    using inv w none unfolding once_inv_def once_writer_simps by (auto simp: once_write_def)
qed

lemma once_inv_other:
  assumes inv: "once_inv s" and i: "once_pcs s i = Ready" and p: "p = Failed \<or> (p = Read x \<and> once_get (the_once s) = Done x)"
  shows "once_inv (s\<lparr>once_pcs := (once_pcs s)(i := p)\<rparr>)"
proof -
  let ?s = "s\<lparr>once_pcs := (once_pcs s)(i := p)\<rparr>"
  have w: "once_writer ?s j \<longleftrightarrow> once_writer s j" for j
    unfolding once_writer_simps using i p by (auto simp: once_writer_def)
  have st: "once_pcs ?s j = Set v \<longleftrightarrow> once_pcs s j = Set v" for j v
    using i p by auto
  have r: "once_value (the_once s) = Some v" if "once_pcs ?s j = Read (Some v)" for j v
    using inv p that by (auto simp: once_inv_def once_get_def split: if_splits)
  have o: "the_once ?s = the_once s" by simp
  show ?thesis using inv r unfolding once_inv_def w st o by blast
qed

lemma once_reach_inv: "once_reach s \<Longrightarrow> once_inv s"
proof (induction rule: once_reach.induct)
  case (start s)
  then show ?case by (simp add: once_inv_def once_writer_def once_new_def)
next
  case (step s s')
  from step.hyps(2) show ?case
    using step.IH by cases (auto intro: once_inv_swap once_inv_write once_inv_other)
qed

text \<open>Two cores: the first has taken the lock and holds it, the second waits for it.\<close>

definition lock_demo0 :: "(nat, unit) lock_system" where
  "lock_demo0 = \<lparr>the_lock = spin_lock_new 5, pcs = \<lambda>_. Outside, cores = \<lambda>_. ()\<rparr>"

definition lock_demo :: "(nat, unit) lock_system" where
  "lock_demo = \<lparr>the_lock = (spin_lock_new 5)\<lparr>ticket := 2\<rparr>, pcs = (\<lambda>_. Outside)(0 := Holding, 1 := Spinning 1), cores = \<lambda>_. ()\<rparr>"

lemma lock_demo_reach: "lock_reach dummy_interrupt_state 2 lock_demo"
proof -
  let ?s1 = "goto 0 (Spinning 0) (lock_demo0\<lparr>the_lock := (spin_lock_new 5)\<lparr>ticket := 1\<rparr>, cores := (cores lock_demo0)(0 := ())\<rparr>)"
  let ?s2 = "goto 0 Holding ?s1"
  have s0: "lock_reach dummy_interrupt_state 2 lock_demo0"
    by (rule lock_reach.start) (simp_all add: lock_demo0_def spin_lock_new_def)
  have "lock_step dummy_interrupt_state 2 lock_demo0 ?s1"
    by (rule lock_step.take_ticket) (simp_all add: lock_demo0_def spin_lock_new_def lock_begin_def dummy_interrupt_state_def)
  moreover have "lock_step dummy_interrupt_state 2 ?s1 ?s2"
    by (rule lock_step.acquire) (simp_all add: lock_demo0_def spin_lock_new_def lock_free_def)
  moreover have "lock_step dummy_interrupt_state 2 ?s2
      (goto 1 (Spinning 1) (?s2\<lparr>the_lock := (spin_lock_new 5)\<lparr>ticket := 2\<rparr>, cores := (cores ?s2)(1 := ())\<rparr>))"
    by (rule lock_step.take_ticket) (simp_all add: lock_demo0_def spin_lock_new_def lock_begin_def dummy_interrupt_state_def)
  moreover have "goto 1 (Spinning 1) (?s2\<lparr>the_lock := (spin_lock_new 5)\<lparr>ticket := 2\<rparr>, cores := (cores ?s2)(1 := ())\<rparr>) = lock_demo"
    by (simp add: lock_demo_def lock_demo0_def goto_def fun_eq_iff)
  ultimately show ?thesis using s0 by (metis lock_reach.step)
qed

section \<open>Properties\<close>

text \<open>C23: the ticket lock refines a queue. In every reachable state of fewer than \<open>2 ^ 64\<close> cores the
  outstanding tickets are those of a queue of distinct cores, in order, with the counters wrapping around
  as they will, and every step of a core joins the end of that queue, leaves its front or keeps it.\<close>

theorem ticket_lock_refines_fifo:
  assumes "lock_reach I n s" "n < 2 ^ 64"
  shows "\<exists>q. lock_queue n s q \<and> (\<forall>s'. lock_step I n s s' \<longrightarrow> (\<exists>q'. lock_queue n s' q' \<and> fifo_step q q'))"
  using reach_queue [OF assms] queue_step [OF _ assms(2)] by blast

theorem ticket_lock_refines_fifo_witness:
  "\<exists>q. lock_queue 2 lock_demo q \<and> (\<exists>q'. lock_queue 2 (goto 0 Leaving (lock_demo\<lparr>the_lock := guard_release (the_lock lock_demo)\<rparr>)) q'
     \<and> fifo_step q q')"
proof -
  have "lock_step dummy_interrupt_state 2 lock_demo (goto 0 Leaving (lock_demo\<lparr>the_lock := guard_release (the_lock lock_demo)\<rparr>))"
    by (rule lock_step.give_back) (simp_all add: lock_demo_def)
  then show ?thesis using ticket_lock_refines_fifo [OF lock_demo_reach] by fastforce
qed

text \<open>C24: mutual exclusion. Two cores never hold the guard of the same lock at the same time.\<close>

theorem spin_lock_mutual_exclusion:
  assumes "lock_reach I n s" "n < 2 ^ 64" "pcs s i = Holding" "pcs s j = Holding"
  shows "i = j"
proof -
  obtain q where "lock_queue n s q" using reach_queue [OF assms(1,2)] by blast
  then show ?thesis using holding_first [of n s q i] holding_first [of n s q j] assms(3,4) by auto
qed

theorem spin_lock_mutual_exclusion_witness:
  "lock_reach dummy_interrupt_state 2 lock_demo \<and> pcs lock_demo 0 = Holding \<and> pcs lock_demo 1 \<noteq> Holding"
proof -
  have h: "pcs lock_demo 0 = Holding" by (simp add: lock_demo_def)
  have "pcs lock_demo 1 \<noteq> Holding"
    using spin_lock_mutual_exclusion [OF lock_demo_reach _ h, of 1] by auto
  then show ?thesis using lock_demo_reach h by blast
qed

text \<open>C25: no core waits forever on its own account. While a core spins, the number of cores before it is
  below the number of cores and no step makes it larger; every release makes it smaller by one; and when
  nobody holds the lock, a spinning core can acquire it.\<close>

theorem spin_lock_fair:
  assumes reach: "lock_reach I n s" "n < 2 ^ 64" and spin: "pcs s i = Spinning t"
  shows "unat (t - release (the_lock s)) < n
    \<and> (\<forall>s'. lock_step I n s s' \<longrightarrow> pcs s' i = Holding \<or>
         (pcs s' i = Spinning t \<and>
          unat (t - release (the_lock s')) =
            unat (t - release (the_lock s)) - (if release (the_lock s') = release (the_lock s) then 0 else 1)))
    \<and> ((\<forall>j. pcs s j \<noteq> Holding) \<longrightarrow> (\<exists>j t'. pcs s j = Spinning t' \<and> lock_step I n s (goto j Holding s)))"
proof -
  obtain q where q: "lock_queue n s q" using reach_queue [OF reach] by blast
  obtain k where k: "k < length q" "q ! k = i" "unat (t - release (the_lock s)) = k"
    using spinning_place [OF q spin reach(2)] by blast
  have "pcs s' i = Holding \<or> (pcs s' i = Spinning t \<and> unat (t - release (the_lock s')) =
      unat (t - release (the_lock s)) - (if release (the_lock s') = release (the_lock s) then 0 else 1))"
    if "lock_step I n s s'" for s'
    using that
  proof cases
    case (give_back j)
    then have ji: "j \<noteq> i" using spin by auto
    obtain q' where q': "lock_queue n s' q'" "q = j # q'" using queue_give_back [OF q give_back(3)] give_back(1) by blast
    have s': "pcs s' i = Spinning t" "release (the_lock s') = release (the_lock s) + 1"
      using give_back(1) ji spin by (simp_all add: guard_release_def)
    obtain m where "q' ! m = i" "m < length q'" "unat (t - release (the_lock s')) = m"
      using spinning_place [OF q'(1) s'(1) reach(2)] by blast
    moreover have "q ! Suc m = i" "Suc m < length q" using calculation q'(2) by simp_all
    then have "k = Suc m" using k lock_queueD(1) [OF q] nth_eq_iff_index_eq by blast
    ultimately show ?thesis using s' k by simp
  qed (use spin in \<open>auto simp: lock_begin_def assert_that_def guard_deref_mut_def split: if_splits\<close>)
  moreover have "\<exists>j t'. pcs s j = Spinning t' \<and> lock_step I n s (goto j Holding s)" if "\<forall>j. pcs s j \<noteq> Holding"
  proof -
    have "0 < length q" using k(1) by linarith
    then have h: "pcs s (q ! 0) = Spinning (release (the_lock s))" using lock_queueD(5) [OF q, of 0] that by auto
    moreover have "q ! 0 < n" using k lock_queueD(3) [OF q] by (metis nth_mem le_less_trans zero_le)
    ultimately show ?thesis using lock_step.acquire [of "q ! 0" n s] by (auto simp: lock_free_def)
  qed
  ultimately show ?thesis using k lock_queue_short [OF q] by auto
qed

theorem spin_lock_fair_witness:
  "pcs lock_demo 1 = Spinning 1 \<and> unat (1 - release (the_lock lock_demo)) < 2"
proof -
  have h: "pcs lock_demo 1 = Spinning 1" by (simp add: lock_demo_def)
  then show ?thesis using spin_lock_fair [OF lock_demo_reach _ h] by simp
qed

text \<open>interrupts nest. On a core where interrupts are on exactly when no request is outstanding and no
  handler runs, any sequence of requests keeps it so, counts them, and taking and releasing a
  non-preemptable lock leaves the core as it was.\<close>

theorem interrupts_nest:
  assumes "core_ok c"
  shows "(run_requests bs c = Done c' \<longrightarrow> core_ok c' \<and> in_interrupt c' = in_interrupt c
      \<and> unat (interrupt_disable_requests c') + length (filter Not bs)
        = unat (interrupt_disable_requests c) + length (filter id bs))
    \<and> (lock_begin interrupt_lock l c = Done (t, l', c'') \<longrightarrow>
        (disables_interrupts l \<longrightarrow> \<not> interrupt_flag c'') \<and> guard_exit interrupt_lock (guard_release l') c'' = Done c)"
proof (intro conjI impI)
  assume "run_requests bs c = Done c'"
  then have *: "core_ok c' \<and> in_interrupt c' = in_interrupt c \<and> unat (interrupt_disable_requests c') + length (filter Not bs)
        = unat (interrupt_disable_requests c) + length (filter id bs)"
    using assms
  proof (induction bs arbitrary: c)
    case (Cons b bs)
    from Cons.prems(1) obtain d where d: "(if b then disable_interrupts c else enable_interrupts c) = Done d"
      "run_requests bs d = Done c'" by auto
    have "core_ok d"
      using d(1) core_ok_disable [OF Cons.prems(2)] core_ok_enable [OF Cons.prems(2)] by (cases b) simp_all
    note IH = Cons.IH [OF d(2) this]
    have "in_interrupt d = in_interrupt c \<and> unat (interrupt_disable_requests d) + (if b then 0 else 1)
        = unat (interrupt_disable_requests c) + (if b then 1 else 0)"
    proof (cases b)
      case True
      then have "disable_interrupts c = Done d" using d(1) by simp
      from request_count(1) [OF this] True show ?thesis by simp
    next
      case False
      then have "enable_interrupts c = Done d" using d(1) by simp
      from request_count(2) [OF this] False show ?thesis by simp
    qed
    then show ?case using IH by (cases b) simp_all
  qed simp
  then show "core_ok c'" "in_interrupt c' = in_interrupt c" "unat (interrupt_disable_requests c') + length (filter Not bs)
        = unat (interrupt_disable_requests c) + length (filter id bs)" by simp_all
next
  assume l: "lock_begin interrupt_lock l c = Done (t, l', c'')"
  show "guard_exit interrupt_lock (guard_release l') c'' = Done c" by (rule core.lock_unlock(2) [OF assms l])
  assume "disables_interrupts l"
  then show "\<not> interrupt_flag c''"
    using l by (auto simp: lock_begin_def assert_that_def interrupt_lock_def disable_interrupts_eq split: if_splits)
qed

definition core_demo :: core_state where
  "core_demo = \<lparr>interrupt_disable_requests = 0, interrupt_depth = 0, exception_depth = 0, interrupt_flag = True\<rparr>"

theorem interrupts_nest_witness:
  "core_ok core_demo \<and> run_requests [True, True, False, False] core_demo = Done core_demo
    \<and> (\<exists>c. lock_begin interrupt_lock (new_no_preempt ()) core_demo = Done (0, (new_no_preempt ())\<lparr>ticket := 1\<rparr>, c)
         \<and> \<not> interrupt_flag c \<and> guard_exit interrupt_lock (guard_release ((new_no_preempt ())\<lparr>ticket := 1\<rparr>)) c = Done core_demo)"
proof -
  have ok: "core_ok core_demo" by (simp add: core_ok_def core_demo_def in_interrupt_def arc_count_def)
  have r: "run_requests [True, True, False, False] core_demo = Done core_demo"
    by (simp add: core_demo_def disable_interrupts_eq enable_interrupts_eq in_interrupt_def arc_count_def)
  have l: "lock_begin interrupt_lock (new_no_preempt ()) core_demo = Done (0, (new_no_preempt ())\<lparr>ticket := 1\<rparr>,
      core_demo\<lparr>interrupt_disable_requests := 1, interrupt_flag := False\<rparr>)"
    by (simp add: lock_begin_def new_no_preempt_def interrupt_lock_def disable_interrupts_eq core_demo_def)
  show ?thesis
    using ok r l interrupts_nest [OF ok, of "[True, True, False, False]" core_demo "new_no_preempt ()" 0
        "(new_no_preempt ())\<lparr>ticket := 1\<rparr>" "core_demo\<lparr>interrupt_disable_requests := 1, interrupt_flag := False\<rparr>"]
    by (simp add: new_no_preempt_def)
qed

text \<open>C34: a \<open>OnceLock\<close> is set at most once. However the cores interleave, one core at most gets past the
  swap in \<open>set\<close>; when it has written its value the lock holds that value, and a core that reads a value
  reads that one.\<close>

theorem once_lock_set_once:
  assumes "once_reach s"
  shows "((once_pcs s i = Setting v \<or> once_pcs s i = Set v) \<and> (once_pcs s j = Setting w \<or> once_pcs s j = Set w) \<longrightarrow> i = j)
    \<and> (once_pcs s i = Set v \<longrightarrow> once_value (the_once s) = Some v \<and> (once_pcs s j = Read (Some w) \<longrightarrow> w = v))"
  using once_reach_inv [OF assms] by (auto simp: once_inv_def once_writer_def)

definition once_demo :: "nat once_system" where
  "once_demo = \<lparr>the_once = \<lparr>once_initialized = True, once_value = Some 7\<rparr>, once_pcs = (\<lambda>_. Ready)(0 := Set 7, 1 := Read (Some 7))\<rparr>"

theorem once_lock_set_once_witness:
  "once_reach once_demo \<and> once_pcs once_demo 0 = Set 7 \<and> once_value (the_once once_demo) = Some 7"
proof -
  let ?s0 = "\<lparr>the_once = once_new, once_pcs = \<lambda>_. Ready\<rparr> :: nat once_system"
  let ?s1 = "?s0\<lparr>the_once := once_new\<lparr>once_initialized := True\<rparr>, once_pcs := (once_pcs ?s0)(0 := Setting 7)\<rparr>"
  let ?s2 = "?s1\<lparr>the_once := once_write (the_once ?s1) 7, once_pcs := (once_pcs ?s1)(0 := Set 7)\<rparr>"
  have "once_reach ?s0" by (rule once_reach.start) simp_all
  moreover have "once_step ?s0 ?s1"
    by (rule once_step.swap) (simp_all add: once_swap_def once_new_def)
  moreover have "once_step ?s1 ?s2"
    by (rule once_step.write_value) simp
  moreover have "once_demo = ?s2\<lparr>once_pcs := (once_pcs ?s2)(1 := Read (Some 7))\<rparr>"
    by (simp add: once_demo_def once_new_def once_write_def)
  then have "once_step ?s2 once_demo"
    using once_step.read [of ?s2 1 "Some 7"] by (simp add: once_get_def once_write_def)
  ultimately have "once_reach once_demo" by (blast intro: once_reach.step)
  then show ?thesis using once_lock_set_once [of once_demo 0 7 1 7] by (simp add: once_demo_def)
qed

text \<open>the flag is raised before the value is written, so a core that calls \<open>get\<close> in between does not
  panic and refers to memory that is not initialised.\<close>

theorem once_lock_read_uninitialized:
  "\<exists>s :: nat once_system. once_reach s \<and> once_pcs s 1 = Read None \<and> once_pcs s 0 = Setting 7"
proof -
  let ?s0 = "\<lparr>the_once = once_new, once_pcs = \<lambda>_. Ready\<rparr> :: nat once_system"
  let ?s1 = "?s0\<lparr>the_once := once_new\<lparr>once_initialized := True\<rparr>, once_pcs := (once_pcs ?s0)(0 := Setting 7)\<rparr>"
  let ?s2 = "?s1\<lparr>once_pcs := (once_pcs ?s1)(1 := Read None)\<rparr>"
  have "once_reach ?s0" by (rule once_reach.start) simp_all
  moreover have "once_step ?s0 ?s1"
    by (rule once_step.swap) (simp_all add: once_swap_def once_new_def)
  moreover have "once_step ?s1 ?s2"
    by (rule once_step.read) (simp_all add: once_get_def once_new_def)
  ultimately have "once_reach ?s2" by (blast intro: once_reach.step)
  then show ?thesis by (intro exI [of _ ?s2]) simp
qed

end
