(* ===== verification/Cursor.thy ===== *)
theory Cursor
  imports Prelude
begin

text \<open>
  The write-limited cursor over a mutable slice, \<open>src/shared/cursor/src/lib.rs\<close>. The slice is the list
  \<open>inner\<close>; splitting hands out its front and keeps the rest, so the two lists appended are the slice
  that was split.
\<close>

record 'a cursor =
  inner :: "'a list"
  limit :: nat
  pos :: nat
  total_pos :: nat

definition cursor_new :: "'a list \<Rightarrow> 'a cursor" where
  "cursor_new buf = \<lparr>inner = buf, limit = usize_max, pos = 0, total_pos = 0\<rparr>"

definition new_with_limit :: "'a list \<Rightarrow> nat \<Rightarrow> 'a cursor" where
  "new_with_limit buf lim = \<lparr>inner = buf, limit = lim, pos = 0, total_pos = 0\<rparr>"

definition into_inner :: "'a cursor \<Rightarrow> 'a list" where
  "into_inner c = inner c"

text \<open>\<open>&self.inner[..self.pos]\<close>.\<close>

definition cursor_get :: "'a cursor \<Rightarrow> 'a list outcome" where
  "cursor_get c = unwrap (slice (inner c) 0 (pos c))"

text \<open>\<open>get_mut\<close> followed by the write of \<open>f\<close> to the slice it returns; \<open>f\<close> keeps the length.\<close>

definition cursor_get_mut :: "'a cursor \<Rightarrow> ('a list \<Rightarrow> 'a list) \<Rightarrow> 'a cursor outcome" where
  "cursor_get_mut c f =
     obind (cursor_get c) (\<lambda>front. Done (c\<lparr>inner := f front @ drop (pos c) (inner c)\<rparr>))"

definition current_position :: "'a cursor \<Rightarrow> nat" where
  "current_position c = pos c"

definition overall_position :: "'a cursor \<Rightarrow> nat" where
  "overall_position c = total_pos c"

definition try_set_position :: "'a cursor \<Rightarrow> nat \<Rightarrow> (nat option \<times> 'a cursor) outcome" where
  "try_set_position c p =
     (if p = pos c then Done (Some (total_pos c), c)
      else if p > pos c then
        let total = total_pos c + (p - pos c) in
        assert_that (total \<le> usize_max)
          (if total > limit c then Done (None, c)
           else Done (Some total, c\<lparr>total_pos := total, pos := p\<rparr>))
      else
        let delta = pos c - p in
        assert_that (delta \<le> total_pos c)
          (Done (Some (total_pos c - delta), c\<lparr>total_pos := total_pos c - delta, pos := p\<rparr>)))"

definition set_position :: "'a cursor \<Rightarrow> nat \<Rightarrow> 'a cursor outcome" where
  "set_position c p = obind (try_set_position c p) (\<lambda>(r, c'). obind (unwrap r) (\<lambda>_. Done c'))"

definition set_limit :: "'a cursor \<Rightarrow> nat \<Rightarrow> 'a cursor" where
  "set_limit c l = c\<lparr>limit := l\<rparr>"

definition try_set_limit :: "'a cursor \<Rightarrow> nat \<Rightarrow> unit option \<times> 'a cursor" where
  "try_set_limit c l = (if l < pos c then None else Some (), c)"

text \<open>\<open>self.inner[a..b].copy_from_slice(buf)\<close>: a range outside the slice or of another length panics.\<close>

definition copy_from_slice :: "'a list \<Rightarrow> nat \<Rightarrow> nat \<Rightarrow> 'a list \<Rightarrow> 'a list outcome" where
  "copy_from_slice xs a b buf =
     (if a \<le> b \<and> b \<le> length xs \<and> length buf = b - a then Done (take a xs @ buf @ drop b xs) else Panic)"

definition cursor_write :: "'a cursor \<Rightarrow> 'a list \<Rightarrow> ((nat \<times> nat) option \<times> 'a cursor) outcome" where
  "cursor_write c buf =
     (let cur_pos = pos c in
      if cur_pos + length buf > usize_max then Done (None, c)
      else
        let new_pos = cur_pos + length buf in
        obind (try_set_position c new_pos) (\<lambda>(r, c).
          case r of
            None \<Rightarrow> Done (None, c)
          | Some _ \<Rightarrow> obind (copy_from_slice (inner c) cur_pos new_pos buf) (\<lambda>xs.
              Done (Some (cur_pos, new_pos), c\<lparr>inner := xs\<rparr>))))"

definition cursor_split_at_checked :: "'a cursor \<Rightarrow> nat \<Rightarrow> ('a list \<times> 'a cursor) option" where
  "cursor_split_at_checked c idx =
     (if idx > length (inner c) then None
      else
        case (if idx > pos c
              then (if total_pos c + (idx - pos c) > usize_max then None
                    else Some (total_pos c + (idx - pos c), 0))
              else Some (total_pos c, pos c - idx)) of
          None \<Rightarrow> None
        | Some (new_total, new_cur) \<Rightarrow>
            if new_total > limit c then None
            else Some (take idx (inner c),
              c\<lparr>inner := drop idx (inner c), total_pos := new_total, pos := new_cur\<rparr>))"

definition cursor_split_at :: "'a cursor \<Rightarrow> nat \<Rightarrow> ('a list \<times> 'a cursor) outcome" where
  "cursor_split_at c idx = unwrap (cursor_split_at_checked c idx)"

definition cursor_split_at_current :: "'a cursor \<Rightarrow> ('a list \<times> 'a cursor) outcome" where
  "cursor_split_at_current c = cursor_split_at c (pos c)"

section \<open>The invariant\<close>

text \<open>The position is inside the slice, and counts towards a total within the limit.\<close>

definition cursor_inv :: "'a cursor \<Rightarrow> bool" where
  "cursor_inv c \<longleftrightarrow> pos c \<le> length (inner c) \<and> pos c \<le> total_pos c \<and> total_pos c \<le> limit c
     \<and> limit c \<le> usize_max \<and> length (inner c) \<le> usize_max \<and> limit c + length (inner c) \<le> usize_max"

lemma try_set_position_forward:
  assumes "cursor_inv c" and "p \<le> length (inner c)" and "pos c \<le> p"
  shows "try_set_position c p =
    Done (if total_pos c + (p - pos c) > limit c then (None, c)
          else (Some (total_pos c + (p - pos c)), c\<lparr>total_pos := total_pos c + (p - pos c), pos := p\<rparr>))"
  using assms by (auto simp: try_set_position_def cursor_inv_def Let_def assert_that_def)

lemma write_within:
  assumes inv: "cursor_inv c" and fit: "pos c + length buf \<le> length (inner c)"
  shows "cursor_write c buf =
    Done (if total_pos c + length buf > limit c then (None, c)
          else (Some (pos c, pos c + length buf),
                c\<lparr>inner := take (pos c) (inner c) @ buf @ drop (pos c + length buf) (inner c),
                  total_pos := total_pos c + length buf, pos := pos c + length buf\<rparr>))"
proof -
  have "pos c + length buf \<le> usize_max" using assms by (simp add: cursor_inv_def)
  then show ?thesis
    using try_set_position_forward [OF inv fit] fit
    by (auto simp: cursor_write_def Let_def copy_from_slice_def)
qed

lemma write_inv:
  assumes "cursor_inv c" and "pos c + length buf \<le> length (inner c)" and "cursor_write c buf = Done (r, c')"
  shows "cursor_inv c'"
  using assms(3) assms(1,2) unfolding write_within [OF assms(1,2)]
  by (auto simp: cursor_inv_def split: if_splits)

lemma split_at_spec:
  assumes "cursor_inv c" and "idx \<le> length (inner c)"
  shows "cursor_split_at_checked c idx =
    (let t = max (total_pos c) (total_pos c + idx - pos c) in
     if t > limit c then None
     else Some (take idx (inner c), c\<lparr>inner := drop idx (inner c), total_pos := t, pos := pos c - idx\<rparr>))"
  using assms by (auto simp: cursor_split_at_checked_def cursor_inv_def Let_def max_def)

lemma split_at_current_spec:
  assumes "cursor_inv c"
  shows "cursor_split_at_current c
    = Done (take (pos c) (inner c), c\<lparr>inner := drop (pos c) (inner c), pos := 0\<rparr>)"
  using assms by (simp add: cursor_split_at_current_def cursor_split_at_def cursor_split_at_checked_def cursor_inv_def)

lemma split_inv:
  assumes "cursor_inv c" and "cursor_split_at_checked c idx = Some (l, c')"
  shows "cursor_inv c'"
  using assms
  by (auto simp: cursor_split_at_checked_def cursor_inv_def split: if_splits)

section \<open>Properties\<close>

text \<open>a write that fits in the slice appends its bytes to what was written before and moves the
  position past them, or, when the total over all splits would exceed the limit, is refused and
  changes nothing. Nothing outside the written range changes.\<close>

theorem cursor_write_correct:
  assumes "cursor_inv c" and "pos c + length buf \<le> length (inner c)"
  shows "\<exists>r c'. cursor_write c buf = Done (r, c') \<and> cursor_inv c'
    \<and> (if total_pos c + length buf > limit c then r = None \<and> c' = c
       else r = Some (pos c, pos c + length buf) \<and> total_pos c' = total_pos c + length buf
         \<and> (\<exists>front. cursor_get c = Done front \<and> cursor_get c' = Done (front @ buf))
         \<and> drop (pos c') (inner c') = drop (pos c + length buf) (inner c)
         \<and> length (inner c') = length (inner c))"
proof -
  have "pos c \<le> length (inner c)" using assms by simp
  then show ?thesis
    using write_within [OF assms] write_inv [OF assms] assms(2)
    by (auto simp: cursor_get_def slice_def)
qed

theorem cursor_write_correct_witness:
  "\<exists>c'. cursor_write (new_with_limit [0, 0, 0, 0 :: u8] 3) [1, 2] = Done (Some (0, 2), c')
    \<and> cursor_get c' = Done [1, 2]"
proof -
  have "cursor_inv (new_with_limit [0, 0, 0, 0 :: u8] 3)"
    by (simp add: cursor_inv_def new_with_limit_def usize_max_def)
  moreover have "cursor_get (new_with_limit [0, 0, 0, 0 :: u8] 3) = Done []"
    by (simp add: cursor_get_def slice_def new_with_limit_def)
  ultimately show ?thesis
    using cursor_write_correct [of "new_with_limit [0, 0, 0, 0 :: u8] 3" "[1, 2]"]
    by (auto simp: new_with_limit_def)
qed

text \<open>splitting loses nothing and keeps the count: the two parts appended are the slice, and the
  total covers at least the part split off, so the limit holds over all splits.\<close>

theorem cursor_split_correct:
  assumes "cursor_inv c" and "cursor_split_at_checked c idx = Some (l, c')"
  shows "l @ inner c' = inner c \<and> length l = idx \<and> cursor_inv c'
    \<and> total_pos c' = max (total_pos c) (total_pos c + idx - pos c) \<and> pos c' = pos c - idx
    \<and> limit c' = limit c"
proof -
  have "idx \<le> length (inner c)"
    using assms(2) by (simp add: cursor_split_at_checked_def split: if_splits)
  with assms split_at_spec [OF assms(1) this] split_inv [OF assms] show ?thesis
    by (auto simp: Let_def split: if_splits)
qed

theorem cursor_split_correct_witness:
  "\<exists>l c'. cursor_split_at_checked (new_with_limit [7, 8, 9 :: u8] 3) 2 = Some (l, c') \<and> l @ inner c' = [7, 8, 9]
    \<and> total_pos c' = 2"
proof -
  let ?c = "new_with_limit [7, 8, 9 :: u8] 3"
  have inv: "cursor_inv ?c"
    by (simp add: cursor_inv_def new_with_limit_def usize_max_def)
  obtain l c' where s: "cursor_split_at_checked ?c 2 = Some (l, c')"
    using split_at_spec [OF inv, of 2] by (auto simp: new_with_limit_def)
  from cursor_split_correct [OF inv s] s show ?thesis
    by (auto simp: new_with_limit_def)
qed

text \<open>\<open>try_set_position\<close> does not look at the length of the slice, although it is documented to
  fail beyond it: here the position moves to 5 in a slice of 2 elements, and reading panics. The
  companion \<open>try_set_limit\<close> accepts a limit and does not store it.\<close>

theorem position_and_limit_unchecked:
  "\<exists>c'. try_set_position (cursor_new [0, 0 :: u8]) 5 = Done (Some 5, c') \<and> cursor_get c' = Panic
    \<and> try_set_limit (cursor_new [0, 0 :: u8]) 1 = (Some (), cursor_new [0, 0])
    \<and> limit (cursor_new [0, 0 :: u8]) \<noteq> 1"
  by (simp add: try_set_position_def cursor_new_def cursor_get_def slice_def try_set_limit_def usize_max_def)

end
