(* ===== verification/Packet.thy ===== *)
theory Packet
  imports Cursor Memory
begin

text \<open>
  Network packets, \<open>src/kernel/src/net/packet.rs\<close>: the parse helpers, the Internet checksum, the packet
  buffer, the cursor that keeps the packet's length up to date, and leases.
\<close>

section \<open>Parsing fields\<close>

datatype parse_error =
    TruncatedPacket
  | InvalidMacAddress
  | InvalidWord
  | InvalidDword
  | UnsupportedVersion
  | InvalidIpHeader
  | IpOptionsUnsupported
  | InvalidIpProtocol
  | FragmentationUnsupported
  | InvalidLength

text \<open>A MAC address is an array of 6 bytes.\<close>

type_synonym mac = "u8 list"

definition parse_mac :: "u8 list option \<Rightarrow> parse_error + mac" where
  "parse_mac bytes = rbind (ok_or bytes TruncatedPacket)
     (\<lambda>s. if length s = 6 then Inr s else Inl InvalidMacAddress)"

definition parse_u16 :: "u8 list option \<Rightarrow> parse_error + u16" where
  "parse_u16 b = rbind (ok_or b TruncatedPacket)
     (\<lambda>s. if length s = 2 then Inr (from_be s) else Inl InvalidWord)"

definition parse_u32 :: "u8 list option \<Rightarrow> parse_error + u32" where
  "parse_u32 b = rbind (ok_or b TruncatedPacket)
     (\<lambda>s. if length s = 4 then Inr (from_be s) else Inl InvalidDword)"

section \<open>The checksum\<close>

text \<open>The loop over the 2-byte chunks, then the last byte of an odd length.\<close>

fun checksum_loop :: "u32 \<Rightarrow> u8 list \<Rightarrow> u32" where
  "checksum_loop acc [] = acc"
| "checksum_loop acc [b] = acc + push_bit 8 (ucast b)"
| "checksum_loop acc (a # b # rest) = checksum_loop (acc + ucast (from_be [a, b] :: u16)) rest"

definition fold_carry :: "u32 \<Rightarrow> u32" where
  "fold_carry c = (c AND 0xFFFF) + drop_bit 16 c"

definition checksum :: "u8 list \<Rightarrow> u16" where
  "checksum bytes = ucast (fold_carry (fold_carry (checksum_loop 0 bytes)))"

section \<open>Packets\<close>

record packet =
  praw :: "u8 list"
  plen :: nat

definition MAX_PACKET_LEN :: nat where
  "MAX_PACKET_LEN = 1514"

definition packet_new :: packet where
  "packet_new = \<lparr>praw = replicate 4096 0, plen = 0\<rparr>"

definition packet_raw :: "packet \<Rightarrow> u8 list outcome" where
  "packet_raw p = unwrap (slice (praw p) 0 (plen p))"

definition set_len :: "packet \<Rightarrow> nat \<Rightarrow> packet" where
  "set_len p n = p\<lparr>plen := n\<rparr>"

definition packet_clear :: "packet \<Rightarrow> packet" where
  "packet_clear p = set_len p 0"

section \<open>The packet cursor\<close>

record packet_cursor =
  pc_inner :: "u8 cursor"
  packet_len :: nat

definition pc_new :: "packet \<Rightarrow> packet_cursor outcome" where
  "pc_new p =
     obind (set_position (new_with_limit (praw p) MAX_PACKET_LEN) (plen p)) (\<lambda>c.
       Done \<lparr>pc_inner = c, packet_len = plen p\<rparr>)"

definition update_len :: "packet_cursor \<Rightarrow> packet_cursor" where
  "update_len c = c\<lparr>packet_len := overall_position (pc_inner c)\<rparr>"

definition pc_split_at_current :: "packet_cursor \<Rightarrow> (u8 list \<times> packet_cursor) outcome" where
  "pc_split_at_current c =
     obind (cursor_split_at_current (pc_inner c)) (\<lambda>(left, right). Done (left, c\<lparr>pc_inner := right\<rparr>))"

definition pc_split_at_checked :: "packet_cursor \<Rightarrow> nat \<Rightarrow> (u8 list \<times> packet_cursor) option" where
  "pc_split_at_checked c idx =
     Option.bind (cursor_split_at_checked (pc_inner c) idx) (\<lambda>(left, right).
       Some (left, update_len (c\<lparr>pc_inner := right\<rparr>)))"

definition pc_split_at :: "packet_cursor \<Rightarrow> nat \<Rightarrow> (u8 list \<times> packet_cursor) outcome" where
  "pc_split_at c idx = unwrap (pc_split_at_checked c idx)"

definition pc_get :: "packet_cursor \<Rightarrow> u8 list outcome" where
  "pc_get c = cursor_get (pc_inner c)"

definition pc_get_mut :: "packet_cursor \<Rightarrow> (u8 list \<Rightarrow> u8 list) \<Rightarrow> packet_cursor outcome" where
  "pc_get_mut c f = obind (cursor_get_mut (pc_inner c) f) (\<lambda>i. Done (c\<lparr>pc_inner := i\<rparr>))"

definition pc_write :: "packet_cursor \<Rightarrow> u8 list \<Rightarrow> ((nat \<times> nat) option \<times> packet_cursor) outcome" where
  "pc_write c buf =
     obind (cursor_write (pc_inner c) buf) (\<lambda>(r, i).
       case r of
         None \<Rightarrow> Done (None, c\<lparr>pc_inner := i\<rparr>)
       | Some idx \<Rightarrow> Done (Some idx, update_len (c\<lparr>pc_inner := i\<rparr>)))"

definition write_u8 :: "packet_cursor \<Rightarrow> u8 \<Rightarrow> ((nat \<times> nat) option \<times> packet_cursor) outcome" where
  "write_u8 c v = pc_write c (be_bytes 1 v)"

definition write_u16 :: "packet_cursor \<Rightarrow> u16 \<Rightarrow> ((nat \<times> nat) option \<times> packet_cursor) outcome" where
  "write_u16 c v = pc_write c (be_bytes 2 v)"

definition write_u32 :: "packet_cursor \<Rightarrow> u32 \<Rightarrow> ((nat \<times> nat) option \<times> packet_cursor) outcome" where
  "write_u32 c v = pc_write c (be_bytes 4 v)"

definition pc_write_u64 :: "packet_cursor \<Rightarrow> u64 \<Rightarrow> ((nat \<times> nat) option \<times> packet_cursor) outcome" where
  "pc_write_u64 c v = pc_write c (be_bytes 8 v)"

text \<open>\<open>cursor.write(..)?\<close>: go on with the indices and the cursor, or return \<open>None\<close>.\<close>

definition try_write ::
  "((nat \<times> nat) option \<times> packet_cursor) outcome \<Rightarrow> (nat \<times> nat \<Rightarrow> packet_cursor \<Rightarrow> 'b option outcome) \<Rightarrow> 'b option outcome"
where
  "try_write m f = obind m (\<lambda>(r, c). case r of None \<Rightarrow> Done None | Some i \<Rightarrow> f i c)"

section \<open>Leases\<close>

text \<open>A lease holds the packet until it is taken. Dropping it gives the packet back to the driver;
  \<open>lease_drop\<close> returns the packets that are released.\<close>

type_synonym lease = "packet option"

definition lease_new :: "packet \<Rightarrow> lease" where
  "lease_new p = Some p"

definition lease_take :: "lease \<Rightarrow> packet outcome" where
  "lease_take l = unwrap l"

definition lease_drop :: "lease \<Rightarrow> packet list" where
  "lease_drop l = (case l of None \<Rightarrow> [] | Some p \<Rightarrow> [p])"

definition lease_deref :: "lease \<Rightarrow> packet outcome" where
  "lease_deref l = unwrap l"

lemma packet_raw_prefix: "praw p = xs @ r \<Longrightarrow> plen p = length xs \<Longrightarrow> packet_raw p = Done xs"
  by (simp add: packet_raw_def slice_def)

section \<open>Cursors over a known buffer\<close>

text \<open>The cursor after \<open>front\<close> has been written to the slice \<open>front @ rest\<close>, with \<open>base\<close> bytes split off
  before it.\<close>

definition pc_at :: "nat \<Rightarrow> u8 list \<Rightarrow> u8 list \<Rightarrow> nat \<Rightarrow> packet_cursor" where
  "pc_at base front rest n =
     \<lparr>pc_inner = \<lparr>inner = front @ rest, limit = MAX_PACKET_LEN, pos = length front,
                  total_pos = base + length front\<rparr>, packet_len = n\<rparr>"

definition fits_in :: "nat \<Rightarrow> u8 list \<Rightarrow> u8 list \<Rightarrow> nat \<Rightarrow> bool" where
  "fits_in base front rest n \<longleftrightarrow> n \<le> length rest \<and> base + length front + n \<le> MAX_PACKET_LEN
     \<and> length front + length rest \<le> 4096"

lemma pc_write_at:
  assumes "fits_in base front rest (length buf)"
  shows "pc_write (pc_at base front rest n) buf
    = Done (Some (length front, length front + length buf),
        pc_at base (front @ buf) (drop (length buf) rest) (base + length front + length buf))"
proof -
  let ?c = "pc_inner (pc_at base front rest n)"
  have inv: "cursor_inv ?c" and fit: "pos ?c + length buf \<le> length (inner ?c)"
    using assms by (auto simp: fits_in_def pc_at_def cursor_inv_def usize_max_def MAX_PACKET_LEN_def)
  show ?thesis
    unfolding pc_write_def write_within [OF inv fit]
    using assms by (simp add: pc_at_def fits_in_def update_len_def overall_position_def add.assoc)
qed

lemma pc_write_over:
  assumes "base + length front + length buf > MAX_PACKET_LEN" "base + length front \<le> MAX_PACKET_LEN"
    "length buf \<le> length rest" "length front + length rest \<le> 4096"
  shows "pc_write (pc_at base front rest n) buf = Done (None, pc_at base front rest n)"
proof -
  let ?c = "pc_inner (pc_at base front rest n)"
  have inv: "cursor_inv ?c" and fit: "pos ?c + length buf \<le> length (inner ?c)"
    using assms by (auto simp: pc_at_def cursor_inv_def usize_max_def MAX_PACKET_LEN_def)
  show ?thesis
    unfolding pc_write_def write_within [OF inv fit]
    using assms by (simp add: pc_at_def)
qed

lemma pc_split_at_current_at:
  assumes "base + length front \<le> MAX_PACKET_LEN" "length front + length rest \<le> 4096"
  shows "pc_split_at_current (pc_at base front rest n) = Done (front, pc_at (base + length front) [] rest n)"
proof -
  have "cursor_inv (pc_inner (pc_at base front rest n))"
    using assms by (auto simp: pc_at_def cursor_inv_def usize_max_def MAX_PACKET_LEN_def)
  then show ?thesis
    by (simp add: pc_split_at_current_def split_at_current_spec) (simp add: pc_at_def)
qed

lemma pc_get_at: "pc_get (pc_at base front rest n) = Done front"
  by (simp add: pc_get_def pc_at_def cursor_get_def slice_def)

lemma pc_new_empty: "plen p = 0 \<Longrightarrow> pc_new p = Done (pc_at 0 [] (praw p) 0)"
  by (simp add: pc_new_def new_with_limit_def set_position_def try_set_position_def pc_at_def)

end
