(* ===== verification/Net_Headers.thy ===== *)
theory Net_Headers
  imports Packet
begin

text \<open>
  Ethernet and IP: \<open>src/kernel/src/net/protocols/eth.rs\<close> and \<open>protocols/ip\<close>. Parsers return slices of
  the packet as lists. A builder owns the slices it has split off the packet's buffer; the slice that
  \<open>ipv4\<close> and \<open>ipv6\<close> drop, the Ethernet header, is kept with the IP builder so that the packet can be put
  together again.

  An \<open>Ipv4Addr\<close> is its 32 bits, an \<open>Ipv6Addr\<close> its 16 octets.
\<close>

section \<open>Ethernet\<close>

record eth_parsed =
  dst_mac :: mac
  src_mac :: mac
  eth_type :: u16
  eth_payload :: "u8 list"

definition parse_eth :: "packet \<Rightarrow> (parse_error + eth_parsed) outcome" where
  "parse_eth p =
     obind (packet_raw p) (\<lambda>raw. Done (
       rbind (parse_mac (slice raw 0x0 0x6)) (\<lambda>dst.
       rbind (parse_mac (slice raw 0x6 0xC)) (\<lambda>src.
       rbind (parse_u16 (slice raw 0xC 0xE)) (\<lambda>ty.
       rbind (ok_or (slice raw 0xE (length raw)) TruncatedPacket) (\<lambda>payload.
         Inr \<lparr>dst_mac = dst, src_mac = src, eth_type = ty, eth_payload = payload\<rparr>))))))"

definition eth_builder_new :: "packet_cursor \<Rightarrow> mac \<Rightarrow> mac \<Rightarrow> packet_cursor option outcome" where
  "eth_builder_new c src dst =
     try_write (pc_write c dst) (\<lambda>_ c.
     try_write (pc_write c src) (\<lambda>_ c. Done (Some c)))"

section \<open>IPv4\<close>

definition ETH_TYPE_IPV4 :: u16 where "ETH_TYPE_IPV4 = 0x0800"

record parsed_v4 =
  v4_eth :: eth_parsed
  v4_src_ip :: u32
  v4_dst_ip :: u32
  v4_protocol :: u8
  v4_payload :: "u8 list"

definition parse_ipv4 :: "packet \<Rightarrow> (parse_error + parsed_v4) outcome" where
  "parse_ipv4 p =
     orbind (parse_eth p) (\<lambda>eth.
       if eth_type eth \<noteq> ETH_TYPE_IPV4 then Done (Inl UnsupportedVersion)
       else orbind (Done (ok_or (slice (eth_payload eth) 0 20) InvalidIpHeader)) (\<lambda>header.
         if drop_bit 4 (header ! 0) \<noteq> 4 then Done (Inl UnsupportedVersion)
         else if header ! 0 AND 0xF \<noteq> 5 then Done (Inl IpOptionsUnsupported)
         else orbind (Done (parse_u16 (slice header 2 4))) (\<lambda>total.
           let total_length = unat total; flags = drop_bit 5 (header ! 6) AND 0x7 in
           if flags AND 0b101 \<noteq> 0 then Done (Inl FragmentationUnsupported)
           else orbind (Done (parse_u16 (slice header 6 8))) (\<lambda>frag_offset.
             if frag_offset AND 0x1FFF \<noteq> 0 then Done (Inl FragmentationUnsupported)
             else
               let protocol = header ! 9 in
               orbind (Done (parse_u32 (slice header 12 16))) (\<lambda>src_ip.
               orbind (Done (parse_u32 (slice header 16 20))) (\<lambda>dst_ip.
                 if total_length < length header \<or> total_length > length (eth_payload eth)
                 then Done (Inl InvalidLength)
                 else obind (unwrap (slice (eth_payload eth) 20 total_length)) (\<lambda>payload.
                   Done (Inr \<lparr>v4_eth = eth, v4_src_ip = src_ip, v4_dst_ip = dst_ip,
                              v4_protocol = protocol, v4_payload = payload\<rparr>))))))))"

datatype transport_protocol = Icmp | Tcp | Udp

fun protocol_number :: "transport_protocol \<Rightarrow> u8" where
  "protocol_number Icmp = 0x01"
| "protocol_number Tcp = 0x06"
| "protocol_number Udp = 0x11"

record builder_v4 =
  b4_eth :: "u8 list"
  b4_hdr :: "u8 list"
  b4_src :: u32
  b4_dst :: u32
  b4_len :: nat
  b4_prot :: nat
  b4_crc :: nat
  b4_cursor :: "packet_cursor option"

definition builder_v4_new :: "u8 list \<Rightarrow> packet_cursor \<Rightarrow> u32 \<Rightarrow> u32 \<Rightarrow> builder_v4 option outcome" where
  "builder_v4_new eth c src dst =
     try_write (write_u8 c (push_bit 4 4 OR 5)) (\<lambda>_ c.
     try_write (write_u8 c 0) (\<lambda>_ c.
     try_write (write_u16 c 0) (\<lambda>(len, _) c.
     try_write (write_u32 c 0) (\<lambda>_ c.
     try_write (write_u8 c 64) (\<lambda>_ c.
     try_write (write_u8 c 0) (\<lambda>(prot, _) c.
     try_write (write_u16 c 0) (\<lambda>(crc, _) c.
     try_write (write_u32 c src) (\<lambda>_ c.
     try_write (write_u32 c dst) (\<lambda>_ c.
     obind (pc_split_at_current c) (\<lambda>(hdr, c).
       Done (Some \<lparr>b4_eth = eth, b4_hdr = hdr, b4_src = src, b4_dst = dst, b4_len = len, b4_prot = prot,
                   b4_crc = crc, b4_cursor = Some c\<rparr>)))))))))))"

definition eth_ipv4 :: "packet_cursor \<Rightarrow> u32 \<Rightarrow> u32 \<Rightarrow> builder_v4 option outcome" where
  "eth_ipv4 c src dst =
     obind (write_u16 c ETH_TYPE_IPV4) (\<lambda>(_, c).
     obind (pc_split_at_current c) (\<lambda>(eth, c). builder_v4_new eth c src dst))"

definition v4_write_len :: "builder_v4 \<Rightarrow> u16 \<Rightarrow> builder_v4 outcome" where
  "v4_write_len b len =
     obind (unwrap (checked_add (of_nat (length (b4_hdr b))) len)) (\<lambda>sz.
     obind (copy_from_slice (b4_hdr b) (b4_len b) (b4_len b + 2) (be_bytes 2 sz)) (\<lambda>hdr.
       Done (b\<lparr>b4_hdr := hdr\<rparr>)))"

text \<open>The checksum is written with \<open>to_ne_bytes\<close>, little-endian on \<open>x86_64\<close>.\<close>

definition v4_write_crc :: "builder_v4 \<Rightarrow> builder_v4 outcome" where
  "v4_write_crc b =
     obind (copy_from_slice (b4_hdr b) (b4_crc b) (b4_crc b + 2) (le_bytes 2 (NOT (checksum (b4_hdr b))))) (\<lambda>hdr.
       Done (b\<lparr>b4_hdr := hdr\<rparr>))"

definition v4_set_protocol :: "builder_v4 \<Rightarrow> transport_protocol \<Rightarrow> builder_v4 outcome" where
  "v4_set_protocol b prot =
     obind (array_set (b4_hdr b) (b4_prot b) (protocol_number prot)) (\<lambda>hdr. Done (b\<lparr>b4_hdr := hdr\<rparr>))"

definition v4_take_cursor :: "builder_v4 \<Rightarrow> packet_cursor option \<times> builder_v4" where
  "v4_take_cursor b = (b4_cursor b, b\<lparr>b4_cursor := None\<rparr>)"

definition v4_finalize :: "builder_v4 \<Rightarrow> u16 \<Rightarrow> builder_v4 outcome" where
  "v4_finalize b payload_len = obind (v4_write_len b payload_len) v4_write_crc"

section \<open>IPv6\<close>

definition ETH_TYPE_IPV6 :: u16 where "ETH_TYPE_IPV6 = 0x86DD"

record parsed_v6 =
  v6_eth :: eth_parsed
  v6_src_ip :: "u8 list"
  v6_dst_ip :: "u8 list"
  v6_next_header :: u8
  v6_payload :: "u8 list"

definition parse_ipv6 :: "packet \<Rightarrow> (parse_error + parsed_v6) outcome" where
  "parse_ipv6 p =
     orbind (parse_eth p) (\<lambda>eth.
       if eth_type eth \<noteq> ETH_TYPE_IPV6 then Done (Inl UnsupportedVersion)
       else orbind (Done (ok_or (slice (eth_payload eth) 0 40) InvalidIpHeader)) (\<lambda>header.
         if drop_bit 4 (header ! 0) \<noteq> 6 then Done (Inl UnsupportedVersion)
         else orbind (Done (parse_u16 (slice header 4 6))) (\<lambda>len.
           let payload_len = unat len; next_header = header ! 6 in
           obind (unwrap (slice header 8 24)) (\<lambda>src_ip.
           obind (unwrap (slice header 24 40)) (\<lambda>dst_ip.
             if payload_len + length header > length (eth_payload eth) then Done (Inl InvalidLength)
             else obind (unwrap (slice (eth_payload eth) 40 (40 + payload_len))) (\<lambda>payload.
               Done (Inr \<lparr>v6_eth = eth, v6_src_ip = src_ip, v6_dst_ip = dst_ip,
                          v6_next_header = next_header, v6_payload = payload\<rparr>)))))))"

record builder_v6 =
  b6_eth :: "u8 list"
  b6_hdr :: "u8 list"
  b6_src :: "u8 list"
  b6_dst :: "u8 list"
  b6_len :: nat
  b6_prot :: nat
  b6_cursor :: "packet_cursor option"

definition builder_v6_new :: "u8 list \<Rightarrow> packet_cursor \<Rightarrow> u8 list \<Rightarrow> u8 list \<Rightarrow> builder_v6 option outcome" where
  "builder_v6_new eth c src dst =
     try_write (write_u8 c (push_bit 4 6)) (\<lambda>_ c.
     try_write (write_u8 c 0) (\<lambda>_ c.
     try_write (write_u16 c 0) (\<lambda>_ c.
     try_write (write_u16 c 0) (\<lambda>(len, _) c.
     try_write (write_u8 c 0) (\<lambda>(prot, _) c.
     try_write (write_u8 c 64) (\<lambda>_ c.
     try_write (pc_write c src) (\<lambda>_ c.
     try_write (pc_write c dst) (\<lambda>_ c.
     obind (pc_split_at_current c) (\<lambda>(hdr, c).
       Done (Some \<lparr>b6_eth = eth, b6_hdr = hdr, b6_src = src, b6_dst = dst, b6_len = len, b6_prot = prot,
                   b6_cursor = Some c\<rparr>))))))))))"

definition eth_ipv6 :: "packet_cursor \<Rightarrow> u8 list \<Rightarrow> u8 list \<Rightarrow> builder_v6 option outcome" where
  "eth_ipv6 c src dst =
     obind (write_u16 c ETH_TYPE_IPV6) (\<lambda>(_, c).
     obind (pc_split_at_current c) (\<lambda>(eth, c). builder_v6_new eth c src dst))"

definition v6_write_len :: "builder_v6 \<Rightarrow> u16 \<Rightarrow> builder_v6 outcome" where
  "v6_write_len b len =
     obind (copy_from_slice (b6_hdr b) (b6_len b) (b6_len b + 2) (be_bytes 2 len)) (\<lambda>hdr.
       Done (b\<lparr>b6_hdr := hdr\<rparr>))"

definition v6_set_protocol :: "builder_v6 \<Rightarrow> transport_protocol \<Rightarrow> builder_v6 outcome" where
  "v6_set_protocol b prot =
     obind (array_set (b6_hdr b) (b6_prot b) (protocol_number prot)) (\<lambda>hdr. Done (b\<lparr>b6_hdr := hdr\<rparr>))"

definition v6_take_cursor :: "builder_v6 \<Rightarrow> packet_cursor option \<times> builder_v6" where
  "v6_take_cursor b = (b6_cursor b, b\<lparr>b6_cursor := None\<rparr>)"

definition v6_finalize :: "builder_v6 \<Rightarrow> u16 \<Rightarrow> builder_v6 outcome" where
  "v6_finalize b payload_len = v6_write_len b payload_len"

section \<open>Either version\<close>

datatype ip_addr = IpV4 u32 | IpV6 "u8 list"

datatype ip_parsed = PV4 parsed_v4 | PV6 parsed_v6

fun ip_eth :: "ip_parsed \<Rightarrow> eth_parsed" where
  "ip_eth (PV4 p) = v4_eth p"
| "ip_eth (PV6 p) = v6_eth p"

fun ip_src_ip :: "ip_parsed \<Rightarrow> ip_addr" where
  "ip_src_ip (PV4 p) = IpV4 (v4_src_ip p)"
| "ip_src_ip (PV6 p) = IpV6 (v6_src_ip p)"

fun ip_dst_ip :: "ip_parsed \<Rightarrow> ip_addr" where
  "ip_dst_ip (PV4 p) = IpV4 (v4_dst_ip p)"
| "ip_dst_ip (PV6 p) = IpV6 (v6_dst_ip p)"

fun ip_protocol :: "ip_parsed \<Rightarrow> u8" where
  "ip_protocol (PV4 p) = v4_protocol p"
| "ip_protocol (PV6 p) = v6_next_header p"

fun ip_payload :: "ip_parsed \<Rightarrow> u8 list" where
  "ip_payload (PV4 p) = v4_payload p"
| "ip_payload (PV6 p) = v6_payload p"

datatype ip_builder = BV4 builder_v4 | BV6 builder_v6

fun ip_set_protocol :: "ip_builder \<Rightarrow> transport_protocol \<Rightarrow> ip_builder outcome" where
  "ip_set_protocol (BV4 b) prot = obind (v4_set_protocol b prot) (\<lambda>b. Done (BV4 b))"
| "ip_set_protocol (BV6 b) prot = obind (v6_set_protocol b prot) (\<lambda>b. Done (BV6 b))"

fun ip_take_cursor :: "ip_builder \<Rightarrow> packet_cursor option \<times> ip_builder" where
  "ip_take_cursor (BV4 b) = (let (c, b) = v4_take_cursor b in (c, BV4 b))"
| "ip_take_cursor (BV6 b) = (let (c, b) = v6_take_cursor b in (c, BV6 b))"

fun ip_finalize :: "ip_builder \<Rightarrow> u16 \<Rightarrow> ip_builder outcome" where
  "ip_finalize (BV4 b) n = obind (v4_finalize b n) (\<lambda>b. Done (BV4 b))"
| "ip_finalize (BV6 b) n = obind (v6_finalize b n) (\<lambda>b. Done (BV6 b))"

fun eth_ip :: "packet_cursor \<Rightarrow> ip_addr \<Rightarrow> ip_addr \<Rightarrow> ip_builder option outcome" where
  "eth_ip c (IpV4 src) (IpV4 dst) = oobind (eth_ipv4 c src dst) (\<lambda>b. Done (Some (BV4 b)))"
| "eth_ip c (IpV6 src) (IpV6 dst) = oobind (eth_ipv6 c src dst) (\<lambda>b. Done (Some (BV6 b)))"
| "eth_ip c _ _ = Done None"

end
