(* ===== verification/Checksum.thy ===== *)
theory Checksum
  imports Packet
begin

text \<open>
  The Internet checksum of \<open>Packet::checksum\<close> is the ones' complement sum of the 16-bit words of the
  input, the last byte of an odd length padded with zero.
\<close>

section \<open>The reference sum\<close>

fun sum_words :: "u8 list \<Rightarrow> nat" where
  "sum_words [] = 0"
| "sum_words [b] = unat b * 256"
| "sum_words (a # b # rest) = unat a * 256 + unat b + sum_words rest"

text \<open>Ones' complement reduction to 16 bits: sums are taken modulo 65535, and only 0 reduces to 0.\<close>

definition ones_sum :: "nat \<Rightarrow> nat" where
  "ones_sum n = (if n = 0 then 0 else (n - 1) mod 65535 + 1)"

lemma ones_sum_unique:
  assumes "v \<le> 65535" "v mod 65535 = n mod 65535" "v = 0 \<longleftrightarrow> n = 0"
  shows "v = ones_sum n"
proof (cases "n = 0")
  case False
  then obtain v' n' where s: "v = Suc v'" "n = Suc n'" using assms(3) by (metis not0_implies_Suc)
  have "(v + 65534) mod 65535 = (n + 65534) mod 65535"
    using assms(2) by (rule mod_add_cong) simp
  moreover have "v + 65534 = v' + 65535" "n + 65534 = n' + 65535" using s by simp_all
  ultimately have "v' mod 65535 = n' mod 65535" by (simp only: mod_add_self2)
  then show ?thesis using s assms(1) by (simp add: ones_sum_def)
qed (use assms in \<open>simp add: ones_sum_def\<close>)

lemma ones_sum_mod: "ones_sum n mod 65535 = n mod 65535"
  by (cases n) (simp_all add: ones_sum_def mod_Suc_eq)

lemma ones_sum_le: "ones_sum n \<le> 65535" "ones_sum n = 0 \<longleftrightarrow> n = 0"
proof -
  have "(n - 1) mod 65535 < 65535" by simp
  moreover have "ones_sum n \<le> (n - 1) mod 65535 + 1" by (simp add: ones_sum_def)
  ultimately show "ones_sum n \<le> 65535" by linarith
qed (simp add: ones_sum_def)

section \<open>The loop\<close>

lemma unat_from_be2: "unat (from_be [a, b] :: u16) = unat a * 256 + unat b"
proof -
  have "(from_be [a, b] :: u16) = ucast b OR push_bit 8 (ucast a)"
    by (simp add: from_be_def)
  also have "\<dots> = ucast b + push_bit 8 (ucast a)"
    by (rule disjunctive_add [symmetric]) (auto simp: bit_ucast_iff bit_push_bit_iff dest: bit_imp_le_length)
  finally have eq: "(from_be [a, b] :: u16) = ucast b + push_bit 8 (ucast a)" .
  have b: "unat (ucast b :: u16) = unat b" and a: "unat (ucast a :: u16) = unat a"
    by (simp_all add: unsigned_ucast_eq take_bit_nat_eq_self less_trans [OF unsigned_less])
  have lt: "unat a < 256" "unat b < 256"
    using unat_u8_less by simp_all
  then have "unat (push_bit 8 (ucast a) :: u16) = unat a * 256"
    using a unat_mult_lem [THEN iffD1, of "ucast a :: u16" 256] by (simp add: push_bit_eq_mult)
  then show ?thesis
    unfolding eq using lt b by (subst unat_add_no_overflow) simp_all
qed

lemma sum_words_le: "sum_words bs \<le> 65535 * ((length bs + 1) div 2)"
proof (induction bs rule: sum_words.induct)
  case (2 b)
  then show ?case using unat_u8_less [of b] by simp
next
  case (3 a b rest)
  then show ?case using unat_u8_less [of a] unat_u8_less [of b] by simp
qed simp

lemma unat_checksum_loop:
  "unat acc + sum_words bs < 2 ^ 32 \<Longrightarrow> unat (checksum_loop acc bs) = unat acc + sum_words bs"
proof (induction acc bs rule: checksum_loop.induct)
  case (2 acc b)
  have b: "unat b < 256" by (rule unat_u8_less)
  have "unat (ucast b :: u32) = unat b"
    by (simp add: unsigned_ucast_eq take_bit_nat_eq_self less_trans [OF unsigned_less])
  then have "unat (push_bit 8 (ucast b) :: u32) = unat b * 256"
    using b unat_mult_lem [THEN iffD1, of "ucast b :: u32" 256] by (simp add: push_bit_eq_mult)
  then show ?case using 2 by (simp add: unat_add_no_overflow)
next
  case (3 acc a b rest)
  let ?w = "from_be [a, b] :: u16"
  have "unat (ucast ?w :: u32) = unat a * 256 + unat b"
    using unat_u16_less [of ?w] by (simp add: unsigned_ucast_eq take_bit_nat_eq_self flip: unat_from_be2)
  then have "unat (acc + ucast ?w) = unat acc + (unat a * 256 + unat b)"
    using 3 by (subst unat_add_no_overflow) simp_all
  with 3 show ?case by simp
qed simp

section \<open>Folding the carries\<close>

lemma unat_fold_carry: "unat (fold_carry c) = unat c mod 65536 + unat c div 65536"
proof -
  have m: "unat (c AND 0xFFFF) = unat c mod 65536"
    using unat_and_pow2 [of c 16] by simp
  have d: "unat (drop_bit 16 c) = unat c div 65536"
    unfolding unat_drop_bit_eq by (simp add: drop_bit_eq_div)
  have "unat c < 2 ^ 32" using unsigned_less [of c] by simp
  then have "unat c div 65536 < 65536" by simp
  moreover have "unat c mod 65536 < 65536" by simp
  ultimately show ?thesis
    unfolding fold_carry_def using m d by (subst unat_add_no_overflow) simp_all
qed

lemma fold_carry_mod: "unat (fold_carry c) mod 65535 = unat c mod 65535" "fold_carry c = 0 \<longleftrightarrow> c = 0"
proof -
  have "unat c = unat c div 65536 * 65535 + (unat c mod 65536 + unat c div 65536)"
    using div_mult_mod_eq [of "unat c" 65536] by linarith
  then show "unat (fold_carry c) mod 65535 = unat c mod 65535"
    unfolding unat_fold_carry by (metis mod_mult_self3)
  have "unat (fold_carry c) = 0 \<longleftrightarrow> unat c = 0"
    unfolding unat_fold_carry by (metis add_is_0 div_mult_mod_eq mod_0 div_0 mult_0)
  then show "fold_carry c = 0 \<longleftrightarrow> c = 0" by (simp add: unat_eq_0)
qed

lemma unat_fold_twice: "unat (fold_carry (fold_carry c)) = ones_sum (unat c)"
proof (rule ones_sum_unique)
  have "unat c < 2 ^ 32" using unsigned_less [of c] by simp
  then have "unat c div 65536 \<le> 65535" by simp
  moreover have "unat c mod 65536 \<le> 65535" using mod_less_divisor [of 65536 "unat c"] by linarith
  ultimately have "unat (fold_carry c) \<le> 131070" unfolding unat_fold_carry by linarith
  moreover have "x mod 65536 + x div 65536 \<le> 65535" if "x \<le> 131070" for x :: nat
  proof (cases "x < 65536")
    case False
    then have "x div 65536 = 1" "x mod 65536 = x - 65536" using that by (simp_all add: div_if mod_if)
    then show ?thesis using that by simp
  qed simp
  ultimately show "unat (fold_carry (fold_carry c)) \<le> 65535"
    unfolding unat_fold_carry [of "fold_carry c"] by blast
qed (simp_all add: fold_carry_mod unat_eq_0)

lemma unat_checksum:
  assumes "length bs \<le> 131072"
  shows "unat (checksum bs) = ones_sum (sum_words bs)"
proof -
  have "(length bs + 1) div 2 \<le> 65536" using assms by simp
  then have "sum_words bs \<le> 65535 * 65536"
    using sum_words_le [of bs] by (meson le_trans mult_le_mono2)
  then have s: "unat (checksum_loop 0 bs) = sum_words bs"
    using unat_checksum_loop [of 0 bs] by simp
  have "unat (fold_carry (fold_carry (checksum_loop 0 bs))) < 2 ^ 16"
    using ones_sum_le [of "sum_words bs"] unfolding unat_fold_twice s by simp
  then show ?thesis
    unfolding checksum_def by (simp add: unsigned_ucast_eq take_bit_nat_eq_self unat_fold_twice s)
qed

section \<open>Properties\<close>

text \<open>C15: for every input of up to 128 KiB, \<open>Packet::checksum\<close> is the ones' complement sum of its
  16-bit big-endian words: no carry is lost in the 32-bit accumulator, and two folds are enough.\<close>

theorem checksum_ones_complement:
  assumes "length bs \<le> 131072"
  shows "unat (checksum bs) = (if sum_words bs = 0 then 0 else (sum_words bs - 1) mod 65535 + 1)"
  using unat_checksum [OF assms] by (simp add: ones_sum_def)

theorem checksum_ones_complement_witness:
  "unat (checksum [0xFF, 0xFF, 0x00, 0x01, 0x02]) = (sum_words [0xFF, 0xFF, 0x00, 0x01, 0x02] - 1) mod 65535 + 1"
  using checksum_ones_complement [of "[0xFF, 0xFF, 0x00, 0x01, 0x02]"] by simp

end
