(* ===== verification/Udp.thy ===== *)
theory Udp
  imports Net_Headers Checksum
begin

text \<open>
  UDP packets, the parser and the builder of \<open>src/kernel/src/net/protocols/udp.rs\<close>, and the address
  structure of \<open>src/kernel/src/net/net.rs\<close>. The binds and queues of the same file are in
  \<open>Net_Device\<close>.
\<close>

definition IP_PROT_UDP :: u8 where "IP_PROT_UDP = 0x11"

type_synonym port = u16

record net_address =
  na_src_mac :: mac
  na_src_ip :: ip_addr
  na_src_port :: port
  na_dst_mac :: mac
  na_dst_ip :: ip_addr
  na_dst_port :: port

section \<open>Parsing\<close>

record udp_parsed =
  udp_ip :: ip_parsed
  src_port :: port
  dst_port :: port
  udp_payload :: "u8 list"

definition parse_ip :: "packet \<Rightarrow> (parse_error + ip_parsed) outcome" where
  "parse_ip p =
     obind (parse_ipv4 p) (\<lambda>r.
       case r of
         Inr v4 \<Rightarrow> Done (Inr (PV4 v4))
       | Inl _ \<Rightarrow> orbind (parse_ipv6 p) (\<lambda>v6. Done (Inr (PV6 v6))))"

definition parse_udp :: "packet \<Rightarrow> (parse_error + udp_parsed) outcome" where
  "parse_udp p =
     orbind (parse_ip p) (\<lambda>ip.
       if ip_protocol ip \<noteq> IP_PROT_UDP then Done (Inl InvalidIpProtocol)
       else
         orbind (Done (ok_or (slice (ip_payload ip) 0 8) TruncatedPacket)) (\<lambda>header.
         orbind (Done (parse_u16 (slice header 0 2))) (\<lambda>src.
         orbind (Done (parse_u16 (slice header 2 4))) (\<lambda>dst.
         orbind (Done (parse_u16 (slice header 4 6))) (\<lambda>len.
           let length' = unat len in
           if length' < length header \<or> length' > length (ip_payload ip) then Done (Inl InvalidLength)
           else obind (unwrap (slice (ip_payload ip) 8 length')) (\<lambda>payload.
             Done (Inr \<lparr>udp_ip = ip, src_port = src, dst_port = dst, udp_payload = payload\<rparr>)))))))"

section \<open>Building\<close>

record udp_builder =
  ub_ip :: ip_builder
  ub_hdr :: "u8 list"
  ub_payload :: packet_cursor
  ub_len :: nat
  ub_crc :: nat

definition udp_builder_new :: "ip_builder \<Rightarrow> packet_cursor \<Rightarrow> port \<Rightarrow> port \<Rightarrow> udp_builder option outcome" where
  "udp_builder_new ip c src dst =
     obind (ip_set_protocol ip Udp) (\<lambda>ip.
     try_write (write_u16 c src) (\<lambda>_ c.
     try_write (write_u16 c dst) (\<lambda>_ c.
     try_write (write_u16 c 0) (\<lambda>(len, _) c.
     try_write (write_u16 c 0) (\<lambda>(crc, _) c.
     obind (pc_split_at_current c) (\<lambda>(hdr, payload).
       Done (Some \<lparr>ub_ip = ip, ub_hdr = hdr, ub_payload = payload, ub_len = len, ub_crc = crc\<rparr>)))))))"

definition ip_udp :: "ip_builder \<Rightarrow> port \<Rightarrow> port \<Rightarrow> udp_builder option outcome" where
  "ip_udp ip src dst =
     obind (ip_set_protocol ip Udp) (\<lambda>ip.
     let (c, ip) = ip_take_cursor ip in
     obind (unwrap c) (\<lambda>c. udp_builder_new ip c src dst))"

definition udp_from_packet :: "packet_cursor \<Rightarrow> net_address \<Rightarrow> udp_builder option outcome" where
  "udp_from_packet c addr =
     oobind (eth_builder_new c (na_src_mac addr) (na_dst_mac addr)) (\<lambda>c.
     oobind (eth_ip c (na_src_ip addr) (na_dst_ip addr)) (\<lambda>ip.
       ip_udp ip (na_src_port addr) (na_dst_port addr)))"

definition create_udp :: "packet \<Rightarrow> net_address \<Rightarrow> udp_builder outcome" where
  "create_udp p addr =
     obind (pc_new p) (\<lambda>c. obind (udp_from_packet c addr) unwrap)"

definition udp_write :: "udp_builder \<Rightarrow> u8 list \<Rightarrow> ((nat \<times> nat) option \<times> udp_builder) outcome" where
  "udp_write b buf = obind (pc_write (ub_payload b) buf) (\<lambda>(r, c). Done (r, b\<lparr>ub_payload := c\<rparr>))"

definition udp_write_len :: "udp_builder \<Rightarrow> (u16 \<times> udp_builder) outcome" where
  "udp_write_len b =
     obind (pc_get (ub_payload b)) (\<lambda>payload.
     let sz = of_nat (length (ub_hdr b) + length payload) :: u16 in
     obind (copy_from_slice (ub_hdr b) (ub_len b) (ub_len b + 2) (be_bytes 2 sz)) (\<lambda>hdr.
       Done (sz, b\<lparr>ub_hdr := hdr\<rparr>)))"

text \<open>The checksum over the IPv6 pseudo-header, the header and the payload.\<close>

definition pseudo_header :: "builder_v6 \<Rightarrow> u32 \<Rightarrow> u8 list outcome" where
  "pseudo_header ip udp_len =
     obind (copy_from_slice (replicate 40 0) 0 16 (b6_src ip)) (\<lambda>h.
     obind (copy_from_slice h 16 32 (b6_dst ip)) (\<lambda>h.
     obind (copy_from_slice h 32 36 (be_bytes 4 udp_len)) (\<lambda>h.
       array_set h 39 IP_PROT_UDP)))"

definition udp_write_crc :: "udp_builder \<Rightarrow> udp_builder outcome" where
  "udp_write_crc b =
     (case ub_ip b of
        BV4 _ \<Rightarrow> Done b
      | BV6 ip \<Rightarrow>
          obind (pc_get (ub_payload b)) (\<lambda>payload.
          let udp_len = of_nat (length (ub_hdr b) + length payload) :: u32 in
          obind (pseudo_header ip udp_len) (\<lambda>ph.
          let acc = ucast (checksum ph) + ucast (checksum (ub_hdr b)) + ucast (checksum payload) :: u32;
              final_sum = fold_carry (fold_carry acc);
              c = NOT (ucast final_sum) :: u16;
              c = if c = 0 then 0xFFFF else c in
          obind (copy_from_slice (ub_hdr b) (ub_crc b) (ub_crc b + 2) (be_bytes 2 c)) (\<lambda>hdr.
            Done (b\<lparr>ub_hdr := hdr\<rparr>)))))"

definition udp_finalize :: "udp_builder \<Rightarrow> udp_builder outcome" where
  "udp_finalize b =
     obind (udp_write_len b) (\<lambda>(udp_len, b).
     obind (ip_finalize (ub_ip b) udp_len) (\<lambda>ip. udp_write_crc (b\<lparr>ub_ip := ip\<rparr>)))"

text \<open>The packet the builder borrowed: the slices it was split into, in order, and the length its cursor
  kept up to date. Dropping the builder finalizes it.\<close>

fun ip_slices :: "ip_builder \<Rightarrow> u8 list" where
  "ip_slices (BV4 b) = b4_eth b @ b4_hdr b"
| "ip_slices (BV6 b) = b6_eth b @ b6_hdr b"

definition builder_packet :: "udp_builder \<Rightarrow> packet" where
  "builder_packet b =
     \<lparr>praw = ip_slices (ub_ip b) @ ub_hdr b @ inner (pc_inner (ub_payload b)),
      plen = packet_len (ub_payload b)\<rparr>"

definition udp_drop :: "udp_builder \<Rightarrow> packet outcome" where
  "udp_drop b = obind (udp_finalize b) (\<lambda>b. Done (builder_packet b))"

text \<open>Building a packet with one write of the payload.\<close>

definition send_udp :: "packet \<Rightarrow> net_address \<Rightarrow> u8 list \<Rightarrow> packet outcome" where
  "send_udp p addr data =
     obind (create_udp p addr) (\<lambda>b.
     obind (udp_write b data) (\<lambda>(r, b). udp_drop b))"

end
