(* ===== verification/Udp_Props.thy ===== *)
theory Udp_Props
  imports Udp
begin

text \<open>
  What a UDP packet built by the builders looks like, byte by byte, and that the parsers read back what
  was put in, over IPv4 and IPv6, with the checksum the protocol asks for.
\<close>

section \<open>Building\<close>

lemma try_write_at:
  assumes "fits_in base front rest (length buf)"
  shows "try_write (pc_write (pc_at base front rest n) buf) k
    = k (length front, length front + length buf)
        (pc_at base (front @ buf) (drop (length buf) rest) (base + length front + length buf))"
  by (simp add: try_write_def pc_write_at [OF assms])

lemma pc_at_simps [simp]: "inner (pc_inner (pc_at base front rest n)) = front @ rest"
  "packet_len (pc_at base front rest n) = n"
  by (simp_all add: pc_at_def)

lemma be_bytes_1 [simp]: "be_bytes (Suc 0) (v :: u8) = [v]"
  by (simp add: be_bytes_def le_bytes_def)

lemma be_bytes_zero [simp]: "be_bytes 2 (0 :: 'a::len word) = [0, 0]" "be_bytes 4 (0 :: 'a::len word) = [0, 0, 0, 0]"
  by (simp_all add: be_bytes_def le_bytes_def map_replicate_const numeral_eq_Suc)

lemma eth_builder_at:
  assumes "length src = 6" "length dst = 6" "length rest = 4096"
  shows "eth_builder_new (pc_at 0 [] rest n) src dst = Done (Some (pc_at 0 (dst @ src) (drop 12 rest) 12))"
  using assms by (simp add: eth_builder_new_def try_write_at fits_in_def MAX_PACKET_LEN_def)

definition hdr_v4 :: "u16 \<Rightarrow> u8 \<Rightarrow> u8 list \<Rightarrow> u32 \<Rightarrow> u32 \<Rightarrow> u8 list" where
  "hdr_v4 len prot crc src dst = [0x45, 0] @ be_bytes 2 len @ [0, 0, 0, 0, 64, prot] @ crc @ be_bytes 4 src @ be_bytes 4 dst"

lemma eth_ipv4_at:
  assumes "length front = 12" "length rest = 4084"
  shows "eth_ipv4 (pc_at 0 front rest n) src dst = Done (Some
    \<lparr>b4_eth = front @ [0x08, 0x00], b4_hdr = hdr_v4 0 0 [0, 0] src dst, b4_src = src, b4_dst = dst,
     b4_len = 2, b4_prot = 9, b4_crc = 10, b4_cursor = Some (pc_at 34 [] (drop 22 rest) 34)\<rparr>)"
proof -
  have "be_bytes 2 ETH_TYPE_IPV4 = [0x08, 0x00]" by code_simp
  moreover have "length (be_bytes 2 ETH_TYPE_IPV4) = 2" by simp
  ultimately have w: "write_u16 (pc_at 0 front rest n) ETH_TYPE_IPV4 = Done (Some (12, 14), pc_at 0 (front @ [0x08, 0x00]) (drop 2 rest) 14)"
    using assms pc_write_at [of 0 front rest "be_bytes 2 ETH_TYPE_IPV4" n]
    by (simp add: write_u16_def fits_in_def MAX_PACKET_LEN_def numeral_2_eq_2)
  have b: "builder_v4_new eth (pc_at 14 [] (drop 2 rest) 14) src dst = Done (Some
    \<lparr>b4_eth = eth, b4_hdr = hdr_v4 0 0 [0, 0] src dst, b4_src = src, b4_dst = dst,
     b4_len = 2, b4_prot = 9, b4_crc = 10, b4_cursor = Some (pc_at 34 [] (drop 22 rest) 34)\<rparr>)" for eth
    using assms by (simp add: builder_v4_new_def write_u8_def write_u16_def write_u32_def try_write_at fits_in_def
        MAX_PACKET_LEN_def pc_split_at_current_at hdr_v4_def)
  show ?thesis
    using assms b by (simp add: eth_ipv4_def w pc_split_at_current_at MAX_PACKET_LEN_def)
qed

definition hdr_udp :: "port \<Rightarrow> port \<Rightarrow> u16 \<Rightarrow> u8 list \<Rightarrow> u8 list" where
  "hdr_udp src dst len crc = be_bytes 2 src @ be_bytes 2 dst @ be_bytes 2 len @ crc"

lemma length_hdrs [simp]: "length crc = 2 \<Longrightarrow> length (hdr_v4 len prot crc src dst) = 20"
  "length crc = 2 \<Longrightarrow> length (hdr_udp sp dp len crc) = 8"
  by (simp_all add: hdr_v4_def hdr_udp_def)

lemma set_prot_v4: "array_set (hdr_v4 len prot crc src dst) 9 prot' = Done (hdr_v4 len prot' crc src dst)"
  by (simp add: hdr_v4_def array_set_def list_update_append numeral_eq_Suc)

lemma set_len_v4: "copy_from_slice (hdr_v4 len prot crc src dst) 2 4 (be_bytes 2 len') = Done (hdr_v4 len' prot crc src dst)"
  by (simp add: hdr_v4_def copy_from_slice_def numeral_eq_Suc)

lemma set_crc_v4: "length crc = 2 \<Longrightarrow> length crc' = 2 \<Longrightarrow>
  copy_from_slice (hdr_v4 len prot crc src dst) 10 12 crc' = Done (hdr_v4 len prot crc' src dst)"
  by (simp add: hdr_v4_def copy_from_slice_def numeral_eq_Suc)

lemma set_len_udp: "copy_from_slice (hdr_udp sp dp len crc) 4 6 (be_bytes 2 len') = Done (hdr_udp sp dp len' crc)"
  by (simp add: hdr_udp_def copy_from_slice_def numeral_eq_Suc)

lemma set_crc_udp: "length crc = 2 \<Longrightarrow> length crc' = 2 \<Longrightarrow>
  copy_from_slice (hdr_udp sp dp len crc) 6 8 crc' = Done (hdr_udp sp dp len crc')"
  by (simp add: hdr_udp_def copy_from_slice_def numeral_eq_Suc)

lemma udp_builder_at:
  assumes "base = 34 \<or> base = 54" "length rest = 4096 - base" "ip_set_protocol ip Udp = Done ip'"
  shows "udp_builder_new ip (pc_at base [] rest n) sp dp = Done (Some
    \<lparr>ub_ip = ip', ub_hdr = hdr_udp sp dp 0 [0, 0], ub_payload = pc_at (base + 8) [] (drop 8 rest) (base + 8),
     ub_len = 4, ub_crc = 6\<rparr>)"
  using assms by (elim disjE) (simp_all add: udp_builder_new_def write_u16_def try_write_at fits_in_def MAX_PACKET_LEN_def
      pc_split_at_current_at hdr_udp_def)

text \<open>Building over IPv4.\<close>

definition packet_v4 :: "net_address \<Rightarrow> u32 \<Rightarrow> u32 \<Rightarrow> u8 list \<Rightarrow> u8 list" where
  "packet_v4 addr src dst data =
     (let n = of_nat (8 + length data) :: u16; h = hdr_v4 (20 + n) 0x11 [0, 0] src dst in
      (na_dst_mac addr @ na_src_mac addr @ [0x08, 0x00])
      @ hdr_v4 (20 + n) 0x11 (le_bytes 2 (NOT (checksum h))) src dst
      @ hdr_udp (na_src_port addr) (na_dst_port addr) n [0, 0] @ data)"

text \<open>The builder with \<open>d\<close> written to its payload and \<open>r\<close> left.\<close>

definition ub_v4 :: "net_address \<Rightarrow> u32 \<Rightarrow> u32 \<Rightarrow> u8 list \<Rightarrow> u8 list \<Rightarrow> nat \<Rightarrow> udp_builder" where
  "ub_v4 addr src dst d r n =
     \<lparr>ub_ip = BV4 \<lparr>b4_eth = (na_dst_mac addr @ na_src_mac addr) @ [0x08, 0x00], b4_hdr = hdr_v4 0 0x11 [0, 0] src dst,
        b4_src = src, b4_dst = dst, b4_len = 2, b4_prot = 9, b4_crc = 10, b4_cursor = None\<rparr>,
      ub_hdr = hdr_udp (na_src_port addr) (na_dst_port addr) 0 [0, 0], ub_payload = pc_at 42 d r n, ub_len = 4, ub_crc = 6\<rparr>"

lemma create_udp_v4:
  assumes p: "plen p = 0" "length (praw p) = 4096" and mac: "length (na_src_mac addr) = 6" "length (na_dst_mac addr) = 6"
    and ip: "na_src_ip addr = IpV4 src" "na_dst_ip addr = IpV4 dst"
  shows "create_udp p addr = Done (ub_v4 addr src dst [] (drop 42 (praw p)) 42)"
proof -
  let ?b4 = "\<lambda>c h. \<lparr>b4_eth = (na_dst_mac addr @ na_src_mac addr) @ [0x08, 0x00], b4_hdr = h, b4_src = src, b4_dst = dst,
     b4_len = 2, b4_prot = 9, b4_crc = 10, b4_cursor = c\<rparr>"
  have ip_udp: "ip_udp (BV4 (?b4 (Some (pc_at 34 [] (drop 34 (praw p)) 34)) (hdr_v4 0 0 [0, 0] src dst)))
      (na_src_port addr) (na_dst_port addr) = Done (Some (ub_v4 addr src dst [] (drop 42 (praw p)) 42))"
    using p udp_builder_at [of 34 "drop 34 (praw p)"]
    by (simp add: ip_udp_def v4_set_protocol_def v4_take_cursor_def set_prot_v4 ub_v4_def)
  show ?thesis
    using p mac ip ip_udp
    by (simp add: create_udp_def pc_new_empty udp_from_packet_def eth_builder_at eth_ipv4_at)
qed

lemma udp_write_v4:
  assumes "length d + length buf \<le> 1472" "length buf \<le> length r" "length d + length r \<le> 4096"
  shows "udp_write (ub_v4 addr src dst d r n) buf = Done (Some (length d, length d + length buf),
    ub_v4 addr src dst (d @ buf) (drop (length buf) r) (42 + length d + length buf))"
  using assms pc_write_at [of 42 d r buf n]
  by (simp add: udp_write_def fits_in_def MAX_PACKET_LEN_def ub_v4_def)

lemma udp_drop_v4:
  assumes "length data \<le> 1472"
  shows "udp_drop (ub_v4 addr src dst data r n) = Done \<lparr>praw = packet_v4 addr src dst data @ r, plen = n\<rparr>"
proof -
  let ?n = "of_nat (8 + length data) :: u16"
  have "unat ?n = 8 + length data" using assms by (simp only: unsigned_of_nat) (simp add: take_bit_nat_eq_self)
  then have "checked_add 20 ?n = Some (20 + ?n)" using assms by (simp add: checked_add_eq_Some)
  then show ?thesis
    by (simp add: udp_drop_def udp_finalize_def udp_write_len_def pc_get_at set_len_udp v4_finalize_def ub_v4_def
        v4_write_len_def set_len_v4 v4_write_crc_def set_crc_v4 udp_write_crc_def builder_packet_def packet_v4_def Let_def
        del: of_nat_add of_nat_Suc)
qed

lemma send_udp_v4:
  assumes p: "plen p = 0" "length (praw p) = 4096" and mac: "length (na_src_mac addr) = 6" "length (na_dst_mac addr) = 6"
    and ip: "na_src_ip addr = IpV4 src" "na_dst_ip addr = IpV4 dst" and data: "length data \<le> 1472"
  shows "send_udp p addr data = Done \<lparr>praw = packet_v4 addr src dst data @ drop (42 + length data) (praw p),
    plen = 42 + length data\<rparr>"
  unfolding send_udp_def create_udp_v4 [OF p mac ip]
  using p data by (simp add: udp_write_v4 udp_drop_v4 add.commute)

section \<open>Parsing a built packet\<close>

lemma parse_eth_app:
  assumes "length d = 6" "length s = 6"
  shows "parse_eth \<lparr>praw = ((d @ s @ be_bytes 2 ty) @ pl) @ r, plen = 14 + length pl\<rparr>
    = Done (Inr \<lparr>dst_mac = d, src_mac = s, eth_type = ty, eth_payload = pl\<rparr>)"
proof -
  have "packet_raw \<lparr>praw = ((d @ s @ be_bytes 2 ty) @ pl) @ r, plen = 14 + length pl\<rparr> = Done ((d @ s @ be_bytes 2 ty) @ pl)"
    using assms by (intro packet_raw_prefix [where r = r]) simp_all
  then show ?thesis
    using assms by (simp add: parse_eth_def parse_mac_def parse_u16_def slice_def from_be_bytes)
qed

lemma nth_hdr_v4: "length crc = 2 \<Longrightarrow> hdr_v4 len prot crc src dst ! 0 = 0x45"
  "length crc = 2 \<Longrightarrow> hdr_v4 len prot crc src dst ! 6 = 0" "length crc = 2 \<Longrightarrow> hdr_v4 len prot crc src dst ! 9 = prot"
  by (simp_all add: hdr_v4_def nth_append)

lemma slice_hdr_v4: assumes "length crc = 2"
  shows "slice (hdr_v4 len prot crc src dst) 2 4 = Some (be_bytes 2 len)"
  "slice (hdr_v4 len prot crc src dst) 6 8 = Some [0, 0]"
  "slice (hdr_v4 len prot crc src dst) 12 16 = Some (be_bytes 4 src)"
  "slice (hdr_v4 len prot crc src dst) 16 20 = Some (be_bytes 4 dst)"
  using assms by (simp_all add: hdr_v4_def slice_def)

lemma parse_ipv4_app:
  assumes eth: "parse_eth p = Done (Inr e)" and ty: "eth_type e = ETH_TYPE_IPV4"
    and pl: "eth_payload e = hdr_v4 tot prot crc src dst @ pl" and tot: "unat tot = 20 + length pl" and crc: "length crc = 2"
  shows "parse_ipv4 p = Done (Inr \<lparr>v4_eth = e, v4_src_ip = src, v4_dst_ip = dst, v4_protocol = prot, v4_payload = pl\<rparr>)"
proof -
  let ?h = "hdr_v4 tot prot crc src dst"
  have len: "length ?h = 20" using crc by simp
  have h: "slice (?h @ pl) 0 20 = Some ?h" "slice (?h @ pl) 20 (20 + length pl) = Some pl"
    using len by (simp_all add: slice_def)
  have zero: "from_be [0, 0 :: u8] = (0 :: u16)" by (simp add: from_be_def)
  have bits: "drop_bit 4 (0x45 :: u8) = 4" "(0x45 :: u8) AND 0xF = 5" by code_simp+
  show ?thesis
    unfolding parse_ipv4_def eth orbind_simps ty pl h
    by (simp add: nth_hdr_v4 slice_hdr_v4 crc bits tot len h parse_u16_def parse_u32_def from_be_bytes zero Let_def)
qed

lemma parse_udp_app:
  assumes ip: "parse_ip p = Done (Inr ip)" "ip_protocol ip = IP_PROT_UDP"
    and pl: "ip_payload ip = hdr_udp sp dp len crc @ data" and len: "unat len = 8 + length data" "length crc = 2"
  shows "parse_udp p = Done (Inr \<lparr>udp_ip = ip, src_port = sp, dst_port = dp, udp_payload = data\<rparr>)"
proof -
  let ?h = "hdr_udp sp dp len crc"
  have l: "length ?h = 8" using len by simp
  have h: "slice (?h @ data) 0 8 = Some ?h" "slice (?h @ data) 8 (8 + length data) = Some data"
    "slice ?h 0 2 = Some (be_bytes 2 sp)" "slice ?h 2 4 = Some (be_bytes 2 dp)" "slice ?h 4 6 = Some (be_bytes 2 len)"
    using l by (simp_all add: slice_def hdr_udp_def)
  show ?thesis
    unfolding parse_udp_def ip(1) orbind_simps ip(2) pl h
    by (simp add: h len l parse_u16_def from_be_bytes)
qed

section \<open>IPv6\<close>

definition hdr_v6 :: "u16 \<Rightarrow> u8 \<Rightarrow> u8 list \<Rightarrow> u8 list \<Rightarrow> u8 list" where
  "hdr_v6 len prot src dst = [0x60, 0, 0, 0] @ be_bytes 2 len @ [prot, 64] @ src @ dst"

lemma length_hdr_v6 [simp]: "length src = 16 \<Longrightarrow> length dst = 16 \<Longrightarrow> length (hdr_v6 len prot src dst) = 40"
  by (simp add: hdr_v6_def)

lemma eth_ipv6_at:
  assumes "length front = 12" "length rest = 4084" "length src = 16" "length dst = 16"
  shows "eth_ipv6 (pc_at 0 front rest n) src dst = Done (Some
    \<lparr>b6_eth = front @ [0x86, 0xDD], b6_hdr = hdr_v6 0 0 src dst, b6_src = src, b6_dst = dst,
     b6_len = 4, b6_prot = 6, b6_cursor = Some (pc_at 54 [] (drop 42 rest) 54)\<rparr>)"
proof -
  have "be_bytes 2 ETH_TYPE_IPV6 = [0x86, 0xDD]" by code_simp
  moreover have "length (be_bytes 2 ETH_TYPE_IPV6) = 2" by simp
  ultimately have w: "write_u16 (pc_at 0 front rest n) ETH_TYPE_IPV6 = Done (Some (12, 14), pc_at 0 (front @ [0x86, 0xDD]) (drop 2 rest) 14)"
    using assms pc_write_at [of 0 front rest "be_bytes 2 ETH_TYPE_IPV6" n]
    by (simp add: write_u16_def fits_in_def MAX_PACKET_LEN_def numeral_2_eq_2)
  have b: "builder_v6_new eth (pc_at 14 [] (drop 2 rest) 14) src dst = Done (Some
    \<lparr>b6_eth = eth, b6_hdr = hdr_v6 0 0 src dst, b6_src = src, b6_dst = dst,
     b6_len = 4, b6_prot = 6, b6_cursor = Some (pc_at 54 [] (drop 42 rest) 54)\<rparr>)" for eth
    using assms by (simp add: builder_v6_new_def write_u8_def write_u16_def write_u32_def try_write_at fits_in_def
        MAX_PACKET_LEN_def pc_split_at_current_at hdr_v6_def)
  show ?thesis
    using assms b by (simp add: eth_ipv6_def w pc_split_at_current_at MAX_PACKET_LEN_def)
qed

lemma set_prot_v6: "array_set (hdr_v6 len prot src dst) 6 prot' = Done (hdr_v6 len prot' src dst)"
  by (simp add: hdr_v6_def array_set_def list_update_append numeral_eq_Suc)

lemma set_len_v6: "copy_from_slice (hdr_v6 len prot src dst) 4 6 (be_bytes 2 len') = Done (hdr_v6 len' prot src dst)"
  by (simp add: hdr_v6_def copy_from_slice_def numeral_eq_Suc)

text \<open>The pseudo-header, and the checksum \<open>write_crc\<close> puts in.\<close>

definition pseudo_v6 :: "u8 list \<Rightarrow> u8 list \<Rightarrow> u32 \<Rightarrow> u8 list" where
  "pseudo_v6 src dst n = src @ dst @ be_bytes 4 n @ [0, 0, 0, 0x11]"

lemma pseudo_header_eq:
  assumes "length src = 16" "length dst = 16" "b6_src ip = src" "b6_dst ip = dst"
  shows "pseudo_header ip n = Done (pseudo_v6 src dst n)"
proof -
  have r: "replicate 40 (0 :: u8) = replicate 16 0 @ replicate 16 0 @ replicate 4 0 @ [0, 0, 0, 0]"
    by (simp add: numeral_eq_Suc)
  show ?thesis
    unfolding pseudo_header_def r using assms
    by (simp add: copy_from_slice_def pseudo_v6_def array_set_def list_update_append IP_PROT_UDP_def)
qed

definition crc_v6 :: "u8 list \<Rightarrow> u8 list \<Rightarrow> u8 list \<Rightarrow> u16" where
  "crc_v6 ph hdr data =
     (let acc = ucast (checksum ph) + ucast (checksum hdr) + ucast (checksum data) :: u32;
          c = NOT (ucast (fold_carry (fold_carry acc))) :: u16 in if c = 0 then 0xFFFF else c)"

definition packet_v6 :: "net_address \<Rightarrow> u8 list \<Rightarrow> u8 list \<Rightarrow> u8 list \<Rightarrow> u8 list" where
  "packet_v6 addr src dst data =
     (let n = of_nat (8 + length data) :: u16; ph = pseudo_v6 src dst (of_nat (8 + length data));
          u = hdr_udp (na_src_port addr) (na_dst_port addr) n in
      (na_dst_mac addr @ na_src_mac addr @ [0x86, 0xDD]) @ hdr_v6 n 0x11 src dst
      @ u (be_bytes 2 (crc_v6 ph (u [0, 0]) data)) @ data)"

lemma send_udp_v6:
  assumes p: "plen p = 0" "length (praw p) = 4096" and mac: "length (na_src_mac addr) = 6" "length (na_dst_mac addr) = 6"
    and ip: "na_src_ip addr = IpV6 src" "na_dst_ip addr = IpV6 dst" and len: "length src = 16" "length dst = 16"
    and data: "length data \<le> 1452"
  shows "send_udp p addr data = Done \<lparr>praw = packet_v6 addr src dst data @ drop (62 + length data) (praw p),
    plen = 62 + length data\<rparr>"
proof -
  let ?raw = "praw p" and ?n = "of_nat (8 + length data) :: u16"
  let ?b6 = "\<lambda>c h. \<lparr>b6_eth = (na_dst_mac addr @ na_src_mac addr) @ [0x86, 0xDD], b6_hdr = h, b6_src = src, b6_dst = dst,
     b6_len = 4, b6_prot = 6, b6_cursor = c\<rparr>"
  let ?ub = "\<lambda>h u d r n. \<lparr>ub_ip = BV6 (?b6 None h), ub_hdr = u, ub_payload = pc_at 62 d r n, ub_len = 4, ub_crc = 6\<rparr>"
  let ?h0 = "hdr_v6 0 0x11 src dst" and ?u = "hdr_udp (na_src_port addr) (na_dst_port addr)"
  have ip_udp: "ip_udp (BV6 (?b6 (Some (pc_at 54 [] (drop 54 ?raw) 54)) (hdr_v6 0 0 src dst)))
      (na_src_port addr) (na_dst_port addr) = Done (Some (?ub ?h0 (?u 0 [0, 0]) [] (drop 62 ?raw) 62))"
    using p udp_builder_at [of 54 "drop 54 ?raw"]
    by (simp add: ip_udp_def v6_set_protocol_def v6_take_cursor_def set_prot_v6)
  have create: "create_udp p addr = Done (?ub ?h0 (?u 0 [0, 0]) [] (drop 62 ?raw) 62)"
    using p mac ip len ip_udp
    by (simp add: create_udp_def pc_new_empty udp_from_packet_def eth_builder_at eth_ipv6_at)
  have wr: "udp_write (?ub ?h0 (?u 0 [0, 0]) [] (drop 62 ?raw) 62) data
      = Done (Some (0, length data), ?ub ?h0 (?u 0 [0, 0]) data (drop (length data) (drop 62 ?raw)) (62 + length data))"
    using p data pc_write_at [of 62 "[]" "drop 62 ?raw" data 62]
    by (simp add: udp_write_def fits_in_def MAX_PACKET_LEN_def)
  have fin: "udp_drop (?ub ?h0 (?u 0 [0, 0]) data r n) = Done \<lparr>praw = packet_v6 addr src dst data @ r, plen = n\<rparr>" for r n
    using len by (simp add: udp_drop_def udp_finalize_def udp_write_len_def pc_get_at set_len_udp v6_finalize_def
        v6_write_len_def set_len_v6 udp_write_crc_def pseudo_header_eq set_crc_udp builder_packet_def packet_v6_def
        crc_v6_def Let_def del: of_nat_add of_nat_Suc)
  show ?thesis
    unfolding send_udp_def create obind_simps wr prod.case fin by (simp add: add.commute)
qed

lemma parse_ipv6_app:
  assumes eth: "parse_eth p = Done (Inr e)" and ty: "eth_type e = ETH_TYPE_IPV6"
    and pl: "eth_payload e = hdr_v6 n prot src dst @ pl" and n: "unat n = length pl"
    and len: "length src = 16" "length dst = 16"
  shows "parse_ipv6 p = Done (Inr \<lparr>v6_eth = e, v6_src_ip = src, v6_dst_ip = dst, v6_next_header = prot, v6_payload = pl\<rparr>)"
proof -
  let ?h = "hdr_v6 n prot src dst"
  have l: "length ?h = 40" using len by simp
  have h: "slice (?h @ pl) 0 40 = Some ?h" "slice (?h @ pl) 40 (40 + length pl) = Some pl"
    "slice ?h 4 6 = Some (be_bytes 2 n)" "slice ?h 8 24 = Some src" "slice ?h 24 40 = Some dst"
    "?h ! 0 = 0x60" "?h ! 6 = prot"
    using l len by (simp_all add: slice_def) (simp_all add: hdr_v6_def nth_append)
  have bits: "drop_bit 4 (0x60 :: u8) = 6" by code_simp
  show ?thesis
    unfolding parse_ipv6_def eth orbind_simps ty pl h
    by (simp add: h l n bits parse_u16_def from_be_bytes Let_def)
qed

section \<open>The checksum over IPv6\<close>

lemma sum_words_append: "even (length xs) \<Longrightarrow> sum_words (xs @ ys) = sum_words xs + sum_words ys"
  by (induction xs rule: sum_words.induct) simp_all

lemma sum_words_be2: "sum_words (be_bytes 2 (c :: u16)) = unat c"
proof -
  obtain a b where ab: "be_bytes 2 c = [a, b]"
    using length_le_bytes(2) [of 2 c] by (metis (no_types, opaque_lifting) length_0_conv length_Suc_conv numeral_2_eq_2)
  have "from_be [a, b] = c" unfolding ab [symmetric] by (simp add: from_be_bytes)
  then show ?thesis using unat_from_be2 [of a b] ab by simp
qed

lemma sum_words_hdr_udp: "sum_words (hdr_udp sp dp n (be_bytes 2 (c :: u16))) = sum_words (hdr_udp sp dp n [0, 0]) + unat c"
  by (simp add: hdr_udp_def sum_words_append sum_words_be2)

lemma ones_sum_full: "n mod 65535 = 0 \<Longrightarrow> n \<noteq> 0 \<Longrightarrow> ones_sum n = 65535"
  by (rule ones_sum_unique [symmetric]) simp_all

lemma crc_v6_sum:
  assumes len: "length ph \<le> 131072" "length hdr \<le> 131072" "length data \<le> 131072" and pos: "sum_words ph \<noteq> 0"
  shows "ones_sum (sum_words ph + sum_words hdr + sum_words data + unat (crc_v6 ph hdr data)) = 65535"
    "crc_v6 ph hdr data \<noteq> 0"
proof -
  let ?s = "sum_words ph + sum_words hdr + sum_words data"
  let ?a = "ucast (checksum ph) + ucast (checksum hdr) + ucast (checksum data) :: u32"
  let ?o = "ones_sum (sum_words ph) + ones_sum (sum_words hdr) + ones_sum (sum_words data)"
  have u: "unat (ucast w :: u32) = unat w" for w :: u16
    using unat_u16_less [of w] by (simp add: unsigned_ucast_eq take_bit_nat_eq_self)
  have le: "?o \<le> 3 * 65535" using ones_sum_le(1) [of "sum_words ph"] ones_sum_le(1) [of "sum_words hdr"] ones_sum_le(1) [of "sum_words data"] by linarith
  have "unat ?a = ?o"
    using len le by (simp add: unat_word_ariths u unat_checksum)
  then have f: "unat (fold_carry (fold_carry ?a)) = ones_sum ?o" by (simp add: unat_fold_twice)
  have o: "?o mod 65535 = ?s mod 65535" by (intro mod_add_cong) (simp_all add: ones_sum_mod)
  have os: "ones_sum ?o = ones_sum ?s"
    by (rule ones_sum_unique) (use o pos ones_sum_le(2) in \<open>auto simp: ones_sum_mod ones_sum_le\<close>)
  define w where "w = (ucast (fold_carry (fold_carry ?a)) :: u16)"
  have w: "unat w = ones_sum ?s"
    using f os ones_sum_le(1) [of ?s] by (simp add: w_def unsigned_ucast_eq take_bit_nat_eq_self)
  have "NOT w = - 1 - w" by (simp add: not_eq_complement)
  then have "unat (NOT w) = 65535 - unat w"
    by (simp only: unat_sub [OF word_order.extremum] unat_max_word) simp
  then have c: "unat (crc_v6 ph hdr data) = (if unat w = 65535 then 65535 else 65535 - unat w)"
    using unat_u16_less [of w] by (auto simp: crc_v6_def Let_def w_def [symmetric] unat_eq_0 [symmetric] simp del: unat_eq_0)
  show "crc_v6 ph hdr data \<noteq> 0"
    using c unat_u16_less [of w] by (auto simp: unat_eq_0 [symmetric] simp del: unat_eq_0 split: if_splits)
  have "(?s + unat (crc_v6 ph hdr data)) mod 65535 = (ones_sum ?s + unat (crc_v6 ph hdr data)) mod 65535"
    by (intro mod_add_cong) (simp_all add: ones_sum_mod)
  also have "\<dots> = 0" using c w ones_sum_le(1) [of ?s] by simp
  finally show "ones_sum (?s + unat (crc_v6 ph hdr data)) = 65535"
    using pos by (intro ones_sum_full) simp_all
qed

section \<open>Properties\<close>

lemma parse_send_udp_v4:
  assumes p: "plen p = 0" "length (praw p) = 4096" and mac: "length (na_src_mac addr) = 6" "length (na_dst_mac addr) = 6"
    and ip: "na_src_ip addr = IpV4 src" "na_dst_ip addr = IpV4 dst" and data: "length data \<le> 1472"
  shows "\<exists>q u. send_udp p addr data = Done q \<and> parse_udp q = Done (Inr u)
    \<and> udp_payload u = data \<and> src_port u = na_src_port addr \<and> dst_port u = na_dst_port addr
    \<and> ip_src_ip (udp_ip u) = na_src_ip addr \<and> ip_dst_ip (udp_ip u) = na_dst_ip addr
    \<and> src_mac (ip_eth (udp_ip u)) = na_src_mac addr \<and> dst_mac (ip_eth (udp_ip u)) = na_dst_mac addr
    \<and> plen q = 42 + length data"
proof -
  let ?n = "of_nat (8 + length data) :: u16" and ?q = "\<lparr>praw = packet_v4 addr src dst data @ drop (42 + length data) (praw p), plen = 42 + length data\<rparr>"
  define crc where "crc = le_bytes 2 (NOT (checksum (hdr_v4 (20 + ?n) 0x11 [0, 0] src dst)))"
  have crc: "length crc = 2" unfolding crc_def by (rule length_le_bytes(1))
  let ?ippl = "hdr_udp (na_src_port addr) (na_dst_port addr) ?n [0, 0] @ data"
  let ?pl = "hdr_v4 (20 + ?n) 0x11 crc src dst @ ?ippl"
  have n: "unat ?n = 8 + length data" using data by (simp only: unsigned_of_nat) (simp add: take_bit_nat_eq_self)
  have tot: "unat (20 + ?n) = 20 + length ?ippl" using n data by (subst unat_add_no_overflow) simp_all
  have ty: "be_bytes 2 ETH_TYPE_IPV4 = [0x08, 0x00]" by code_simp
  have raw: "?q = \<lparr>praw = ((na_dst_mac addr @ na_src_mac addr @ be_bytes 2 ETH_TYPE_IPV4) @ ?pl) @ drop (42 + length data) (praw p),
      plen = 14 + length ?pl\<rparr>"
    using crc by (simp add: packet_v4_def Let_def ty crc_def)
  note e = parse_eth_app [OF mac(2,1), of ETH_TYPE_IPV4 ?pl "drop (42 + length data) (praw p)", folded raw]
  have "parse_ipv4 ?q = Done (Inr \<lparr>v4_eth = \<lparr>dst_mac = na_dst_mac addr, src_mac = na_src_mac addr, eth_type = ETH_TYPE_IPV4, eth_payload = ?pl\<rparr>,
      v4_src_ip = src, v4_dst_ip = dst, v4_protocol = 0x11, v4_payload = ?ippl\<rparr>)"
    by (rule parse_ipv4_app [OF e _ _ tot crc]) simp_all
  then have i: "parse_ip ?q = Done (Inr (PV4 \<lparr>v4_eth = \<lparr>dst_mac = na_dst_mac addr, src_mac = na_src_mac addr, eth_type = ETH_TYPE_IPV4, eth_payload = ?pl\<rparr>,
      v4_src_ip = src, v4_dst_ip = dst, v4_protocol = 0x11, v4_payload = ?ippl\<rparr>))"
    by (simp add: parse_ip_def)
  have u: "parse_udp ?q = Done (Inr \<lparr>udp_ip = PV4 \<lparr>v4_eth = \<lparr>dst_mac = na_dst_mac addr, src_mac = na_src_mac addr, eth_type = ETH_TYPE_IPV4, eth_payload = ?pl\<rparr>,
      v4_src_ip = src, v4_dst_ip = dst, v4_protocol = 0x11, v4_payload = ?ippl\<rparr>, src_port = na_src_port addr, dst_port = na_dst_port addr, udp_payload = data\<rparr>)"
    by (rule parse_udp_app [OF i _ _ n, where crc = "[0, 0]"]) (simp_all add: IP_PROT_UDP_def)
  show ?thesis
    using send_udp_v4 [OF assms] u ip by simp
qed

text \<open>C16: a packet built over IPv4 with up to 1472 bytes of payload, finalized and parsed again gives back
  the payload, the ports, the IP addresses and the MAC addresses it was built from.\<close>

theorem udp_v4_round_trip:
  assumes p: "plen p = 0" "length (praw p) = 4096" and mac: "length (na_src_mac addr) = 6" "length (na_dst_mac addr) = 6"
    and ip: "na_src_ip addr = IpV4 src" "na_dst_ip addr = IpV4 dst" and data: "length data \<le> 1472"
  shows "\<exists>q u. send_udp p addr data = Done q \<and> parse_udp q = Done (Inr u)
    \<and> udp_payload u = data \<and> src_port u = na_src_port addr \<and> dst_port u = na_dst_port addr
    \<and> ip_src_ip (udp_ip u) = na_src_ip addr \<and> ip_dst_ip (udp_ip u) = na_dst_ip addr
    \<and> src_mac (ip_eth (udp_ip u)) = na_src_mac addr \<and> dst_mac (ip_eth (udp_ip u)) = na_dst_mac addr
    \<and> plen q = 42 + length data"
  by (rule parse_send_udp_v4 [OF assms])

definition addr_v4 :: net_address where
  "addr_v4 = \<lparr>na_src_mac = [0x52, 0x54, 0, 0x12, 0x34, 0x56], na_src_ip = IpV4 0x0A00020F, na_src_port = 49152,
     na_dst_mac = [1, 2, 3, 4, 5, 6], na_dst_ip = IpV4 0x0A000202, na_dst_port = 53\<rparr>"

theorem udp_v4_round_trip_witness:
  "\<exists>q u. send_udp packet_new addr_v4 [1, 2, 3] = Done q \<and> parse_udp q = Done (Inr u)
    \<and> udp_payload u = [1, 2, 3] \<and> src_port u = 49152 \<and> dst_port u = 53 \<and> plen q = 45"
  using udp_v4_round_trip [of packet_new addr_v4 "0x0A00020F" "0x0A000202" "[1, 2, 3]"]
  by (auto simp: packet_new_def addr_v4_def)

text \<open>the same over IPv6, for up to 1452 bytes of payload.\<close>

theorem udp_v6_round_trip:
  assumes p: "plen p = 0" "length (praw p) = 4096" and mac: "length (na_src_mac addr) = 6" "length (na_dst_mac addr) = 6"
    and ip: "na_src_ip addr = IpV6 src" "na_dst_ip addr = IpV6 dst" and len: "length src = 16" "length dst = 16"
    and data: "length data \<le> 1452"
  shows "\<exists>q u. send_udp p addr data = Done q \<and> parse_udp q = Done (Inr u)
    \<and> udp_payload u = data \<and> src_port u = na_src_port addr \<and> dst_port u = na_dst_port addr
    \<and> ip_src_ip (udp_ip u) = na_src_ip addr \<and> ip_dst_ip (udp_ip u) = na_dst_ip addr
    \<and> src_mac (ip_eth (udp_ip u)) = na_src_mac addr \<and> dst_mac (ip_eth (udp_ip u)) = na_dst_mac addr
    \<and> plen q = 62 + length data"
proof -
  let ?n = "of_nat (8 + length data) :: u16" and ?r = "drop (62 + length data) (praw p)"
  let ?q = "\<lparr>praw = packet_v6 addr src dst data @ ?r, plen = 62 + length data\<rparr>"
  let ?u = "hdr_udp (na_src_port addr) (na_dst_port addr) ?n"
  define crc where "crc = be_bytes 2 (crc_v6 (pseudo_v6 src dst (of_nat (8 + length data))) (?u [0, 0]) data)"
  have crc: "length crc = 2" unfolding crc_def by simp
  let ?ippl = "?u crc @ data"
  let ?pl = "hdr_v6 ?n 0x11 src dst @ ?ippl"
  let ?e = "\<lparr>dst_mac = na_dst_mac addr, src_mac = na_src_mac addr, eth_type = ETH_TYPE_IPV6, eth_payload = ?pl\<rparr>"
  let ?i = "\<lparr>v6_eth = ?e, v6_src_ip = src, v6_dst_ip = dst, v6_next_header = 0x11, v6_payload = ?ippl\<rparr>"
  have n: "unat ?n = 8 + length data" using data by (simp only: unsigned_of_nat) (simp add: take_bit_nat_eq_self)
  have n': "unat ?n = length ?ippl" using n crc by simp
  have ty: "be_bytes 2 ETH_TYPE_IPV6 = [0x86, 0xDD]" by code_simp
  have raw: "?q = \<lparr>praw = ((na_dst_mac addr @ na_src_mac addr @ be_bytes 2 ETH_TYPE_IPV6) @ ?pl) @ ?r, plen = 14 + length ?pl\<rparr>"
    using crc len by (simp add: packet_v6_def Let_def ty crc_def)
  note e = parse_eth_app [OF mac(2,1), of ETH_TYPE_IPV6 ?pl ?r, folded raw]
  have v4: "parse_ipv4 ?q = Done (Inl UnsupportedVersion)"
    unfolding parse_ipv4_def e by (simp add: ETH_TYPE_IPV4_def ETH_TYPE_IPV6_def)
  have "parse_ipv6 ?q = Done (Inr ?i)"
    by (rule parse_ipv6_app [OF e _ _ n' len]) simp_all
  then have i: "parse_ip ?q = Done (Inr (PV6 ?i))"
    by (simp add: parse_ip_def v4)
  have u: "parse_udp ?q = Done (Inr \<lparr>udp_ip = PV6 ?i, src_port = na_src_port addr, dst_port = na_dst_port addr, udp_payload = data\<rparr>)"
    by (rule parse_udp_app [OF i _ _ n crc]) (simp_all add: IP_PROT_UDP_def)
  show ?thesis
    using send_udp_v6 [OF assms] u ip by simp
qed

definition addr_v6 :: net_address where
  "addr_v6 = \<lparr>na_src_mac = [0x52, 0x54, 0, 0x12, 0x34, 0x56], na_src_ip = IpV6 (replicate 15 0 @ [1]), na_src_port = 49152,
     na_dst_mac = [1, 2, 3, 4, 5, 6], na_dst_ip = IpV6 (0xFE # 0x80 # replicate 13 0 @ [2]), na_dst_port = 53\<rparr>"

theorem udp_v6_round_trip_witness:
  "\<exists>q u. send_udp packet_new addr_v6 [1, 2, 3] = Done q \<and> parse_udp q = Done (Inr u)
    \<and> udp_payload u = [1, 2, 3] \<and> src_port u = 49152 \<and> dst_port u = 53 \<and> plen q = 65"
  using udp_v6_round_trip [of packet_new addr_v6 "replicate 15 0 @ [1]" "0xFE # 0x80 # replicate 13 0 @ [2]" "[1, 2, 3]"]
  by (auto simp: packet_new_def addr_v6_def)

text \<open>the UDP checksum of a packet built over IPv6 is the one RFC 8200 asks for: the ones' complement
  sum of the pseudo-header and of everything after the IP header, the checksum included, is all ones, and
  the checksum itself is not zero.\<close>

theorem udp_v6_checksum:
  assumes p: "plen p = 0" "length (praw p) = 4096" and mac: "length (na_src_mac addr) = 6" "length (na_dst_mac addr) = 6"
    and ip: "na_src_ip addr = IpV6 src" "na_dst_ip addr = IpV6 dst" and len: "length src = 16" "length dst = 16"
    and data: "length data \<le> 1452"
  shows "\<exists>q udp. send_udp p addr data = Done q \<and> take (plen q) (praw q) = take 54 (praw q) @ udp
    \<and> ones_sum (sum_words (src @ dst @ be_bytes 4 (of_nat (length udp) :: u32) @ [0, 0, 0, IP_PROT_UDP] @ udp)) = 65535
    \<and> take 2 (drop 6 udp) \<noteq> [0, 0]"
proof -
  let ?n = "of_nat (8 + length data) :: u16" and ?r = "drop (62 + length data) (praw p)"
  let ?q = "\<lparr>praw = packet_v6 addr src dst data @ ?r, plen = 62 + length data\<rparr>"
  let ?u = "hdr_udp (na_src_port addr) (na_dst_port addr) ?n"
  define ph where "ph = pseudo_v6 src dst (of_nat (8 + length data))"
  define c where "c = crc_v6 ph (?u [0, 0]) data"
  define udp where "udp = ?u (be_bytes 2 c) @ data"
  have ph: "even (length ph)" "length ph = 40" "sum_words ph \<noteq> 0"
    using len by (simp_all add: ph_def pseudo_v6_def sum_words_append)
  have l: "length udp = 8 + length data" "length (?u [0, 0]) = 8" by (simp_all add: udp_def)
  note crc = crc_v6_sum [of ph "?u [0, 0]" data, folded c_def]
  let ?front = "(na_dst_mac addr @ na_src_mac addr @ [0x86, 0xDD]) @ hdr_v6 ?n 0x11 src dst"
  have pk: "packet_v6 addr src dst data = ?front @ udp" and front: "length ?front = 54"
    using mac len by (simp_all add: packet_v6_def Let_def udp_def c_def ph_def)
  have tk: "take (plen ?q) (praw ?q) = take 54 (praw ?q) @ udp"
    unfolding pk using front l by (simp del: append_assoc)
  have pseudo: "src @ dst @ be_bytes 4 (of_nat (length udp) :: u32) @ [0, 0, 0, IP_PROT_UDP] @ udp = ph @ udp"
    by (simp add: ph_def pseudo_v6_def l IP_PROT_UDP_def)
  have "ones_sum (sum_words (src @ dst @ be_bytes 4 (of_nat (length udp) :: u32) @ [0, 0, 0, IP_PROT_UDP] @ udp)) = 65535"
    unfolding pseudo using crc ph data l by (simp add: udp_def sum_words_append sum_words_hdr_udp ac_simps)
  moreover have "take 2 (drop 6 udp) = be_bytes 2 c" by (simp add: udp_def hdr_udp_def)
  moreover have "be_bytes 2 c \<noteq> [0, 0]"
    using crc(2) ph data l from_be_bytes [of 2 c] by (auto simp: from_be_def)
  ultimately show ?thesis
    using send_udp_v6 [OF assms] tk by (metis (no_types, lifting))
qed

theorem udp_v6_checksum_witness:
  "\<exists>q udp. send_udp packet_new addr_v6 [1, 2, 3] = Done q \<and> take (plen q) (praw q) = take 54 (praw q) @ udp
    \<and> take 2 (drop 6 udp) \<noteq> [0, 0]"
  using udp_v6_checksum [of packet_new addr_v6 "replicate 15 0 @ [1]" "0xFE # 0x80 # replicate 13 0 @ [2]" "[1, 2, 3]"]
  by (auto simp: packet_new_def addr_v6_def)

text \<open>the header checksum of a packet built over IPv4 is written with its bytes swapped, so a receiver
  that sums the header does not get all ones.\<close>

theorem ipv4_header_checksum_swapped:
  "\<exists>q hdr. send_udp packet_new addr_v4 [1, 2, 3] = Done q \<and> slice (praw q) 14 34 = Some hdr
    \<and> checksum (take 10 hdr @ rev (take 2 (drop 10 hdr)) @ drop 12 hdr) = 0xFFFF \<and> checksum hdr \<noteq> 0xFFFF"
proof -
  let ?q = "\<lparr>praw = packet_v4 addr_v4 0x0A00020F 0x0A000202 [1, 2, 3] @ drop 45 (praw packet_new), plen = 45\<rparr>"
  let ?h = "take 20 (drop 14 (packet_v4 addr_v4 0x0A00020F 0x0A000202 [1, 2, 3]))"
  have l: "length (packet_v4 addr_v4 0x0A00020F 0x0A000202 [1, 2, 3]) = 45" by code_simp
  have "send_udp packet_new addr_v4 [1, 2, 3] = Done ?q"
    using send_udp_v4 [of packet_new addr_v4 "0x0A00020F" "0x0A000202" "[1, 2, 3]"]
    by (simp add: packet_new_def addr_v4_def)
  moreover have "slice (praw ?q) 14 34 = Some ?h" using l by (simp add: slice_def)
  moreover have "checksum (take 10 ?h @ rev (take 2 (drop 10 ?h)) @ drop 12 ?h) = 0xFFFF" by code_simp
  moreover have "checksum ?h \<noteq> 0xFFFF" by code_simp
  ultimately show ?thesis by blast
qed

end
