(* ===== verification/Arp.thy ===== *)
theory Arp
  imports Net_Headers
begin

text \<open>
  ARP packets, \<open>src/kernel/src/net/protocols/arp.rs\<close>: the parser, the test for a reply and the builder.
  The handlers of the same file that work on a device are in \<open>Net_Device\<close>.
\<close>

section \<open>Definitions\<close>

definition ETH_TYPE_ARP :: u16 where "ETH_TYPE_ARP = 0x0806"
definition ARP_ETH_TYPE_IPV4 :: u16 where "ARP_ETH_TYPE_IPV4 = 0x0800"
definition HW_TYPE_ETH :: u16 where "HW_TYPE_ETH = 1"

definition MAC_BROADCAST :: mac where "MAC_BROADCAST = replicate 6 0xFF"
definition MAC_ZERO :: mac where "MAC_ZERO = replicate 6 0"

datatype arp_opcode = ArpRequest | ArpReply

fun arp_opcode_number :: "arp_opcode \<Rightarrow> u16" where
  "arp_opcode_number ArpRequest = 1"
| "arp_opcode_number ArpReply = 2"

record arp_parsed =
  arp_eth :: eth_parsed
  hw_type :: u16
  proto_type :: u16
  hw_size :: u8
  proto_size :: u8
  opcode :: u16
  sender_mac :: mac
  sender_ip :: u32
  target_mac :: mac
  target_ip :: u32

definition is_valid_reply :: "arp_parsed \<Rightarrow> u32 \<Rightarrow> u32 \<Rightarrow> mac \<Rightarrow> bool" where
  "is_valid_reply a sip tip tmac \<longleftrightarrow>
     hw_type a = HW_TYPE_ETH
     \<and> proto_type a = ARP_ETH_TYPE_IPV4
     \<and> hw_size a = 6
     \<and> proto_size a = 4
     \<and> opcode a = arp_opcode_number ArpReply
     \<and> sender_ip a = sip
     \<and> target_ip a = tip
     \<and> target_mac a = tmac"

text \<open>The slices are in bounds once the payload has 28 bytes, and have the length the conversions ask for.\<close>

definition parse_arp :: "packet \<Rightarrow> (parse_error + arp_parsed) outcome" where
  "parse_arp p =
     orbind (parse_eth p) (\<lambda>eth.
       if eth_type eth \<noteq> ETH_TYPE_ARP then Done (Inl InvalidLength)
       else
         let pl = eth_payload eth in
         if length pl < 28 then Done (Inl TruncatedPacket)
         else Done (Inr
           \<lparr>arp_eth = eth,
            hw_type = from_be (take 2 pl),
            proto_type = from_be (take 2 (drop 2 pl)),
            hw_size = pl ! 4,
            proto_size = pl ! 5,
            opcode = from_be (take 2 (drop 6 pl)),
            sender_mac = take 6 (drop 8 pl),
            sender_ip = from_be (take 4 (drop 14 pl)),
            target_mac = take 6 (drop 18 pl),
            target_ip = from_be (take 4 (drop 24 pl))\<rparr>))"

text \<open>A sequence of writes, each with \<open>?\<close>: the first one that is refused ends it.\<close>

fun write_seq :: "packet_cursor \<Rightarrow> u8 list list \<Rightarrow> (unit option \<times> packet_cursor) outcome" where
  "write_seq c [] = Done (Some (), c)"
| "write_seq c (buf # bufs) =
     obind (pc_write c buf) (\<lambda>(r, c). case r of None \<Rightarrow> Done (None, c) | Some _ \<Rightarrow> write_seq c bufs)"

text \<open>The packet that a cursor borrowed and did not split.\<close>

definition cursor_packet :: "packet_cursor \<Rightarrow> packet" where
  "cursor_packet c = \<lparr>praw = inner (pc_inner c), plen = packet_len c\<rparr>"

text \<open>\<open>eth::Builder::new\<close> writes the destination and the source; the rest are the writes of the function.\<close>

definition build_arp_packet ::
  "packet \<Rightarrow> arp_opcode \<Rightarrow> mac \<Rightarrow> u32 \<Rightarrow> mac \<Rightarrow> u32 \<Rightarrow> (unit option \<times> packet) outcome" where
  "build_arp_packet p op smac sip tmac tip =
     obind (pc_new p) (\<lambda>c.
     obind (write_seq c
       [MAC_BROADCAST, smac,
        be_bytes 2 HW_TYPE_ETH,
        be_bytes 2 ETH_TYPE_ARP,
        be_bytes 1 (6 :: u8),
        be_bytes 1 (4 :: u8),
        be_bytes 2 (arp_opcode_number op),
        smac,
        be_bytes 4 sip,
        tmac,
        be_bytes 4 tip]) (\<lambda>(r, c). Done (r, cursor_packet c)))"

section \<open>What is built\<close>

lemma write_seq_at:
  assumes "base + length front + length (concat bufs) \<le> MAX_PACKET_LEN" "length (concat bufs) \<le> length rest"
    "length front + length rest \<le> 4096" "bufs \<noteq> []"
  shows "write_seq (pc_at base front rest n) bufs
    = Done (Some (), pc_at base (front @ concat bufs) (drop (length (concat bufs)) rest)
        (base + length front + length (concat bufs)))"
  using assms
proof (induction bufs arbitrary: front rest n)
  case (Cons buf bufs)
  have "pc_write (pc_at base front rest n) buf
    = Done (Some (length front, length front + length buf),
        pc_at base (front @ buf) (drop (length buf) rest) (base + length front + length buf))"
    by (rule pc_write_at) (use Cons.prems in \<open>auto simp: fits_in_def\<close>)
  with Cons show ?case
    by (cases "bufs = []") (simp_all add: ac_simps)
qed simp

lemma pc_at_packet [simp]: "cursor_packet (pc_at base front rest n) = \<lparr>praw = front @ rest, plen = n\<rparr>"
  by (simp add: cursor_packet_def pc_at_def)

definition arp_frame :: "arp_opcode \<Rightarrow> mac \<Rightarrow> u32 \<Rightarrow> mac \<Rightarrow> u32 \<Rightarrow> u8 list" where
  "arp_frame op smac sip tmac tip =
     MAC_BROADCAST @ smac @ [0, 1, 8, 6, 6, 4] @ be_bytes 2 (arp_opcode_number op) @ smac @ be_bytes 4 sip @ tmac @ be_bytes 4 tip"

lemma build_arp_packet_eq:
  assumes "plen p = 0" "length (praw p) = 4096" "length smac = 6" "length tmac = 6"
  shows "build_arp_packet p op smac sip tmac tip
    = Done (Some (), \<lparr>praw = arp_frame op smac sip tmac tip @ drop 40 (praw p), plen = 40\<rparr>)"
proof -
  have b: "be_bytes 2 HW_TYPE_ETH = [0, 1]" "be_bytes 2 ETH_TYPE_ARP = [8, 6]" "be_bytes 1 (6 :: u8) = [6]"
    "be_bytes 1 (4 :: u8) = [4]" by code_simp+
  show ?thesis
    unfolding build_arp_packet_def pc_new_empty [OF assms(1)] b obind_simps
    using assms by (subst write_seq_at) (simp_all add: MAX_PACKET_LEN_def MAC_BROADCAST_def arp_frame_def)
qed

section \<open>Properties\<close>

text \<open>an ARP reply on the wire is accepted. For every frame that carries an Ethernet/IPv4 ARP packet,
  followed by any padding, the parser returns its fields, and \<open>is_valid_reply\<close> holds exactly for a reply
  about the requested address to our own.\<close>

theorem arp_reply_accepted:
  assumes mac: "length dst = 6" "length src = 6" "length smac = 6" "length tmac = 6"
    and raw: "praw p = dst @ src @ [0x08, 0x06, 0x00, 0x01, 0x08, 0x00, 6, 4] @ be_bytes 2 op @ smac @ be_bytes 4 sip
      @ tmac @ be_bytes 4 tip @ pad @ rest" and plen: "plen p = 42 + length pad"
  shows "\<exists>a. parse_arp p = Done (Inr a) \<and> sender_mac a = smac \<and> sender_ip a = sip \<and> target_mac a = tmac
    \<and> target_ip a = tip \<and> opcode a = op
    \<and> (is_valid_reply a ip this_ip this_mac \<longleftrightarrow> op = 2 \<and> sip = ip \<and> tip = this_ip \<and> tmac = this_mac)"
proof -
  let ?pl = "[0x00, 0x01, 0x08, 0x00, 6, 4] @ be_bytes 2 op @ smac @ be_bytes 4 sip @ tmac @ be_bytes 4 tip @ pad"
  let ?f = "dst @ src @ [0x08, 0x06] @ ?pl"
  have "praw p = ?f @ rest" "plen p = length ?f" using mac raw plen by simp_all
  then have "packet_raw p = Done ?f"
    by (rule packet_raw_prefix)
  moreover have "from_be [0x08, 0x06 :: u8] = ETH_TYPE_ARP" by code_simp
  ultimately have eth: "parse_eth p = Done (Inr \<lparr>dst_mac = dst, src_mac = src, eth_type = ETH_TYPE_ARP, eth_payload = ?pl\<rparr>)"
    using mac by (simp add: parse_eth_def parse_mac_def parse_u16_def slice_def)
  have c: "from_be [0x00, 0x01 :: u8] = HW_TYPE_ETH" "from_be [0x08, 0x00 :: u8] = ARP_ETH_TYPE_IPV4" by code_simp+
  show ?thesis
    unfolding parse_arp_def eth
    using mac by (auto simp: c from_be_bytes is_valid_reply_def)
qed

definition sample_reply :: packet where
  "sample_reply = \<lparr>praw = [1, 2, 3, 4, 5, 6] @ [7, 8, 9, 10, 11, 12] @ [0x08, 0x06, 0x00, 0x01, 0x08, 0x00, 6, 4]
     @ be_bytes 2 (2 :: u16) @ [7, 8, 9, 10, 11, 12] @ be_bytes 4 (0x0A000202 :: u32) @ [1, 2, 3, 4, 5, 6]
     @ be_bytes 4 (0x0A00020F :: u32) @ [0, 0] @ [9], plen = 44\<rparr>"

theorem arp_reply_accepted_witness:
  "\<exists>a. parse_arp sample_reply = Done (Inr a) \<and> sender_mac a = [7, 8, 9, 10, 11, 12]
    \<and> is_valid_reply a 0x0A000202 0x0A00020F [1, 2, 3, 4, 5, 6]"
  using arp_reply_accepted [of "[1, 2, 3, 4, 5, 6]" "[7, 8, 9, 10, 11, 12]" "[7, 8, 9, 10, 11, 12]" "[1, 2, 3, 4, 5, 6]"
      sample_reply 2 "0x0A000202" "0x0A00020F" "[0, 0]" "[9]" "0x0A000202" "0x0A00020F" "[1, 2, 3, 4, 5, 6]"]
  by (auto simp: sample_reply_def)

text \<open>The packet \<open>build_arp_packet\<close> builds is not an ARP packet: no Ethernet type is written, the
  hardware type stands in its place, and the kernel's own parser rejects every request and reply it builds.\<close>

theorem built_arp_is_not_arp:
  assumes p: "plen p = 0" "length (praw p) = 4096" and mac: "length smac = 6" "length tmac = 6"
  shows "\<exists>q e. build_arp_packet p op smac sip tmac tip = Done (Some (), q) \<and> plen q = 40
    \<and> parse_eth q = Done (Inr e) \<and> eth_type e = HW_TYPE_ETH \<and> parse_arp q = Done (Inl InvalidLength)"
proof -
  let ?q = "\<lparr>praw = arp_frame op smac sip tmac tip @ drop 40 (praw p), plen = 40\<rparr>"
  have len: "length (arp_frame op smac sip tmac tip) = 40" using mac by (simp add: arp_frame_def MAC_BROADCAST_def)
  then have "packet_raw ?q = Done (arp_frame op smac sip tmac tip)"
    by (intro packet_raw_prefix) simp_all
  moreover have "from_be [0, 1 :: u8] = HW_TYPE_ETH" by code_simp
  ultimately have "\<exists>e. parse_eth ?q = Done (Inr e) \<and> eth_type e = HW_TYPE_ETH"
    using mac len by (simp add: parse_eth_def parse_mac_def parse_u16_def slice_def) (simp add: arp_frame_def MAC_BROADCAST_def)
  then show ?thesis
    using build_arp_packet_eq [OF p mac] by (auto simp: parse_arp_def HW_TYPE_ETH_def ETH_TYPE_ARP_def)
qed

theorem built_arp_is_not_arp_witness:
  "\<exists>q. build_arp_packet packet_new ArpRequest [1, 2, 3, 4, 5, 6] 5 MAC_ZERO 7 = Done (Some (), q)
    \<and> parse_arp q = Done (Inl InvalidLength)"
  using built_arp_is_not_arp [of packet_new "[1, 2, 3, 4, 5, 6]" MAC_ZERO ArpRequest 5 7]
  by (auto simp: packet_new_def MAC_ZERO_def)

end
