(* ===== verification/Dhcp.thy ===== *)
theory Dhcp
  imports Udp_Props Arp
begin

text \<open>
  DHCP messages, \<open>src/kernel/src/net/protocols/dhcp.rs\<close>: the options, the packed header, the parser of a
  reply and the builder of a request. \<open>get_lease\<close>, which talks to a device, is in \<open>Net_Device\<close>.
\<close>

section \<open>Options\<close>

definition CLIENT_PORT :: port where "CLIENT_PORT = 68"
definition SERVER_PORT :: port where "SERVER_PORT = 67"
definition COOKIE :: u32 where "COOKIE = 0x63825363"

text \<open>\<open>Unsupported\<close> has no explicit discriminant: it is the one after \<open>Ack\<close>.\<close>

datatype message_type = MtDiscover | MtOffer | MtRequest | MtAck | MtUnsupported

fun message_type_number :: "message_type \<Rightarrow> u8" where
  "message_type_number MtDiscover = 1"
| "message_type_number MtOffer = 2"
| "message_type_number MtRequest = 3"
| "message_type_number MtAck = 5"
| "message_type_number MtUnsupported = 6"

definition message_type_from :: "u8 \<Rightarrow> message_type" where
  "message_type_from v =
     (if v = 1 then MtDiscover else if v = 2 then MtOffer else if v = 3 then MtRequest
      else if v = 5 then MtAck else MtUnsupported)"

datatype dhcp_option =
    Pad
  | SubnetMask u32
  | BroadcastIp u32
  | RequestedIp u32
  | LeaseTime u32
  | MessageType message_type
  | ServerIp u32
  | ParameterRequestList "u8 list"
  | RenewalTime u32
  | Unknown u8 "u8 list"
  | End

datatype dhcp_option_id =
    IdPad | IdSubnetMask | IdBroadcastIp | IdRequestedIp | IdLeaseTime | IdMessageType | IdServerIp
  | IdParameterRequestList | IdRenewalTime | IdEnd

fun option_id_number :: "dhcp_option_id \<Rightarrow> u8" where
  "option_id_number IdPad = 0"
| "option_id_number IdSubnetMask = 1"
| "option_id_number IdBroadcastIp = 28"
| "option_id_number IdRequestedIp = 50"
| "option_id_number IdLeaseTime = 51"
| "option_id_number IdMessageType = 53"
| "option_id_number IdServerIp = 54"
| "option_id_number IdParameterRequestList = 55"
| "option_id_number IdRenewalTime = 58"
| "option_id_number IdEnd = 255"

definition option_id_try_from :: "u8 \<Rightarrow> dhcp_option_id option" where
  "option_id_try_from v =
     (if v = 0 then Some IdPad else if v = 1 then Some IdSubnetMask else if v = 28 then Some IdBroadcastIp
      else if v = 50 then Some IdRequestedIp else if v = 51 then Some IdLeaseTime
      else if v = 53 then Some IdMessageType else if v = 54 then Some IdServerIp
      else if v = 55 then Some IdParameterRequestList else if v = 58 then Some IdRenewalTime
      else if v = 255 then Some IdEnd else None)"

text \<open>\<open>payload.try_into().ok()?\<close> to an array of four bytes.\<close>

definition quad :: "u8 list \<Rightarrow> (u32 \<Rightarrow> dhcp_option) \<Rightarrow> dhcp_option option" where
  "quad payload f = (if length payload = 4 then Some (f (from_be payload)) else None)"

text \<open>The pointer moves past the option that was parsed. The outer \<open>None\<close> is the unreachable arm, a panic.\<close>

definition dhcp_option_value :: "u8 \<Rightarrow> u8 list \<Rightarrow> dhcp_option option outcome" where
  "dhcp_option_value code payload =
     (case option_id_try_from code of
        Some IdSubnetMask \<Rightarrow> Done (quad payload SubnetMask)
      | Some IdBroadcastIp \<Rightarrow> Done (quad payload BroadcastIp)
      | Some IdRequestedIp \<Rightarrow> Done (quad payload RequestedIp)
      | Some IdLeaseTime \<Rightarrow> Done (quad payload LeaseTime)
      | Some IdMessageType \<Rightarrow>
          Done (case payload of [] \<Rightarrow> None | b # _ \<Rightarrow> Some (MessageType (message_type_from b)))
      | Some IdServerIp \<Rightarrow> Done (quad payload ServerIp)
      | Some IdParameterRequestList \<Rightarrow> Done (Some (ParameterRequestList payload))
      | Some IdRenewalTime \<Rightarrow> Done (quad payload RenewalTime)
      | Some _ \<Rightarrow> Panic
      | None \<Rightarrow> Done (Some (Unknown code payload)))"

definition dhcp_option_parse :: "u8 list \<Rightarrow> (dhcp_option \<times> u8 list) option outcome" where
  "dhcp_option_parse ptr =
     (case ptr of
        [] \<Rightarrow> Done None
      | code # _ \<Rightarrow>
          if option_id_try_from code = Some IdPad then Done (Some (Pad, drop 1 ptr))
          else if option_id_try_from code = Some IdEnd then Done (Some (End, drop 1 ptr))
          else if length ptr < 2 then Done None
          else let len = unat (ptr ! 1) in
            (case slice ptr 2 (2 + len) of
               None \<Rightarrow> Done None
             | Some payload \<Rightarrow>
                 oobind (dhcp_option_value code payload) (\<lambda>opt. Done (Some (opt, drop (2 + len) ptr)))))"

definition push_ip_option :: "u8 list \<Rightarrow> dhcp_option_id \<Rightarrow> u32 \<Rightarrow> u8 list" where
  "push_ip_option buffer code ip = buffer @ [option_id_number code] @ [4] @ be_bytes 4 ip"

definition push_u32_option :: "u8 list \<Rightarrow> dhcp_option_id \<Rightarrow> u32 \<Rightarrow> u8 list" where
  "push_u32_option buffer code val = buffer @ [option_id_number code] @ [4] @ be_bytes 4 val"

fun dhcp_option_serialize :: "dhcp_option \<Rightarrow> u8 list \<Rightarrow> u8 list" where
  "dhcp_option_serialize Pad buffer = buffer @ [option_id_number IdPad]"
| "dhcp_option_serialize End buffer = buffer @ [option_id_number IdEnd]"
| "dhcp_option_serialize (SubnetMask addr) buffer = push_ip_option buffer IdSubnetMask addr"
| "dhcp_option_serialize (BroadcastIp addr) buffer = push_ip_option buffer IdBroadcastIp addr"
| "dhcp_option_serialize (RequestedIp addr) buffer = push_ip_option buffer IdRequestedIp addr"
| "dhcp_option_serialize (ServerIp addr) buffer = push_ip_option buffer IdServerIp addr"
| "dhcp_option_serialize (LeaseTime t) buffer = push_u32_option buffer IdLeaseTime t"
| "dhcp_option_serialize (RenewalTime t) buffer = push_u32_option buffer IdRenewalTime t"
| "dhcp_option_serialize (MessageType typ) buffer =
     buffer @ [option_id_number IdMessageType] @ [1] @ [message_type_number typ]"
| "dhcp_option_serialize (ParameterRequestList data) buffer =
     buffer @ [option_id_number IdParameterRequestList] @ [of_nat (length data)] @ data"
| "dhcp_option_serialize (Unknown code data) buffer = buffer @ [code] @ [of_nat (length data)] @ data"

text \<open>\<open>DhcpOptionsBuilder\<close> is its buffer.\<close>

definition options_new :: "u8 list" where "options_new = []"

definition options_add :: "u8 list \<Rightarrow> dhcp_option \<Rightarrow> u8 list" where
  "options_add b opt = dhcp_option_serialize opt b"

definition options_end :: "u8 list \<Rightarrow> u8 list" where
  "options_end b = dhcp_option_serialize End b"

section \<open>The header\<close>

text \<open>The packed struct, in the machine's byte order. The enum fields \<open>op\<close> and \<open>htype\<close> are their bytes,
  and the two string fields, which nothing reads, the bytes of their arrays.\<close>

record dhcp_header =
  h_op :: u8
  h_htype :: u8
  h_hlen :: u8
  h_hops :: u8
  h_xid :: u32
  h_secs :: u16
  h_flags :: u16
  h_ciaddr :: u32
  h_yiaddr :: u32
  h_siaddr :: u32
  h_giaddr :: u32
  h_chaddr :: "u8 list"
  h_sname :: "u8 list"
  h_file :: "u8 list"
  h_cookie :: u32

definition HEADER_SIZE :: nat where "HEADER_SIZE = 240"

text \<open>Reading and writing a struct through a cast of the pointer to its bytes.\<close>

definition header_cast :: "u8 list \<Rightarrow> dhcp_header" where
  "header_cast b =
     \<lparr>h_op = b ! 0, h_htype = b ! 1, h_hlen = b ! 2, h_hops = b ! 3,
      h_xid = from_le (take 4 (drop 4 b)), h_secs = from_le (take 2 (drop 8 b)), h_flags = from_le (take 2 (drop 10 b)),
      h_ciaddr = from_le (take 4 (drop 12 b)), h_yiaddr = from_le (take 4 (drop 16 b)),
      h_siaddr = from_le (take 4 (drop 20 b)), h_giaddr = from_le (take 4 (drop 24 b)),
      h_chaddr = take 16 (drop 28 b), h_sname = take 64 (drop 44 b), h_file = take 128 (drop 108 b),
      h_cookie = from_le (take 4 (drop 236 b))\<rparr>"

definition header_bytes :: "dhcp_header \<Rightarrow> u8 list" where
  "header_bytes h =
     [h_op h, h_htype h, h_hlen h, h_hops h] @ le_bytes 4 (h_xid h) @ le_bytes 2 (h_secs h) @ le_bytes 2 (h_flags h)
     @ le_bytes 4 (h_ciaddr h) @ le_bytes 4 (h_yiaddr h) @ le_bytes 4 (h_siaddr h) @ le_bytes 4 (h_giaddr h)
     @ h_chaddr h @ h_sname h @ h_file h @ le_bytes 4 (h_cookie h)"

text \<open>\<open>u32::to_be\<close> and \<open>u32::from_be\<close> on a little-endian machine.\<close>

definition swap_u32 :: "u32 \<Rightarrow> u32" where
  "swap_u32 x = from_be (le_bytes 4 x)"

datatype dhcp_opcode = OpRequest | OpReply

fun dhcp_opcode_number :: "dhcp_opcode \<Rightarrow> u8" where
  "dhcp_opcode_number OpRequest = 1"
| "dhcp_opcode_number OpReply = 2"

datatype hardware_type = Ethernet

fun hardware_type_number :: "hardware_type \<Rightarrow> u8" where
  "hardware_type_number Ethernet = 1"

fun hardware_hlen :: "hardware_type \<Rightarrow> u8" where
  "hardware_hlen Ethernet = 6"

section \<open>Parsing a reply\<close>

lemma dhcp_option_parse_Nil [simp]: "dhcp_option_parse [] = Done None"
  by (simp add: dhcp_option_parse_def)

lemma dhcp_option_parse_byte:
  "option_id_try_from code = Some IdPad \<Longrightarrow> dhcp_option_parse (code # rest) = Done (Some (Pad, rest))"
  "option_id_try_from code = Some IdEnd \<Longrightarrow> dhcp_option_parse (code # rest) = Done (Some (End, rest))"
  by (simp_all add: dhcp_option_parse_def)

lemma dhcp_option_parse_one:
  "option_id_try_from code \<noteq> Some IdPad \<Longrightarrow> option_id_try_from code \<noteq> Some IdEnd \<Longrightarrow> dhcp_option_parse [code] = Done None"
  by (simp add: dhcp_option_parse_def)

lemma dhcp_option_parse_var:
  assumes "option_id_try_from code \<noteq> Some IdPad" "option_id_try_from code \<noteq> Some IdEnd"
  shows "dhcp_option_parse (code # n # rest) =
    (if unat n \<le> length rest
     then oobind (dhcp_option_value code (take (unat n) rest)) (\<lambda>opt. Done (Some (opt, drop (unat n) rest)))
     else Done None)"
  using assms by (simp add: dhcp_option_parse_def slice_def Let_def numeral_2_eq_2)

lemma dhcp_option_parse_shorter:
  assumes "dhcp_option_parse ptr = Done (Some (opt, rest))"
  shows "length rest < length ptr"
proof -
  consider "ptr = []" | code rest' where "ptr = code # rest'" "option_id_try_from code = Some IdPad \<or> option_id_try_from code = Some IdEnd"
    | code where "ptr = [code]" "option_id_try_from code \<noteq> Some IdPad" "option_id_try_from code \<noteq> Some IdEnd"
    | code n rest' where "ptr = code # n # rest'" "option_id_try_from code \<noteq> Some IdPad" "option_id_try_from code \<noteq> Some IdEnd"
    by (metis neq_Nil_conv)
  then show ?thesis
  proof cases
    case 2
    then show ?thesis using assms by (auto simp: dhcp_option_parse_byte)
  next
    case 3
    then show ?thesis using assms by (simp add: dhcp_option_parse_one)
  next
    case 4
    then have "\<exists>n. rest = drop n rest'"
      using assms unfolding \<open>ptr = _\<close> by (auto simp: dhcp_option_parse_var oobind_eq_Some split: if_splits)
    then show ?thesis using 4 by auto
  qed (use assms in simp)
qed

text \<open>The \<open>while\<close> loop: it stops at the end and at the first option that cannot be parsed.\<close>

function parse_options :: "u8 list \<Rightarrow> dhcp_option list outcome" where
  "parse_options raw =
     (if raw = [] then Done []
      else obind (dhcp_option_parse raw) (\<lambda>r.
        case r of
          None \<Rightarrow> Done []
        | Some (opt, rest) \<Rightarrow> obind (parse_options rest) (\<lambda>opts. Done (opt # opts))))"
  by pat_completeness auto
termination
  by (relation "measure length") (auto dest: dhcp_option_parse_shorter)

declare parse_options.simps [simp del]

definition parse_dhcp_reply :: "udp_parsed \<Rightarrow> u32 \<Rightarrow> (dhcp_header \<times> dhcp_option list) option outcome" where
  "parse_dhcp_reply udp xid =
     (if length (udp_payload udp) < HEADER_SIZE then Done None
      else
        let header = header_cast (take HEADER_SIZE (udp_payload udp));
            raw_options = drop HEADER_SIZE (udp_payload udp);
            cookie = swap_u32 (h_cookie header);
            header_xid = swap_u32 (h_xid header) in
        if header_xid \<noteq> xid then Done None
        else if h_op header \<noteq> dhcp_opcode_number OpReply
          \<or> h_htype header \<noteq> hardware_type_number Ethernet
          \<or> h_hlen header \<noteq> hardware_hlen Ethernet
          \<or> cookie \<noteq> COOKIE
        then Done None
        else obind (parse_options raw_options) (\<lambda>options. Done (Some (header, options))))"

section \<open>Building a request\<close>

definition fill_header :: "u32 \<Rightarrow> mac \<Rightarrow> dhcp_header \<Rightarrow> dhcp_header" where
  "fill_header xid m h = h\<lparr>h_op := dhcp_opcode_number OpRequest, h_htype := hardware_type_number Ethernet,
     h_hlen := hardware_hlen Ethernet, h_xid := swap_u32 xid, h_chaddr := m @ drop 6 (h_chaddr h),
     h_cookie := swap_u32 COOKIE\<rparr>"

definition create_dhcp_request :: "packet \<Rightarrow> u32 \<Rightarrow> mac \<Rightarrow> u8 list \<Rightarrow> packet outcome" where
  "create_dhcp_request p xid m options =
     (let addr = \<lparr>na_src_mac = m, na_src_ip = IpV4 0, na_src_port = CLIENT_PORT,
                  na_dst_mac = MAC_BROADCAST, na_dst_ip = IpV4 (NOT 0), na_dst_port = SERVER_PORT\<rparr> in
      obind (create_udp p addr) (\<lambda>b.
      obind (udp_write b (replicate HEADER_SIZE 0)) (\<lambda>(_, b).
      obind (pc_get_mut (ub_payload b) (\<lambda>bs.
        header_bytes (fill_header xid m (header_cast (take HEADER_SIZE bs))) @ drop HEADER_SIZE bs)) (\<lambda>payload.
      obind (udp_write (b\<lparr>ub_payload := payload\<rparr>) options) (\<lambda>(_, b).
        udp_drop b)))))"

text \<open>The options that \<open>get_lease\<close> sends.\<close>

definition request_options :: "message_type \<Rightarrow> dhcp_option list \<Rightarrow> u8 list" where
  "request_options typ extra =
     (let opts = options_add options_new (MessageType typ);
          opts = options_add opts (ParameterRequestList
            [option_id_number IdMessageType, option_id_number IdServerIp, option_id_number IdBroadcastIp,
             option_id_number IdSubnetMask])
      in options_end (fold (\<lambda>opt b. options_add b opt) extra opts))"

end
