(* ===== verification/Dhcp_Props.thy ===== *)
theory Dhcp_Props
  imports Dhcp
begin

text \<open>
  DHCP messages: options and headers survive encoding and decoding, the parser of replies is total, and
  what a request looks like on the wire.
\<close>

section \<open>Options\<close>

text \<open>The options that can be told apart on the wire: a length fits its byte, and an unknown option does not
  use the code of a known one.\<close>

fun wire_option :: "dhcp_option \<Rightarrow> bool" where
  "wire_option (ParameterRequestList data) \<longleftrightarrow> length data < 256"
| "wire_option (Unknown code data) \<longleftrightarrow> length data < 256 \<and> option_id_try_from code = None"
| "wire_option _ \<longleftrightarrow> True"

lemma serialize_append: "dhcp_option_serialize opt b = b @ dhcp_option_serialize opt []"
  by (cases opt) (simp_all add: push_ip_option_def push_u32_option_def)

lemma message_type_from_number [simp]: "message_type_from (message_type_number t) = t"
  by (cases t) (simp_all add: message_type_from_def)

lemma option_id_try_from_number [simp]: "option_id_try_from (option_id_number i) = Some i"
  by (cases i) (simp_all add: option_id_try_from_def)

lemma unat_of_nat_u8: "n < 256 \<Longrightarrow> unat (of_nat n :: u8) = n"
  by (simp only: unsigned_of_nat) (simp add: take_bit_nat_eq_self)

lemma parse_ip_option:
  assumes "dhcp_option_value (option_id_number i) (be_bytes 4 v) = Done (Some opt)" "i \<noteq> IdPad" "i \<noteq> IdEnd"
  shows "dhcp_option_parse (push_ip_option [] i v @ rest) = Done (Some (opt, rest))"
    "dhcp_option_parse (push_u32_option [] i v @ rest) = Done (Some (opt, rest))"
  using assms by (simp_all add: push_ip_option_def push_u32_option_def dhcp_option_parse_var)

lemma quad_be [simp]: "quad (be_bytes 4 v) f = Some (f v)"
  by (simp add: quad_def from_be_bytes)

lemma dhcp_option_value_id: "dhcp_option_value (option_id_number i) payload =
  (case i of
     IdSubnetMask \<Rightarrow> Done (quad payload SubnetMask) | IdBroadcastIp \<Rightarrow> Done (quad payload BroadcastIp)
   | IdRequestedIp \<Rightarrow> Done (quad payload RequestedIp) | IdLeaseTime \<Rightarrow> Done (quad payload LeaseTime)
   | IdMessageType \<Rightarrow> Done (case payload of [] \<Rightarrow> None | b # _ \<Rightarrow> Some (MessageType (message_type_from b)))
   | IdServerIp \<Rightarrow> Done (quad payload ServerIp) | IdParameterRequestList \<Rightarrow> Done (Some (ParameterRequestList payload))
   | IdRenewalTime \<Rightarrow> Done (quad payload RenewalTime) | _ \<Rightarrow> Panic)"
  unfolding dhcp_option_value_def option_id_try_from_number by (cases i) simp_all

lemma parse_serialize:
  assumes "wire_option opt"
  shows "dhcp_option_parse (dhcp_option_serialize opt [] @ rest) = Done (Some (opt, rest))"
proof (cases opt)
  case (ParameterRequestList data)
  moreover have "dhcp_option_value (option_id_number IdParameterRequestList) data = Done (Some opt)"
    using ParameterRequestList by (simp only: dhcp_option_value_id) simp
  ultimately show ?thesis
    using assms dhcp_option_parse_var [of "option_id_number IdParameterRequestList" "of_nat (length data)" "data @ rest"]
    by (simp add: unat_of_nat_u8 del: option_id_number.simps)
next
  case (MessageType t)
  moreover have "dhcp_option_value (option_id_number IdMessageType) [message_type_number t] = Done (Some opt)"
    using MessageType by (simp only: dhcp_option_value_id) simp
  ultimately show ?thesis
    using dhcp_option_parse_var [of "option_id_number IdMessageType" 1 "message_type_number t # rest"]
    by (simp del: option_id_number.simps)
next
  case (Unknown code data)
  then have "option_id_try_from code = None" "length data < 256" using assms by simp_all
  then show ?thesis
    using Unknown dhcp_option_parse_var [of code "of_nat (length data)" "data @ rest"]
    by (simp add: unat_of_nat_u8 dhcp_option_value_def)
qed (simp_all add: parse_ip_option dhcp_option_value_id dhcp_option_parse_byte del: option_id_number.simps)

lemma parse_options_step:
  assumes "dhcp_option_parse raw = Done (Some (opt, rest))"
  shows "parse_options raw = obind (parse_options rest) (\<lambda>opts. Done (opt # opts))"
proof -
  have "raw \<noteq> []" using assms by auto
  then show ?thesis using assms by (subst parse_options.simps) simp
qed

definition wire :: "dhcp_option list \<Rightarrow> u8 list" where
  "wire opts = concat (map (\<lambda>opt. dhcp_option_serialize opt []) opts)"

lemma parse_options_wire:
  assumes "list_all wire_option opts"
  shows "parse_options (wire opts) = Done opts"
  using assms
proof (induction opts)
  case Nil
  then show ?case by (simp add: wire_def parse_options.simps)
next
  case (Cons opt opts)
  then have "dhcp_option_parse (wire (opt # opts)) = Done (Some (opt, wire opts))"
    by (simp add: wire_def parse_serialize)
  with Cons show ?case by (simp add: parse_options_step)
qed

lemma fold_options_add: "fold (\<lambda>opt b. options_add b opt) opts b = b @ wire opts"
proof (induction opts arbitrary: b)
  case (Cons opt opts)
  then show ?case
    using serialize_append [of opt b] by (simp add: options_add_def wire_def)
qed (simp add: wire_def)

text \<open>No input makes the parser panic: the unreachable arm is not reached.\<close>

lemma dhcp_option_parse_total: "dhcp_option_parse ptr \<noteq> Panic"
proof -
  have v: "dhcp_option_value code payload \<noteq> Panic"
    if "option_id_try_from code \<noteq> Some IdPad" "option_id_try_from code \<noteq> Some IdEnd" for code payload
    using that by (auto simp: dhcp_option_value_def split: option.split dhcp_option_id.split)
  show ?thesis
  proof (cases ptr)
    case (Cons code tl)
    show ?thesis
    proof (cases "option_id_try_from code = Some IdPad \<or> option_id_try_from code = Some IdEnd")
      case True
      then show ?thesis using Cons by (auto simp: dhcp_option_parse_byte)
    next
      case False
      with Cons show ?thesis
        using v [of code] by (cases tl) (auto simp: dhcp_option_parse_one dhcp_option_parse_var oobind_def obind_def
            split: outcome.splits option.splits)
    qed
  qed simp
qed

lemma parse_options_total: "\<exists>opts. parse_options raw = Done opts"
proof (induction raw rule: parse_options.induct)
  case (1 raw)
  then show ?case
    using dhcp_option_parse_total [of raw]
    by (subst parse_options.simps) (cases "dhcp_option_parse raw", auto split: option.splits)
qed

section \<open>Headers\<close>

definition header_wf :: "dhcp_header \<Rightarrow> bool" where
  "header_wf h \<longleftrightarrow> length (h_chaddr h) = 16 \<and> length (h_sname h) = 64 \<and> length (h_file h) = 128"

lemma length_header_bytes [simp]: "header_wf h \<Longrightarrow> length (header_bytes h) = HEADER_SIZE"
  by (simp add: header_wf_def header_bytes_def HEADER_SIZE_def)

lemma header_cast_bytes [simp]: "header_wf h \<Longrightarrow> header_cast (header_bytes h) = h"
  by (cases h) (simp add: header_wf_def header_bytes_def header_cast_def from_le_bytes nth_append)

lemma swap_u32_swap [simp]: "swap_u32 (swap_u32 x) = x"
proof -
  have "le_bytes 4 (from_be (le_bytes 4 x) :: u32) = rev (le_bytes 4 x)"
    using le_bytes_from_le [of "rev (le_bytes 4 x)", where 'a = 32] by (simp add: from_be_def)
  then show ?thesis by (simp add: swap_u32_def from_be_def from_le_bytes)
qed

lemma swap_u32_bytes: "le_bytes 4 (swap_u32 x) = be_bytes 4 x"
proof -
  have "swap_u32 x = from_le (be_bytes 4 x)" by (simp add: swap_u32_def from_be_def be_bytes_def)
  then show ?thesis using le_bytes_from_le [of "be_bytes 4 x", where 'a = 32] by simp
qed

text \<open>The header of a request.\<close>

definition request_header :: "u32 \<Rightarrow> mac \<Rightarrow> dhcp_header" where
  "request_header xid m =
     \<lparr>h_op = 1, h_htype = 1, h_hlen = 6, h_hops = 0, h_xid = swap_u32 xid, h_secs = 0, h_flags = 0, h_ciaddr = 0,
      h_yiaddr = 0, h_siaddr = 0, h_giaddr = 0, h_chaddr = m @ replicate 10 0, h_sname = replicate 64 0,
      h_file = replicate 128 0, h_cookie = swap_u32 COOKIE\<rparr>"

lemma header_cast_zero: "header_cast (replicate HEADER_SIZE 0) =
  \<lparr>h_op = 0, h_htype = 0, h_hlen = 0, h_hops = 0, h_xid = 0, h_secs = 0, h_flags = 0, h_ciaddr = 0,
   h_yiaddr = 0, h_siaddr = 0, h_giaddr = 0, h_chaddr = replicate 16 0, h_sname = replicate 64 0,
   h_file = replicate 128 0, h_cookie = 0\<rparr>"
  by (simp add: header_cast_def HEADER_SIZE_def from_le_zero)

lemma fill_header_zero:
  "fill_header xid m (header_cast (replicate HEADER_SIZE 0)) = request_header xid m"
  by (simp add: header_cast_zero fill_header_def request_header_def)

lemma request_header_wf: "length m = 6 \<Longrightarrow> header_wf (request_header xid m)"
  by (simp add: header_wf_def request_header_def)

definition request_addr :: "mac \<Rightarrow> net_address" where
  "request_addr m = \<lparr>na_src_mac = m, na_src_ip = IpV4 0, na_src_port = CLIENT_PORT,
     na_dst_mac = MAC_BROADCAST, na_dst_ip = IpV4 (NOT 0), na_dst_port = SERVER_PORT\<rparr>"

lemma create_dhcp_request_eq:
  assumes p: "plen p = 0" "length (praw p) = 4096" and m: "length m = 6" and opts: "length options \<le> 1232"
  shows "create_dhcp_request p xid m options = send_udp p (request_addr m) (header_bytes (request_header xid m) @ options)"
proof -
  let ?h = "header_bytes (request_header xid m)" and ?r = "drop 42 (praw p)"
  let ?ub = "ub_v4 (request_addr m) 0 (NOT 0)"
  have l: "length ?h = 240" using length_header_bytes [OF request_header_wf [OF m]] by (simp add: HEADER_SIZE_def)
  have addr: "length (na_src_mac (request_addr m)) = 6" "length (na_dst_mac (request_addr m)) = 6"
    "na_src_ip (request_addr m) = IpV4 0" "na_dst_ip (request_addr m) = IpV4 (NOT 0)"
    using m by (simp_all add: request_addr_def MAC_BROADCAST_def)
  have w1: "udp_write (?ub [] ?r 42) (replicate HEADER_SIZE 0)
      = Done (Some (0, 240), ?ub (replicate HEADER_SIZE 0) (drop 240 ?r) 282)"
    using p udp_write_v4 [of "[]" "replicate HEADER_SIZE 0" ?r "request_addr m" 0 "NOT 0" 42] by (simp add: HEADER_SIZE_def)
  have g: "pc_get_mut (ub_payload (?ub (replicate HEADER_SIZE 0) (drop 240 ?r) 282)) (\<lambda>bs.
        header_bytes (fill_header xid m (header_cast (take HEADER_SIZE bs))) @ drop HEADER_SIZE bs)
      = Done (pc_at 42 ?h (drop 240 ?r) 282)"
    using l fill_header_zero [of xid m]
    by (simp add: ub_v4_def pc_get_mut_def pc_at_def cursor_get_mut_def cursor_get_def HEADER_SIZE_def slice_def)
  have u: "(?ub d r n)\<lparr>ub_payload := pc_at 42 d' r' n'\<rparr> = ?ub d' r' n'" for d r n d' r' n' by (simp add: ub_v4_def)
  have w2: "udp_write (?ub ?h (drop 240 ?r) 282) options
      = Done (Some (240, 240 + length options), ?ub (?h @ options) (drop (length options) (drop 240 ?r)) (282 + length options))"
    using p opts l udp_write_v4 [of ?h options "drop 240 ?r" "request_addr m" 0 "NOT 0" 282] by simp
  have len: "length (?h @ options) \<le> 1472" using l opts by simp
  have s: "send_udp p (request_addr m) (?h @ options)
      = Done \<lparr>praw = packet_v4 (request_addr m) 0 (NOT 0) (?h @ options) @ drop (length options) (drop 240 ?r), plen = 282 + length options\<rparr>"
    unfolding send_udp_v4 [OF p addr len] using l by (simp add: ac_simps)
  show ?thesis
    unfolding create_dhcp_request_def request_addr_def [symmetric] Let_def create_udp_v4 [OF p addr] obind_simps w1
      prod.case g u w2 udp_drop_v4 [OF len] s ..
qed

section \<open>Properties\<close>

text \<open>C35: a list of options written by the options builder is read back as it was written, followed by
  the end marker the builder adds.\<close>

theorem dhcp_options_round_trip:
  assumes "list_all wire_option opts"
  shows "parse_options (options_end (fold (\<lambda>opt b. options_add b opt) opts options_new)) = Done (opts @ [End])"
proof -
  have "options_end (fold (\<lambda>opt b. options_add b opt) opts options_new) = wire (opts @ [End])"
    by (simp add: fold_options_add options_new_def options_end_def wire_def)
  then show ?thesis using parse_options_wire [of "opts @ [End]"] assms by simp
qed

theorem dhcp_options_round_trip_witness:
  "parse_options (options_end (fold (\<lambda>opt b. options_add b opt)
     [MessageType MtOffer, Pad, ServerIp 0x0A000202, Unknown 3 [1, 2]] options_new))
   = Done [MessageType MtOffer, Pad, ServerIp 0x0A000202, Unknown 3 [1, 2], End]"
  using dhcp_options_round_trip [of "[MessageType MtOffer, Pad, ServerIp 0x0A000202, Unknown 3 [1, 2]]"]
  by (simp add: option_id_try_from_def)

text \<open>the parser of replies returns on every input, and accepts exactly the well-formed replies to the
  transaction: the datagram of a header and options is accepted with these options if and only if the
  header is an Ethernet reply with the magic cookie and the transaction's id.\<close>

theorem dhcp_reply_parsed:
  assumes wf: "header_wf h" "list_all wire_option opts" and pl: "udp_payload udp = header_bytes h @ wire opts"
  shows "(\<forall>u x. \<exists>r. parse_dhcp_reply u x = Done r)
    \<and> parse_dhcp_reply udp xid =
        Done (if h_xid h = swap_u32 xid \<and> h_op h = 2 \<and> h_htype h = 1 \<and> h_hlen h = 6 \<and> h_cookie h = swap_u32 COOKIE
              then Some (h, opts) else None)"
proof
  show "\<forall>u x. \<exists>r. parse_dhcp_reply u x = Done r"
  proof (intro allI)
    fix u :: udp_parsed and x
    obtain opts where "parse_options (drop HEADER_SIZE (udp_payload u)) = Done opts"
      using parse_options_total by blast
    then show "\<exists>r. parse_dhcp_reply u x = Done r"
      by (auto simp: parse_dhcp_reply_def Let_def)
  qed
  have sw: "swap_u32 a = b \<longleftrightarrow> a = swap_u32 b" for a b by auto
  show "parse_dhcp_reply udp xid =
        Done (if h_xid h = swap_u32 xid \<and> h_op h = 2 \<and> h_htype h = 1 \<and> h_hlen h = 6 \<and> h_cookie h = swap_u32 COOKIE
              then Some (h, opts) else None)"
    using wf by (simp add: parse_dhcp_reply_def pl Let_def parse_options_wire sw)
qed

definition sample_udp :: udp_parsed where
  "sample_udp = \<lparr>udp_ip = PV4 \<lparr>v4_eth = \<lparr>dst_mac = MAC_ZERO, src_mac = MAC_ZERO, eth_type = ETH_TYPE_IPV4, eth_payload = []\<rparr>,
       v4_src_ip = 0, v4_dst_ip = 0, v4_protocol = 0x11, v4_payload = []\<rparr>, src_port = 67, dst_port = 68,
     udp_payload = header_bytes ((request_header 7 MAC_ZERO)\<lparr>h_op := 2\<rparr>) @ wire [MessageType MtAck, End]\<rparr>"

theorem dhcp_reply_parsed_witness:
  "parse_dhcp_reply sample_udp 7 = Done (Some ((request_header 7 MAC_ZERO)\<lparr>h_op := 2\<rparr>, [MessageType MtAck, End]))"
  using dhcp_reply_parsed [of "(request_header 7 MAC_ZERO)\<lparr>h_op := 2\<rparr>" "[MessageType MtAck, End]" sample_udp 7]
  by (simp add: sample_udp_def header_wf_def request_header_def MAC_ZERO_def)

text \<open>C36: a request with up to 1232 bytes of options, as it leaves the device: a broadcast UDP datagram from
  port 68 to port 67 whose payload is a DHCP header followed by the options; the header says an Ethernet
  boot request with the transaction's id and the cookie in network byte order and the client's address.\<close>

theorem dhcp_request_on_wire:
  assumes p: "plen p = 0" "length (praw p) = 4096" and m: "length m = 6" and opts: "length options \<le> 1232"
  shows "\<exists>q u. create_dhcp_request p xid m options = Done q \<and> parse_udp q = Done (Inr u)
    \<and> src_port u = 68 \<and> dst_port u = 67 \<and> ip_dst_ip (udp_ip u) = IpV4 0xFFFFFFFF
    \<and> src_mac (ip_eth (udp_ip u)) = m \<and> dst_mac (ip_eth (udp_ip u)) = replicate 6 0xFF
    \<and> udp_payload u = [1, 1, 6, 0] @ be_bytes 4 xid @ replicate 20 0 @ m @ replicate 202 0 @ be_bytes 4 COOKIE @ options"
proof -
  let ?h = "header_bytes (request_header xid m)"
  have l: "length ?h = 240" using length_header_bytes [OF request_header_wf [OF m]] by (simp add: HEADER_SIZE_def)
  have addr: "length (na_src_mac (request_addr m)) = 6" "length (na_dst_mac (request_addr m)) = 6"
    "na_src_ip (request_addr m) = IpV4 0" "na_dst_ip (request_addr m) = IpV4 (NOT 0)"
    using m by (simp_all add: request_addr_def MAC_BROADCAST_def)
  have len: "length (?h @ options) \<le> 1472" using l opts by simp
  have z: "le_bytes n (0 :: 'a::len word) = replicate n 0" for n
    by (simp add: le_bytes_def map_replicate_const)
  have rep: "replicate 20 (0 :: u8) = replicate 2 0 @ replicate 2 0 @ replicate 4 0 @ replicate 4 0 @ replicate 4 0 @ replicate 4 0"
    "replicate 202 (0 :: u8) = replicate 10 0 @ replicate 64 0 @ replicate 128 0"
    by (simp_all flip: replicate_add)
  have "?h = [1, 1, 6, 0] @ be_bytes 4 xid @ replicate 20 0 @ m @ replicate 202 0 @ be_bytes 4 COOKIE"
    unfolding rep by (simp only: header_bytes_def request_header_def dhcp_header.simps swap_u32_bytes z append_assoc)
  moreover obtain q u where "send_udp p (request_addr m) (?h @ options) = Done q" "parse_udp q = Done (Inr u)"
    "udp_payload u = ?h @ options" "src_port u = na_src_port (request_addr m)" "dst_port u = na_dst_port (request_addr m)"
    "ip_dst_ip (udp_ip u) = na_dst_ip (request_addr m)" "src_mac (ip_eth (udp_ip u)) = na_src_mac (request_addr m)"
    "dst_mac (ip_eth (udp_ip u)) = na_dst_mac (request_addr m)"
    using parse_send_udp_v4 [OF p addr len] by blast
  ultimately show ?thesis
    using create_dhcp_request_eq [OF p m opts]
    by (intro exI [of _ q] exI [of _ u]) (simp add: request_addr_def CLIENT_PORT_def SERVER_PORT_def MAC_BROADCAST_def)
qed

theorem dhcp_request_on_wire_witness:
  "\<exists>q u. create_dhcp_request packet_new 7 [1, 2, 3, 4, 5, 6] (request_options MtDiscover []) = Done q
    \<and> parse_udp q = Done (Inr u) \<and> src_port u = 68 \<and> dst_port u = 67
    \<and> take 8 (udp_payload u) = [1, 1, 6, 0, 0, 0, 0, 7]"
proof -
  have l: "length (request_options MtDiscover []) \<le> 1232" by code_simp
  have b: "be_bytes 4 (7 :: u32) = [0, 0, 0, 7]" by code_simp
  show ?thesis
    using dhcp_request_on_wire [of packet_new "[1, 2, 3, 4, 5, 6]" "request_options MtDiscover []" 7, OF _ _ _ l]
    by (auto simp: packet_new_def b)
qed

end
