(* ===== verification/Net_Device.thy ===== *)
theory Net_Device
  imports Dhcp Sync
begin

text \<open>
  Network devices: \<open>src/kernel/src/net/net.rs\<close> and the handlers of \<open>protocols/arp.rs\<close>,
  \<open>protocols/udp.rs\<close> and \<open>protocols/dhcp.rs\<close> that work on a device, with the deadlines of
  \<open>src/kernel/src/time.rs\<close>.

  The trait \<open>NetDriver\<close> is a record of its methods over the state \<open>'d\<close> of the hardware behind the
  driver; the processor's time-stamp counter is read from the same state. A received packet is leased:
  dropping the lease gives it back with \<open>release_packet\<close>, and every path below does so where the code
  drops it. A loop that ends only when a packet or the deadline comes is a \<open>partial_function\<close>, so that
  \<open>None\<close> means that it does not return.
\<close>

section \<open>Drivers and time\<close>

record 'd net_driver =
  drv_reset :: "'d \<Rightarrow> 'd outcome"
  drv_mac :: "'d \<Rightarrow> mac"
  drv_send :: "'d \<Rightarrow> packet \<Rightarrow> bool \<Rightarrow> 'd outcome"
  drv_recv :: "'d \<Rightarrow> (packet option \<times> 'd) outcome"
  drv_allocate_packet :: "'d \<Rightarrow> (packet \<times> 'd) outcome"
  drv_release_packet :: "'d \<Rightarrow> packet \<Rightarrow> 'd outcome"

text \<open>The provided methods of the trait.\<close>

definition default_allocate_packet :: "'d \<Rightarrow> (packet \<times> 'd) outcome" where
  "default_allocate_packet d = Done (packet_new, d)"

definition default_release_packet :: "'d \<Rightarrow> packet \<Rightarrow> 'd outcome" where
  "default_release_packet d p = Done d"

record 'd net_platform = "'d net_driver" +
  rdtsc :: "'d \<Rightarrow> u64 \<times> 'd"
  tsc_mhz :: u64

definition time_future :: "'d net_platform \<Rightarrow> 'd \<Rightarrow> u64 \<Rightarrow> (u64 \<times> 'd) outcome" where
  "time_future pf d ms =
     (let (now, d) = rdtsc pf d in
      obind (pmul ms (tsc_mhz pf)) (\<lambda>w. obind (padd now w) (\<lambda>t. Done (t, d))))"

section \<open>Devices\<close>

text \<open>A \<open>VecDeque\<close> with its capacity.\<close>

record udp_queue =
  q_items :: "packet list"
  q_capacity :: nat

definition vecdeque_new :: udp_queue where
  "vecdeque_new = \<lparr>q_items = [], q_capacity = 0\<rparr>"

record dhcp_lease =
  client_ip :: u32
  server_ip :: u32
  broadcast_ip :: "u32 option"
  subnet_mask :: "u32 option"

record 'd net_device =
  dev_id :: nat
  dev_driver :: 'd
  dev_mac :: mac
  dev_lease :: "dhcp_lease option"
  udp_binds :: "port \<rightharpoonup> udp_queue"

definition dev_recv :: "'d net_platform \<Rightarrow> 'd net_device \<Rightarrow> (lease \<times> 'd net_device) outcome" where
  "dev_recv pf dev = obind (drv_recv pf (dev_driver dev)) (\<lambda>(p, d). Done (p, dev\<lparr>dev_driver := d\<rparr>))"

definition dev_send :: "'d net_platform \<Rightarrow> 'd net_device \<Rightarrow> packet \<Rightarrow> bool \<Rightarrow> 'd net_device outcome" where
  "dev_send pf dev p flush = obind (drv_send pf (dev_driver dev) p flush) (\<lambda>d. Done (dev\<lparr>dev_driver := d\<rparr>))"

definition dev_allocate_packet :: "'d net_platform \<Rightarrow> 'd net_device \<Rightarrow> (packet \<times> 'd net_device) outcome" where
  "dev_allocate_packet pf dev = obind (drv_allocate_packet pf (dev_driver dev)) (\<lambda>(p, d). Done (p, dev\<lparr>dev_driver := d\<rparr>))"

definition dev_release_packet :: "'d net_platform \<Rightarrow> 'd net_device \<Rightarrow> packet \<Rightarrow> 'd net_device outcome" where
  "dev_release_packet pf dev p = obind (drv_release_packet pf (dev_driver dev) p) (\<lambda>d. Done (dev\<lparr>dev_driver := d\<rparr>))"

fun release_all :: "'d net_platform \<Rightarrow> 'd net_device \<Rightarrow> packet list \<Rightarrow> 'd net_device outcome" where
  "release_all pf dev [] = Done dev"
| "release_all pf dev (p # ps) = obind (dev_release_packet pf dev p) (\<lambda>dev. release_all pf dev ps)"

text \<open>Dropping an \<open>Option<PacketLease>\<close>.\<close>

definition drop_lease :: "'d net_platform \<Rightarrow> 'd net_device \<Rightarrow> lease \<Rightarrow> 'd net_device outcome" where
  "drop_lease pf dev l = release_all pf dev (lease_drop l)"

section \<open>Ports\<close>

definition EPHEMERAL_START :: u16 where "EPHEMERAL_START = 49152"

text \<open>The port that was free, and the new value of \<open>NEXT_FREE_PORT\<close>.\<close>

definition next_free :: "u16 \<Rightarrow> port \<times> u16" where
  "next_free prev = (prev, if prev = 0xFFFF then EPHEMERAL_START else prev + 1)"

definition bind_udp_port :: "'d net_device \<Rightarrow> port \<Rightarrow> port option \<times> 'd net_device" where
  "bind_udp_port dev p =
     (if udp_binds dev p \<noteq> None then (None, dev)
      else (Some p, dev\<lparr>udp_binds := (udp_binds dev)(p \<mapsto> vecdeque_new)\<rparr>))"

partial_function (option) bind_udp :: "u16 \<Rightarrow> 'd net_device \<Rightarrow> (port \<times> u16 \<times> 'd net_device) option" where
  "bind_udp nxt dev =
     (let (p, nxt) = next_free nxt in
      case bind_udp_port dev p of
        (Some b, dev) \<Rightarrow> Some (b, nxt, dev)
      | (None, dev) \<Rightarrow> bind_udp nxt dev)"

definition unbind_udp :: "'d net_platform \<Rightarrow> 'd net_device \<Rightarrow> port \<Rightarrow> 'd net_device outcome" where
  "unbind_udp pf dev p =
     (case udp_binds dev p of
        None \<Rightarrow> Done dev
      | Some queue \<Rightarrow> release_all pf (dev\<lparr>udp_binds := (udp_binds dev)(p := None)\<rparr>) (q_items queue))"

section \<open>Packets nobody asked for\<close>

text \<open>The answer of \<open>discard_arp\<close> to a request.\<close>

definition discard_arp_reply :: "'d net_platform \<Rightarrow> 'd net_device \<Rightarrow> arp_parsed \<Rightarrow> 'd net_device outcome" where
  "discard_arp_reply pf dev a =
     (case dev_lease dev of
        None \<Rightarrow> Done dev
      | Some lease \<Rightarrow>
          let this_ip = client_ip lease in
          if opcode a = arp_opcode_number ArpRequest \<and> hw_type a = HW_TYPE_ETH \<and> proto_type a = ARP_ETH_TYPE_IPV4
            \<and> hw_size a = 6 \<and> proto_size a = 4 \<and> target_ip a = this_ip
          then
            obind (dev_allocate_packet pf dev) (\<lambda>(p, dev).
            obind (build_arp_packet p ArpReply (dev_mac dev) this_ip (sender_mac a) (sender_ip a)) (\<lambda>(_, p).
              dev_send pf dev p True))
          else Done dev)"

definition discard_arp :: "'d net_platform \<Rightarrow> 'd net_device \<Rightarrow> lease \<Rightarrow> (lease \<times> 'd net_device) outcome" where
  "discard_arp pf dev packet =
     (case packet of
        None \<Rightarrow> Done (None, dev)
      | Some pk \<Rightarrow>
          obind (parse_arp pk) (\<lambda>r.
            case r of
              Inl _ \<Rightarrow> Done (Some pk, dev)
            | Inr arp \<Rightarrow>
                obind (discard_arp_reply pf dev arp) (\<lambda>dev.
                obind (dev_release_packet pf dev pk) (\<lambda>dev. Done (None, dev)))))"

text \<open>After \<open>packet.take()\<close> the option is empty, so the second \<open>take().unwrap()\<close> panics.\<close>

definition discard_udp :: "'d net_platform \<Rightarrow> 'd net_device \<Rightarrow> lease \<Rightarrow> (lease \<times> 'd net_device) outcome" where
  "discard_udp pf dev packet =
     (case packet of
        None \<Rightarrow> Done (None, dev)
      | Some pk \<Rightarrow>
          obind (parse_udp pk) (\<lambda>r.
            case r of
              Inl _ \<Rightarrow> Done (Some pk, dev)
            | Inr udp \<Rightarrow>
                (case udp_binds dev (dst_port udp) of
                   None \<Rightarrow> obind (dev_release_packet pf dev pk) (\<lambda>dev. Done (None, dev))
                 | Some ent \<Rightarrow>
                     if length (q_items ent) < q_capacity ent then
                       obind (lease_take None) (\<lambda>p.
                         obind (dev_release_packet pf
                           (dev\<lparr>udp_binds := (udp_binds dev)(dst_port udp \<mapsto> ent\<lparr>q_items := q_items ent @ [p]\<rparr>)\<rparr>) pk) (\<lambda>dev.
                           Done (None, dev)))
                     else obind (dev_release_packet pf dev pk) (\<lambda>dev. Done (None, dev)))))"

definition discard :: "'d net_platform \<Rightarrow> 'd net_device \<Rightarrow> packet \<Rightarrow> 'd net_device outcome" where
  "discard pf dev packet =
     obind (discard_arp pf dev (Some packet)) (\<lambda>(l, dev).
     obind (discard_udp pf dev l) (\<lambda>(l, dev).
       drop_lease pf dev l))"

section \<open>Receiving\<close>

text \<open>A closure \<open>FnMut\<close> is a function on the variables \<open>'v\<close> it captures.\<close>

type_synonym ('v, 't) handler = "packet \<Rightarrow> udp_parsed \<Rightarrow> 'v \<Rightarrow> ('t option \<times> 'v) outcome"

definition recv_udp ::
  "'d net_platform \<Rightarrow> port \<Rightarrow> ('v, 't) handler \<Rightarrow> 'v \<Rightarrow> 'd net_device \<Rightarrow> ('t option \<times> 'v \<times> 'd net_device) outcome" where
  "recv_udp pf port func v dev =
     (case udp_binds dev port of
        None \<Rightarrow> Done (None, v, dev)
      | Some ent \<Rightarrow>
          (case q_items ent of
             p # ps \<Rightarrow>
               obind (parse_udp p) (\<lambda>r.
               obind (unwrap_result r) (\<lambda>udp.
               obind (func p udp v) (\<lambda>(ret, v).
               obind (dev_release_packet pf (dev\<lparr>udp_binds := (udp_binds dev)(port \<mapsto> ent\<lparr>q_items := ps\<rparr>)\<rparr>) p) (\<lambda>dev.
                 Done (ret, v, dev)))))
           | [] \<Rightarrow>
               obind (dev_recv pf dev) (\<lambda>(packet, dev).
                 case packet of
                   None \<Rightarrow> Done (None, v, dev)
                 | Some p \<Rightarrow>
                     obind (parse_udp p) (\<lambda>r.
                       case r of
                         Inr udp \<Rightarrow>
                           if dst_port udp = port then
                             obind (func p udp v) (\<lambda>(ret, v).
                             obind (dev_release_packet pf dev p) (\<lambda>dev. Done (ret, v, dev)))
                           else obind (discard pf dev p) (\<lambda>dev. Done (None, v, dev))
                       | Inl _ \<Rightarrow> obind (discard pf dev p) (\<lambda>dev. Done (None, v, dev))))))"

text \<open>The loop of \<open>recv_timeout\<close>.\<close>

partial_function (option) recv_loop ::
  "'d net_platform \<Rightarrow> port \<Rightarrow> u64 \<Rightarrow> ('v, 't) handler \<Rightarrow> 'v \<Rightarrow> 'd net_device \<Rightarrow> ('t option \<times> 'v \<times> 'd net_device) outcome option"
where
  "recv_loop pf port timeout func v dev =
     (let (now, d) = rdtsc pf (dev_driver dev); dev = dev\<lparr>dev_driver := d\<rparr> in
      if now \<ge> timeout then Some (Done (None, v, dev))
      else case recv_udp pf port func v dev of
        Panic \<Rightarrow> Some Panic
      | Done (Some t, v, dev) \<Rightarrow> Some (Done (Some t, v, dev))
      | Done (None, v, dev) \<Rightarrow> recv_loop pf port timeout func v dev)"

definition recv_timeout ::
  "'d net_platform \<Rightarrow> port \<Rightarrow> u64 \<Rightarrow> ('v, 't) handler \<Rightarrow> 'v \<Rightarrow> 'd net_device \<Rightarrow> ('t option \<times> 'v \<times> 'd net_device) outcome option"
where
  "recv_timeout pf port timeout func v dev =
     (case time_future pf (dev_driver dev) timeout of
        Panic \<Rightarrow> Some Panic
      | Done (t, d) \<Rightarrow> recv_loop pf port t func v (dev\<lparr>dev_driver := d\<rparr>))"

section \<open>Resolving addresses\<close>

definition N_RETRIES :: nat where "N_RETRIES = 1000"
definition ARP_TIMEOUT :: u64 where "ARP_TIMEOUT = 100000"

text \<open>The inner loop: a MAC address, or nothing when the deadline has passed.\<close>

partial_function (option) arp_wait ::
  "'d net_platform \<Rightarrow> u32 \<Rightarrow> u32 \<Rightarrow> u64 \<Rightarrow> 'd net_device \<Rightarrow> (mac option \<times> 'd net_device) outcome option" where
  "arp_wait pf ip this_ip timeout dev =
     (let (now, d) = rdtsc pf (dev_driver dev); dev = dev\<lparr>dev_driver := d\<rparr> in
      if now \<ge> timeout then Some (Done (None, dev))
      else case dev_recv pf dev of
        Panic \<Rightarrow> Some Panic
      | Done (None, dev) \<Rightarrow> arp_wait pf ip this_ip timeout dev
      | Done (Some p, dev) \<Rightarrow>
          (case parse_arp p of
             Panic \<Rightarrow> Some Panic
           | Done r \<Rightarrow>
               (case (case r of
                        Inr arp \<Rightarrow> if is_valid_reply arp ip this_ip (dev_mac dev) then Some (sender_mac arp) else None
                      | Inl _ \<Rightarrow> None) of
                  Some m \<Rightarrow> Some (obind (dev_release_packet pf dev p) (\<lambda>dev. Done (Some m, dev)))
                | None \<Rightarrow>
                    (case discard pf dev p of
                       Panic \<Rightarrow> Some Panic
                     | Done dev \<Rightarrow> arp_wait pf ip this_ip timeout dev))))"

fun arp_retry ::
  "nat \<Rightarrow> 'd net_platform \<Rightarrow> u32 \<Rightarrow> u32 \<Rightarrow> mac \<Rightarrow> 'd net_device \<Rightarrow> (mac option \<times> 'd net_device) outcome option" where
  "arp_retry 0 pf ip this_ip this_mac dev = Some (Done (None, dev))"
| "arp_retry (Suc n) pf ip this_ip this_mac dev =
     (case dev_allocate_packet pf dev of
        Panic \<Rightarrow> Some Panic
      | Done (p, dev) \<Rightarrow>
          (case build_arp_packet p ArpRequest this_mac this_ip MAC_ZERO ip of
             Panic \<Rightarrow> Some Panic
           | Done (None, _) \<Rightarrow> Some (Done (None, dev))
           | Done (Some _, p) \<Rightarrow>
               (case obind (dev_send pf dev p True) (\<lambda>dev.
                       obind (time_future pf (dev_driver dev) ARP_TIMEOUT) (\<lambda>(t, d). Done (t, dev\<lparr>dev_driver := d\<rparr>))) of
                  Panic \<Rightarrow> Some Panic
                | Done (timeout, dev) \<Rightarrow>
                    (case arp_wait pf ip this_ip timeout dev of
                       None \<Rightarrow> None
                     | Some Panic \<Rightarrow> Some Panic
                     | Some (Done (Some m, dev)) \<Rightarrow> Some (Done (Some m, dev))
                     | Some (Done (None, dev)) \<Rightarrow> arp_retry n pf ip this_ip this_mac dev))))"

definition arp :: "'d net_platform \<Rightarrow> u32 \<Rightarrow> 'd net_device \<Rightarrow> (mac option \<times> 'd net_device) outcome option" where
  "arp pf ip dev =
     (case dev_lease dev of
        None \<Rightarrow> Some Panic
      | Some lease \<Rightarrow> arp_retry N_RETRIES pf ip (client_ip lease) (dev_mac dev) dev)"

definition resolve ::
  "'d net_platform \<Rightarrow> 'd net_device \<Rightarrow> port \<Rightarrow> port \<Rightarrow> u32 \<Rightarrow> (net_address option \<times> 'd net_device) outcome option" where
  "resolve pf dev sp dp dip =
     (case arp pf dip dev of
        None \<Rightarrow> None
      | Some Panic \<Rightarrow> Some Panic
      | Some (Done (None, dev')) \<Rightarrow> Some (Done (None, dev'))
      | Some (Done (Some m, dev')) \<Rightarrow>
          Some (Done (map_option (\<lambda>lease. \<lparr>na_src_mac = dev_mac dev, na_src_ip = IpV4 (client_ip lease), na_src_port = sp,
                 na_dst_mac = m, na_dst_ip = IpV4 dip, na_dst_port = dp\<rparr>) (dev_lease dev'), dev')))"

section \<open>Leases\<close>

definition DHCP_TIMEOUT :: u64 where "DHCP_TIMEOUT = 5000000"

fun find_map :: "('a \<Rightarrow> 'b option) \<Rightarrow> 'a list \<Rightarrow> 'b option" where
  "find_map f [] = None"
| "find_map f (x # xs) = (case f x of Some y \<Rightarrow> Some y | None \<Rightarrow> find_map f xs)"

definition send_dhcp_request ::
  "'d net_platform \<Rightarrow> u32 \<Rightarrow> mac \<Rightarrow> message_type \<Rightarrow> dhcp_option list \<Rightarrow> 'd net_device \<Rightarrow> 'd net_device outcome" where
  "send_dhcp_request pf xid m typ extra dev =
     obind (dev_allocate_packet pf dev) (\<lambda>(p, dev).
     obind (create_dhcp_request p xid m (request_options typ extra)) (\<lambda>p.
       dev_send pf dev p True))"

text \<open>What both closures do first: the packet is for us and answers our transaction.\<close>

definition with_reply ::
  "mac \<Rightarrow> u32 \<Rightarrow> message_type \<Rightarrow> (dhcp_header \<Rightarrow> dhcp_option list \<Rightarrow> 'v) \<Rightarrow> ('v, unit) handler" where
  "with_reply m xid typ f p udp v =
     (let dst = dst_mac (ip_eth (udp_ip udp)) in
      if dst \<noteq> m \<and> dst \<noteq> MAC_BROADCAST then Done (None, v)
      else obind (parse_dhcp_reply udp xid) (\<lambda>r.
        case r of
          None \<Rightarrow> Done (None, v)
        | Some (header, options) \<Rightarrow>
            if MessageType typ \<notin> set options then Done (None, v)
            else Done (Some (), f header options)))"

definition offer_handler :: "mac \<Rightarrow> u32 \<Rightarrow> (u32 option \<times> u32 option, unit) handler" where
  "offer_handler m xid = with_reply m xid MtOffer (\<lambda>header options.
     (Some (swap_u32 (h_yiaddr header)), find_map (\<lambda>x. case x of ServerIp ip \<Rightarrow> Some ip | _ \<Rightarrow> None) options))"

definition ack_handler :: "mac \<Rightarrow> u32 \<Rightarrow> (u32 option \<times> u32 option, unit) handler" where
  "ack_handler m xid = with_reply m xid MtAck (\<lambda>header options.
     (find_map (\<lambda>x. case x of BroadcastIp ip \<Rightarrow> Some ip | _ \<Rightarrow> None) options,
      find_map (\<lambda>x. case x of SubnetMask ip \<Rightarrow> Some ip | _ \<Rightarrow> None) options))"

text \<open>Leaving \<open>get_lease\<close> drops the bind.\<close>

definition leave_lease :: "'d net_platform \<Rightarrow> 'a \<Rightarrow> 'd net_device \<Rightarrow> ('a \<times> 'd net_device) outcome option" where
  "leave_lease pf r dev = Some (obind (unbind_udp pf dev CLIENT_PORT) (\<lambda>dev. Done (r, dev)))"

text \<open>The request phase, from the offer on.\<close>

definition lease_request ::
  "'d net_platform \<Rightarrow> u32 \<Rightarrow> mac \<Rightarrow> u32 \<Rightarrow> u32 \<Rightarrow> 'd net_device \<Rightarrow> (dhcp_lease option \<times> 'd net_device) outcome option" where
  "lease_request pf xid m offered server dev =
     (case send_dhcp_request pf xid m MtRequest [RequestedIp offered, ServerIp server] dev of
        Panic \<Rightarrow> Some Panic
      | Done dev \<Rightarrow>
          (case recv_timeout pf CLIENT_PORT DHCP_TIMEOUT (ack_handler m xid) (None, None) dev of
             None \<Rightarrow> None
           | Some Panic \<Rightarrow> Some Panic
           | Some (Done (got, (broadcast, subnet), dev)) \<Rightarrow>
               leave_lease pf (map_option (\<lambda>_. \<lparr>client_ip = offered, server_ip = server,
                 broadcast_ip = broadcast, subnet_mask = subnet\<rparr>) got) dev))"

definition get_lease :: "'d net_platform \<Rightarrow> 'd net_device \<Rightarrow> (dhcp_lease option \<times> 'd net_device) outcome option" where
  "get_lease pf dev =
     (let (now, d) = rdtsc pf (dev_driver dev); xid = ucast now :: u32; m = dev_mac dev; dev = dev\<lparr>dev_driver := d\<rparr> in
      case bind_udp_port dev CLIENT_PORT of
        (None, dev) \<Rightarrow> Some (Done (None, dev))
      | (Some _, dev) \<Rightarrow>
          (case send_dhcp_request pf xid m MtDiscover [] dev of
             Panic \<Rightarrow> Some Panic
           | Done dev \<Rightarrow>
               (case recv_timeout pf CLIENT_PORT DHCP_TIMEOUT (offer_handler m xid) (None, None) dev of
                  None \<Rightarrow> None
                | Some Panic \<Rightarrow> Some Panic
                | Some (Done (got, (offered_ip, srv_ip), dev)) \<Rightarrow>
                    (case (got, offered_ip, srv_ip) of
                       (Some _, Some offered, Some server) \<Rightarrow> lease_request pf xid m offered server dev
                     | _ \<Rightarrow> leave_lease pf None dev))))"

section \<open>The devices of the system\<close>

record 'd net_globals =
  probed_devices :: "'d net_device list option"
  net_devices :: "'d net_device list once_lock"
  next_dev_id :: u64

definition register :: "'d net_platform \<Rightarrow> 'd \<Rightarrow> 'd net_globals \<Rightarrow> 'd net_globals outcome" where
  "register pf drv g =
     (if once_initialized (net_devices g) then Panic
      else
        let ident = next_dev_id g; g = g\<lparr>next_dev_id := ident + 1\<rparr> in
        obind (unwrap (checked_add ident 1)) (\<lambda>_.
          let nd = \<lparr>dev_id = unat ident, dev_driver = drv, dev_mac = drv_mac pf drv, dev_lease = None, udp_binds = Map.empty\<rparr> in
          obind (unwrap (probed_devices g)) (\<lambda>devs. Done (g\<lparr>probed_devices := Some (devs @ [nd])\<rparr>))))"

fun lease_devices :: "'d net_platform \<Rightarrow> 'd net_device list \<Rightarrow> 'd net_device list \<Rightarrow> 'd net_device list outcome option" where
  "lease_devices pf [] leased = Some (Done leased)"
| "lease_devices pf (dev # devs) leased =
     (case get_lease pf dev of
        None \<Rightarrow> None
      | Some Panic \<Rightarrow> Some Panic
      | Some (Done (lease, dev)) \<Rightarrow>
          lease_devices pf devs (if lease \<noteq> None then leased @ [dev\<lparr>dev_lease := lease\<rparr>] else leased))"

definition lock_in :: "'d net_platform \<Rightarrow> 'd net_globals \<Rightarrow> 'd net_globals outcome option" where
  "lock_in pf g =
     (case probed_devices g of
        None \<Rightarrow> Some Panic
      | Some devs \<Rightarrow>
          (case lease_devices pf devs [] of
             None \<Rightarrow> None
           | Some Panic \<Rightarrow> Some Panic
           | Some (Done leased) \<Rightarrow>
               Some (obind (once_set (net_devices g) leased) (\<lambda>l. Done (g\<lparr>probed_devices := None, net_devices := l\<rparr>)))))"

text \<open>The loop of \<open>NetDevice::get\<close> over the reference counts of the devices. The clone in \<open>ret\<close> adds one to
  the count of the best device so far.\<close>

fun get_loop :: "nat list \<Rightarrow> nat \<Rightarrow> (nat \<times> nat) option \<Rightarrow> (nat \<times> nat) option" where
  "get_loop [] i ret = ret"
| "get_loop (strong # rest) i ret =
     (let cur_best = (case ret of Some (_, n) \<Rightarrow> n + 1 - 1 | None \<Rightarrow> usize_max) in
      get_loop rest (i + 1) (if strong < cur_best then Some (i, strong) else ret))"

definition get_device :: "'d net_globals \<Rightarrow> nat list \<Rightarrow> nat option" where
  "get_device g strong_counts =
     (if \<not> once_initialized (net_devices g) then None
      else map_option fst (get_loop strong_counts 0 None))"

end
