(* ===== verification/Net_Device_Props.thy ===== *)
theory Net_Device_Props
  imports Net_Device
begin

text \<open>
  Network devices: the UDP queues are never filled, the ports, the calls that wait for an answer return
  when time goes on, and a lease leaves the ports as they were.
\<close>

section \<open>What an operation does to a device\<close>

definition queues_empty :: "'d net_device \<Rightarrow> bool" where
  "queues_empty dev \<longleftrightarrow> (\<forall>q \<in> ran (udp_binds dev). q = vecdeque_new)"

text \<open>Only the hardware behind the driver moves, along \<open>R\<close>.\<close>

definition quiet :: "('d \<Rightarrow> 'd \<Rightarrow> bool) \<Rightarrow> 'd net_device \<Rightarrow> 'd net_device \<Rightarrow> bool" where
  "quiet R dev dev' \<longleftrightarrow> R (dev_driver dev) (dev_driver dev') \<and> dev' = dev\<lparr>dev_driver := dev_driver dev'\<rparr>"

definition drv_closed :: "'d net_platform \<Rightarrow> ('d \<Rightarrow> 'd \<Rightarrow> bool) \<Rightarrow> bool" where
  "drv_closed pf R \<longleftrightarrow> reflp R \<and> transp R
     \<and> (\<forall>d p b d'. drv_send pf d p b = Done d' \<longrightarrow> R d d')
     \<and> (\<forall>d p d'. drv_recv pf d = Done (p, d') \<longrightarrow> R d d')
     \<and> (\<forall>d p d'. drv_allocate_packet pf d = Done (p, d') \<longrightarrow> R d d')
     \<and> (\<forall>d p d'. drv_release_packet pf d p = Done d' \<longrightarrow> R d d')"

lemma drv_closed_all: "drv_closed pf (\<lambda>_ _. True)"
  by (simp add: drv_closed_def reflp_def transp_def)

lemma quiet_fields:
  assumes "quiet R dev dev'"
  shows "udp_binds dev' = udp_binds dev" "dev_mac dev' = dev_mac dev" "dev_lease dev' = dev_lease dev"
    "dev_id dev' = dev_id dev" "queues_empty dev' = queues_empty dev" "R (dev_driver dev) (dev_driver dev')"
  using assms unfolding quiet_def queues_empty_def by (metis net_device.ext_inject net_device.surjective net_device.update_convs(2))+

lemma quiet_update: "R (dev_driver dev) d \<Longrightarrow> quiet R dev (dev\<lparr>dev_driver := d\<rparr>)"
  by (simp add: quiet_def)

lemma quiet_refl: "drv_closed pf R \<Longrightarrow> quiet R dev dev"
  by (simp add: quiet_def drv_closed_def reflp_def)

lemma quiet_trans:
  assumes R: "drv_closed pf R" and q: "quiet R a b" "quiet R b c"
  shows "quiet R a c"
proof -
  have "R (dev_driver a) (dev_driver c)"
    using quiet_fields(6) [OF q(1)] quiet_fields(6) [OF q(2)] R unfolding drv_closed_def by (metis transpD)
  moreover have "c = a\<lparr>dev_driver := dev_driver c\<rparr>"
    using q unfolding quiet_def by (metis net_device.surjective net_device.update_convs(2))
  ultimately show ?thesis by (simp add: quiet_def)
qed

lemma quiet_driver:
  assumes "drv_closed pf R"
  shows "dev_send pf dev p b = Done dev' \<Longrightarrow> quiet R dev dev'" "dev_recv pf dev = Done (l, dev') \<Longrightarrow> quiet R dev dev'"
    "dev_allocate_packet pf dev = Done (p, dev') \<Longrightarrow> quiet R dev dev'" "dev_release_packet pf dev p = Done dev' \<Longrightarrow> quiet R dev dev'"
  using assms
  by (auto simp: dev_send_def dev_recv_def dev_allocate_packet_def dev_release_packet_def drv_closed_def intro!: quiet_update)

lemma quiet_release_all:
  assumes "drv_closed pf R"
  shows "release_all pf dev ps = Done dev' \<Longrightarrow> quiet R dev dev'"
proof (induction ps arbitrary: dev)
  case Nil
  then show ?case using quiet_refl [OF assms] by simp
next
  case (Cons p ps)
  from Cons.prems obtain dev1 where d: "dev_release_packet pf dev p = Done dev1" "release_all pf dev1 ps = Done dev'" by auto
  show ?case by (rule quiet_trans [OF assms quiet_driver(4) [OF assms d(1)] Cons.IH [OF d(2)]])
qed

lemma quiet_arp_reply:
  assumes R: "drv_closed pf R" and d: "discard_arp_reply pf dev a = Done dev'"
  shows "quiet R dev dev'"
proof -
  have "dev' = dev \<or> (\<exists>p dev1 q. dev_allocate_packet pf dev = Done (p, dev1) \<and> dev_send pf dev1 q True = Done dev')"
    using d unfolding discard_arp_reply_def Let_def by (cases "dev_lease dev") (auto split: if_splits)
  then show ?thesis
    using quiet_refl [OF R] quiet_driver(1,3) [OF R] quiet_trans [OF R] by blast
qed

lemma quiet_discard_arp:
  assumes R: "drv_closed pf R" and d: "discard_arp pf dev l = Done (l', dev')"
  shows "quiet R dev dev'"
proof (cases l)
  case None
  then show ?thesis using d quiet_refl [OF R] by (simp add: discard_arp_def)
next
  case (Some pk)
  then obtain r where r: "parse_arp pk = Done r" using d by (auto simp: discard_arp_def)
  show ?thesis
  proof (cases r)
    case (Inl e)
    then show ?thesis using d Some r quiet_refl [OF R] by (simp add: discard_arp_def)
  next
    case (Inr a)
    then obtain dev1 where m: "discard_arp_reply pf dev a = Done dev1" and rel: "dev_release_packet pf dev1 pk = Done dev'"
      using d Some r by (auto simp: discard_arp_def)
    show ?thesis by (rule quiet_trans [OF R quiet_arp_reply [OF R m] quiet_driver(4) [OF R rel]])
  qed
qed

lemma queues_empty_no_room: "queues_empty dev \<Longrightarrow> udp_binds dev p = Some q \<Longrightarrow> q = vecdeque_new"
  by (auto simp: queues_empty_def ran_def)

lemma quiet_discard_udp:
  assumes R: "drv_closed pf R" and q: "queues_empty dev" and d: "discard_udp pf dev l = Done (l', dev')"
  shows "quiet R dev dev'"
proof (cases l)
  case None
  then show ?thesis using d quiet_refl [OF R] by (simp add: discard_udp_def)
next
  case (Some pk)
  then obtain r where r: "parse_udp pk = Done r" using d by (auto simp: discard_udp_def)
  show ?thesis
  proof (cases r)
    case (Inl e)
    then show ?thesis using d Some r quiet_refl [OF R] by (simp add: discard_udp_def)
  next
    case (Inr u)
    then have "dev_release_packet pf dev pk = Done dev'"
      using d Some r q by (auto simp: discard_udp_def vecdeque_new_def dest!: queues_empty_no_room split: option.splits)
    then show ?thesis using quiet_driver(4) [OF R] by blast
  qed
qed

lemma quiet_discard:
  assumes R: "drv_closed pf R" and q: "queues_empty dev" and d: "discard pf dev p = Done dev'"
  shows "quiet R dev dev'"
proof -
  obtain l1 dev1 l2 dev2 where d1: "discard_arp pf dev (Some p) = Done (l1, dev1)"
    and d2: "discard_udp pf dev1 l1 = Done (l2, dev2)" and d3: "release_all pf dev2 (lease_drop l2) = Done dev'"
    using d by (auto simp: discard_def drop_lease_def)
  note q1 = quiet_discard_arp [OF R d1]
  have "queues_empty dev1" using quiet_fields(5) [OF q1] q by simp
  then show ?thesis
    using q1 quiet_discard_udp [OF R _ d2] quiet_release_all [OF R d3] quiet_trans [OF R] by blast
qed

lemma quiet_recv_udp:
  assumes R: "drv_closed pf R" and q: "queues_empty dev" and d: "recv_udp pf port func v dev = Done (t, v', dev')"
  shows "quiet R dev dev'"
proof (cases "udp_binds dev port")
  case None
  then show ?thesis using d quiet_refl [OF R] by (simp add: recv_udp_def)
next
  case (Some ent)
  then have "ent = vecdeque_new" using q queues_empty_no_room by blast
  with d Some obtain l dev1 where r: "dev_recv pf dev = Done (l, dev1)"
    and rest: "(case l of None \<Rightarrow> Done (None, v, dev1)
                 | Some p \<Rightarrow> obind (parse_udp p) (\<lambda>r. case r of
                     Inr udp \<Rightarrow> if dst_port udp = port then obind (func p udp v) (\<lambda>(ret, v). obind (dev_release_packet pf dev1 p) (\<lambda>dev. Done (ret, v, dev)))
                           else obind (discard pf dev1 p) (\<lambda>dev. Done (None, v, dev))
                   | Inl _ \<Rightarrow> obind (discard pf dev1 p) (\<lambda>dev. Done (None, v, dev)))) = Done (t, v', dev')"
    by (auto simp: recv_udp_def vecdeque_new_def)
  note q1 = quiet_driver(2) [OF R r]
  have e: "queues_empty dev1" using quiet_fields(5) [OF q1] q by simp
  have "quiet R dev1 dev'"
  proof (cases l)
    case None
    then show ?thesis using rest quiet_refl [OF R] by simp
  next
    case (Some p)
    with rest have "discard pf dev1 p = Done dev' \<or> dev_release_packet pf dev1 p = Done dev'"
      by (simp split: sum.splits if_splits) (metis sum.exhaust)
    then show ?thesis using quiet_discard [OF R e] quiet_driver(4) [OF R] by blast
  qed
  then show ?thesis using q1 quiet_trans [OF R] by blast
qed

lemma quiet_unbind:
  assumes R: "drv_closed pf R" and q: "queues_empty dev" and d: "unbind_udp pf dev p = Done dev'"
  shows "dev' = dev\<lparr>udp_binds := (udp_binds dev)(p := None)\<rparr>"
proof (cases "udp_binds dev p")
  case None
  then have "(udp_binds dev)(p := None) = udp_binds dev" by (simp add: fun_upd_idem)
  then show ?thesis using d None by (simp add: unbind_udp_def)
next
  case (Some ent)
  then have "ent = vecdeque_new" using q queues_empty_no_room by blast
  then show ?thesis using d Some by (simp add: unbind_udp_def vecdeque_new_def)
qed

text \<open>The clock is not one of the driver's methods; a relation that it also follows.\<close>

definition clock_closed :: "'d net_platform \<Rightarrow> ('d \<Rightarrow> 'd \<Rightarrow> bool) \<Rightarrow> bool" where
  "clock_closed pf R \<longleftrightarrow> drv_closed pf R \<and> (\<forall>d. R d (snd (rdtsc pf d)))"

lemma clock_closed_all: "clock_closed pf (\<lambda>_ _. True)"
  by (simp add: clock_closed_def drv_closed_all)

lemma quiet_rdtsc: "clock_closed pf R \<Longrightarrow> rdtsc pf (dev_driver dev) = (now, d) \<Longrightarrow> quiet R dev (dev\<lparr>dev_driver := d\<rparr>)"
  unfolding clock_closed_def by (metis quiet_update snd_conv)

lemma quiet_future:
  assumes "clock_closed pf R" "time_future pf (dev_driver dev) ms = Done (t, d)"
  shows "quiet R dev (dev\<lparr>dev_driver := d\<rparr>)"
proof -
  obtain now d' where "rdtsc pf (dev_driver dev) = (now, d')" by force
  then show ?thesis using assms quiet_rdtsc by (auto simp: time_future_def)
qed

definition keeps :: "('d \<Rightarrow> 'd \<Rightarrow> bool) \<Rightarrow> 'd net_device \<Rightarrow> ('t \<times> 'v \<times> 'd net_device) outcome \<Rightarrow> bool" where
  "keeps R dev r \<longleftrightarrow> (\<forall>t v dev'. r = Done (t, v, dev') \<longrightarrow> quiet R dev dev')"

lemma recv_loop_quiet:
  fixes func :: "('v, 't) handler"
  assumes "recv_loop pf port timeout func v dev = Some r" "clock_closed pf R" "queues_empty dev"
  shows "keeps R dev r"
proof -
  have "clock_closed pf R \<longrightarrow> queues_empty dev \<longrightarrow> keeps R dev r"
  proof (rule recv_loop.raw_induct [where P = "\<lambda>pf (port :: port) (timeout :: u64) (func :: ('v, 't) handler) v dev r.
      clock_closed pf R \<longrightarrow> queues_empty dev \<longrightarrow> keeps R dev r", OF _ assms(1)], intro impI)
    fix rec :: "'a net_platform \<Rightarrow> port \<Rightarrow> u64 \<Rightarrow> ('v, 't) handler \<Rightarrow> 'v \<Rightarrow> 'a net_device \<Rightarrow> ('t option \<times> 'v \<times> 'a net_device) outcome option"
      and pf :: "'a net_platform" and port timeout and func :: "('v, 't) handler" and v :: 'v and dev :: "'a net_device" and r
    assume IH: "\<And>pf port timeout func v dev y. rec pf port timeout func v dev = Some y \<Longrightarrow>
        clock_closed pf R \<longrightarrow> queues_empty dev \<longrightarrow> keeps R dev y"
      and eq: "(let (now, d) = rdtsc pf (dev_driver dev); dev = dev\<lparr>dev_driver := d\<rparr>
        in if timeout \<le> now then Some (Done (None, v, dev))
           else case recv_udp pf port func v dev of
                Done (None, v, dev) \<Rightarrow> rec pf port timeout func v dev
                | Done (Some t, v, dev) \<Rightarrow> Some (Done (Some t, v, dev))
                | Panic \<Rightarrow> Some Panic) = Some r"
      and C: "clock_closed pf R" and q: "queues_empty dev"
    have R: "drv_closed pf R" using C by (simp add: clock_closed_def)
    obtain now d where t: "rdtsc pf (dev_driver dev) = (now, d)" by force
    let ?dev = "dev\<lparr>dev_driver := d\<rparr>"
    note q1 = quiet_rdtsc [OF C t]
    have e: "queues_empty ?dev" using quiet_fields(5) [OF q1] q by simp
    consider "r = Done (None, v, ?dev)" | "r = Panic"
      | tt v' dev' where "recv_udp pf port func v ?dev = Done (tt, v', dev')" "r = Done (tt, v', dev') \<or> rec pf port timeout func v' dev' = Some r"
      using eq t by (cases "timeout \<le> now"; cases "recv_udp pf port func v ?dev") (auto split: option.splits)
    then show "keeps R dev r"
    proof cases
      case 3
      note q2 = quiet_recv_udp [OF R e 3(1)]
      have "queues_empty dev'" using quiet_fields(5) [OF q2] e by simp
      then have "keeps R dev' r \<or> r = Done (tt, v', dev')" using IH C 3(2) by blast
      then show ?thesis using quiet_trans [OF R quiet_trans [OF R q1 q2]] quiet_trans [OF R q1 q2]
        by (auto simp: keeps_def)
    qed (use q1 in \<open>auto simp: keeps_def\<close>)
  qed
  then show ?thesis using assms by blast
qed

section \<open>Waiting ends\<close>

text \<open>Time goes on: \<open>left\<close> bounds how often the counter can still be read below a deadline, and no method of
  the driver turns it back.\<close>

definition clock_runs :: "'d net_platform \<Rightarrow> ('d \<Rightarrow> nat) \<Rightarrow> bool" where
  "clock_runs pf left \<longleftrightarrow> clock_closed pf (\<lambda>d d'. left d' \<le> left d)
     \<and> (\<forall>d t. fst (rdtsc pf d) < t \<longrightarrow> left (snd (rdtsc pf d)) < left d)"

lemma recv_loop_returns:
  assumes C: "clock_runs pf left"
  shows "queues_empty dev \<Longrightarrow> \<exists>r. recv_loop pf port timeout func v dev = Some r"
proof (induction "left (dev_driver dev)" arbitrary: v dev rule: less_induct)
  case less
  let ?R = "\<lambda>d d'. left d' \<le> left d"
  have R: "drv_closed pf ?R" and cc: "clock_closed pf ?R" using C by (simp_all add: clock_runs_def clock_closed_def)
  obtain now d where t: "rdtsc pf (dev_driver dev) = (now, d)" by force
  let ?dev = "dev\<lparr>dev_driver := d\<rparr>"
  have e: "queues_empty ?dev" using quiet_fields(5) [OF quiet_rdtsc [OF cc t]] less.prems by simp
  show ?case
  proof (cases "timeout \<le> now")
    case True
    then show ?thesis using t by (subst recv_loop.simps) simp
  next
    case False
    then have d: "left d < left (dev_driver dev)" using C t unfolding clock_runs_def by (metis fst_conv linorder_not_le snd_conv)
    show ?thesis
    proof (cases "recv_udp pf port func v ?dev")
      case (Done x)
      then obtain tt v' dev' where x: "recv_udp pf port func v ?dev = Done (tt, v', dev')" by (metis prod_cases3)
      note q = quiet_recv_udp [OF R e x]
      have "queues_empty dev'" "left (dev_driver dev') < left (dev_driver dev)"
        using quiet_fields(5,6) [OF q] e d by simp_all
      then have "\<exists>r. recv_loop pf port timeout func v' dev' = Some r" by (intro less.hyps)
      then show ?thesis using t False x by (subst recv_loop.simps) (auto split: option.split)
    next
      case Panic
      then show ?thesis using t False by (subst recv_loop.simps) simp
    qed
  qed
qed

lemma arp_wait_returns:
  assumes C: "clock_runs pf left"
  shows "queues_empty dev \<Longrightarrow> \<exists>r. arp_wait pf ip this_ip timeout dev = Some r
    \<and> (\<forall>m dev'. r = Done (m, dev') \<longrightarrow> queues_empty dev')"
proof (induction "left (dev_driver dev)" arbitrary: dev rule: less_induct)
  case less
  let ?R = "\<lambda>d d'. left d' \<le> left d"
  have R: "drv_closed pf ?R" and cc: "clock_closed pf ?R" using C by (simp_all add: clock_runs_def clock_closed_def)
  obtain now d where t: "rdtsc pf (dev_driver dev) = (now, d)" by force
  let ?dev = "dev\<lparr>dev_driver := d\<rparr>"
  have e: "queues_empty ?dev" using quiet_fields(5) [OF quiet_rdtsc [OF cc t]] less.prems by simp
  have IH: "\<exists>r. arp_wait pf ip this_ip timeout dev' = Some r \<and> (\<forall>m dev'. r = Done (m, dev') \<longrightarrow> queues_empty dev')"
    if q: "quiet ?R ?dev dev'" and n: "\<not> timeout \<le> now" for dev'
  proof (rule less.hyps)
    have "left d < left (dev_driver dev)" using C t n unfolding clock_runs_def by (metis fst_conv linorder_not_le snd_conv)
    then show "left (dev_driver dev') < left (dev_driver dev)" using quiet_fields(6) [OF q] by simp
    show "queues_empty dev'" using quiet_fields(5) [OF q] e by simp
  qed
  consider "timeout \<le> now" | "\<not> timeout \<le> now" "dev_recv pf ?dev = Panic"
    | dev' where "\<not> timeout \<le> now" "dev_recv pf ?dev = Done (None, dev')"
    | p dev' where "\<not> timeout \<le> now" "dev_recv pf ?dev = Done (Some p, dev')"
    by (metis outcome.exhaust not_Some_eq surj_pair)
  then show ?case
  proof cases
    case 1
    then show ?thesis using t e by (subst arp_wait.simps) simp
  next
    case 2
    then show ?thesis using t by (subst arp_wait.simps) simp
  next
    case 3
    then show ?thesis using t IH [OF quiet_driver(2) [OF R]] by (subst arp_wait.simps) simp
  next
    case (4 p dev')
    note q = quiet_driver(2) [OF R 4(2)]
    have e': "queues_empty dev'" using quiet_fields(5) [OF q] e by simp
    show ?thesis
    proof (cases "parse_arp p")
      case (Done r)
      define m where "m = (case r of Inr a \<Rightarrow> if is_valid_reply a ip this_ip (dev_mac dev') then Some (sender_mac a) else None | Inl _ \<Rightarrow> None)"
      have w: "arp_wait pf ip this_ip timeout dev = (case m of
          Some m \<Rightarrow> Some (obind (dev_release_packet pf dev' p) (\<lambda>dev. Done (Some m, dev)))
        | None \<Rightarrow> (case discard pf dev' p of Panic \<Rightarrow> Some Panic | Done dev \<Rightarrow> arp_wait pf ip this_ip timeout dev))"
        unfolding m_def using t 4 Done by (subst arp_wait.simps) simp
      show ?thesis
      proof (cases m)
        case None
        show ?thesis
        proof (cases "discard pf dev' p")
          case (Done dev2)
          then show ?thesis using w None IH [OF quiet_trans [OF R q quiet_discard [OF R e' Done]] 4(1)] by simp
        qed (use w None in simp)
      next
        case (Some mm)
        have "queues_empty dev2" if "dev_release_packet pf dev' p = Done dev2" for dev2
          using quiet_fields(5) [OF quiet_driver(4) [OF R that]] e' by simp
        then show ?thesis using w Some by auto
      qed
    qed (use t 4 in \<open>subst arp_wait.simps, simp\<close>)
  qed
qed

lemma recv_timeout_quiet:
  assumes "recv_timeout pf port ms func v dev = Some r" "clock_closed pf R" "queues_empty dev"
  shows "keeps R dev r"
proof (cases "time_future pf (dev_driver dev) ms")
  case (Done x)
  then obtain t d where f: "time_future pf (dev_driver dev) ms = Done (t, d)" by force
  note q = quiet_future [OF assms(2) f]
  have "keeps R (dev\<lparr>dev_driver := d\<rparr>) r"
    using recv_loop_quiet [OF _ assms(2)] assms(1,3) f quiet_fields(5) [OF q] by (simp add: recv_timeout_def)
  then show ?thesis using quiet_trans [OF _ q] assms(2) by (auto simp: keeps_def clock_closed_def)
qed (use assms in \<open>auto simp: recv_timeout_def keeps_def\<close>)

lemma recv_timeout_returns_lemma:
  assumes "clock_runs pf left" "queues_empty dev"
  shows "\<exists>r. recv_timeout pf port ms func v dev = Some r"
proof (cases "time_future pf (dev_driver dev) ms")
  case (Done x)
  then obtain t d where f: "time_future pf (dev_driver dev) ms = Done (t, d)" by force
  have "queues_empty (dev\<lparr>dev_driver := d\<rparr>)" using assms(2) by (simp add: queues_empty_def)
  then show ?thesis using recv_loop_returns [OF assms(1)] f by (simp add: recv_timeout_def)
qed (simp add: recv_timeout_def)

lemma send_dhcp_request_quiet:
  assumes R: "drv_closed pf R" and s: "send_dhcp_request pf xid m typ extra dev = Done dev'"
  shows "quiet R dev dev'"
proof -
  obtain p dev1 q where "dev_allocate_packet pf dev = Done (p, dev1)" "dev_send pf dev1 q True = Done dev'"
    using s by (auto simp: send_dhcp_request_def)
  then show ?thesis using quiet_driver(1,3) [OF R] quiet_trans [OF R] by blast
qed

text \<open>The results of the calls that \<open>get_lease\<close> makes after it has bound the port: every path ends by
  giving the port back.\<close>

definition ends_unbound :: "'d net_platform \<Rightarrow> 'd net_device \<Rightarrow> (dhcp_lease option \<times> 'd net_device) outcome \<Rightarrow> bool" where
  "ends_unbound pf dev r \<longleftrightarrow> (\<forall>l dev'. r = Done (l, dev') \<longrightarrow>
     (\<exists>devk. quiet (\<lambda>_ _. True) dev devk \<and> unbind_udp pf devk CLIENT_PORT = Done dev'))"

lemma leave_lease_unbound: "leave_lease pf l dev = Some r \<Longrightarrow> ends_unbound pf dev r"
  using quiet_refl [OF drv_closed_all, of dev] by (auto simp: leave_lease_def ends_unbound_def)

lemma ends_unbound_trans: "quiet (\<lambda>_ _. True) dev dev' \<Longrightarrow> ends_unbound pf dev' r \<Longrightarrow> ends_unbound pf dev r"
  unfolding ends_unbound_def using quiet_trans [OF drv_closed_all] by blast

lemma lease_request_unbound:
  assumes r: "lease_request pf xid m offered server dev = Some r" and q: "queues_empty dev"
  shows "ends_unbound pf dev r"
proof (cases "send_dhcp_request pf xid m MtRequest [RequestedIp offered, ServerIp server] dev")
  case (Done dev1)
  note q1 = send_dhcp_request_quiet [OF drv_closed_all Done]
  show ?thesis
  proof (cases "recv_timeout pf CLIENT_PORT DHCP_TIMEOUT (ack_handler m xid) (None, None) dev1")
    case (Some x)
    have k: "keeps (\<lambda>_ _. True) dev1 x"
      using recv_timeout_quiet [OF Some clock_closed_all] quiet_fields(5) [OF q1] q by simp
    show ?thesis
    proof (cases x)
      case xd: (Done y)
      obtain got b s dev2 where y: "y = (got, (b, s), dev2)" by (metis prod.exhaust)
      have "leave_lease pf (map_option (\<lambda>_. \<lparr>client_ip = offered, server_ip = server, broadcast_ip = b, subnet_mask = s\<rparr>) got) dev2 = Some r"
        using r Done Some xd y by (simp add: lease_request_def)
      then have "ends_unbound pf dev2 r" by (rule leave_lease_unbound)
      moreover have "quiet (\<lambda>_ _. True) dev dev2" using quiet_trans [OF drv_closed_all q1] k xd y by (auto simp: keeps_def)
      ultimately show ?thesis using ends_unbound_trans by blast
    qed (use r Done Some in \<open>simp add: lease_request_def ends_unbound_def\<close>)
  qed (use r Done in \<open>simp add: lease_request_def\<close>)
qed (use r in \<open>auto simp: lease_request_def ends_unbound_def\<close>)

lemma get_lease_bound_case:
  assumes t: "rdtsc pf (dev_driver dev) = (now, d)" and b: "udp_binds dev CLIENT_PORT \<noteq> None"
  shows "get_lease pf dev = Some (Done (None, dev\<lparr>dev_driver := d\<rparr>))"
  using assms by (auto simp: get_lease_def bind_udp_port_def)

lemma get_lease_unbound:
  assumes t: "rdtsc pf (dev_driver dev) = (now, d)" and b: "udp_binds dev CLIENT_PORT = None" and q: "queues_empty dev"
    and r: "get_lease pf dev = Some r"
  shows "ends_unbound pf (dev\<lparr>dev_driver := d, udp_binds := (udp_binds dev)(CLIENT_PORT \<mapsto> vecdeque_new)\<rparr>) r"
    (is "ends_unbound pf ?dev r")
proof (cases "send_dhcp_request pf (ucast now) (dev_mac dev) MtDiscover [] ?dev")
  case (Done dev1)
  have e: "queues_empty ?dev" using q by (auto simp: queues_empty_def ran_def)
  note q1 = send_dhcp_request_quiet [OF drv_closed_all Done]
  show ?thesis
  proof (cases "recv_timeout pf CLIENT_PORT DHCP_TIMEOUT (offer_handler (dev_mac dev) (ucast now)) (None, None) dev1")
    case (Some x)
    have k: "keeps (\<lambda>_ _. True) dev1 x"
      using recv_timeout_quiet [OF Some clock_closed_all] quiet_fields(5) [OF q1] e by simp
    show ?thesis
    proof (cases x)
      case xd: (Done y)
      obtain got o' s dev2 where y: "y = (got, (o', s), dev2)" by (metis prod.exhaust)
      have q2: "quiet (\<lambda>_ _. True) ?dev dev2" using quiet_trans [OF drv_closed_all q1] k xd y by (auto simp: keeps_def)
      have e2: "queues_empty dev2" using quiet_fields(5) [OF q2] e by simp
      have "leave_lease pf None dev2 = Some r \<or> (\<exists>off srv. lease_request pf (ucast now) (dev_mac dev) off srv dev2 = Some r)"
        using r t b Done Some xd y by (auto simp: get_lease_def bind_udp_port_def split: option.splits)
      then show ?thesis
        using leave_lease_unbound lease_request_unbound [OF _ e2] ends_unbound_trans [OF q2] by blast
    qed (use r t b Done Some in \<open>simp add: get_lease_def bind_udp_port_def ends_unbound_def\<close>)
  qed (use r t b Done in \<open>simp add: get_lease_def bind_udp_port_def\<close>)
qed (use r t b in \<open>auto simp: get_lease_def bind_udp_port_def ends_unbound_def\<close>)

lemma get_lease_returns:
  assumes C: "clock_runs pf left" and q: "queues_empty dev"
  shows "\<exists>r. get_lease pf dev = Some r"
proof -
  obtain now d where t: "rdtsc pf (dev_driver dev) = (now, d)" by force
  let ?dev = "dev\<lparr>dev_driver := d, udp_binds := (udp_binds dev)(CLIENT_PORT \<mapsto> vecdeque_new)\<rparr>"
  have e: "queues_empty ?dev" using q by (auto simp: queues_empty_def ran_def)
  have sd: "queues_empty dev2" if "send_dhcp_request pf x m ty ex dev1 = Done dev2" "queues_empty dev1" for x m ty ex dev1 dev2
    using quiet_fields(5) [OF send_dhcp_request_quiet [OF drv_closed_all that(1)]] that(2) by simp
  have lr: "\<exists>r. lease_request pf x m off srv dev1 = Some r" if em: "queues_empty dev1" for x m off srv dev1
  proof (cases "send_dhcp_request pf x m MtRequest [RequestedIp off, ServerIp srv] dev1")
    case (Done dev2)
    then obtain r where "recv_timeout pf CLIENT_PORT DHCP_TIMEOUT (ack_handler m x) (None, None) dev2 = Some r"
      using recv_timeout_returns_lemma [OF C sd [OF Done em], of CLIENT_PORT DHCP_TIMEOUT "ack_handler m x" "(None, None)"] by blast
    then show ?thesis using Done by (cases r) (auto simp: lease_request_def leave_lease_def)
  qed (simp add: lease_request_def)
  show ?thesis
  proof (cases "udp_binds dev CLIENT_PORT = None")
    case True
    show ?thesis
    proof (cases "send_dhcp_request pf (ucast now) (dev_mac dev) MtDiscover [] ?dev")
      case (Done dev1)
      have e1: "queues_empty dev1" using sd [OF Done e] .
      then obtain r where r: "recv_timeout pf CLIENT_PORT DHCP_TIMEOUT (offer_handler (dev_mac dev) (ucast now)) (None, None) dev1 = Some r"
        using recv_timeout_returns_lemma [OF C e1, of CLIENT_PORT DHCP_TIMEOUT "offer_handler (dev_mac dev) (ucast now)" "(None, None)"] by blast
      show ?thesis
      proof (cases r)
        case rd: (Done y)
        obtain got o' s dev2 where y: "y = (got, (o', s), dev2)" by (metis prod.exhaust)
        have "quiet (\<lambda>_ _. True) dev1 dev2"
          using recv_timeout_quiet [OF r clock_closed_all e1] rd y by (auto simp: keeps_def)
        then have "queues_empty dev2" using quiet_fields(5) e1 by blast
        then show ?thesis
          using t True Done r rd y lr by (auto simp: get_lease_def bind_udp_port_def leave_lease_def split: option.splits)
      qed (use t True Done r in \<open>simp add: get_lease_def bind_udp_port_def\<close>)
    qed (use t True in \<open>simp add: get_lease_def bind_udp_port_def\<close>)
  qed (simp add: get_lease_bound_case [OF t])
qed

lemma arp_retry_returns:
  assumes C: "clock_runs pf left"
  shows "queues_empty dev \<Longrightarrow> \<exists>r. arp_retry n pf ip this_ip this_mac dev = Some r"
proof (induction n arbitrary: dev)
  case (Suc n)
  show ?case
  proof (cases "dev_allocate_packet pf dev")
    case (Done x)
    then obtain p dev1 where a: "dev_allocate_packet pf dev = Done (p, dev1)" by force
    have e1: "queues_empty dev1" using quiet_fields(5) [OF quiet_driver(3) [OF drv_closed_all a]] Suc.prems by simp
    show ?thesis
    proof (cases "build_arp_packet p ArpRequest this_mac this_ip MAC_ZERO ip")
      case b: (Done y)
      obtain ok q where y: "y = (ok, q)" by force
      let ?s = "obind (dev_send pf dev1 q True) (\<lambda>dev.
                       obind (time_future pf (dev_driver dev) ARP_TIMEOUT) (\<lambda>(t, d). Done (t, dev\<lparr>dev_driver := d\<rparr>)))"
      show ?thesis
      proof (cases "ok = None \<or> ?s = Panic")
        case True
        then show ?thesis using a b y by (cases ok) auto
      next
        case False
        then obtain t dev2 where s: "?s = Done (t, dev2)" by (cases ?s) auto
        then obtain dev1' d where s': "dev_send pf dev1 q True = Done dev1'" "dev2 = dev1'\<lparr>dev_driver := d\<rparr>" by auto
        have "queues_empty dev1'" using quiet_fields(5) [OF quiet_driver(1) [OF drv_closed_all s'(1)]] e1 by simp
        then have "queues_empty dev2" using s'(2) by (simp add: queues_empty_def)
        then obtain r where r: "arp_wait pf ip this_ip t dev2 = Some r" "\<forall>m dev'. r = Done (m, dev') \<longrightarrow> queues_empty dev'"
          using arp_wait_returns [OF C] by metis
        show ?thesis
        proof (cases r)
          case rd: (Done z)
          obtain m dev3 where z: "z = (m, dev3)" by force
          then have "\<exists>r. arp_retry n pf ip this_ip this_mac dev3 = Some r" using r(2) rd Suc.IH by blast
          then show ?thesis using a b y s r(1) rd z False by (auto split: option.splits)
        qed (use a b y s r(1) False in \<open>auto split: option.splits\<close>)
      qed
    qed (use a in simp)
  qed simp
qed simp

section \<open>Ports\<close>

lemma unat_next_free:
  assumes "49152 \<le> unat nxt"
  shows "unat (snd (next_free nxt)) = 49152 + (unat nxt - 49152 + 1) mod 16384"
proof (cases "nxt = 0xFFFF")
  case True
  then show ?thesis by (simp add: next_free_def EPHEMERAL_START_def)
next
  case False
  moreover have "(0xFFFF :: u16) = - 1" by code_simp
  ultimately have "nxt \<noteq> - 1" by simp
  then have "unat (nxt + 1) = Suc (unat nxt)" "Suc (unat nxt) < 65536" using unat_Suc_word unat_less_max [of nxt] by simp_all
  then show ?thesis using False assms by (simp add: next_free_def)
qed

lemma unat_next_free_funpow:
  assumes "49152 \<le> unat nxt"
  shows "unat (((\<lambda>p. snd (next_free p)) ^^ n) nxt) = 49152 + (unat nxt - 49152 + n) mod 16384"
proof (induction n)
  case 0
  then show ?case using assms unat_u16_less [of nxt] by simp
next
  case (Suc n)
  then have "49152 \<le> unat (((\<lambda>p. snd (next_free p)) ^^ n) nxt)" by simp
  from unat_next_free [OF this] Suc show ?case by (simp add: mod_simps)
qed

lemma next_free_reaches:
  assumes "49152 \<le> unat nxt" "49152 \<le> unat p"
  shows "\<exists>n. ((\<lambda>p. snd (next_free p)) ^^ n) nxt = p"
proof -
  let ?a = "unat nxt - 49152" and ?b = "unat p - 49152"
  have b: "?b < 16384" "?a < 16384" using unat_u16_less [of p] unat_u16_less [of nxt] assms by simp_all
  have "(?a + (?b + 16384 - ?a)) mod 16384 = ?b" using b by simp
  then have "unat (((\<lambda>p. snd (next_free p)) ^^ (?b + 16384 - ?a)) nxt) = unat p"
    unfolding unat_next_free_funpow [OF assms(1)] using assms by simp
  then show ?thesis by (metis word_unat_eq_iff)
qed

lemma bind_udp_step: "bind_udp nxt dev =
  (if udp_binds dev nxt = None then Some (nxt, snd (next_free nxt), dev\<lparr>udp_binds := (udp_binds dev)(nxt \<mapsto> vecdeque_new)\<rparr>)
   else bind_udp (snd (next_free nxt)) dev)"
  by (subst bind_udp.simps) (simp add: next_free_def bind_udp_port_def)

lemma bind_udp_finds:
  "udp_binds dev (((\<lambda>p. snd (next_free p)) ^^ n) nxt) = None \<Longrightarrow> 49152 \<le> unat nxt \<Longrightarrow>
   \<exists>p. bind_udp nxt dev = Some (p, snd (next_free p), dev\<lparr>udp_binds := (udp_binds dev)(p \<mapsto> vecdeque_new)\<rparr>)
     \<and> udp_binds dev p = None \<and> 49152 \<le> unat p"
proof (induction n arbitrary: nxt)
  case 0
  then show ?case by (intro exI [of _ nxt]) (simp add: bind_udp_step [of nxt] fun_upd_def)
next
  case (Suc n)
  show ?case
  proof (cases "udp_binds dev nxt = None")
    case True
    then show ?thesis using Suc.prems by (intro exI [of _ nxt]) (simp add: bind_udp_step [of nxt] fun_upd_def)
  next
    case False
    have n: "49152 \<le> unat (snd (next_free nxt))" using unat_next_free [OF Suc.prems(2)] by simp
    have "bind_udp nxt dev = bind_udp (snd (next_free nxt)) dev"
      using False by (subst bind_udp_step) auto
    moreover have "udp_binds dev (((\<lambda>p. snd (next_free p)) ^^ n) (snd (next_free nxt))) = None"
      using Suc.prems(1) by (simp only: funpow_Suc_right o_apply)
    ultimately show ?thesis using Suc.IH [OF _ n] by simp
  qed
qed

lemma bind_udp_diverges:
  assumes "bind_udp nxt dev = Some r"
  shows "49152 \<le> unat nxt \<longrightarrow> (\<exists>p. 49152 \<le> unat p \<and> udp_binds dev p = None)"
proof (rule bind_udp.raw_induct [where P = "\<lambda>nxt dev r. 49152 \<le> unat nxt \<longrightarrow> (\<exists>p. 49152 \<le> unat p \<and> udp_binds dev p = None)", OF _ assms], intro impI)
  fix rec :: "u16 \<Rightarrow> 'a net_device \<Rightarrow> (port \<times> u16 \<times> 'a net_device) option" and nxt dev r
  assume IH: "\<And>nxt dev y. rec nxt dev = Some y \<Longrightarrow> 49152 \<le> unat nxt \<longrightarrow> (\<exists>p. 49152 \<le> unat p \<and> udp_binds dev p = None)"
    and eq: "(let (p, nxt) = next_free nxt in case bind_udp_port dev p of (None, dev) \<Rightarrow> rec nxt dev | (Some b, dev) \<Rightarrow> Some (b, nxt, dev)) = Some r"
    and n: "49152 \<le> unat nxt"
  have n': "49152 \<le> unat (snd (next_free nxt))" using unat_next_free [OF n] by simp
  show "\<exists>p. 49152 \<le> unat p \<and> udp_binds dev p = None"
  proof (cases "udp_binds dev nxt = None")
    case False
    then have "rec (snd (next_free nxt)) dev = Some r" using eq by (simp add: next_free_def bind_udp_port_def)
    then show ?thesis using IH n' by blast
  qed (use n in blast)
qed

section \<open>The least contended device\<close>

lemma get_loop_best:
  assumes "\<forall>c \<in> set cs. c < usize_max" "b < usize_max"
  shows "\<exists>j n. get_loop cs i (Some (k, b)) = Some (j, n) \<and> n \<le> b \<and> (\<forall>c \<in> set cs. n \<le> c)
    \<and> ((j, n) = (k, b) \<or> (i \<le> j \<and> j < i + length cs \<and> cs ! (j - i) = n \<and> n < b))"
  using assms
proof (induction cs arbitrary: i k b)
  case (Cons c cs)
  obtain k' b' where kb: "(k', b') = (if c < b then (i, c) else (k, b))" by (metis surj_pair)
  have b': "b' < usize_max" using kb Cons.prems by (auto split: if_splits)
  obtain j n where IH: "get_loop cs (i + 1) (Some (k', b')) = Some (j, n)" "n \<le> b'" "\<forall>c \<in> set cs. n \<le> c"
    "(j, n) = (k', b') \<or> (i + 1 \<le> j \<and> j < i + 1 + length cs \<and> cs ! (j - (i + 1)) = n \<and> n < b')"
    using Cons.IH [OF _ b', of "i + 1" k'] Cons.prems by auto
  have "get_loop (c # cs) i (Some (k, b)) = Some (j, n)"
    using IH(1) kb by (auto split: if_splits)
  moreover have "n \<le> b" "n \<le> c" using IH(2) kb by (auto split: if_splits)
  moreover have "(j, n) = (k, b) \<or> (i \<le> j \<and> j < i + length (c # cs) \<and> (c # cs) ! (j - i) = n \<and> n < b)"
    using IH(4) kb by (auto simp: nth_Cons' split: if_splits)
  ultimately show ?case using IH(3) by auto
qed simp

section \<open>A platform to run on\<close>

text \<open>A counter that goes up by one with every reading, and the packets that will arrive.\<close>

definition demo_pf :: "(u64 \<times> packet list) net_platform" where
  "demo_pf = \<lparr>drv_reset = Done, drv_mac = \<lambda>_. [1, 2, 3, 4, 5, 6], drv_send = \<lambda>d p b. Done d,
     drv_recv = \<lambda>(t, ps). Done (case ps of [] \<Rightarrow> (None, (t, [])) | p # ps \<Rightarrow> (Some p, (t, ps))),
     drv_allocate_packet = default_allocate_packet, drv_release_packet = default_release_packet,
     rdtsc = \<lambda>(t, ps). (t, (if t = - 1 then t else t + 1, ps)), tsc_mhz = 3\<rparr>"

definition demo_left :: "u64 \<times> packet list \<Rightarrow> nat" where
  "demo_left d = 2 ^ 64 - unat (fst d)"

definition demo_dev :: "(u64 \<times> packet list) net_device" where
  "demo_dev = \<lparr>dev_id = 0, dev_driver = (0, []), dev_mac = [1, 2, 3, 4, 5, 6], dev_lease = None, udp_binds = Map.empty\<rparr>"

lemma demo_clock_runs: "clock_runs demo_pf demo_left"
proof -
  have le: "2 ^ 64 - unat (if t = - 1 then t else t + 1) \<le> 2 ^ 64 - unat t" for t :: u64
    by (rule diff_le_mono2) (simp add: unat_Suc_word)
  have less: "2 ^ 64 - unat (if t = - 1 then t else t + 1) < 2 ^ 64 - unat t" if "t < t'" for t t' :: u64
    using word_less_not_max [OF that] unat_u64_less [of t] by (simp add: unat_Suc_word)
  have "fst d' = fst d" if "drv_send demo_pf d p b = Done d' \<or> drv_recv demo_pf d = Done (q, d')
      \<or> drv_allocate_packet demo_pf d = Done (p, d') \<or> drv_release_packet demo_pf d p = Done d'" for d d' p b q
    using that by (cases d) (auto simp: demo_pf_def default_allocate_packet_def default_release_packet_def split: list.splits)
  then have drv: "demo_left d' \<le> demo_left d" if "drv_send demo_pf d p b = Done d' \<or> drv_recv demo_pf d = Done (q, d')
      \<or> drv_allocate_packet demo_pf d = Done (p, d') \<or> drv_release_packet demo_pf d p = Done d'" for d d' p b q
    using that by (simp only: demo_left_def)
  have "demo_left (snd (rdtsc demo_pf d)) \<le> demo_left d" for d
    using le [of "fst d"] by (cases d) (simp only: demo_pf_def demo_left_def net_platform.simps prod.case fst_conv snd_conv)
  then have "clock_closed demo_pf (\<lambda>d d'. demo_left d' \<le> demo_left d)"
    unfolding clock_closed_def drv_closed_def using drv
    by (intro conjI reflpI transpI) (blast intro: order_refl order_trans)+
  moreover have "demo_left (snd (rdtsc demo_pf d)) < demo_left d" if "fst (rdtsc demo_pf d) < t" for d t
    using less [of "fst d" t] that by (cases d) (simp only: demo_pf_def demo_left_def net_platform.simps prod.case fst_conv snd_conv)
  ultimately show ?thesis unfolding clock_runs_def by blast
qed

lemma demo_queues: "queues_empty demo_dev"
  by (simp add: queues_empty_def demo_dev_def)

section \<open>Properties\<close>

text \<open>the queues of bound ports are never used. A port is bound with a queue of capacity 0, and as long as
  all queues are such, discarding a packet for a bound port gives it back to the driver and queues
  nothing; a queue with room, on the other hand, makes the same call panic.\<close>

theorem udp_queue_never_used:
  assumes udp: "parse_udp pk = Done (Inr u)" and bound: "udp_binds dev (dst_port u) = Some ent"
  shows "(queues_empty dev \<longrightarrow>
      discard_udp pf dev (Some pk) = obind (dev_release_packet pf dev pk) (\<lambda>dev. Done (None, dev)))
    \<and> (length (q_items ent) < q_capacity ent \<longrightarrow> discard_udp pf dev (Some pk) = Panic)
    \<and> (bind_udp_port dev p = (Some p, dev') \<longrightarrow> queues_empty dev \<longrightarrow> queues_empty dev')"
proof (intro conjI impI)
  assume "queues_empty dev"
  then have "ent = vecdeque_new" using bound queues_empty_no_room by blast
  then show "discard_udp pf dev (Some pk) = obind (dev_release_packet pf dev pk) (\<lambda>dev. Done (None, dev))"
    using udp bound by (simp add: discard_udp_def vecdeque_new_def)
next
  assume "length (q_items ent) < q_capacity ent"
  then show "discard_udp pf dev (Some pk) = Panic"
    using udp bound by (simp add: discard_udp_def lease_take_def)
next
  assume "bind_udp_port dev p = (Some p, dev')" "queues_empty dev"
  then show "queues_empty dev'"
    by (auto simp: bind_udp_port_def queues_empty_def ran_def split: if_splits) blast
qed

definition demo_packet :: packet where
  "demo_packet = (case send_udp packet_new addr_v4 [1, 2, 3] of Done q \<Rightarrow> q | Panic \<Rightarrow> packet_new)"

theorem udp_queue_never_used_witness:
  "\<exists>u. parse_udp demo_packet = Done (Inr u) \<and> dst_port u = 53
    \<and> discard_udp demo_pf (demo_dev\<lparr>udp_binds := [53 \<mapsto> vecdeque_new]\<rparr>) (Some demo_packet)
        = Done (None, demo_dev\<lparr>udp_binds := [53 \<mapsto> vecdeque_new]\<rparr>)
    \<and> discard_udp demo_pf (demo_dev\<lparr>udp_binds := [53 \<mapsto> \<lparr>q_items = [], q_capacity = 4\<rparr>]\<rparr>) (Some demo_packet) = Panic"
proof -
  obtain q u where s: "send_udp packet_new addr_v4 [1, 2, 3] = Done q" and u: "parse_udp q = Done (Inr u)" "dst_port u = 53"
    using parse_send_udp_v4 [of packet_new addr_v4 "0x0A00020F" "0x0A000202" "[1, 2, 3]"]
    by (auto simp: packet_new_def addr_v4_def)
  have p: "demo_packet = q" using s by (simp add: demo_packet_def)
  let ?d1 = "demo_dev\<lparr>udp_binds := [53 \<mapsto> vecdeque_new]\<rparr>"
  let ?d2 = "demo_dev\<lparr>udp_binds := [53 \<mapsto> \<lparr>q_items = [], q_capacity = 4\<rparr>]\<rparr>"
  have "queues_empty ?d1" by (simp add: queues_empty_def)
  moreover have "dev_release_packet demo_pf ?d1 demo_packet = Done ?d1"
    by (simp add: dev_release_packet_def demo_pf_def default_release_packet_def demo_dev_def)
  ultimately have "discard_udp demo_pf ?d1 (Some demo_packet) = Done (None, ?d1)"
    using udp_queue_never_used [of demo_packet u ?d1 vecdeque_new demo_pf] u p by simp
  moreover have "discard_udp demo_pf ?d2 (Some demo_packet) = Panic"
    using udp_queue_never_used [of demo_packet u ?d2 "\<lparr>q_items = [], q_capacity = 4\<rparr>" demo_pf] u p by simp
  ultimately show ?thesis using u p by blast
qed





text \<open>\<open>get_lease\<close> gives the client's port back on every path: whether a lease was offered, refused or
  never came, the bound ports after it are those before it, and it does not touch the device's lease.\<close>

theorem get_lease_unbinds:
  assumes q: "queues_empty dev" and r: "get_lease pf dev = Some (Done (l, dev'))"
  shows "udp_binds dev' = udp_binds dev \<and> dev_lease dev' = dev_lease dev \<and> dev_mac dev' = dev_mac dev"
proof -
  obtain now d where t: "rdtsc pf (dev_driver dev) = (now, d)" by force
  show ?thesis
  proof (cases "udp_binds dev CLIENT_PORT = None")
    case True
    let ?dev = "dev\<lparr>dev_driver := d, udp_binds := (udp_binds dev)(CLIENT_PORT \<mapsto> vecdeque_new)\<rparr>"
    obtain devk where k: "quiet (\<lambda>_ _. True) ?dev devk" "unbind_udp pf devk CLIENT_PORT = Done dev'"
      using get_lease_unbound [OF t True q r] by (auto simp: ends_unbound_def)
    have "queues_empty ?dev" using q by (auto simp: queues_empty_def ran_def)
    then have "queues_empty devk" using quiet_fields(5) [OF k(1)] by simp
    from quiet_unbind [OF drv_closed_all this k(2)] quiet_fields(1-3) [OF k(1)] True show ?thesis
      by (simp add: fun_upd_idem)
  next
    case False
    then show ?thesis using get_lease_bound_case [OF t] r by auto
  qed
qed

theorem get_lease_unbinds_witness:
  "\<exists>l dev'. get_lease demo_pf (demo_dev\<lparr>udp_binds := [68 \<mapsto> vecdeque_new]\<rparr>) = Some (Done (l, dev'))
    \<and> udp_binds dev' = [68 \<mapsto> vecdeque_new]"
proof -
  let ?dev = "demo_dev\<lparr>udp_binds := [68 \<mapsto> vecdeque_new]\<rparr>"
  have q: "queues_empty ?dev" by (simp add: queues_empty_def)
  obtain now d where t: "rdtsc demo_pf (dev_driver ?dev) = (now, d)" by (metis surj_pair)
  have "get_lease demo_pf ?dev = Some (Done (None, ?dev\<lparr>dev_driver := d\<rparr>))"
    using get_lease_bound_case [OF t] by (simp add: CLIENT_PORT_def)
  then show ?thesis using get_lease_unbinds [OF q] by fastforce
qed

text \<open>once the devices are locked in, \<open>NetDevice::get\<close> returns one with the fewest references.\<close>

theorem get_device_least:
  assumes "once_initialized (net_devices g)" "cs \<noteq> []" "list_all (\<lambda>c. c < usize_max) cs"
  shows "\<exists>i < length cs. get_device g cs = Some i \<and> (\<forall>j < length cs. cs ! i \<le> cs ! j)"
proof -
  obtain c cs' where c: "cs = c # cs'" using assms(2) by (cases cs) auto
  have lt: "\<forall>c \<in> set cs'. c < usize_max" "c < usize_max" using assms(3) c by (simp_all add: list_all_iff)
  obtain j n where j: "get_loop cs' 1 (Some (0, c)) = Some (j, n)" "n \<le> c" "\<forall>c \<in> set cs'. n \<le> c"
    "(j, n) = (0, c) \<or> (1 \<le> j \<and> j < 1 + length cs' \<and> cs' ! (j - 1) = n \<and> n < c)"
    using get_loop_best [OF lt, of 1 0] by blast
  have "get_device g cs = Some j" using assms(1) c lt j(1) by (simp add: get_device_def)
  moreover have "j < length cs" "cs ! j = n" using j(4) c by (auto simp: nth_Cons')
  moreover have "\<forall>m < length cs. n \<le> cs ! m" using j(2,3) c by (auto simp: nth_Cons')
  ultimately show ?thesis by auto
qed

theorem get_device_least_witness:
  "\<exists>i < 3. get_device \<lparr>probed_devices = None, net_devices = \<lparr>once_initialized = True, once_value = Some [demo_dev, demo_dev, demo_dev]\<rparr>,
     next_dev_id = 3\<rparr> [3, 1, 2] = Some i"
  using get_device_least [of "\<lparr>probed_devices = None, net_devices = \<lparr>once_initialized = True,
    once_value = Some [demo_dev, demo_dev, demo_dev]\<rparr>, next_dev_id = 3\<rparr>" "[3, 1, 2]"]
  by (auto simp: usize_max_def)

end
