(* ===== verification/Core_Reqs.thy ===== *)
theory Core_Reqs
  imports Memory
begin

text \<open>
  The functions the compiler expects of a freestanding program, \<open>src/shared/core_reqs\<close>: copying, comparing and
  filling memory and the length of a string. The loops run over a byte memory, one access at a time, so that
  overlapping regions behave as they do on the machine.
\<close>

section \<open>Definitions\<close>

text \<open>The loop of \<open>memmove\<close> from the last byte down, and the one from the first byte up.\<close>

fun copy_down :: "u64 \<Rightarrow> u64 \<Rightarrow> nat \<Rightarrow> memory \<Rightarrow> memory" where
  "copy_down dest src 0 m = m"
| "copy_down dest src (Suc i) m = copy_down dest src i (m(dest + of_nat i := m (src + of_nat i)))"

function copy_up :: "u64 \<Rightarrow> u64 \<Rightarrow> nat \<Rightarrow> nat \<Rightarrow> memory \<Rightarrow> memory" where
  "copy_up dest src n i m = (if i < n then copy_up dest src n (i + 1) (m(dest + of_nat i := m (src + of_nat i))) else m)"
  by pat_completeness auto
termination
  by (relation "measure (\<lambda>(dest, src, n, i, m). n - i)") auto

declare copy_up.simps [simp del]

definition memmove :: "u64 \<Rightarrow> u64 \<Rightarrow> nat \<Rightarrow> memory \<Rightarrow> u64 \<times> memory" where
  "memmove dest src n m = (dest, if src < dest then copy_down dest src n m else copy_up dest src n 0 m)"

definition memcpy :: "u64 \<Rightarrow> u64 \<Rightarrow> nat \<Rightarrow> memory \<Rightarrow> u64 \<times> memory" where
  "memcpy dest src n m = memmove dest src n m"

text \<open>The result, an \<open>i32\<close>, is the difference of two bytes and cannot overflow.\<close>

function memcmp_loop :: "memory \<Rightarrow> u64 \<Rightarrow> u64 \<Rightarrow> nat \<Rightarrow> nat \<Rightarrow> int" where
  "memcmp_loop m s1 s2 n i =
     (if i < n then
        let a = m (s1 + of_nat i); b = m (s2 + of_nat i) in
        if a \<noteq> b then uint a - uint b else memcmp_loop m s1 s2 n (i + 1)
      else 0)"
  by pat_completeness auto
termination
  by (relation "measure (\<lambda>(m, s1, s2, n, i). n - i)") auto

declare memcmp_loop.simps [simp del]

definition memcmp :: "memory \<Rightarrow> u64 \<Rightarrow> u64 \<Rightarrow> nat \<Rightarrow> int" where
  "memcmp m s1 s2 n = memcmp_loop m s1 s2 n 0"

text \<open>\<open>rep stosb\<close> writes the low byte of \<open>c\<close>.\<close>

definition memset :: "u64 \<Rightarrow> u32 \<Rightarrow> nat \<Rightarrow> memory \<Rightarrow> u64 \<times> memory" where
  "memset s c n m = (s, if n = 0 then m else fill_bytes m s (ucast c) n)"

text \<open>A string that does not end makes the loop run on.\<close>

partial_function (option) strlen_loop :: "memory \<Rightarrow> u64 \<Rightarrow> nat \<Rightarrow> nat option" where
  "strlen_loop m s i = (if m (s + of_nat i) \<noteq> 0 then strlen_loop m s (i + 1) else Some i)"

definition strlen :: "memory \<Rightarrow> u64 \<Rightarrow> nat option" where
  "strlen m s = strlen_loop m s 0"

section \<open>Copying\<close>

lemma unat_offset: "unat p + n \<le> 2 ^ 64 \<Longrightarrow> i < n \<Longrightarrow> unat (p + of_nat i) = unat p + i" for p :: u64
  by (simp add: unat_add_no_overflow unat_of_nat_small)

lemma offset_eq_iff:
  fixes p :: u64
  assumes "unat p + n \<le> 2 ^ 64" "i < n" "j < n"
  shows "p + of_nat i = p + of_nat j \<longleftrightarrow> i = j"
  using unat_offset [OF assms(1,2)] unat_offset [OF assms(1,3)] by (metis add_left_cancel)

text \<open>What a copy of the bytes with an index in \<open>I\<close> leaves.\<close>

definition copied :: "u64 \<Rightarrow> u64 \<Rightarrow> nat set \<Rightarrow> memory \<Rightarrow> memory \<Rightarrow> bool" where
  "copied dest src I m m' \<longleftrightarrow> (\<forall>i \<in> I. m' (dest + of_nat i) = m (src + of_nat i))
     \<and> (\<forall>a. (\<forall>i \<in> I. a \<noteq> dest + of_nat i) \<longrightarrow> m' a = m a)"

lemma copy_down_copied:
  assumes fits: "unat dest + n \<le> 2 ^ 64" "unat src + n \<le> 2 ^ 64" and lt: "src < dest"
  shows "i \<le> n \<Longrightarrow> copied dest src {i..<n} m m' \<Longrightarrow> copied dest src {0..<n} m (copy_down dest src i m')"
proof (induction i arbitrary: m')
  case (Suc i)
  have "src + of_nat i \<noteq> dest + of_nat j" if "j \<in> {Suc i..<n}" for j
  proof -
    have "unat (src + of_nat i) = unat src + i" "unat (dest + of_nat j) = unat dest + j"
      using unat_offset [OF fits(2), of i] unat_offset [OF fits(1), of j] Suc.prems(1) that by simp_all
    then show ?thesis using lt that by (auto simp: word_less_nat_alt)
  qed
  then have "m' (src + of_nat i) = m (src + of_nat i)" using Suc.prems(2) by (simp add: copied_def)
  moreover have "dest + of_nat j \<noteq> dest + of_nat i" if "j \<in> {Suc i..<n}" for j
    using offset_eq_iff [OF fits(1), of j i] that Suc.prems(1) by auto
  moreover have "{i..<n} = insert i {Suc i..<n}" using Suc.prems(1) by auto
  ultimately have "copied dest src {i..<n} m (m'(dest + of_nat i := m' (src + of_nat i)))"
    using Suc.prems(2) by (simp add: copied_def)
  then show ?case unfolding copy_down.simps using Suc.IH Suc.prems(1) by (meson Suc_leD)
qed simp

lemma copy_up_copied:
  assumes fits: "unat dest + n \<le> 2 ^ 64" "unat src + n \<le> 2 ^ 64" and le: "dest \<le> src"
  shows "i \<le> n \<Longrightarrow> copied dest src {0..<i} m m' \<Longrightarrow> copied dest src {0..<n} m (copy_up dest src n i m')"
proof (induction "n - i" arbitrary: i m')
  case 0
  then show ?case by (simp add: copy_up.simps)
next
  case (Suc k)
  then have i: "i < n" by simp
  have "src + of_nat i \<noteq> dest + of_nat j" if "j \<in> {0..<i}" for j
  proof -
    have "unat (src + of_nat i) = unat src + i" "unat (dest + of_nat j) = unat dest + j"
      using unat_offset [OF fits(2), of i] unat_offset [OF fits(1), of j] i that by simp_all
    then show ?thesis using le that by (auto simp: word_le_nat_alt)
  qed
  then have "m' (src + of_nat i) = m (src + of_nat i)" using Suc.prems(2) by (simp add: copied_def)
  moreover have "dest + of_nat j \<noteq> dest + of_nat i" if "j \<in> {0..<i}" for j
    using offset_eq_iff [OF fits(1), of j i] that i by auto
  moreover have "{0..<Suc i} = insert i {0..<i}" by auto
  ultimately have "copied dest src {0..<Suc i} m (m'(dest + of_nat i := m' (src + of_nat i)))"
    using Suc.prems(2) by (simp add: copied_def)
  then show ?case using Suc.hyps i by (subst copy_up.simps) simp
qed

lemma copied_write:
  assumes "unat dest + n \<le> 2 ^ 64" "copied dest src {0..<n} m m'"
  shows "m' = write_bytes_at m dest (read_bytes m src n)"
proof
  fix a
  show "m' a = write_bytes_at m dest (read_bytes m src n) a"
  proof (cases "unat (a - dest) < n")
    case True
    then have "m' (dest + of_nat (unat (a - dest))) = m (src + of_nat (unat (a - dest)))"
      using assms(2) unfolding copied_def by (meson atLeastLessThan_iff le0)
    then show ?thesis using True by (simp add: write_bytes_at_def read_bytes_def)
  next
    case False
    have "a \<noteq> dest + of_nat i" if "i < n" for i
    proof
      assume "a = dest + of_nat i"
      then have "unat (a - dest) = i" using that assms(1) by (simp add: unat_of_nat_small)
      then show False using False that by simp
    qed
    then show ?thesis using assms(2) False by (simp add: copied_def write_bytes_at_def read_bytes_def)
  qed
qed

text \<open>C33: \<open>memmove\<close>, and with it \<open>memcpy\<close>, for any two regions inside the address space, overlapping or not: the
  destination holds the bytes the source had before the call and every other byte keeps its value.\<close>

theorem memmove_correct:
  assumes "unat dest + n \<le> 2 ^ 64" "unat src + n \<le> 2 ^ 64"
  shows "memmove dest src n m = (dest, write_bytes_at m dest (read_bytes m src n))
    \<and> memcpy dest src n m = memmove dest src n m"
proof -
  have "copied dest src {0..<n} m (if src < dest then copy_down dest src n m else copy_up dest src n 0 m)"
    using copy_down_copied [OF assms, of n m m] copy_up_copied [OF assms, of 0 m m] by (auto simp: copied_def not_less)
  then show ?thesis using copied_write [OF assms(1)] by (simp add: memmove_def memcpy_def)
qed

theorem memmove_correct_witness:
  "read_bytes (snd (memmove 0x1002 0x1000 4 (\<lambda>a. ucast a))) 0x1002 4 = [0, 1, 2, 3]"
proof -
  have "memmove 0x1002 0x1000 4 (\<lambda>a. ucast a) = (0x1002, write_bytes_at (\<lambda>a. ucast a) 0x1002 (read_bytes (\<lambda>a. ucast a) 0x1000 4))"
    using memmove_correct [of "0x1002" 4 "0x1000" "\<lambda>a. ucast a"] by simp
  moreover have "read_bytes (\<lambda>a. ucast a) 0x1000 4 = [0, 1, 2, 3]" by code_simp
  ultimately show ?thesis by (simp add: read_write_same)
qed

section \<open>Comparing\<close>

lemma memcmp_loop_prefix:
  "k \<le> n \<Longrightarrow> i \<le> k \<Longrightarrow> (\<And>j. i \<le> j \<Longrightarrow> j < k \<Longrightarrow> m (s1 + of_nat j) = m (s2 + of_nat j)) \<Longrightarrow> memcmp_loop m s1 s2 n i = memcmp_loop m s1 s2 n k"
proof (induction "k - i" arbitrary: i)
  case (Suc d)
  then have i: "i < n" "m (s1 + of_nat i) = m (s2 + of_nat i)" by simp_all
  have "memcmp_loop m s1 s2 n (i + 1) = memcmp_loop m s1 s2 n k"
    by (rule Suc.hyps(1)) (use Suc.hyps(2) Suc.prems in auto)
  then show ?case using i by (subst memcmp_loop.simps) simp
qed simp

text \<open>\<open>memcmp\<close> is zero exactly when the regions are equal, and otherwise has the sign of the first pair of bytes
  that differ, compared as unsigned numbers.\<close>

theorem memcmp_correct:
  "(memcmp m s1 s2 n = 0 \<longleftrightarrow> read_bytes m s1 n = read_bytes m s2 n)
   \<and> (\<forall>k < n. read_bytes m s1 k = read_bytes m s2 k \<and> m (s1 + of_nat k) < m (s2 + of_nat k) \<longrightarrow> memcmp m s1 s2 n < 0)
   \<and> (\<forall>k < n. read_bytes m s1 k = read_bytes m s2 k \<and> m (s2 + of_nat k) < m (s1 + of_nat k) \<longrightarrow> 0 < memcmp m s1 s2 n)"
proof -
  have eq: "read_bytes m s1 k = read_bytes m s2 k \<longleftrightarrow> (\<forall>j < k. m (s1 + of_nat j) = m (s2 + of_nat j))" for k
    by (auto simp: read_bytes_def)
  have diff: "memcmp m s1 s2 n = uint (m (s1 + of_nat k)) - uint (m (s2 + of_nat k))"
    if "k < n" "read_bytes m s1 k = read_bytes m s2 k" "m (s1 + of_nat k) \<noteq> m (s2 + of_nat k)" for k
    unfolding memcmp_def using memcmp_loop_prefix [of k n 0 m s1 s2] that by (simp add: eq memcmp_loop.simps [of _ _ _ _ k])
  have "memcmp m s1 s2 n = 0" if "read_bytes m s1 n = read_bytes m s2 n"
    unfolding memcmp_def using memcmp_loop_prefix [of n n 0 m s1 s2] that by (simp add: eq memcmp_loop.simps [of _ _ _ _ n])
  moreover have "read_bytes m s1 n = read_bytes m s2 n" if z: "memcmp m s1 s2 n = 0"
  proof (rule ccontr)
    assume "read_bytes m s1 n \<noteq> read_bytes m s2 n"
    then obtain k where k: "k < n" "m (s1 + of_nat k) \<noteq> m (s2 + of_nat k)" "\<forall>j < k. m (s1 + of_nat j) = m (s2 + of_nat j)"
      using exists_least_iff [of "\<lambda>j. j < n \<and> m (s1 + of_nat j) \<noteq> m (s2 + of_nat j)"] by (auto simp: eq)
    then show False using diff [of k] z by (simp add: eq word_uint_eq_iff)
  qed
  moreover have "memcmp m s1 s2 n < 0" if "k < n" "read_bytes m s1 k = read_bytes m s2 k" "m (s1 + of_nat k) < m (s2 + of_nat k)" for k
    using diff [OF that(1,2) less_imp_neq [OF that(3)]] that(3) by (simp add: word_less_def)
  moreover have "0 < memcmp m s1 s2 n" if "k < n" "read_bytes m s1 k = read_bytes m s2 k" "m (s2 + of_nat k) < m (s1 + of_nat k)" for k
    using diff [OF that(1,2) less_imp_neq [OF that(3), symmetric]] that(3) by (simp add: word_less_def)
  ultimately show ?thesis by blast
qed

theorem memcmp_correct_witness:
  "memcmp (\<lambda>a. if a = 0x1001 then 3 else if a = 0x2001 then 200 else 7) 0x1000 0x2000 4 < 0"
proof -
  let ?m = "\<lambda>a :: u64. if a = 0x1001 then 3 else if a = 0x2001 then 200 else 7 :: u8"
  have "read_bytes ?m 0x1000 1 = read_bytes ?m 0x2000 1" "?m (0x1000 + of_nat 1) < ?m (0x2000 + of_nat 1)" by (simp_all add: read_bytes_def)
  then show ?thesis using memcmp_correct [of ?m "0x1000" "0x2000" 4] by (meson one_less_numeral_iff semiring_norm(76))
qed

text \<open>\<open>strlen\<close> returns for a string that ends.\<close>

lemma strlen_returns:
  assumes "m (s + of_nat k) = 0" "\<forall>j < k. m (s + of_nat j) \<noteq> 0"
  shows "strlen m s = Some k"
proof -
  have "strlen_loop m s i = Some k" if "i \<le> k" for i
    using that
  proof (induction "k - i" arbitrary: i)
    case 0
    then show ?case using assms(1) by (subst strlen_loop.simps) simp
  next
    case (Suc d)
    then show ?case using assms(2) by (subst strlen_loop.simps) simp
  qed
  then show ?thesis by (simp add: strlen_def)
qed

end
