(* ===== verification/Acpi_Tables.thy ===== *)
theory Acpi_Tables
  imports Kernel_Mm
begin

text \<open>
  The parsers of ACPI tables, \<open>src/kernel/src/acpi\<close>: the entries of a table, the MADT with the APICs of the
  system and the SRAT with its memory domains. A table is read from memory through pointers, byte by byte; moving a
  pointer past the end of the address space is undefined in Rust and a panic here.
\<close>

section \<open>Tables and entries\<close>

datatype acpi_table = Table_Madt | Table_Srat | Table_Unknown "u8 list"

datatype acpi_error =
    Acpi20NotFound
  | SignatureMismatch acpi_table
  | SizeMismatch acpi_table
  | ChecksumMismatch acpi_table
  | UnhandledFlags
  | MemoryAffinityOverflow

definition ENABLED :: u32 where "ENABLED = push_bit 0 1"

definition from_sig :: "u8 list \<Rightarrow> acpi_table" where
  "from_sig signature =
     (if signature = [0x41, 0x50, 0x49, 0x43] then Table_Madt
      else if signature = [0x53, 0x52, 0x41, 0x54] then Table_Srat
      else Table_Unknown signature)"

record sdt_header =
  sdt_signature :: "u8 list"
  sdt_length :: u32
  sdt_revision :: u8
  sdt_checksum :: u8
  sdt_oem_id :: "u8 list"
  sdt_oem_table_id :: "u8 list"
  sdt_oem_revision :: u32
  sdt_creator_id :: u32
  sdt_creator_revision :: u32

text \<open>\<open>size_of::<SdtHeader>()\<close>, and the header behind a pointer: \<open>repr(C)\<close> puts the fields at these offsets.\<close>

definition sdt_header_size :: u64 where "sdt_header_size = 36"

definition header_at :: "memory \<Rightarrow> u64 \<Rightarrow> sdt_header" where
  "header_at m p = \<lparr>sdt_signature = read_bytes m p 4, sdt_length = from_le (read_bytes m (p + 4) 4),
     sdt_revision = m (p + 8), sdt_checksum = m (p + 9), sdt_oem_id = read_bytes m (p + 10) 6,
     sdt_oem_table_id = read_bytes m (p + 16) 8, sdt_oem_revision = from_le (read_bytes m (p + 24) 4),
     sdt_creator_id = from_le (read_bytes m (p + 28) 4), sdt_creator_revision = from_le (read_bytes m (p + 32) 4)\<rparr>"

definition checksum_valid :: "memory \<Rightarrow> u64 \<Rightarrow> bool" where
  "checksum_valid m p =
     (foldl (\<lambda>x byte. x + byte) 0 (read_bytes m p (unat (sdt_length (header_at m p)))) = (0 :: u8))"

record table_entry =
  te_typ :: u8
  te_len :: u8
  te_ptr :: u64

text \<open>\<open>read\<close> of an integer of \<open>n\<close> bytes.\<close>

definition entry_read :: "memory \<Rightarrow> table_entry \<Rightarrow> u64 \<Rightarrow> nat \<Rightarrow> 'a::len word" where
  "entry_read m entry offset n = from_le (read_bytes m (te_ptr entry + offset) n)"

function entries_loop ::
  "memory \<Rightarrow> acpi_table \<Rightarrow> u64 \<Rightarrow> u64 \<Rightarrow> table_entry list \<Rightarrow> (acpi_error + table_entry list) outcome" where
  "entries_loop m table_type end_ptr ptr es =
     (if ptr < end_ptr then
        let typ = m ptr; len = m (ptr + 1) in
        if len < 2 then Done (Inl (SizeMismatch table_type))
        else obind (padd ptr (ucast len)) (\<lambda>ptr'.
          entries_loop m table_type end_ptr ptr' (es @ [\<lparr>te_typ = typ, te_len = len, te_ptr = ptr\<rparr>]))
      else Done (Inr es))"
  by pat_completeness auto
termination
proof (relation "measure (\<lambda>(m, t, end_ptr, ptr, es). unat end_ptr - unat ptr)", goal_cases)
  case (2 m t end_ptr ptr es ty len ptr')
  then have "ptr' = ptr + ucast len" "unat ptr' = unat ptr + unat (ucast len :: u64)"
    by (auto simp: checked_add_eq_Some unat_add_no_overflow padd_def)
  moreover have "0 < unat len" using 2 by (simp add: word_less_nat_alt)
  ultimately show ?case using 2(1) by (simp add: word_less_nat_alt unat_ucast_widen)
qed simp

declare entries_loop.simps [simp del]

definition parse_table_entries :: "memory \<Rightarrow> u64 \<Rightarrow> u64 \<Rightarrow> (acpi_error + table_entry list) outcome" where
  "parse_table_entries m hdr_ptr offset =
     (let hdr = header_at m hdr_ptr in
      obind (padd hdr_ptr (sdt_header_size + offset)) (\<lambda>ptr.
      obind (padd hdr_ptr (ucast (sdt_length hdr))) (\<lambda>end_ptr.
        entries_loop m (from_sig (sdt_signature hdr)) end_ptr ptr [])))"

section \<open>The MADT\<close>

definition ONLINE_CAPABLE :: u32 where "ONLINE_CAPABLE = push_bit 1 1"

record madt =
  madt_apics :: "u32 list"

fun madt_loop :: "memory \<Rightarrow> table_entry list \<Rightarrow> madt \<Rightarrow> (acpi_error + madt) outcome" where
  "madt_loop m [] madt = Done (Inr madt)"
| "madt_loop m (entry # es) madt =
     (if te_typ entry = 0 then
        if te_len entry \<noteq> 8 then Done (Inl (SizeMismatch Table_Madt))
        else let apic = ucast (entry_read m entry 3 1 :: u8); flags = entry_read m entry 4 4 :: u32 in
          madt_loop m es (if flags AND ENABLED \<noteq> 0 \<or> flags AND ONLINE_CAPABLE \<noteq> 0
            then madt\<lparr>madt_apics := madt_apics madt @ [apic]\<rparr> else madt)
      else if te_typ entry = 9 then
        if te_len entry \<noteq> 16 then Done (Inl (SizeMismatch Table_Madt))
        else let apic = entry_read m entry 4 4; flags = entry_read m entry 8 4 :: u32 in
          madt_loop m es (if flags AND ENABLED \<noteq> 0 \<or> flags AND ONLINE_CAPABLE \<noteq> 0
            then madt\<lparr>madt_apics := madt_apics madt @ [apic]\<rparr> else madt)
      else madt_loop m es madt)"

definition madt_parse :: "memory \<Rightarrow> u64 \<Rightarrow> (acpi_error + madt) outcome" where
  "madt_parse m hdr_ptr =
     orbind (parse_table_entries m hdr_ptr (2 * 4)) (\<lambda>es. madt_loop m es \<lparr>madt_apics = []\<rparr>)"

section \<open>The SRAT\<close>

text \<open>A B-tree map that is iterated over is a list of pairs with ascending keys.\<close>

fun btree_insert :: "'k::linorder \<Rightarrow> 'v \<Rightarrow> ('k \<times> 'v) list \<Rightarrow> ('k \<times> 'v) list" where
  "btree_insert k v [] = [(k, v)]"
| "btree_insert k v ((k', v') # kvs) =
     (if k < k' then (k, v) # (k', v') # kvs
      else if k = k' then (k, v) # kvs
      else (k', v') # btree_insert k v kvs)"

record srat =
  apic_to_domain :: "(u32 \<times> u32) list"
  domain_to_ranges :: "u32 \<rightharpoonup> range_set"

text \<open>Adding a memory range to its domain; an error of the range set becomes one of the parser.\<close>

definition srat_add_memory :: "u32 \<Rightarrow> u64 \<Rightarrow> u64 \<Rightarrow> srat \<Rightarrow> (acpi_error + srat) outcome" where
  "srat_add_memory domain start len s =
     (case Option.bind (checked_sub len 1) (checked_add start) of
        None \<Rightarrow> Done (Inl MemoryAffinityOverflow)
      | Some end_addr \<Rightarrow>
          let rs = (case domain_to_ranges s domain of None \<Rightarrow> rs_new | Some rs \<Rightarrow> rs) in
          obind (unwrap_result (range_new start end_addr)) (\<lambda>rng.
          obind (rs_insert rs rng) (\<lambda>(res, rs).
            Done (case res of
                    Inl _ \<Rightarrow> Inl MemoryAffinityOverflow
                  | Inr _ \<Rightarrow> Inr (s\<lparr>domain_to_ranges := (domain_to_ranges s)(domain \<mapsto> rs)\<rparr>)))))"

fun srat_loop :: "memory \<Rightarrow> table_entry list \<Rightarrow> srat \<Rightarrow> (acpi_error + srat) outcome" where
  "srat_loop m [] s = Done (Inr s)"
| "srat_loop m (entry # es) s =
     (if te_typ entry = 0 then
        if te_len entry \<noteq> 16 then Done (Inl (SizeMismatch Table_Srat))
        else
          let apic = ucast (entry_read m entry 3 1 :: u8); flags = entry_read m entry 4 4 :: u32;
              domain = from_le [entry_read m entry 2 1, entry_read m entry 9 1, entry_read m entry 10 1, entry_read m entry 11 1] in
          srat_loop m es (if flags AND ENABLED \<noteq> 0
            then s\<lparr>apic_to_domain := btree_insert apic domain (apic_to_domain s)\<rparr> else s)
      else if te_typ entry = 1 then
        if te_len entry \<noteq> 40 then Done (Inl (SizeMismatch Table_Srat))
        else
          let domain = entry_read m entry 2 4; start = entry_read m entry 8 8; len = entry_read m entry 16 8;
              flags = entry_read m entry 28 4 :: u32 in
          if len > 0 \<and> flags AND ENABLED \<noteq> 0
          then orbind (srat_add_memory domain start len s) (srat_loop m es)
          else srat_loop m es s
      else if te_typ entry = 2 then
        if te_len entry \<noteq> 24 then Done (Inl (SizeMismatch Table_Srat))
        else
          let domain = entry_read m entry 4 4; apic = entry_read m entry 8 4; flags = entry_read m entry 12 4 :: u32 in
          srat_loop m es (if flags AND ENABLED \<noteq> 0
            then s\<lparr>apic_to_domain := btree_insert apic domain (apic_to_domain s)\<rparr> else s)
      else Panic)"

definition srat_parse :: "memory \<Rightarrow> u64 \<Rightarrow> (acpi_error + srat) outcome" where
  "srat_parse m hdr_ptr =
     orbind (parse_table_entries m hdr_ptr 12) (\<lambda>es. srat_loop m es \<lparr>apic_to_domain = [], domain_to_ranges = Map.empty\<rparr>)"

end
