(* ===== verification/Acpi_Props.thy ===== *)
theory Acpi_Props
  imports Acpi_Tables
begin

text \<open>
  ACPI tables as images in memory. The parsers recover exactly the entries that were written: the usable APICs
  of an MADT, and the domains of the cores and of the memory ranges of an SRAT.
\<close>

section \<open>Entries\<close>

lemma read_bytes_sub:
  assumes "read_bytes m p (length bs) = bs" "off + n \<le> length bs"
  shows "read_bytes m (p + of_nat off) n = take n (drop off bs)"
proof (rule nth_equalityI)
  fix i assume i: "i < length (read_bytes m (p + of_nat off) n)"
  then have "bs ! (off + i) = m (p + of_nat (off + i))"
    using assms(2) by (subst assms(1) [symmetric]) (simp add: read_bytes_def)
  then show "read_bytes m (p + of_nat off) n ! i = take n (drop off bs) ! i"
    using i assms(2) by (simp add: read_bytes_def add.assoc)
qed (use assms(2) in \<open>simp add: read_bytes_def\<close>)

text \<open>An entry is its type and what follows the two bytes of its header.\<close>

type_synonym raw_entry = "u8 \<times> u8 list"

definition entry_bytes :: "raw_entry \<Rightarrow> u8 list" where
  "entry_bytes e = fst e # of_nat (2 + length (snd e)) # snd e"

abbreviation entries_bytes :: "raw_entry list \<Rightarrow> u8 list" where
  "entries_bytes es \<equiv> concat (map entry_bytes es)"

definition entry_fits :: "raw_entry \<Rightarrow> bool" where
  "entry_fits e \<longleftrightarrow> length (snd e) \<le> 253"

fun entries_at :: "u64 \<Rightarrow> raw_entry list \<Rightarrow> table_entry list" where
  "entries_at p [] = []"
| "entries_at p (e # es) =
     \<lparr>te_typ = fst e, te_len = of_nat (2 + length (snd e)), te_ptr = p\<rparr> # entries_at (p + of_nat (2 + length (snd e))) es"

lemma length_entry_bytes [simp]: "length (entry_bytes e) = 2 + length (snd e)"
  by (simp add: entry_bytes_def)

lemma entry_len:
  assumes "n \<le> 255"
  shows "unat (of_nat n :: u8) = n" "(ucast (of_nat n :: u8) :: u64) = of_nat n"
proof -
  show u: "unat (of_nat n :: u8) = n" using assms by (simp add: unsigned_of_nat take_bit_nat_eq_self)
  then have "unat (ucast (of_nat n :: u8) :: u64) = n" by (simp add: unat_ucast_widen)
  then show "(ucast (of_nat n :: u8) :: u64) = of_nat n" using assms by (simp add: word_unat_eq_iff unat_of_nat_small)
qed

lemma entries_loop_image:
  assumes "read_bytes m p (length (entries_bytes es)) = entries_bytes es" "\<forall>e \<in> set es. entry_fits e"
    and "unat p + length (entries_bytes es) < 2 ^ 64" "end_ptr = p + of_nat (length (entries_bytes es))"
  shows "entries_loop m t end_ptr p acc = Done (Inr (acc @ entries_at p es))"
  using assms
proof (induction es arbitrary: p acc)
  case Nil
  then show ?case by (simp add: entries_loop.simps)
next
  case (Cons e es)
  define n where "n = 2 + length (snd e)"
  let ?rest = "entries_bytes es"
  have n: "n \<le> 255" using Cons.prems(2) by (simp add: entry_fits_def n_def)
  have len: "length (entries_bytes (e # es)) = n + length ?rest" by (simp add: n_def)
  have ue: "unat end_ptr = unat p + (n + length ?rest)"
    using Cons.prems(3,4) unfolding len by (simp add: unat_add_no_overflow unat_of_nat_small del: of_nat_add)
  have un: "unat (p + of_nat n) = unat p + n"
    using Cons.prems(3) unfolding len by (simp add: unat_add_no_overflow unat_of_nat_small)
  have hd: "m p = fst e" "m (p + 1) = of_nat n"
    using read_bytes_sub [OF Cons.prems(1), of 0 1] read_bytes_sub [OF Cons.prems(1), of 1 1]
    by (simp_all add: entry_bytes_def read_bytes_def n_def)
  have "read_bytes m (p + of_nat n) (length ?rest) = ?rest"
    using read_bytes_sub [OF Cons.prems(1), of n "length ?rest"] by (simp add: n_def)
  then have IH: "entries_loop m t end_ptr (p + of_nat n) acc' = Done (Inr (acc' @ entries_at (p + of_nat n) es))" for acc'
    using Cons.IH [of "p + of_nat n" acc'] Cons.prems un unfolding len by (simp add: add.assoc)
  have "p < end_ptr" using ue by (simp add: word_less_nat_alt n_def)
  moreover have "\<not> (of_nat n :: u8) < 2" using entry_len(1) [OF n] by (simp add: word_less_nat_alt n_def)
  moreover have "padd p (ucast (of_nat n :: u8)) = Done (p + of_nat n)"
    unfolding entry_len(2) [OF n] using Cons.prems(3) len by (simp add: unat_of_nat_small checked_add_eq_Some)
  moreover have "entries_at p (e # es) = \<lparr>te_typ = fst e, te_len = of_nat n, te_ptr = p\<rparr> # entries_at (p + of_nat n) es"
    by (simp add: n_def)
  ultimately show ?case
    using hd IH by (subst entries_loop.simps) (simp add: Let_def)
qed

lemma entries_image_step:
  assumes "read_bytes m p (length (entries_bytes (e # es))) = entries_bytes (e # es)"
  shows "read_bytes m (p + of_nat (2 + length (snd e))) (length (entries_bytes es)) = entries_bytes es"
    and "off + n \<le> 2 + length (snd e) \<Longrightarrow> read_bytes m (p + of_nat off) n = take n (drop off (entry_bytes e))"
  using read_bytes_sub [OF assms, of "2 + length (snd e)" "length (entries_bytes es)"] read_bytes_sub [OF assms, of off n]
  by simp_all

section \<open>Tables\<close>

definition table_image :: "u8 list \<Rightarrow> u8 list \<Rightarrow> u8 list \<Rightarrow> raw_entry list \<Rightarrow> u8 list" where
  "table_image signature header fixed es =
     signature @ le_bytes 4 (of_nat (36 + length fixed + length (entries_bytes es)) :: u32) @ header @ fixed @ entries_bytes es"

text \<open>The image at an address, with the sizes of its parts and room for a pointer to its end.\<close>

definition table_at :: "memory \<Rightarrow> u64 \<Rightarrow> u8 list \<Rightarrow> u8 list \<Rightarrow> u8 list \<Rightarrow> raw_entry list \<Rightarrow> bool" where
  "table_at m p signature header fixed es \<longleftrightarrow>
     (let img = table_image signature header fixed es in
      read_bytes m p (length img) = img \<and> length signature = 4 \<and> length header = 28
      \<and> (\<forall>e \<in> set es. entry_fits e) \<and> length img < 2 ^ 32 \<and> unat p + length img < 2 ^ 64)"

lemma parse_image:
  assumes "table_at m p signature header fixed es"
  shows "parse_table_entries m p (of_nat (length fixed)) = Done (Inr (entries_at (p + of_nat (36 + length fixed)) es))"
    and "read_bytes m (p + of_nat (36 + length fixed)) (length (entries_bytes es)) = entries_bytes es"
    and "sdt_signature (header_at m p) = signature"
proof -
  let ?img = "table_image signature header fixed es"
  define k N where "k = 36 + length fixed" and "N = k + length (entries_bytes es)"
  have im: "read_bytes m p (length ?img) = ?img" "length signature = 4" "length header = 28"
    "\<forall>e \<in> set es. entry_fits e" "length ?img < 2 ^ 32" "unat p + length ?img < 2 ^ 64"
    using assms by (simp_all add: table_at_def Let_def)
  have len: "length ?img = N" using im(2,3) by (simp add: table_image_def N_def k_def)
  note sub = read_bytes_sub [OF im(1), unfolded len]
  show sig: "sdt_signature (header_at m p) = signature"
    using sub [of 0 4] im(2) by (simp add: header_at_def table_image_def N_def k_def)
  have "read_bytes m (p + 4) 4 = le_bytes 4 (of_nat N :: u32)"
    using sub [of 4 4] im(2) by (simp add: table_image_def N_def k_def)
  then have l: "sdt_length (header_at m p) = of_nat N" by (simp add: header_at_def from_le_bytes)
  have "unat (of_nat N :: u32) = N" using im(5) len by (simp add: unsigned_of_nat take_bit_nat_eq_self)
  then have c: "(ucast (of_nat N :: u32) :: u64) = of_nat N"
    using im(6) len by (simp add: word_unat_eq_iff unat_ucast_widen unat_of_nat_small)
  show body: "read_bytes m (p + of_nat k) (length (entries_bytes es)) = entries_bytes es"
    using sub [of k "length (entries_bytes es)"] im(2,3) by (simp add: table_image_def N_def k_def)
  have k: "sdt_header_size + of_nat (length fixed) = of_nat k" by (simp add: sdt_header_size_def k_def)
  have uk: "unat (p + of_nat k) = unat p + k" "checked_add p (of_nat k) = Some (p + of_nat k)" "checked_add p (of_nat N) = Some (p + of_nat N)"
    using im(6) unfolding len by (simp_all add: N_def unat_add_no_overflow unat_of_nat_small checked_add_eq_Some del: of_nat_add)
  have "entries_loop m (from_sig signature) (p + of_nat N) (p + of_nat k) [] = Done (Inr ([] @ entries_at (p + of_nat k) es))"
    using im(4,6) uk(1) unfolding len
    by (intro entries_loop_image [OF body]) (simp_all add: N_def)
  then show "parse_table_entries m p (of_nat (length fixed)) = Done (Inr (entries_at (p + of_nat k) es))"
    using l c k uk sig by (simp add: parse_table_entries_def Let_def padd_def)
qed

section \<open>The MADT\<close>

datatype madt_item =
    LocalApicItem u8 u8 u32
  | X2ApicItem u32 u32 u32
  | OtherItem u8 "u8 list"

fun madt_raw :: "madt_item \<Rightarrow> raw_entry" where
  "madt_raw (LocalApicItem uid apic flags) = (0, [uid, apic] @ le_bytes 4 flags)"
| "madt_raw (X2ApicItem apic flags uid) = (9, [0, 0] @ le_bytes 4 apic @ le_bytes 4 flags @ le_bytes 4 uid)"
| "madt_raw (OtherItem t body) = (t, body)"

fun madt_item_ok :: "madt_item \<Rightarrow> bool" where
  "madt_item_ok (OtherItem t body) \<longleftrightarrow> t \<noteq> 0 \<and> t \<noteq> 9"
| "madt_item_ok _ \<longleftrightarrow> True"

text \<open>The core of an entry, when it is enabled or can be.\<close>

fun usable_apic :: "madt_item \<Rightarrow> u32 list" where
  "usable_apic (LocalApicItem uid apic flags) = (if bit flags 0 \<or> bit flags 1 then [ucast apic] else [])"
| "usable_apic (X2ApicItem apic flags uid) = (if bit flags 0 \<or> bit flags 1 then [apic] else [])"
| "usable_apic (OtherItem t body) = []"

lemma flag_bits: "flags AND ENABLED \<noteq> 0 \<longleftrightarrow> bit flags 0" "flags AND ONLINE_CAPABLE \<noteq> 0 \<longleftrightarrow> bit flags 1"
  unfolding ENABLED_def ONLINE_CAPABLE_def by (rule flags_bit)+

lemma from_le_1 [simp]: "from_le [b] = (ucast b :: 'a::len word)"
  by simp

lemma madt_loop_image:
  assumes "read_bytes m p (length (entries_bytes (map madt_raw items))) = entries_bytes (map madt_raw items)"
    and "\<forall>i \<in> set items. madt_item_ok i"
  shows "madt_loop m (entries_at p (map madt_raw items)) a = Done (Inr (a\<lparr>madt_apics := madt_apics a @ concat (map usable_apic items)\<rparr>))"
  using assms
proof (induction items arbitrary: p a)
  case (Cons i items)
  note step = entries_image_step [OF Cons.prems(1) [unfolded list.map(2) [of madt_raw]]]
  have IH: "madt_loop m (entries_at (p + of_nat (2 + length (snd (madt_raw i)))) (map madt_raw items)) a'
      = Done (Inr (a'\<lparr>madt_apics := madt_apics a' @ concat (map usable_apic items)\<rparr>))" for a'
    using Cons.IH [OF step(1)] Cons.prems(2) by simp
  show ?case
  proof (cases i)
    case (LocalApicItem uid apic flags)
    have "entry_read m \<lparr>te_typ = 0, te_len = 8, te_ptr = p\<rparr> 3 1 = apic" "entry_read m \<lparr>te_typ = 0, te_len = 8, te_ptr = p\<rparr> 4 4 = flags"
      using step(2) [of 3 1] step(2) [of 4 4] LocalApicItem by (simp_all add: entry_read_def entry_bytes_def from_le_bytes)
    then show ?thesis using IH LocalApicItem by (simp add: flag_bits)
  next
    case (X2ApicItem apic flags uid)
    have "entry_read m \<lparr>te_typ = 9, te_len = 16, te_ptr = p\<rparr> 4 4 = apic" "entry_read m \<lparr>te_typ = 9, te_len = 16, te_ptr = p\<rparr> 8 4 = flags"
      using step(2) [of 4 4] step(2) [of 8 4] X2ApicItem by (simp_all add: entry_read_def entry_bytes_def from_le_bytes)
    then show ?thesis using IH X2ApicItem by (simp add: flag_bits)
  next
    case (OtherItem t body)
    then show ?thesis using IH Cons.prems(2) by simp
  qed
qed simp

section \<open>The SRAT\<close>

lemma map_of_btree_insert: "map_of (btree_insert k v kvs) = (map_of kvs)(k \<mapsto> v)"
  by (induction k v kvs rule: btree_insert.induct) (auto simp: fun_eq_iff)

lemma set_btree_insert: "fst ` set (btree_insert k v kvs) = insert k (fst ` set kvs)"
  by (induction k v kvs rule: btree_insert.induct) auto

lemma sorted_btree_insert: "sorted_wrt (<) (map fst kvs) \<Longrightarrow> sorted_wrt (<) (map fst (btree_insert k v kvs))"
proof (induction k v kvs rule: btree_insert.induct)
  case (2 k v k' v' kvs)
  have gt: "k' < x" if "x \<in> fst ` set kvs" for x using 2(2) that by auto
  consider "k < k'" | "k = k'" | "k' < k" by fastforce
  then show ?case
  proof cases
    case 1
    then show ?thesis using 2(2) gt by (auto dest: order_less_trans)
  next
    case 2
    then show ?thesis using "2.prems" by simp
  next
    case 3
    then have "\<forall>x \<in> fst ` set (btree_insert k v kvs). k' < x" using gt by (simp add: set_btree_insert)
    then show ?thesis using order_less_not_sym [OF 3] less_imp_neq [OF 3] "2.IH" "2.prems" by simp
  qed
qed simp

datatype srat_item =
    ApicAffinity u8 u32 u32 u8 u32
  | MemoryAffinity u32 u64 u64 u32
  | X2ApicAffinity u32 u32 u32 u32

fun srat_raw :: "srat_item \<Rightarrow> raw_entry" where
  "srat_raw (ApicAffinity apic domain flags eid clock) =
     (0, take 1 (le_bytes 4 domain) @ [apic] @ le_bytes 4 flags @ [eid] @ drop 1 (le_bytes 4 domain) @ le_bytes 4 clock)"
| "srat_raw (MemoryAffinity domain start len flags) =
     (1, le_bytes 4 domain @ [0, 0] @ le_bytes 8 start @ le_bytes 8 len @ replicate 4 0 @ le_bytes 4 flags @ replicate 8 0)"
| "srat_raw (X2ApicAffinity domain apic flags clock) =
     (2, [0, 0] @ le_bytes 4 domain @ le_bytes 4 apic @ le_bytes 4 flags @ le_bytes 4 clock @ replicate 4 0)"

text \<open>What the entries say: the domain of a core and the memory of a domain.\<close>

type_synonym topology = "(u32 \<rightharpoonup> u32) \<times> (u32 \<rightharpoonup> u64 set)"

fun srat_apply :: "srat_item \<Rightarrow> topology \<Rightarrow> topology" where
  "srat_apply (ApicAffinity apic domain flags eid clock) (c, d) = (if bit flags 0 then c(ucast apic \<mapsto> domain) else c, d)"
| "srat_apply (MemoryAffinity domain start len flags) (c, d) =
     (c, if len > 0 \<and> bit flags 0
         then d(domain \<mapsto> (case d domain of None \<Rightarrow> {} | Some a \<Rightarrow> a) \<union> {start..start + (len - 1)}) else d)"
| "srat_apply (X2ApicAffinity domain apic flags clock) (c, d) = (if bit flags 0 then c(apic \<mapsto> domain) else c, d)"

fun srat_item_ok :: "srat_item \<Rightarrow> bool" where
  "srat_item_ok (MemoryAffinity domain start len flags) \<longleftrightarrow> unat start + unat len < 2 ^ 64"
| "srat_item_ok _ \<longleftrightarrow> True"

fun domain_rel :: "nat \<Rightarrow> range_set option \<Rightarrow> u64 set option \<Rightarrow> bool" where
  "domain_rel k None None \<longleftrightarrow> True"
| "domain_rel k (Some rs) (Some a) \<longleftrightarrow> rs_inv rs \<and> rs_cover rs = a \<and> used rs \<le> k \<and> - 1 \<notin> a"
| "domain_rel k _ _ \<longleftrightarrow> False"

definition srat_rel :: "nat \<Rightarrow> srat \<Rightarrow> topology \<Rightarrow> bool" where
  "srat_rel k s t \<longleftrightarrow> map_of (apic_to_domain s) = fst t \<and> sorted_wrt (<) (map fst (apic_to_domain s))
     \<and> (\<forall>d. domain_rel k (domain_to_ranges s d) (snd t d))"

lemma srat_rel_core:
  "srat_rel k s (c, d) \<Longrightarrow> srat_rel k (s\<lparr>apic_to_domain := btree_insert a v (apic_to_domain s)\<rparr>) (c(a \<mapsto> v), d)"
  by (simp add: srat_rel_def map_of_btree_insert sorted_btree_insert)

lemma domain_rel_mono: "domain_rel k r a \<Longrightarrow> k \<le> k' \<Longrightarrow> domain_rel k' r a"
  by (cases r; cases a) auto

lemma domain_rel_entry:
  assumes "domain_rel k r a"
  shows "domain_rel k (Some (case r of None \<Rightarrow> rs_new | Some rs \<Rightarrow> rs)) (Some (case a of None \<Rightarrow> {} | Some a \<Rightarrow> a))"
proof (cases r)
  case None
  moreover have "rs_cover rs_new = {}" "used rs_new = 0" by (simp_all add: rs_cover_def ents_rs_new) (simp add: rs_new_def)
  ultimately show ?thesis using assms rs_inv_new by (cases a) auto
next
  case (Some rs)
  then show ?thesis using assms by (cases a) auto
qed

lemma srat_rel_mono: "srat_rel k s t \<Longrightarrow> k \<le> k' \<Longrightarrow> srat_rel k' s t"
  unfolding srat_rel_def using domain_rel_mono by blast

lemma srat_add_memory_rel:
  assumes rel: "srat_rel k s (c, d)" and len: "0 < len" "unat start + unat len < 2 ^ 64" and k: "k < 256"
  shows "\<exists>s'. srat_add_memory domain start len s = Done (Inr s')
    \<and> srat_rel (Suc k) s' (c, d(domain \<mapsto> (case d domain of None \<Rightarrow> {} | Some a \<Rightarrow> a) \<union> {start..start + (len - 1)}))"
proof -
  let ?rs = "case domain_to_ranges s domain of None \<Rightarrow> rs_new | Some rs \<Rightarrow> rs"
  let ?a = "case d domain of None \<Rightarrow> {} | Some a \<Rightarrow> a" and ?r = "\<lparr>rstart = start, rend = start + (len - 1)\<rparr>"
  note e = region_end [OF len]
  have rs: "rs_inv ?rs" "rs_cover ?rs = ?a" "used ?rs \<le> k" "- 1 \<notin> ?a"
    using domain_rel_entry [of k "domain_to_ranges s domain" "d domain"] rel by (simp_all add: srat_rel_def)
  obtain rs' where rs': "rs_insert ?rs ?r = Done (Inr (), rs')" "rs_inv rs'" "rs_cover rs' = ?a \<union> {start..start + (len - 1)}"
    "used rs' \<le> Suc (used ?rs)"
    using insert_region [OF rs(1) _ _ len] rs(2-4) k by auto
  let ?s = "s\<lparr>domain_to_ranges := (domain_to_ranges s)(domain \<mapsto> rs')\<rparr>"
  have "srat_add_memory domain start len s = Done (Inr ?s)"
    unfolding srat_add_memory_def e(3) using rs'(1) e(2,4) by (simp add: range_new_def new_unchecked_def ok_or_def)
  moreover have "srat_rel (Suc k) ?s (c, d(domain \<mapsto> ?a \<union> {start..start + (len - 1)}))"
    using srat_rel_mono [OF rel, of "Suc k"] rs' rs(3,4) e(5) by (simp add: srat_rel_def)
  ultimately show ?thesis by blast
qed

definition memory_items :: "srat_item list \<Rightarrow> nat" where
  "memory_items items = length (filter (\<lambda>i. case i of MemoryAffinity _ _ _ _ \<Rightarrow> True | _ \<Rightarrow> False) items)"

lemma take_1_Cons: "0 < length xs \<Longrightarrow> take 1 xs @ drop 1 xs = xs"
  by simp

lemma le_bytes_4: "le_bytes 4 w = [ucast w, ucast (drop_bit 8 w), ucast (drop_bit 16 w), ucast (drop_bit 24 w)]"
  by (simp add: le_bytes_def eval_nat_numeral)

lemma srat_loop_image:
  assumes "read_bytes m p (length (entries_bytes (map srat_raw items))) = entries_bytes (map srat_raw items)"
    and "\<forall>i \<in> set items. srat_item_ok i" "k + memory_items items \<le> 256" "srat_rel k s t"
  shows "\<exists>s'. srat_loop m (entries_at p (map srat_raw items)) s = Done (Inr s') \<and> srat_rel (k + memory_items items) s' (fold srat_apply items t)"
  using assms
proof (induction items arbitrary: p k s t)
  case Nil
  then show ?case by (simp add: memory_items_def)
next
  case (Cons i items)
  note step = entries_image_step [OF Cons.prems(1) [unfolded list.map(2) [of srat_raw]]]
  note IH = Cons.IH [OF step(1)]
  have ok: "\<forall>i \<in> set items. srat_item_ok i" using Cons.prems(2) by simp
  obtain c d where t: "t = (c, d)" by force
  show ?case
  proof (cases i)
    case (ApicAffinity apic domain flags eid clock)
    let ?e = "\<lparr>te_typ = 0, te_len = 16, te_ptr = p\<rparr>"
    have r: "entry_read m ?e 3 1 = apic" "entry_read m ?e 4 4 = flags"
      and q: "entry_read m ?e 2 1 = (ucast domain :: u8)" "entry_read m ?e 9 1 = (ucast (drop_bit 8 domain) :: u8)"
        "entry_read m ?e 10 1 = (ucast (drop_bit 16 domain) :: u8)" "entry_read m ?e 11 1 = (ucast (drop_bit 24 domain) :: u8)"
      using step(2) [of 3 1] step(2) [of 4 4] step(2) [of 2 1] step(2) [of 9 1] step(2) [of 10 1] step(2) [of 11 1] ApicAffinity
      by (simp_all add: entry_read_def entry_bytes_def from_le_bytes) (simp_all add: le_bytes_4)
    have "from_le [entry_read m ?e 2 1, entry_read m ?e 9 1, entry_read m ?e 10 1, entry_read m ?e 11 1] = domain"
      unfolding q le_bytes_4 [symmetric] by (rule from_le_bytes) simp
    note r = r this
    have k: "k + memory_items (i # items) = k + memory_items items" using ApicAffinity by (simp add: memory_items_def)
    show ?thesis
      using IH [OF ok, of k _ "srat_apply i t"] Cons.prems(3,4) srat_rel_core r unfolding k t
      by (cases "bit flags 0") (simp_all add: ApicAffinity flag_bits)
  next
    case (X2ApicAffinity domain apic flags clock)
    let ?e = "\<lparr>te_typ = 2, te_len = 24, te_ptr = p\<rparr>"
    have r: "entry_read m ?e 4 4 = domain" "entry_read m ?e 8 4 = apic" "entry_read m ?e 12 4 = flags"
      using step(2) [of 4 4] step(2) [of 8 4] step(2) [of 12 4] X2ApicAffinity
      by (simp_all add: entry_read_def entry_bytes_def from_le_bytes)
    have k: "k + memory_items (i # items) = k + memory_items items" using X2ApicAffinity by (simp add: memory_items_def)
    show ?thesis
      using IH [OF ok, of k _ "srat_apply i t"] Cons.prems(3,4) srat_rel_core r unfolding k t
      by (cases "bit flags 0") (simp_all add: X2ApicAffinity flag_bits)
  next
    case (MemoryAffinity domain start len flags)
    let ?e = "\<lparr>te_typ = 1, te_len = 40, te_ptr = p\<rparr>"
    have r: "entry_read m ?e 2 4 = domain" "entry_read m ?e 8 8 = start" "entry_read m ?e 16 8 = len" "entry_read m ?e 28 4 = flags"
      using step(2) [of 2 4] step(2) [of 8 8] step(2) [of 16 8] step(2) [of 28 4] MemoryAffinity
      by (simp_all add: entry_read_def entry_bytes_def from_le_bytes)
    have k: "k + memory_items (i # items) = Suc k + memory_items items" using MemoryAffinity by (simp add: memory_items_def)
    show ?thesis
    proof (cases "len > 0 \<and> bit flags 0")
      case True
      then obtain s1 where s1: "srat_add_memory domain start len s = Done (Inr s1)" "srat_rel (Suc k) s1 (srat_apply i t)"
        using srat_add_memory_rel [of k s c d len start domain] Cons.prems(2-4) MemoryAffinity unfolding k t by auto
      then show ?thesis
        using IH [OF ok _ s1(2)] Cons.prems(3) r True unfolding k by (simp add: MemoryAffinity flag_bits)
    next
      case False
      then show ?thesis
        using IH [OF ok _ srat_rel_mono [OF Cons.prems(4), of "Suc k"]] Cons.prems(3) r unfolding k t
        by (auto simp: MemoryAffinity flag_bits)
    qed
  qed
qed

section \<open>Properties\<close>

text \<open>the MADT. From a table in memory the parser returns the IDs of exactly those local APIC and x2APIC
  entries that are enabled or can be brought online, in the order of the table, whatever other entries lie between
  them.\<close>

theorem madt_lists_usable_cores:
  assumes "table_at m p signature header fixed (map madt_raw items)" "length fixed = 8" "\<forall>i \<in> set items. madt_item_ok i"
  shows "madt_parse m p = Done (Inr \<lparr>madt_apics = concat (map usable_apic items)\<rparr>)"
  using parse_image(1) [OF assms(1)] madt_loop_image [OF parse_image(2) [OF assms(1)] assms(3)] assms(2)
  by (simp add: madt_parse_def)

definition madt_demo :: "madt_item list" where
  "madt_demo = [LocalApicItem 0 0 1, OtherItem 1 [0, 0, 0, 0, 0xC0, 0xFE, 0, 0, 0, 0], LocalApicItem 1 1 0,
     X2ApicItem 0x100 2 7]"

definition image_memory :: "u64 \<Rightarrow> u8 list \<Rightarrow> memory" where
  "image_memory p img = write_bytes_at (\<lambda>_. 0) p img"

lemma image_memory_at:
  assumes "length signature = 4" "length header = 28" "\<forall>e \<in> set es. entry_fits e"
    and "length (table_image signature header fixed es) \<le> 1000"
  shows "table_at (image_memory 0x1000 (table_image signature header fixed es)) 0x1000 signature header fixed es"
  using assms by (simp add: table_at_def Let_def image_memory_def read_write_same)

theorem madt_lists_usable_cores_witness:
  "madt_parse (image_memory 0x1000 (table_image [0x41, 0x50, 0x49, 0x43] (replicate 28 0) (replicate 8 0) (map madt_raw madt_demo))) 0x1000
    = Done (Inr \<lparr>madt_apics = [0, 0x100]\<rparr>)"
proof -
  have "\<forall>e \<in> set (map madt_raw madt_demo). entry_fits e" by (simp add: madt_demo_def entry_fits_def)
  then have "table_at (image_memory 0x1000 (table_image [0x41, 0x50, 0x49, 0x43] (replicate 28 0) (replicate 8 0) (map madt_raw madt_demo)))
      0x1000 [0x41, 0x50, 0x49, 0x43] (replicate 28 0) (replicate 8 0) (map madt_raw madt_demo)"
    by (intro image_memory_at) (simp_all add: table_image_def madt_demo_def)
  moreover have "concat (map usable_apic madt_demo) = [0, 0x100]" by code_simp
  moreover have "\<forall>i \<in> set madt_demo. madt_item_ok i" by (simp add: madt_demo_def)
  ultimately show ?thesis using madt_lists_usable_cores [of _ _ _ _ "replicate 8 0" madt_demo] by simp
qed

text \<open>C32: the SRAT. From a table in memory, with no range that reaches the end of the address space and at most
  256 memory ranges, the parser returns the topology its enabled entries describe: the domain of every core, the last
  entry for a core winning, and for every domain a well-formed range set that covers exactly the memory of the domain.\<close>

theorem srat_describes_topology:
  assumes "table_at m p signature header fixed (map srat_raw items)" "length fixed = 12"
    and "\<forall>i \<in> set items. srat_item_ok i" "memory_items items \<le> 256"
  shows "\<exists>s. srat_parse m p = Done (Inr s)
    \<and> srat_rel (memory_items items) s (fold srat_apply items (Map.empty, Map.empty))"
proof -
  have "srat_rel 0 \<lparr>apic_to_domain = [], domain_to_ranges = Map.empty\<rparr> (Map.empty, Map.empty)" by (simp add: srat_rel_def)
  then show ?thesis
    using parse_image(1) [OF assms(1)] srat_loop_image [OF parse_image(2) [OF assms(1)] assms(3), of 0] assms(2,4)
    by (simp add: srat_parse_def)
qed

definition srat_demo :: "srat_item list" where
  "srat_demo = [ApicAffinity 0 0 1 0 0, MemoryAffinity 0 0x1000 0x9000 1, X2ApicAffinity 1 0x100 1 0,
     MemoryAffinity 1 0x100000 0x100000 1, MemoryAffinity 1 0x200000 0x1000 0]"

theorem srat_describes_topology_witness:
  "\<exists>s rs. srat_parse (image_memory 0x1000 (table_image [0x53, 0x52, 0x41, 0x54] (replicate 28 0) (replicate 12 0) (map srat_raw srat_demo))) 0x1000
      = Done (Inr s) \<and> map_of (apic_to_domain s) = [0 \<mapsto> 0, 0x100 \<mapsto> 1]
    \<and> domain_to_ranges s 1 = Some rs \<and> rs_cover rs = {0x100000..0x1fffff}"
proof -
  have "\<forall>e \<in> set (map srat_raw srat_demo). entry_fits e" by (simp add: srat_demo_def entry_fits_def)
  then have at: "table_at (image_memory 0x1000 (table_image [0x53, 0x52, 0x41, 0x54] (replicate 28 0) (replicate 12 0) (map srat_raw srat_demo)))
      0x1000 [0x53, 0x52, 0x41, 0x54] (replicate 28 0) (replicate 12 0) (map srat_raw srat_demo)"
    by (intro image_memory_at) (simp_all add: table_image_def srat_demo_def)
  have ok: "\<forall>i \<in> set srat_demo. srat_item_ok i" "memory_items srat_demo \<le> 256" by (simp_all add: srat_demo_def memory_items_def)
  have f: "fold srat_apply srat_demo (Map.empty, Map.empty) = ([0 \<mapsto> 0, 0x100 \<mapsto> 1], [0 \<mapsto> {0x1000..0x9fff}, 1 \<mapsto> {0x100000..0x1fffff}])"
    by (simp add: srat_demo_def)
  obtain s where s: "srat_parse (image_memory 0x1000 (table_image [0x53, 0x52, 0x41, 0x54] (replicate 28 0) (replicate 12 0) (map srat_raw srat_demo))) 0x1000
      = Done (Inr s)" "srat_rel (memory_items srat_demo) s (fold srat_apply srat_demo (Map.empty, Map.empty))"
    using srat_describes_topology [OF at _ ok] by auto
  have "domain_rel (memory_items srat_demo) (domain_to_ranges s 1) (Some {0x100000..0x1fffff})"
    using s(2) unfolding srat_rel_def f by (auto dest!: spec [of _ 1])
  then have "\<exists>rs. domain_to_ranges s 1 = Some rs \<and> rs_cover rs = {0x100000..0x1fffff}" by (cases "domain_to_ranges s 1") auto
  then show ?thesis using s unfolding srat_rel_def f by auto
qed

text \<open>The check for the space of an entry only looks at its length: an entry that starts inside the table and
  ends after it is accepted.\<close>

lemma entry_may_overrun:
  "entries_loop (\<lambda>a. if a = 0x1001 then 8 else 0) Table_Madt 0x1002 0x1000 [] = Done (Inr [\<lparr>te_typ = 0, te_len = 8, te_ptr = 0x1000\<rparr>])"
  by (simp add: entries_loop.simps padd_def checked_add_def)

text \<open>An entry of any other type in an SRAT ends the kernel.\<close>

lemma srat_other_entry_panics: "te_typ e \<notin> {0, 1, 2} \<Longrightarrow> srat_loop m (e # es) s = Panic"
  by simp

end
