(* ===== verification/Cpu.thy ===== *)
theory Cpu
  imports Prelude
begin

text \<open>
  The processor, \<open>src/shared/cpu\<close>. The instructions are operations on a hardware state of any type \<open>'h\<close>: model-specific
  registers, I/O ports, device registers in memory, the interrupt flag and the time stamp counter. On top of them are
  the wrappers of the source, and the feature flags read from \<open>cpuid\<close>.
\<close>

section \<open>Instructions\<close>

record 'h cpu =
  asm_rdmsr :: "u32 \<Rightarrow> 'h \<Rightarrow> (u32 \<times> u32) \<times> 'h"
  asm_wrmsr :: "u32 \<Rightarrow> u32 \<Rightarrow> u32 \<Rightarrow> 'h \<Rightarrow> 'h"
  in8 :: "u16 \<Rightarrow> 'h \<Rightarrow> u8 \<times> 'h"
  out8 :: "u16 \<Rightarrow> u8 \<Rightarrow> 'h \<Rightarrow> 'h"
  in32 :: "u16 \<Rightarrow> 'h \<Rightarrow> u32 \<times> 'h"
  out32 :: "u16 \<Rightarrow> u32 \<Rightarrow> 'h \<Rightarrow> 'h"
  volatile_read :: "u64 \<Rightarrow> 'h \<Rightarrow> u32 \<times> 'h"
  volatile_write :: "u64 \<Rightarrow> u32 \<Rightarrow> 'h \<Rightarrow> 'h"
  sti :: "'h \<Rightarrow> 'h"
  cli :: "'h \<Rightarrow> 'h"
  asm_rdtsc :: "'h \<Rightarrow> u64 \<times> 'h"

text \<open>A model-specific register is read and written in two halves.\<close>

definition rdmsr :: "'h cpu \<Rightarrow> u32 \<Rightarrow> 'h \<Rightarrow> u64 \<times> 'h" where
  "rdmsr cpu msr h = (let ((high, low), h) = asm_rdmsr cpu msr h in (push_bit 32 (ucast high) OR ucast low, h))"

definition wrmsr :: "'h cpu \<Rightarrow> u32 \<Rightarrow> u64 \<Rightarrow> 'h \<Rightarrow> 'h" where
  "wrmsr cpu msr val h =
     (let high = ucast (drop_bit 32 val) :: u32; low = ucast val :: u32 in asm_wrmsr cpu msr high low h)"

definition set_gs_base :: "'h cpu \<Rightarrow> u64 \<Rightarrow> 'h \<Rightarrow> 'h" where
  "set_gs_base cpu base = wrmsr cpu 0xC0000101 base"

lemma msr_halves: "push_bit 32 (ucast (ucast (drop_bit 32 v) :: u32) :: u64) OR ucast (ucast v :: u32) = v" for v :: u64
proof (rule bit_word_eqI)
  fix n assume "n < LENGTH(64)"
  then show "bit (push_bit 32 (ucast (ucast (drop_bit 32 v) :: u32) :: u64) OR ucast (ucast v :: u32)) n = bit v n"
    by (cases "n < 32") (auto simp: bit_or_iff bit_push_bit_iff bit_ucast_iff bit_drop_bit_eq)
qed

section \<open>Features\<close>

record features =
  max_cpuid :: u32
  max_extended_cpuid :: u32
  feat_fpu :: bool
  feat_vme :: bool
  feat_de :: bool
  feat_pse :: bool
  feat_tsc :: bool
  feat_mmx :: bool
  feat_fxsr :: bool
  feat_sse :: bool
  feat_sse2 :: bool
  feat_htt :: bool
  feat_sse3 :: bool
  feat_ssse3 :: bool
  feat_sse4_1 :: bool
  feat_sse4_2 :: bool
  feat_x2apic :: bool
  feat_aesni :: bool
  feat_xsave :: bool
  feat_avx :: bool
  feat_apic :: bool
  feat_vmx :: bool
  feat_lahf :: bool
  feat_lzcnt :: bool
  feat_prefetchw :: bool
  feat_syscall :: bool
  feat_xd :: bool
  feat_gbyte_pages :: bool
  feat_rdtscp :: bool
  feat_bits64 :: bool
  feat_avx512f :: bool

definition features_default :: features where
  "features_default = \<lparr>max_cpuid = 0, max_extended_cpuid = 0, feat_fpu = False, feat_vme = False, feat_de = False,
     feat_pse = False, feat_tsc = False, feat_mmx = False, feat_fxsr = False, feat_sse = False, feat_sse2 = False,
     feat_htt = False, feat_sse3 = False, feat_ssse3 = False, feat_sse4_1 = False, feat_sse4_2 = False, feat_x2apic = False,
     feat_aesni = False, feat_xsave = False, feat_avx = False, feat_apic = False, feat_vmx = False, feat_lahf = False,
     feat_lzcnt = False, feat_prefetchw = False, feat_syscall = False, feat_xd = False, feat_gbyte_pages = False,
     feat_rdtscp = False, feat_bits64 = False, feat_avx512f = False\<rparr>"

text \<open>The test of a bit of a register: shift, mask, compare.\<close>

definition reg_bit :: "u32 \<Rightarrow> nat \<Rightarrow> bool" where
  "reg_bit r n \<longleftrightarrow> drop_bit n r AND 1 = 1"

definition features_1 :: "u32 \<times> u32 \<times> u32 \<times> u32 \<Rightarrow> features \<Rightarrow> features" where
  "features_1 = (\<lambda>(_, _, c, d) f. f\<lparr>
     feat_fpu := reg_bit d 0, feat_vme := reg_bit d 1, feat_de := reg_bit d 2, feat_pse := reg_bit d 3,
     feat_tsc := reg_bit d 4, feat_apic := reg_bit d 9, feat_mmx := reg_bit d 23, feat_fxsr := reg_bit d 24,
     feat_sse := reg_bit d 25, feat_sse2 := reg_bit d 26, feat_htt := reg_bit d 28,
     feat_sse3 := reg_bit c 0, feat_vmx := reg_bit c 5, feat_ssse3 := reg_bit c 9, feat_sse4_1 := reg_bit c 19,
     feat_sse4_2 := reg_bit c 20, feat_x2apic := reg_bit c 21, feat_aesni := reg_bit c 25, feat_xsave := reg_bit c 26,
     feat_avx := reg_bit c 28\<rparr>)"

definition features_7 :: "u32 \<times> u32 \<times> u32 \<times> u32 \<Rightarrow> features \<Rightarrow> features" where
  "features_7 = (\<lambda>(_, b, _, _) f. f\<lparr>feat_avx512f := reg_bit b 16\<rparr>)"

definition features_e1 :: "u32 \<times> u32 \<times> u32 \<times> u32 \<Rightarrow> features \<Rightarrow> features" where
  "features_e1 = (\<lambda>(_, _, c, d) f. f\<lparr>
     feat_lahf := reg_bit c 0, feat_lzcnt := reg_bit c 5, feat_prefetchw := reg_bit c 8,
     feat_syscall := reg_bit d 11, feat_xd := reg_bit d 20, feat_gbyte_pages := reg_bit d 26,
     feat_rdtscp := reg_bit d 27, feat_bits64 := reg_bit d 29\<rparr>)"

definition features_get :: "(u32 \<Rightarrow> u32 \<Rightarrow> u32 \<times> u32 \<times> u32 \<times> u32) \<Rightarrow> features" where
  "features_get cpuid =
     (let f = features_default\<lparr>max_cpuid := fst (cpuid 0 0), max_extended_cpuid := fst (cpuid 0x80000000 0)\<rparr>;
          f = (if max_cpuid f \<ge> 1 then features_1 (cpuid 1 0) f else f);
          f = (if max_cpuid f \<ge> 7 then features_7 (cpuid 7 0) f else f) in
      if max_extended_cpuid f \<ge> 0x80000001 then features_e1 (cpuid 0x80000001 0) f else f)"

text \<open>The flags the bootloader and the kernel decide on.\<close>

lemma reg_bit_iff: "reg_bit r n \<longleftrightarrow> bit r n"
  by (simp add: reg_bit_def bit_iff_odd_drop_bit and_one_eq odd_iff_mod_2_eq_one)

lemma features_used:
  "feat_pse (features_get cpuid) \<longleftrightarrow> fst (cpuid 0 0) \<ge> 1 \<and> bit (snd (snd (snd (cpuid 1 0)))) 3"
  "feat_apic (features_get cpuid) \<longleftrightarrow> fst (cpuid 0 0) \<ge> 1 \<and> bit (snd (snd (snd (cpuid 1 0)))) 9"
  "feat_x2apic (features_get cpuid) \<longleftrightarrow> fst (cpuid 0 0) \<ge> 1 \<and> bit (fst (snd (snd (cpuid 1 0)))) 21"
  "feat_gbyte_pages (features_get cpuid) \<longleftrightarrow> fst (cpuid 0x80000000 0) \<ge> 0x80000001 \<and> bit (snd (snd (snd (cpuid 0x80000001 0)))) 26"
  by (simp_all add: features_get_def features_default_def features_1_def features_7_def features_e1_def reg_bit_iff Let_def
      split: prod.splits)

end
