(* ===== verification/Interrupts.thy ===== *)
theory Interrupts
  imports Cpu
begin

text \<open>
  Interrupts, \<open>src/kernel/src/interrupts\<close>: the identifiers, the descriptor tables a core builds and the handlers it
  registers. What the loader and the allocator decide is an argument: the addresses of the raw entry points and of the
  tables, and the selectors in the segment registers. The raw entry points are assembly.
\<close>

type_synonym u128 = "128 word"

section \<open>Identifiers\<close>

datatype interrupt_id =
    DivideBy0 | NonMaskableInterrupt | Breakpoint | Overflow | BoundsRangeExceeded | InvalidOpcode
  | DeviceNotAvailable | DoubleFault | CoprocessorSegmentOverrun | InvalidTSS | SegmentNotPresent
  | StackSegmentFault | GeneralProtectionFault | PageFault | X87FPUError | AlignmentCheck | MachineCheck
  | SIMDFloatingPointException | Reserved | LastReserved | SoftRebootTimer

text \<open>\<open>id as u8\<close>: the discriminants.\<close>

fun interrupt_number :: "interrupt_id \<Rightarrow> u8" where
  "interrupt_number DivideBy0 = 0x00"
| "interrupt_number NonMaskableInterrupt = 0x02"
| "interrupt_number Breakpoint = 0x03"
| "interrupt_number Overflow = 0x04"
| "interrupt_number BoundsRangeExceeded = 0x05"
| "interrupt_number InvalidOpcode = 0x06"
| "interrupt_number DeviceNotAvailable = 0x07"
| "interrupt_number DoubleFault = 0x08"
| "interrupt_number CoprocessorSegmentOverrun = 0x09"
| "interrupt_number InvalidTSS = 0x0A"
| "interrupt_number SegmentNotPresent = 0x0B"
| "interrupt_number StackSegmentFault = 0x0C"
| "interrupt_number GeneralProtectionFault = 0x0D"
| "interrupt_number PageFault = 0x0E"
| "interrupt_number X87FPUError = 0x10"
| "interrupt_number AlignmentCheck = 0x11"
| "interrupt_number MachineCheck = 0x12"
| "interrupt_number SIMDFloatingPointException = 0x13"
| "interrupt_number Reserved = 0x14"
| "interrupt_number LastReserved = 0x1F"
| "interrupt_number SoftRebootTimer = 0x20"

definition interrupt_from :: "u8 \<Rightarrow> interrupt_id" where
  "interrupt_from val =
     (if val = 0x00 then DivideBy0 else if val = 0x02 then NonMaskableInterrupt else if val = 0x03 then Breakpoint
      else if val = 0x04 then Overflow else if val = 0x05 then BoundsRangeExceeded else if val = 0x06 then InvalidOpcode
      else if val = 0x07 then DeviceNotAvailable else if val = 0x08 then DoubleFault
      else if val = 0x09 then CoprocessorSegmentOverrun else if val = 0x0A then InvalidTSS
      else if val = 0x0B then SegmentNotPresent else if val = 0x0C then StackSegmentFault
      else if val = 0x0D then GeneralProtectionFault else if val = 0x0E then PageFault
      else if val = 0x10 then X87FPUError else if val = 0x11 then AlignmentCheck else if val = 0x12 then MachineCheck
      else if val = 0x13 then SIMDFloatingPointException else if val = 0x20 then SoftRebootTimer
      else Reserved)"

definition interrupt_index :: "interrupt_id \<Rightarrow> nat" where
  "interrupt_index i = unat (interrupt_number i)"

text \<open>The derived order is that of the discriminants.\<close>

lemma interrupt_number_inj: "interrupt_number i = interrupt_number j \<Longrightarrow> i = j"
  by (cases i; cases j) simp_all

instantiation interrupt_id :: linorder
begin

definition less_eq_interrupt_id :: "interrupt_id \<Rightarrow> interrupt_id \<Rightarrow> bool" where
  "less_eq_interrupt_id i j \<longleftrightarrow> interrupt_number i \<le> interrupt_number j"

definition less_interrupt_id :: "interrupt_id \<Rightarrow> interrupt_id \<Rightarrow> bool" where
  "less_interrupt_id i j \<longleftrightarrow> interrupt_number i < interrupt_number j"

instance
  by standard (auto simp: less_eq_interrupt_id_def less_interrupt_id_def dest: interrupt_number_inj)

end

section \<open>Arguments of a handler\<close>

record all_regs =
  xmm15 :: u128
  xmm14 :: u128
  xmm13 :: u128
  xmm12 :: u128
  xmm11 :: u128
  xmm10 :: u128
  xmm9 :: u128
  xmm8 :: u128
  xmm7 :: u128
  xmm6 :: u128
  xmm5 :: u128
  xmm4 :: u128
  xmm3 :: u128
  xmm2 :: u128
  xmm1 :: u128
  xmm0 :: u128
  r15 :: u64
  r14 :: u64
  r13 :: u64
  r12 :: u64
  r11 :: u64
  r10 :: u64
  r9 :: u64
  r8 :: u64
  rbp :: u64
  rdi :: u64
  rsi :: u64
  rdx :: u64
  rcx :: u64
  rbx :: u64
  rax :: u64

record interrupt_frame =
  frame_rip :: u64
  frame_cs :: u64
  frame_rflags :: u64
  frame_rsp :: u64
  frame_ss :: u64

record interrupt_args =
  arg_id :: interrupt_id
  arg_frame :: interrupt_frame
  arg_error :: u64
  arg_regs :: all_regs

definition interrupt_args_new :: "interrupt_id \<Rightarrow> interrupt_frame \<Rightarrow> u64 \<Rightarrow> all_regs \<Rightarrow> interrupt_args" where
  "interrupt_args_new i frame err regs = \<lparr>arg_id = i, arg_frame = frame, arg_error = err, arg_regs = regs\<rparr>"

definition is_exception :: "interrupt_args \<Rightarrow> bool" where
  "is_exception args \<longleftrightarrow> interrupt_number (arg_id args) < 32"

section \<open>Descriptor tables\<close>

record idt_entry =
  offset_low :: u16
  idt_selector :: u16
  idt_ist :: u8
  type_attr :: u8
  offset_mid :: u16
  offset_high :: u32
  idt_zero :: u32

definition idt_entry_new :: "u16 \<Rightarrow> u64 \<Rightarrow> u32 \<Rightarrow> u32 \<Rightarrow> u8 \<Rightarrow> idt_entry outcome" where
  "idt_entry_new cs offset ist gate dpl =
     assert_that (ist < 8) (assert_that (gate < 32) (assert_that (dpl < 4) (
       Done \<lparr>offset_low = ucast (offset AND 0xFFFF), idt_selector = cs, idt_ist = ucast ist,
             type_attr = push_bit 5 dpl OR push_bit 7 1 OR ucast gate,
             offset_mid = ucast (drop_bit 16 offset AND 0xFFFF), offset_high = ucast (drop_bit 32 offset AND 0xFFFFFFFF),
             idt_zero = 0\<rparr>)))"

record table_ptr =
  ptr_limit :: u16
  ptr_base :: u64

definition table_ptr_new :: "u16 \<Rightarrow> u64 \<Rightarrow> table_ptr" where
  "table_ptr_new limit base = \<lparr>ptr_limit = limit, ptr_base = base\<rparr>"

record tss =
  tss_rsp :: "u64 list"
  tss_ist :: "u64 list"
  tss_iopb_offset :: u16

definition tss_default :: tss where
  "tss_default = \<lparr>tss_rsp = replicate 3 0, tss_ist = replicate 7 0, tss_iopb_offset = 0\<rparr>"

text \<open>\<open>size_of::<Tss>()\<close> of the packed structure, and the indices in the selectors.\<close>

definition tss_size :: u64 where "tss_size = 4 + 3 * 8 + 8 + 7 * 8 + 8 + 2 + 2"

definition get_selector_indices :: "u16 \<Rightarrow> u16 \<Rightarrow> nat \<times> nat" where
  "get_selector_indices cs ds = (unat (drop_bit 3 cs), unat (drop_bit 3 ds))"

text \<open>The low half of the descriptor of a TSS.\<close>

definition tss_low :: "u64 \<Rightarrow> u64 \<Rightarrow> u64" where
  "tss_low base limit =
     0x890000000000 OR push_bit 56 (drop_bit 24 base AND 0xFF) OR push_bit 16 (base AND 0xFFFFFF) OR limit"

definition gdt_new :: "u16 \<Rightarrow> u16 \<Rightarrow> u64 \<Rightarrow> u64 \<Rightarrow> u64 \<Rightarrow> (u64 list \<times> tss \<times> u16) outcome" where
  "gdt_new cs ds tss_base crit_stack crit_capacity =
     (let (cs_idx, ds_idx) = get_selector_indices cs ds in
      assert_that (cs_idx \<noteq> ds_idx) (assert_that (cs_idx \<noteq> 0) (
        let insert_idx = max cs_idx ds_idx + 1; gdt = replicate insert_idx 0 in
        obind (array_set gdt cs_idx 0x00209A0000000000) (\<lambda>gdt.
        obind (array_set gdt ds_idx 0x0000920000000000) (\<lambda>gdt.
        obind (padd crit_stack crit_capacity) (\<lambda>top.
        obind (array_set (tss_ist tss_default) 0 top) (\<lambda>ist.
        let tss = tss_default\<lparr>tss_ist := ist\<rparr>; tss_entry = of_nat (length gdt * 8);
            gdt = gdt @ [tss_low tss_base (tss_size - 1)]; gdt = gdt @ [drop_bit 32 tss_base] in
          Done (gdt, tss, tss_entry))))))))"

section \<open>Handlers\<close>

text \<open>The statics, one entry per vector.\<close>

record int_statics =
  EOI_REQUIRED :: "bool list"
  DRAINING_EOIS :: bool
  DRAIN_PRECEDENCE :: "bool list"

definition int_statics_init :: int_statics where
  "int_statics_init = \<lparr>EOI_REQUIRED = replicate 256 False, DRAINING_EOIS = False, DRAIN_PRECEDENCE = replicate 256 False\<rparr>"

text \<open>The loop of \<open>eoi_bitmask\<close> over the array, with the two halves of the mask.\<close>

fun eoi_bitmask_loop :: "nat \<Rightarrow> bool list \<Rightarrow> u128 list \<Rightarrow> u128 list outcome" where
  "eoi_bitmask_loop i [] bitmask = Done bitmask"
| "eoi_bitmask_loop i (eoi # eois) bitmask =
     obind (array_get bitmask (i div 128)) (\<lambda>x.
     obind (array_set bitmask (i div 128) (x OR push_bit (i mod 128) (if eoi then 1 else 0))) (\<lambda>bitmask.
       eoi_bitmask_loop (i + 1) eois bitmask))"

definition eoi_bitmask :: "int_statics \<Rightarrow> u128 list outcome" where
  "eoi_bitmask st = eoi_bitmask_loop 0 (EOI_REQUIRED st) [0, 0]"

text \<open>\<open>Interrupts\<close>; a handler is of any type \<open>'f\<close>.\<close>

record 'f interrupts =
  dispatch :: "'f option list"
  ints_tss :: tss
  ints_idt :: "idt_entry list"
  ints_gdt :: "u64 list"

definition register_handler ::
  "interrupt_id \<Rightarrow> 'f \<Rightarrow> bool \<Rightarrow> 'f interrupts \<times> int_statics \<Rightarrow> ('f interrupts \<times> int_statics) outcome" where
  "register_handler i handler eoi is =
     (let (ints, st) = is; idx = interrupt_index i in
      assert_that (i < Reserved \<or> i > LastReserved) (
        obind (array_get (dispatch ints) idx) (\<lambda>old.
        assert_that (old = None) (
        obind (array_set (dispatch ints) idx (Some handler)) (\<lambda>d.
        obind (array_set (EOI_REQUIRED st) idx eoi) (\<lambda>e.
          Done (ints\<lparr>dispatch := d\<rparr>, st\<lparr>EOI_REQUIRED := e\<rparr>)))))))"

definition register_precedent ::
  "interrupt_id \<Rightarrow> 'f \<Rightarrow> bool \<Rightarrow> 'f interrupts \<times> int_statics \<Rightarrow> ('f interrupts \<times> int_statics) outcome" where
  "register_precedent i handler eoi is =
     obind (register_handler i handler eoi is) (\<lambda>(ints, st).
     obind (array_set (DRAIN_PRECEDENCE st) (interrupt_index i) True) (\<lambda>p. Done (ints, st\<lparr>DRAIN_PRECEDENCE := p\<rparr>)))"

definition unregister :: "interrupt_id \<Rightarrow> 'f interrupts \<times> int_statics \<Rightarrow> ('f interrupts \<times> int_statics) outcome" where
  "unregister i is =
     (let (ints, st) = is; idx = interrupt_index i in
      obind (array_set (dispatch ints) idx None) (\<lambda>d.
      obind (array_set (EOI_REQUIRED st) idx False) (\<lambda>e.
        Done (ints\<lparr>dispatch := d\<rparr>, st\<lparr>EOI_REQUIRED := e\<rparr>))))"

section \<open>Initialisation\<close>

fun idt_loop :: "u16 \<Rightarrow> nat \<Rightarrow> u64 list \<Rightarrow> idt_entry list \<Rightarrow> idt_entry list outcome" where
  "idt_loop cs i [] idt = Done idt"
| "idt_loop cs i (handler # handlers) idt =
     obind (idt_entry_new cs handler (if i = 2 \<or> i = 8 \<or> i = 18 then 1 else 0) 0xE 0) (\<lambda>e.
       idt_loop cs (i + 1) handlers (idt @ [e]))"

text \<open>What the segment registers, the allocator and the linker give to \<open>init\<close>.\<close>

record int_env =
  env_cs :: u16
  env_ds :: u16
  env_tss_addr :: u64
  env_crit_stack :: u64
  env_crit_capacity :: u64
  env_gdt_addr :: u64
  env_idt_addr :: u64
  env_handlers :: "u64 list"

text \<open>\<open>init\<close>, returning what \<open>lgdt\<close>, \<open>ltr\<close> and \<open>lidt\<close> load beside the new state.\<close>

definition interrupts_init ::
  "int_env \<Rightarrow> 'f \<Rightarrow> 'f \<Rightarrow> 'f interrupts option \<times> int_statics
    \<Rightarrow> ((table_ptr \<times> u16 \<times> table_ptr) \<times> 'f interrupts \<times> int_statics) outcome" where
  "interrupts_init env nmi page_fault is =
     (let (cur, st) = is in
      assert_that (cur = None) (
        obind (gdt_new (env_cs env) (env_ds env) (env_tss_addr env) (env_crit_stack env) (env_crit_capacity env)) (\<lambda>(gdt, tss, tss_entry).
        obind (psub (of_nat (8 * length gdt)) 1) (\<lambda>limit.
        let gdt_ptr = table_ptr_new limit (env_gdt_addr env);
            (cs, _) = get_selector_indices (env_cs env) (env_ds env); cs = of_nat (cs * 8) in
        obind (idt_loop cs 0 (env_handlers env) []) (\<lambda>idt.
        assert_that (16 * length idt = 4096) (
        let idt_ptr = table_ptr_new 0xFFF (env_idt_addr env);
            ints = \<lparr>dispatch = replicate 256 None, ints_tss = tss, ints_idt = idt, ints_gdt = gdt\<rparr> in
        obind (register_precedent NonMaskableInterrupt nmi False (ints, st)) (\<lambda>is.
        obind (register_precedent PageFault page_fault False is) (\<lambda>(ints, st).
          Done ((gdt_ptr, tss_entry, idt_ptr), ints, st)))))))))"

end
