(* ===== verification/Interrupts_Props.thy ===== *)
theory Interrupts_Props
  imports Interrupts
begin

text \<open>
  The descriptors decode, the way the processor decodes them, to what they were built from; a core that has
  initialised its interrupts enters the handler of every vector; and the mask of the interrupts that need an EOI is
  the array it is computed from.
\<close>

section \<open>Descriptors\<close>

text \<open>How the processor reads a gate and the descriptor of a TSS.\<close>

definition gate_offset :: "idt_entry \<Rightarrow> u64" where
  "gate_offset e = ucast (offset_low e) OR push_bit 16 (ucast (offset_mid e)) OR push_bit 32 (ucast (offset_high e))"

definition tss_base_of :: "u64 \<Rightarrow> u64 \<Rightarrow> u64" where
  "tss_base_of low high = (drop_bit 16 low AND 0xFFFFFF) OR push_bit 24 (drop_bit 56 low) OR push_bit 32 high"

definition tss_limit_of :: "u64 \<Rightarrow> u64" where
  "tss_limit_of low = (low AND 0xFFFF) OR push_bit 16 (drop_bit 48 low AND 0xF)"

lemma mask_bits:
  "bit (0xFFFF :: 'a::len word) n \<longleftrightarrow> n < 16 \<and> n < LENGTH('a)" "bit (0xFFFFFF :: 'a::len word) n \<longleftrightarrow> n < 24 \<and> n < LENGTH('a)"
  "bit (0xFFFFFFFF :: 'a::len word) n \<longleftrightarrow> n < 32 \<and> n < LENGTH('a)" "bit (0xFF :: 'a::len word) n \<longleftrightarrow> n < 8 \<and> n < LENGTH('a)"
  "bit (0xF :: 'a::len word) n \<longleftrightarrow> n < 4 \<and> n < LENGTH('a)"
proof -
  have "bit (mask k :: 'a word) n \<longleftrightarrow> n < k \<and> n < LENGTH('a)" for k by (auto simp: bit_mask_iff)
  from this [of 16] this [of 24] this [of 32] this [of 8] this [of 4]
  show "bit (0xFFFF :: 'a::len word) n \<longleftrightarrow> n < 16 \<and> n < LENGTH('a)" "bit (0xFFFFFF :: 'a::len word) n \<longleftrightarrow> n < 24 \<and> n < LENGTH('a)"
    "bit (0xFFFFFFFF :: 'a::len word) n \<longleftrightarrow> n < 32 \<and> n < LENGTH('a)" "bit (0xFF :: 'a::len word) n \<longleftrightarrow> n < 8 \<and> n < LENGTH('a)"
    "bit (0xF :: 'a::len word) n \<longleftrightarrow> n < 4 \<and> n < LENGTH('a)"
    by (simp_all add: mask_eq_exp_minus_1)
qed

lemma gate_offset_new:
  assumes "idt_entry_new cs offset ist gate dpl = Done e"
  shows "gate_offset e = offset" "idt_selector e = cs" "idt_ist e = ucast ist"
proof -
  have e: "offset_low e = ucast (offset AND 0xFFFF)" "offset_mid e = ucast (drop_bit 16 offset AND 0xFFFF)"
    "offset_high e = ucast (drop_bit 32 offset AND 0xFFFFFFFF)"
    using assms by (auto simp: idt_entry_new_def assert_that_def split: if_splits)
  show "gate_offset e = offset"
  proof (rule bit_word_eqI)
    fix n assume n: "n < LENGTH(64)"
    consider "n < 16" | "16 \<le> n" "n < 32" | "32 \<le> n" by linarith
    then show "bit (gate_offset e) n = bit offset n"
      by cases (use n in \<open>auto simp: gate_offset_def e bit_or_iff bit_push_bit_iff bit_ucast_iff bit_and_iff bit_drop_bit_eq mask_bits simp del: bit_numeral_word_iff\<close>)
  qed
qed (use assms in \<open>auto simp: idt_entry_new_def assert_that_def split: if_splits\<close>)

lemma tss_descriptor:
  assumes "limit < 0x10000"
  shows "tss_base_of (tss_low base limit) (drop_bit 32 base) = base" "tss_limit_of (tss_low base limit) = limit"
proof -
  have "(0x890000000000 :: u64) = push_bit 40 1 OR push_bit 43 1 OR push_bit 47 1" by simp
  then have c: "bit (0x890000000000 :: u64) n \<longleftrightarrow> n = 40 \<or> n = 43 \<or> n = 47" for n
    by (simp only: bit_or_iff bit_push_bit_iff bit_1_iff) auto
  have l: "\<not> bit limit n" if "16 \<le> n" for n
    using small_high_bits [of limit 16 n] assms that by (simp add: word_less_nat_alt)
  have b: "bit (tss_low base limit) n \<longleftrightarrow> n < 64 \<and> (bit limit n \<or> n = 40 \<or> n = 43 \<or> n = 47 \<or> (16 \<le> n \<and> n < 40 \<and> bit base (n - 16))
      \<or> (56 \<le> n \<and> bit base (n - 32)))" for n
    by (simp only: tss_low_def c bit_or_iff bit_push_bit_iff bit_and_iff bit_drop_bit_eq mask_bits comp_def)
      (auto dest: bit_imp_le_length)
  show "tss_base_of (tss_low base limit) (drop_bit 32 base) = base"
  proof (rule bit_word_eqI)
    fix n assume n: "n < LENGTH(64)"
    consider "n < 24" | "24 \<le> n" "n < 32" | "32 \<le> n" by linarith
    then show "bit (tss_base_of (tss_low base limit) (drop_bit 32 base)) n = bit base n"
      by cases (use n l in \<open>auto simp: tss_base_of_def b bit_or_iff bit_push_bit_iff bit_and_iff bit_drop_bit_eq mask_bits simp del: bit_numeral_word_iff\<close>)
  qed
  show "tss_limit_of (tss_low base limit) = limit"
  proof (rule bit_word_eqI)
    fix n assume n: "n < LENGTH(64)"
    show "bit (tss_limit_of (tss_low base limit)) n = bit limit n"
      unfolding tss_limit_of_def bit_or_iff bit_push_bit_iff bit_and_iff bit_drop_bit_eq mask_bits b comp_def
      using n l by auto
  qed
qed

section \<open>The mask of the interrupts that need an EOI\<close>

definition mask_bit :: "u128 list \<Rightarrow> nat \<Rightarrow> bool" where
  "mask_bit ms n \<longleftrightarrow> bit (ms ! (n div 128)) (n mod 128)"

lemma mask_bit_update:
  assumes "length ms = 2" "i < 256" "n < 256"
  shows "mask_bit (ms[i div 128 := ms ! (i div 128) OR push_bit (i mod 128) (if e then 1 else 0)]) n \<longleftrightarrow> mask_bit ms n \<or> (n = i \<and> e)"
proof (cases "n div 128 = i div 128")
  case True
  then have "n = i \<longleftrightarrow> n mod 128 = i mod 128" by (metis div_mod_decomp)
  moreover have "bit (push_bit (i mod 128) (if e then 1 else 0) :: u128) (n mod 128) \<longleftrightarrow> e \<and> n mod 128 = i mod 128"
    by (auto simp: bit_push_bit_iff bit_1_iff)
  moreover have "i div 128 < 2" using assms(2) by (simp add: less_mult_imp_div_less)
  ultimately show ?thesis using True assms(1) by (simp add: mask_bit_def bit_or_iff conj_commute)
next
  case False
  then have "n \<noteq> i" by auto
  then show ?thesis using False by (simp add: mask_bit_def)
qed

lemma eoi_bitmask_loop_bits:
  "length ms = 2 \<Longrightarrow> i + length eois \<le> 256 \<Longrightarrow> \<exists>ms'. eoi_bitmask_loop i eois ms = Done ms' \<and> length ms' = 2
     \<and> (\<forall>n < 256. mask_bit ms' n \<longleftrightarrow> mask_bit ms n \<or> (i \<le> n \<and> n < i + length eois \<and> eois ! (n - i)))"
proof (induction eois arbitrary: i ms)
  case Nil
  then show ?case by auto
next
  case (Cons e eois)
  let ?ms = "ms[i div 128 := ms ! (i div 128) OR push_bit (i mod 128) (if e then 1 else 0)]"
  have i: "i < 256" "i div 128 < length ms" using Cons.prems by (simp_all add: less_mult_imp_div_less)
  obtain ms' where ms': "eoi_bitmask_loop (i + 1) eois ?ms = Done ms'" "length ms' = 2"
    "\<forall>n < 256. mask_bit ms' n \<longleftrightarrow> mask_bit ?ms n \<or> (i + 1 \<le> n \<and> n < i + 1 + length eois \<and> eois ! (n - (i + 1)))"
    using Cons.IH [of ?ms "i + 1"] Cons.prems by auto
  have run: "eoi_bitmask_loop i (e # eois) ms = eoi_bitmask_loop (i + 1) eois ?ms"
    using i(2) by (simp add: array_get_in array_set_in)
  have "mask_bit ms' n \<longleftrightarrow> mask_bit ms n \<or> (i \<le> n \<and> n < i + length (e # eois) \<and> (e # eois) ! (n - i))" if n: "n < 256" for n
    using ms'(3) n mask_bit_update [OF Cons.prems(1) i(1) n, of e] by (cases "n = i") (auto simp: nth_Cons')
  then show ?case using run ms'(1,2) by auto
qed

section \<open>Registration\<close>

definition ints_wf :: "'f interrupts \<times> int_statics \<Rightarrow> bool" where
  "ints_wf is \<longleftrightarrow> length (dispatch (fst is)) = 256 \<and> length (EOI_REQUIRED (snd is)) = 256 \<and> length (DRAIN_PRECEDENCE (snd is)) = 256"

lemma interrupt_index_less [simp]: "interrupt_index i < 256"
  using unat_u8_less [of "interrupt_number i"] by (simp add: interrupt_index_def)

text \<open>\<open>register\<close> panics for the reserved identifiers and for a vector that has a handler, and otherwise changes one
  entry of each table.\<close>

lemma register_cases:
  assumes "ints_wf (ints, st)"
  shows "register_handler i f eoi (ints, st) =
    (if (i = Reserved \<or> i = LastReserved) \<or> dispatch ints ! interrupt_index i \<noteq> None then Panic
     else Done (ints\<lparr>dispatch := (dispatch ints)[interrupt_index i := Some f]\<rparr>, st\<lparr>EOI_REQUIRED := (EOI_REQUIRED st)[interrupt_index i := eoi]\<rparr>))"
proof -
  have "(i < Reserved \<or> i > LastReserved) \<longleftrightarrow> \<not> (i = Reserved \<or> i = LastReserved)"
    by (cases i) (simp_all add: less_interrupt_id_def)
  then show ?thesis using assms by (auto simp: register_handler_def ints_wf_def Let_def assert_that_def)
qed

lemma register_precedent_done:
  assumes "ints_wf (ints, st)" "i \<noteq> Reserved" "i \<noteq> LastReserved" "dispatch ints ! interrupt_index i = None"
  shows "register_precedent i f eoi (ints, st) =
     Done (ints\<lparr>dispatch := (dispatch ints)[interrupt_index i := Some f]\<rparr>,
       st\<lparr>EOI_REQUIRED := (EOI_REQUIRED st)[interrupt_index i := eoi], DRAIN_PRECEDENCE := (DRAIN_PRECEDENCE st)[interrupt_index i := True]\<rparr>)"
  using assms register_cases [OF assms(1), of i f eoi] by (simp add: register_precedent_def ints_wf_def)

text \<open>\<open>unregister\<close> does not undo all of \<open>register_precedent\<close>: the vector keeps its precedence, also for a handler that
  is registered later without it.\<close>

lemma unregister_keeps_precedence:
  assumes "ints_wf (ints, st)" "register_precedent i f eoi (ints, st) = Done s" "unregister i s = Done (ints', st')"
  shows "DRAIN_PRECEDENCE st' ! interrupt_index i"
proof -
  have "DRAIN_PRECEDENCE (snd s) ! interrupt_index i"
    using assms(1,2) register_cases [OF assms(1), of i f eoi]
    by (auto simp: register_precedent_def ints_wf_def split: if_splits)
  then show ?thesis using assms(3) by (cases s) (auto simp: unregister_def Let_def array_set_def split: if_splits)
qed

text \<open>The requests to the tables of a core.\<close>

datatype 'f int_request = Register interrupt_id 'f bool | Register_Precedent interrupt_id 'f bool | Unregister interrupt_id

fun int_op :: "'f int_request \<Rightarrow> 'f interrupts \<times> int_statics \<Rightarrow> ('f interrupts \<times> int_statics) outcome" where
  "int_op (Register i f eoi) is = register_handler i f eoi is"
| "int_op (Register_Precedent i f eoi) is = register_precedent i f eoi is"
| "int_op (Unregister i) is = unregister i is"

fun int_ops :: "'f int_request list \<Rightarrow> 'f interrupts \<times> int_statics \<Rightarrow> ('f interrupts \<times> int_statics) outcome" where
  "int_ops [] is = Done is"
| "int_ops (x # xs) is = obind (int_op x is) (int_ops xs)"

text \<open>The tables are well typed: they have an entry for every vector, a vector with a handler is one that the dispatcher
  turns back into its identifier, and only such a vector is acknowledged.\<close>

definition vector_ok :: "'f interrupts \<times> int_statics \<Rightarrow> nat \<Rightarrow> bool" where
  "vector_ok is v \<longleftrightarrow>
     (dispatch (fst is) ! v \<noteq> None \<longrightarrow> interrupt_from (of_nat v) \<noteq> Reserved \<and> interrupt_index (interrupt_from (of_nat v)) = v)
     \<and> (EOI_REQUIRED (snd is) ! v \<longrightarrow> dispatch (fst is) ! v \<noteq> None)"

definition tables_ok :: "'f interrupts \<times> int_statics \<Rightarrow> bool" where
  "tables_ok is \<longleftrightarrow> ints_wf is \<and> (\<forall>v < 256. vector_ok is v)"

text \<open>The requests that are refused.\<close>

fun refused :: "'f int_request \<Rightarrow> 'f interrupts \<Rightarrow> bool" where
  "refused (Register i f eoi) ints \<longleftrightarrow> i = Reserved \<or> i = LastReserved \<or> dispatch ints ! interrupt_index i \<noteq> None"
| "refused (Register_Precedent i f eoi) ints \<longleftrightarrow> i = Reserved \<or> i = LastReserved \<or> dispatch ints ! interrupt_index i \<noteq> None"
| "refused (Unregister i) ints \<longleftrightarrow> False"

lemma interrupt_from_index: "i \<noteq> LastReserved \<Longrightarrow> interrupt_from (of_nat (interrupt_index i)) = i"
  by (cases i) (simp_all add: interrupt_index_def interrupt_from_def)

lemma vector_ok_update:
  assumes "vector_ok (ints, st) v" "ints_wf (ints, st)" "i \<noteq> Reserved" "i \<noteq> LastReserved"
  shows "vector_ok (ints\<lparr>dispatch := (dispatch ints)[interrupt_index i := Some f]\<rparr>, st\<lparr>EOI_REQUIRED := (EOI_REQUIRED st)[interrupt_index i := eoi]\<rparr>) v"
  using assms interrupt_from_index [of i] by (auto simp: vector_ok_def ints_wf_def nth_list_update)

lemma int_op_ok:
  assumes "tables_ok is"
  shows "if refused x (fst is) then int_op x is = Panic else \<exists>is'. int_op x is = Done is' \<and> tables_ok is'"
proof (cases "is")
  case (Pair ints st)
  have wf: "ints_wf (ints, st)" and ok: "\<And>v. v < 256 \<Longrightarrow> vector_ok (ints, st) v" using assms by (simp_all add: tables_ok_def Pair)
  show ?thesis
  proof (cases x)
    case (Register i f eoi)
    then show ?thesis
      using vector_ok_update [OF ok wf, of _ i f eoi] register_cases [OF wf, of i f eoi] wf by (simp add: Pair tables_ok_def ints_wf_def)
  next
    case (Register_Precedent i f eoi)
    have "vector_ok (ints', st'\<lparr>DRAIN_PRECEDENCE := p\<rparr>) v \<longleftrightarrow> vector_ok (ints', st') v" for ints' :: "'a interrupts" and st' p v
      by (simp add: vector_ok_def)
    then show ?thesis
      using vector_ok_update [OF ok wf, of _ i f eoi] register_cases [OF wf, of i f eoi] wf Register_Precedent
      by (simp add: Pair tables_ok_def ints_wf_def register_precedent_def)
  next
    case (Unregister i)
    then show ?thesis using wf ok by (auto simp: Pair tables_ok_def ints_wf_def unregister_def Let_def vector_ok_def nth_list_update)
  qed
qed

lemma int_ops_ok: "tables_ok is \<Longrightarrow> int_ops xs is = Done is' \<Longrightarrow> tables_ok is'"
proof (induction xs arbitrary: "is")
  case (Cons x xs)
  then show ?case using int_op_ok [of "is" x] by (cases "refused x (fst is)") auto
qed simp

section \<open>Initialisation\<close>

lemma idt_loop_done:
  "\<exists>es. idt_loop cs i handlers idt = Done (idt @ es) \<and> length es = length handlers
    \<and> (\<forall>k < length handlers. gate_offset (es ! k) = handlers ! k \<and> idt_selector (es ! k) = cs
         \<and> idt_ist (es ! k) = (if i + k = 2 \<or> i + k = 8 \<or> i + k = 18 then 1 else 0))"
proof (induction handlers arbitrary: i idt)
  case Nil
  then show ?case by simp
next
  case (Cons h handlers)
  let ?ist = "if i = 2 \<or> i = 8 \<or> i = 18 then 1 else 0 :: u32"
  obtain e where e: "idt_entry_new cs h ?ist 0xE 0 = Done e"
    by (cases "i = 2 \<or> i = 8 \<or> i = 18") (auto simp: idt_entry_new_def)
  obtain es where es: "idt_loop cs (i + 1) handlers (idt @ [e]) = Done (idt @ [e] @ es)" "length es = length handlers"
    "\<forall>k < length handlers. gate_offset (es ! k) = handlers ! k \<and> idt_selector (es ! k) = cs
       \<and> idt_ist (es ! k) = (if i + 1 + k = 2 \<or> i + 1 + k = 8 \<or> i + 1 + k = 18 then 1 else 0)"
    using Cons.IH [of "i + 1" "idt @ [e]"] by auto
  have "idt_ist e = (if i = 2 \<or> i = 8 \<or> i = 18 then 1 else 0)" using gate_offset_new(3) [OF e] by simp
  then have "\<forall>k < length (h # handlers). gate_offset ((e # es) ! k) = (h # handlers) ! k \<and> idt_selector ((e # es) ! k) = cs
       \<and> idt_ist ((e # es) ! k) = (if i + k = 2 \<or> i + k = 8 \<or> i + k = 18 then 1 else 0)"
    using es(3) gate_offset_new(1,2) [OF e] by (auto simp: nth_Cons')
  then show ?case using e es(1,2) by (intro exI [of _ "e # es"]) simp
qed

lemma gdt_new_done:
  fixes cs ds :: u16
  defines "ci \<equiv> unat (drop_bit 3 cs)" and "di \<equiv> unat (drop_bit 3 ds)"
  assumes "ci \<noteq> di" "ci \<noteq> 0" and top: "unat stack + unat cap < 2 ^ 64"
  shows "\<exists>tss. gdt_new cs ds base stack cap =
      Done ((replicate (max ci di + 1) 0)[ci := 0x00209A0000000000, di := 0x0000920000000000] @ [tss_low base (tss_size - 1), drop_bit 32 base],
        tss, of_nat ((max ci di + 1) * 8)) \<and> tss_ist tss ! 0 = stack + cap"
proof -
  have c: "checked_add stack cap = Some (stack + cap)" using top by (simp add: checked_add_eq_Some)
  define n where "n = max ci di + 1"
  have n: "ci < n" "di < n" by (simp_all add: n_def)
  show ?thesis
    unfolding gdt_new_def get_selector_indices_def ci_def [symmetric] di_def [symmetric] Let_def prod.case n_def [symmetric]
    using assms(3,4) n c by (simp add: padd_def tss_default_def)
qed

text \<open>\<open>init\<close> registers two handlers in empty tables.\<close>

lemma interrupts_init_registers:
  assumes "interrupts_init env nmi pf (None, st0) = Done (regs, is)"
  obtains ints st tss idt gdt where
    "register_precedent NonMaskableInterrupt nmi False
       (\<lparr>dispatch = replicate 256 None, ints_tss = tss, ints_idt = idt, ints_gdt = gdt\<rparr>, st0) = Done (ints, st)"
    "register_precedent PageFault pf False (ints, st) = Done is"
proof -
  obtain ci di where s: "get_selector_indices (env_cs env) (env_ds env) = (ci, di)" by fastforce
  obtain ints st tss idt gdt where
    "register_precedent NonMaskableInterrupt nmi False
       (\<lparr>dispatch = replicate 256 None, ints_tss = tss, ints_idt = idt, ints_gdt = gdt\<rparr>, st0) = Done (ints, st)"
    "register_precedent PageFault pf False (ints, st) = Done is"
    using assms by (auto simp: interrupts_init_def Let_def assert_that_def s split: prod.splits if_splits)
  then show ?thesis by (rule that)
qed

lemma interrupts_init_dispatch:
  assumes "interrupts_init env nmi pf (None, st0) = Done (regs, ints, st)" "length (EOI_REQUIRED st0) = 256" "length (DRAIN_PRECEDENCE st0) = 256"
  shows "dispatch ints = (replicate 256 None)[2 := Some nmi, 14 := Some pf]" "length (EOI_REQUIRED st) = 256" "length (DRAIN_PRECEDENCE st) = 256"
proof -
  obtain ints1 st1 tss idt gdt where r:
    "register_precedent NonMaskableInterrupt nmi False
       (\<lparr>dispatch = replicate 256 None, ints_tss = tss, ints_idt = idt, ints_gdt = gdt\<rparr>, st0) = Done (ints1, st1)"
    "register_precedent PageFault pf False (ints1, st1) = Done (ints, st)"
    by (rule interrupts_init_registers [OF assms(1)])
  have wf: "ints_wf (\<lparr>dispatch = replicate 256 None, ints_tss = tss, ints_idt = idt, ints_gdt = gdt\<rparr>, st0)"
    using assms(2,3) by (simp add: ints_wf_def)
  have ix: "interrupt_index NonMaskableInterrupt = 2" "interrupt_index PageFault = 14" by (simp_all add: interrupt_index_def)
  have 1: "dispatch ints1 = (replicate 256 None)[2 := Some nmi]" "ints_wf (ints1, st1)"
    using r(1) assms(2,3) unfolding register_precedent_done [OF wf, of NonMaskableInterrupt nmi False, simplified ix]
    by (auto simp: ints_wf_def register_precedent_done [OF wf] ix)
  have "register_precedent PageFault pf False (ints1, st1) =
     Done (ints1\<lparr>dispatch := (dispatch ints1)[14 := Some pf]\<rparr>,
       st1\<lparr>EOI_REQUIRED := (EOI_REQUIRED st1)[14 := False], DRAIN_PRECEDENCE := (DRAIN_PRECEDENCE st1)[14 := True]\<rparr>)"
    using register_precedent_done [OF 1(2), of PageFault pf False] 1(1) by (simp add: ix)
  then show "dispatch ints = (replicate 256 None)[2 := Some nmi, 14 := Some pf]" "length (EOI_REQUIRED st) = 256" "length (DRAIN_PRECEDENCE st) = 256"
    using r(2) 1 by (auto simp: ints_wf_def)
qed

section \<open>Properties\<close>

text \<open>C27: the interrupts of a core after \<open>init\<close>. With an entry point for each of the 256 vectors and two distinct
  selectors, the code selector not the first, it returns. Then the gate of every vector leads to its entry point through
  the current code selector, on the critical stack exactly for NMI, double fault and machine check; the descriptor table
  has the code and data descriptors where the selectors point; the task register selects a descriptor that decodes
  to the TSS; and the handlers are those of NMI and page fault.\<close>

theorem interrupts_init_correct:
  assumes wf: "length (EOI_REQUIRED st) = 256" "length (DRAIN_PRECEDENCE st) = 256"
    and env: "length (env_handlers env) = 256" "unat (env_crit_stack env) + unat (env_crit_capacity env) < 2 ^ 64"
    and cd: "get_selector_indices (env_cs env) (env_ds env) = (ci, di)" "ci \<noteq> di" "ci \<noteq> 0" "ci < 8189" "di < 8189"
  shows "\<exists>gdtr tr idtr ints st'. interrupts_init env nmi pf (None, st) = Done ((gdtr, tr, idtr), ints, st')
    \<and> (\<forall>v < 256. gate_offset (ints_idt ints ! v) = env_handlers env ! v \<and> unat (idt_selector (ints_idt ints ! v)) = 8 * ci
         \<and> idt_ist (ints_idt ints ! v) = (if v = 2 \<or> v = 8 \<or> v = 18 then 1 else 0))
    \<and> unat (ptr_limit gdtr) + 1 = 8 * length (ints_gdt ints)
    \<and> ints_gdt ints ! ci = 0x00209A0000000000 \<and> ints_gdt ints ! di = 0x0000920000000000
    \<and> unat tr + 16 = 8 * length (ints_gdt ints)
    \<and> tss_base_of (ints_gdt ints ! (unat tr div 8)) (ints_gdt ints ! (unat tr div 8 + 1)) = env_tss_addr env
    \<and> tss_limit_of (ints_gdt ints ! (unat tr div 8)) + 1 = tss_size
    \<and> tss_ist (ints_tss ints) ! 0 = env_crit_stack env + env_crit_capacity env
    \<and> (\<forall>v < 256. dispatch ints ! v = (if v = 2 then Some nmi else if v = 14 then Some pf else None))"
proof -
  define n where "n = max ci di + 1"
  define gdt where "gdt = (replicate n 0)[ci := 0x00209A0000000000, di := 0x0000920000000000 :: u64]
    @ [tss_low (env_tss_addr env) (tss_size - 1), drop_bit 32 (env_tss_addr env)]"
  have ci: "ci = unat (drop_bit 3 (env_cs env))" "di = unat (drop_bit 3 (env_ds env))" using cd(1) by (simp_all add: get_selector_indices_def)
  obtain tss where g: "gdt_new (env_cs env) (env_ds env) (env_tss_addr env) (env_crit_stack env) (env_crit_capacity env)
      = Done (gdt, tss, of_nat (n * 8))" "tss_ist tss ! 0 = env_crit_stack env + env_crit_capacity env"
    using gdt_new_done [of "env_cs env" "env_ds env", folded ci, OF cd(2,3) env(2)] by (auto simp: gdt_def n_def)
  have n: "ci < n" "di < n" "n + 2 < 8192" using cd(4,5) by (simp_all add: n_def)
  have len: "length gdt = n + 2" by (simp add: gdt_def)
  have u16: "unat (of_nat k :: u16) = k" if "k < 65536" for k using that by (simp add: unsigned_of_nat take_bit_nat_eq_self)
  obtain idt where idt: "idt_loop (of_nat (ci * 8)) 0 (env_handlers env) [] = Done idt" "length idt = 256"
    "\<forall>k < 256. gate_offset (idt ! k) = env_handlers env ! k \<and> idt_selector (idt ! k) = of_nat (ci * 8)
         \<and> idt_ist (idt ! k) = (if k = 2 \<or> k = 8 \<or> k = 18 then 1 else 0)"
    using idt_loop_done [of "of_nat (ci * 8)" 0 "env_handlers env" "[]"] env(1) by auto
  define lim where "lim = (of_nat (8 * length gdt) - 1 :: u16)"
  have ul: "unat (of_nat (8 * length gdt) :: u16) = 8 * (n + 2)" unfolding len using n(3) by (intro u16) simp
  then have lim: "psub (of_nat (8 * length gdt)) 1 = Done lim" "unat lim + 1 = 8 * (n + 2)"
    by (simp_all only: psub_eq_Done lim_def word_le_nat_alt unat_1 simp_thms) (simp_all add: unat_sub word_le_nat_alt)
  let ?ints = "\<lparr>dispatch = (replicate 256 None)[2 := Some nmi, 14 := Some pf], ints_tss = tss, ints_idt = idt, ints_gdt = gdt\<rparr>"
  let ?st = "st\<lparr>EOI_REQUIRED := (EOI_REQUIRED st)[2 := False, 14 := False], DRAIN_PRECEDENCE := (DRAIN_PRECEDENCE st)[2 := True, 14 := True]\<rparr>"
  let ?is = "(\<lparr>dispatch = (replicate 256 None)[2 := Some nmi], ints_tss = tss, ints_idt = idt, ints_gdt = gdt\<rparr>,
     st\<lparr>EOI_REQUIRED := (EOI_REQUIRED st)[2 := False], DRAIN_PRECEDENCE := (DRAIN_PRECEDENCE st)[2 := True]\<rparr>)"
  have ix: "interrupt_index NonMaskableInterrupt = 2" "interrupt_index PageFault = 14" by (simp_all add: interrupt_index_def)
  have "register_precedent NonMaskableInterrupt nmi False
      (\<lparr>dispatch = replicate 256 None, ints_tss = tss, ints_idt = idt, ints_gdt = gdt\<rparr>, st) = Done ?is"
    by (subst register_precedent_done) (simp_all add: ints_wf_def wf ix)
  moreover have "register_precedent PageFault pf False ?is = Done (?ints, ?st)"
    by (subst register_precedent_done) (simp_all add: ints_wf_def wf ix)
  ultimately have run: "interrupts_init env nmi pf (None, st) = Done ((table_ptr_new lim (env_gdt_addr env), of_nat (n * 8),
      table_ptr_new 0xFFF (env_idt_addr env)), ?ints, ?st)"
    unfolding interrupts_init_def Let_def prod.case cd(1) using g(1) lim(1) idt(1,2) by simp
  have tr: "unat (of_nat (n * 8) :: u16) = n * 8" using n(3) by (intro u16) simp
  have "gdt ! ci = 0x00209A0000000000" "gdt ! di = 0x0000920000000000" "gdt ! n = tss_low (env_tss_addr env) (tss_size - 1)"
    "gdt ! (n + 1) = drop_bit 32 (env_tss_addr env)"
    using n cd(2) by (simp_all add: gdt_def nth_append)
  moreover have "unat (of_nat (ci * 8) :: u16) = 8 * ci" using u16 [of "ci * 8"] cd(4) by simp
  moreover have "tss_size - 1 < 0x10000" by (simp add: tss_size_def)
  note tss_descriptor [OF this]
  ultimately show ?thesis
    using run idt(3) lim(2) len g(2)
    by (intro exI [of _ "table_ptr_new lim (env_gdt_addr env)"] exI [of _ "of_nat (n * 8)"] exI [of _ "table_ptr_new 0xFFF (env_idt_addr env)"]
        exI [of _ ?ints] exI [of _ ?st]) (simp add: tr table_ptr_new_def nth_list_update tss_size_def del: of_nat_mult)
qed

definition env_demo :: int_env where
  "env_demo = \<lparr>env_cs = 0x38, env_ds = 0x30, env_tss_addr = 0xFFFFFF0012345678, env_crit_stack = 0x100000, env_crit_capacity = 0x8000,
     env_gdt_addr = 0x2000, env_idt_addr = 0x3000, env_handlers = map (\<lambda>v. 0xFFFFFFFFCAFE0000 + of_nat (16 * v)) [0..<256]\<rparr>"

theorem interrupts_init_correct_witness:
  "\<exists>gdtr tr idtr ints st'. interrupts_init env_demo (1 :: nat) 2 (None, int_statics_init) = Done ((gdtr, tr, idtr), ints, st')
    \<and> gate_offset (ints_idt ints ! 3) = 0xFFFFFFFFCAFE0030 \<and> unat tr + 16 = 8 * length (ints_gdt ints)"
proof -
  have "get_selector_indices (env_cs env_demo) (env_ds env_demo) = (7, 6)" by (simp add: get_selector_indices_def env_demo_def)
  then have "\<exists>gdtr tr idtr ints st'. interrupts_init env_demo (1 :: nat) 2 (None, int_statics_init) = Done ((gdtr, tr, idtr), ints, st')
    \<and> gate_offset (ints_idt ints ! 3) = env_handlers env_demo ! 3 \<and> unat tr + 16 = 8 * length (ints_gdt ints)"
    using interrupts_init_correct [of int_statics_init env_demo 7 6 "1 :: nat" 2]
    by (auto simp: int_statics_init_def env_demo_def)
  moreover have "env_handlers env_demo ! 3 = 0xFFFFFFFFCAFE0030" by (simp add: env_demo_def)
  ultimately show ?thesis by simp
qed

text \<open>bit \<open>v\<close> of the 256-bit mask says whether vector \<open>v\<close> needs an EOI.\<close>

theorem eoi_bitmask_correct:
  assumes "length (EOI_REQUIRED st) = 256"
  shows "\<exists>ms. eoi_bitmask st = Done ms \<and> length ms = 2 \<and> (\<forall>v < 256. bit (ms ! (v div 128)) (v mod 128) \<longleftrightarrow> EOI_REQUIRED st ! v)"
proof -
  obtain ms where ms: "eoi_bitmask_loop 0 (EOI_REQUIRED st) [0, 0] = Done ms" "length ms = 2"
    "\<forall>n < 256. mask_bit ms n \<longleftrightarrow> mask_bit [0, 0] n \<or> EOI_REQUIRED st ! n"
    using eoi_bitmask_loop_bits [of "[0, 0]" 0 "EOI_REQUIRED st"] assms by auto
  moreover have "\<not> mask_bit [0, 0] n" if "n < 256" for n
    using that less_mult_imp_div_less [of n 2 128] by (auto simp: mask_bit_def nth_Cons')
  ultimately show ?thesis by (auto simp: eoi_bitmask_def mask_bit_def)
qed

theorem eoi_bitmask_correct_witness:
  "\<exists>ms. eoi_bitmask (int_statics_init\<lparr>EOI_REQUIRED := (replicate 256 False)[0x20 := True]\<rparr>) = Done ms \<and> bit (ms ! 0) 32 \<and> \<not> bit (ms ! 1) 0"
proof -
  let ?st = "int_statics_init\<lparr>EOI_REQUIRED := (replicate 256 False)[0x20 := True]\<rparr>"
  obtain ms where ms: "eoi_bitmask ?st = Done ms" "\<forall>v < 256. bit (ms ! (v div 128)) (v mod 128) \<longleftrightarrow> EOI_REQUIRED ?st ! v"
    using eoi_bitmask_correct [of ?st] by auto
  have "bit (ms ! 0) 32" "\<not> bit (ms ! 1) 0" using ms(2) [rule_format, of 32] ms(2) [rule_format, of 128] by simp_all
  then show ?thesis using ms(1) by blast
qed


lemma env_demo_returns: "\<exists>regs is. interrupts_init env_demo nmi pf (None, int_statics_init) = Done (regs, is)"
proof -
  have s: "get_selector_indices (env_cs env_demo) (env_ds env_demo) = (7, 6)" by (simp add: get_selector_indices_def env_demo_def)
  obtain tss where g: "gdt_new (env_cs env_demo) (env_ds env_demo) (env_tss_addr env_demo) (env_crit_stack env_demo) (env_crit_capacity env_demo)
      = Done ((replicate 8 0)[7 := 0x00209A0000000000, 6 := 0x0000920000000000]
        @ [tss_low (env_tss_addr env_demo) (tss_size - 1), drop_bit 32 (env_tss_addr env_demo)], tss, 64)"
    using gdt_new_done [of "env_cs env_demo" "env_ds env_demo" "env_crit_stack env_demo" "env_crit_capacity env_demo" "env_tss_addr env_demo"]
    by (auto simp: env_demo_def)
  obtain idt where idt: "idt_loop 56 0 (env_handlers env_demo) [] = Done idt" "length idt = 256"
    using idt_loop_done [of 56 0 "env_handlers env_demo" "[]"] by (auto simp: env_demo_def)
  let ?is = "(\<lparr>dispatch = replicate 256 None, ints_tss = tss, ints_idt = idt,
    ints_gdt = (replicate 8 0)[7 := 0x00209A0000000000, 6 := 0x0000920000000000]
        @ [tss_low (env_tss_addr env_demo) (tss_size - 1), drop_bit 32 (env_tss_addr env_demo)]\<rparr>, int_statics_init)"
  have "ints_wf ?is" by (simp add: ints_wf_def int_statics_init_def)
  then obtain is1 is2 where "register_precedent NonMaskableInterrupt nmi False ?is = Done is1" "register_precedent PageFault pf False is1 = Done is2"
    by (simp add: register_precedent_done ints_wf_def interrupt_index_def)
  then show ?thesis unfolding interrupts_init_def Let_def prod.case s g
    using idt by (simp add: psub_def checked_sub_def word_le_nat_alt split: prod.split)
qed


end
