(* ===== verification/Apic_Local.thy ===== *)
theory Apic_Local
  imports Interrupts Kernel_Mm
begin

text \<open>
  The local APIC of a core, \<open>src/kernel/src/apic/local.rs\<close>, in both of its modes: registers in a mapped page, or
  model-specific registers. The accesses go to the hardware state; the loops that wait for the hardware may run on.
\<close>

section \<open>Registers and modes\<close>

definition IA32_APIC_BASE_EXTD :: u64 where "IA32_APIC_BASE_EXTD = push_bit 10 1"
definition IA32_APIC_BASE_EN :: u64 where "IA32_APIC_BASE_EN = push_bit 11 1"
definition IA32_APIC_BASE :: u32 where "IA32_APIC_BASE = 0x1B"
definition APIC_BASE :: u64 where "APIC_BASE = 0xFEE00000"

datatype apic_register =
    Id | EndOfInterrupt | SpuriousInterruptVector
  | Isr0 | Isr1 | Isr2 | Isr3 | Isr4 | Isr5 | Isr6 | Isr7
  | Irr0 | Irr1 | Irr2 | Irr3 | Irr4 | Irr5 | Irr6 | Irr7
  | LvtTimer | InitialCount | DivideConfiguration

text \<open>\<open>register as usize\<close>.\<close>

fun register_offset :: "apic_register \<Rightarrow> u64" where
  "register_offset Id = 0x20"
| "register_offset EndOfInterrupt = 0xb0"
| "register_offset SpuriousInterruptVector = 0xf0"
| "register_offset Isr0 = 0x100"
| "register_offset Isr1 = 0x110"
| "register_offset Isr2 = 0x120"
| "register_offset Isr3 = 0x130"
| "register_offset Isr4 = 0x140"
| "register_offset Isr5 = 0x150"
| "register_offset Isr6 = 0x160"
| "register_offset Isr7 = 0x170"
| "register_offset Irr0 = 0x200"
| "register_offset Irr1 = 0x210"
| "register_offset Irr2 = 0x220"
| "register_offset Irr3 = 0x230"
| "register_offset Irr4 = 0x240"
| "register_offset Irr5 = 0x250"
| "register_offset Irr6 = 0x260"
| "register_offset Irr7 = 0x270"
| "register_offset LvtTimer = 0x320"
| "register_offset InitialCount = 0x380"
| "register_offset DivideConfiguration = 0x3E0"

text \<open>The mapping is a slice of 1024 words; the mode has its address.\<close>

datatype apic_mode = Apic u64 | X2Apic

record timer_state =
  timer_dcr :: u32
  timer_icr :: u32
  timer_lvt :: u32

record orig_state =
  orig_ia32_apic_base :: u64
  orig_svr :: u32
  orig_pic_a1 :: u8
  orig_pic_21 :: u8
  orig_timer :: timer_state

record local_apic =
  la_mode :: apic_mode
  la_orig :: orig_state

text \<open>The address of a word of the mapping, and the number of a model-specific register.\<close>

definition apic_word :: "u64 \<Rightarrow> u64 \<Rightarrow> u64" where
  "apic_word mapping offset = mapping + 4 * (offset div 4)"

definition apic_msr :: "u64 \<Rightarrow> u32" where
  "apic_msr offset = 0x800 + ucast offset div 16"

section \<open>Operations\<close>

definition apic_read :: "'h cpu \<Rightarrow> local_apic \<Rightarrow> apic_register \<Rightarrow> 'h \<Rightarrow> u32 \<times> 'h" where
  "apic_read cpu apic reg h =
     (case la_mode apic of
        Apic mapping \<Rightarrow> volatile_read cpu (apic_word mapping (register_offset reg)) h
      | X2Apic \<Rightarrow> (let (v, h) = rdmsr cpu (apic_msr (register_offset reg)) h in (ucast v, h)))"

definition apic_write :: "'h cpu \<Rightarrow> local_apic \<Rightarrow> apic_register \<Rightarrow> u32 \<Rightarrow> 'h \<Rightarrow> 'h" where
  "apic_write cpu apic reg val h =
     (case la_mode apic of
        Apic mapping \<Rightarrow> volatile_write cpu (apic_word mapping (register_offset reg)) val h
      | X2Apic \<Rightarrow> wrmsr cpu (apic_msr (register_offset reg)) (ucast val) h)"

definition apic_id :: "'h cpu \<Rightarrow> local_apic \<Rightarrow> 'h \<Rightarrow> u32 \<times> 'h" where
  "apic_id cpu apic h =
     (let (v, h) = apic_read cpu apic Id h in
      (case la_mode apic of Apic _ \<Rightarrow> drop_bit 24 v | X2Apic \<Rightarrow> v, h))"

definition write_icr :: "'h cpu \<Rightarrow> local_apic \<Rightarrow> u64 \<Rightarrow> 'h \<Rightarrow> 'h" where
  "write_icr cpu apic val h =
     (case la_mode apic of
        Apic mapping \<Rightarrow>
          let h = volatile_write cpu (apic_word mapping 0x310) (ucast (drop_bit 32 val)) h in
          volatile_write cpu (apic_word mapping 0x300) (ucast val) h
      | X2Apic \<Rightarrow> wrmsr cpu 0x830 val h)"

definition ipi :: "'h cpu \<Rightarrow> local_apic \<Rightarrow> u32 \<Rightarrow> u32 \<Rightarrow> 'h \<Rightarrow> 'h" where
  "ipi cpu apic dest_id cmd h =
     (let dest_id = (case la_mode apic of Apic _ \<Rightarrow> push_bit 24 dest_id | X2Apic \<Rightarrow> dest_id) in
      write_icr cpu apic (push_bit 32 (ucast dest_id) OR ucast cmd) h)"

text \<open>\<open>eoi\<close> writes through the APIC of the core, if it has one.\<close>

definition apic_eoi :: "'h cpu \<Rightarrow> local_apic option \<Rightarrow> 'h \<Rightarrow> 'h" where
  "apic_eoi cpu cur h = (case cur of None \<Rightarrow> h | Some apic \<Rightarrow> apic_write cpu apic EndOfInterrupt 0 h)"

text \<open>The loop that reads eight registers into an array of 32 bytes.\<close>

fun load_regs :: "'h cpu \<Rightarrow> local_apic \<Rightarrow> apic_register list \<Rightarrow> 'h \<Rightarrow> u8 list \<times> 'h" where
  "load_regs cpu apic [] h = ([], h)"
| "load_regs cpu apic (reg # regs) h =
     (let (v, h) = apic_read cpu apic reg h; (bs, h) = load_regs cpu apic regs h in (le_bytes 4 v @ bs, h))"

definition apic_isr :: "'h cpu \<Rightarrow> local_apic \<Rightarrow> 'h \<Rightarrow> (u128 \<times> u128) \<times> 'h" where
  "apic_isr cpu apic h =
     (let (bs, h) = load_regs cpu apic [Isr0, Isr1, Isr2, Isr3, Isr4, Isr5, Isr6, Isr7] h in
      ((from_le (take 16 bs), from_le (drop 16 bs)), h))"

definition apic_irr :: "'h cpu \<Rightarrow> local_apic \<Rightarrow> 'h \<Rightarrow> (u128 \<times> u128) \<times> 'h" where
  "apic_irr cpu apic h =
     (let (bs, h) = load_regs cpu apic [Irr0, Irr1, Irr2, Irr3, Irr4, Irr5, Irr6, Irr7] h in
      ((from_le (take 16 bs), from_le (drop 16 bs)), h))"

section \<open>Teardown\<close>

definition LVT_MASK :: u32 where "LVT_MASK = push_bit 16 1"

partial_function (option) drain_isr :: "'h cpu \<Rightarrow> local_apic \<Rightarrow> local_apic option \<Rightarrow> 'h \<Rightarrow> 'h option" where
  "drain_isr cpu apic cur h =
     (case apic_isr cpu apic h of (isr, h) \<Rightarrow>
        if fst isr = 0 \<and> snd isr = 0 then Some h else drain_isr cpu apic cur (apic_eoi cpu cur h))"

partial_function (option) drain_irr :: "'h cpu \<Rightarrow> local_apic \<Rightarrow> int_statics \<Rightarrow> 'h \<Rightarrow> 'h outcome option" where
  "drain_irr cpu apic st h =
     (case apic_irr cpu apic h of (irr, h) \<Rightarrow>
      case eoi_bitmask st of
        Panic \<Rightarrow> Some Panic
      | Done eoi \<Rightarrow>
          if fst irr AND eoi ! 0 \<noteq> 0 \<or> snd irr AND eoi ! 1 \<noteq> 0
          then drain_irr cpu apic st (sti cpu h)
          else Some (Done h))"

text \<open>The writes that bring the original state back, after the loops.\<close>

definition apic_restore :: "'h cpu \<Rightarrow> local_apic \<Rightarrow> 'h \<Rightarrow> 'h" where
  "apic_restore cpu apic h =
     (let orig = la_orig apic; h = cli cpu h;
          h = apic_write cpu apic DivideConfiguration (timer_dcr (orig_timer orig)) h;
          h = apic_write cpu apic LvtTimer (timer_lvt (orig_timer orig)) h;
          h = apic_write cpu apic InitialCount (timer_icr (orig_timer orig)) h;
          h = apic_write cpu apic SpuriousInterruptVector (orig_svr orig) h;
          mode = (if la_mode apic = X2Apic then IA32_APIC_BASE_EXTD else 0);
          h = wrmsr cpu IA32_APIC_BASE (orig_ia32_apic_base orig OR mode) h;
          h = out8 cpu 0xA1 (orig_pic_a1 orig) h in
      out8 cpu 0x21 (orig_pic_21 orig) h)"

text \<open>\<open>reset\<close>: the outer \<open>None\<close> is a loop that does not end.\<close>

definition apic_reset ::
  "'h cpu \<Rightarrow> local_apic \<Rightarrow> local_apic option \<Rightarrow> int_statics \<times> 'h \<Rightarrow> (int_statics \<times> 'h) outcome option" where
  "apic_reset cpu apic cur sh =
     (let (st, h) = sh; (v, h) = apic_read cpu apic LvtTimer h; h = apic_write cpu apic LvtTimer (v OR LVT_MASK) h in
      Option.bind (drain_isr cpu apic cur h) (\<lambda>h.
        let st = st\<lparr>DRAINING_EOIS := True\<rparr> in
        Option.bind (drain_irr cpu apic st h) (\<lambda>r.
          Some (obind r (\<lambda>h. Done (st, apic_restore cpu apic h))))))"

section \<open>The timer\<close>

definition PERIODIC_MODE :: u32 where "PERIODIC_MODE = push_bit 17 1"

definition enable_reboot_timer ::
  "'h cpu \<Rightarrow> 'f \<Rightarrow> local_apic \<Rightarrow> 'f interrupts option \<times> int_statics \<Rightarrow> 'h \<Rightarrow> (('f interrupts option \<times> int_statics) \<times> 'h) outcome" where
  "enable_reboot_timer cpu handler apic is h =
     (let h = apic_write cpu apic InitialCount 0 h in
      obind (unwrap (fst is)) (\<lambda>ints.
      obind (register_handler SoftRebootTimer handler True (ints, snd is)) (\<lambda>(ints, st).
        let h = apic_write cpu apic DivideConfiguration 0 h;
            h = apic_write cpu apic LvtTimer (PERIODIC_MODE OR ucast (interrupt_number SoftRebootTimer)) h;
            h = apic_write cpu apic InitialCount 100000 h in
        Done ((Some ints, st), h))))"

section \<open>Initialisation\<close>

text \<open>The part of \<open>init\<close> that programs the base address and masks the old interrupt controller.\<close>

definition apic_enable_base :: "'h cpu \<Rightarrow> bool \<Rightarrow> 'h \<Rightarrow> ((u64 \<times> u8 \<times> u8) \<times> 'h) outcome" where
  "apic_enable_base cpu x2apic h =
     (let (base, h) = rdmsr cpu IA32_APIC_BASE h in
      assert_that (base AND IA32_APIC_BASE_EN \<noteq> 0) (
        let apic_base = base AND NOT 0x0000000FFFFFF000;
            apic_base = apic_base OR APIC_BASE OR IA32_APIC_BASE_EN;
            apic_base = apic_base OR (if x2apic then IA32_APIC_BASE_EXTD else 0);
            (a1, h) = in8 cpu 0xA1 h;
            (b1, h) = in8 cpu 0x21 h;
            h = out8 cpu 0xA1 0xFF h;
            h = out8 cpu 0x21 0xFF h;
            h = wrmsr cpu IA32_APIC_BASE apic_base h in
        Done ((base, a1, b1), h)))"

definition apic_map :: "node_layout \<Rightarrow> kmachine \<Rightarrow> (u64 \<times> kmachine) outcome" where
  "apic_map L st =
     obind (receive_vaddr_4k (page_size Page4K) (fst st)) (\<lambda>(vaddr, k).
     obind (unwrap (ks_kernel_pt k)) (\<lambda>table.
     obind (map_raw (kernel_mem L) (k, snd st) table vaddr Page4K
              (APIC_BASE OR PAGE_NXE OR PAGE_WRITE OR PAGE_CACHE_DISABLE OR PAGE_PRESENT)) (\<lambda>(res, st).
     obind (unwrap_result res) (\<lambda>_. Done (vaddr, st)))))"

text \<open>The original state is read back through the new mode, then the APIC is enabled.\<close>

definition apic_save_enable :: "'h cpu \<Rightarrow> apic_mode \<Rightarrow> u64 \<times> u8 \<times> u8 \<Rightarrow> 'h \<Rightarrow> local_apic \<times> 'h" where
  "apic_save_enable cpu mode saved h =
     (let (base, a1, b1) = saved;
          apic = \<lparr>la_mode = mode, la_orig = \<lparr>orig_ia32_apic_base = base, orig_svr = 0, orig_pic_a1 = a1, orig_pic_21 = b1,
                   orig_timer = \<lparr>timer_dcr = 0, timer_icr = 0, timer_lvt = 0\<rparr>\<rparr>\<rparr>;
          (svr, h) = apic_read cpu apic SpuriousInterruptVector h;
          (dcr, h) = apic_read cpu apic DivideConfiguration h;
          (icr, h) = apic_read cpu apic InitialCount h;
          (lvt, h) = apic_read cpu apic LvtTimer h;
          apic = apic\<lparr>la_orig := (la_orig apic)\<lparr>orig_svr := svr,
                   orig_timer := \<lparr>timer_dcr = dcr, timer_icr = icr, timer_lvt = lvt\<rparr>\<rparr>\<rparr>;
          h = apic_write cpu apic SpuriousInterruptVector (push_bit 8 1 OR 0xFF) h in
      (apic, h))"

text \<open>\<open>set_apic_id\<close> panics when the ID was set before.\<close>

definition set_apic_id :: "u32 \<Rightarrow> kernel_state \<Rightarrow> kernel_state outcome" where
  "set_apic_id i k = assert_that (ks_apic_id k = None) (Done (k\<lparr>ks_apic_id := Some i\<rparr>))"

definition apic_init ::
  "'h cpu \<Rightarrow> node_layout \<Rightarrow> features \<Rightarrow> local_apic option \<Rightarrow> kmachine \<times> 'h \<Rightarrow> (local_apic \<times> kmachine \<times> 'h) outcome" where
  "apic_init cpu L features cur sh =
     (let (st, h) = sh in
      assert_that (cur = None) (
      assert_that (feat_apic features) (
      obind (apic_enable_base cpu (feat_x2apic features) h) (\<lambda>(saved, h).
      obind (if \<not> feat_x2apic features then obind (apic_map L st) (\<lambda>(mapping, st). Done (Apic mapping, st))
             else Done (X2Apic, st)) (\<lambda>(mode, st).
        let (apic, h) = apic_save_enable cpu mode saved h; (i, h) = apic_id cpu apic h in
        obind (set_apic_id i (fst st)) (\<lambda>k. Done (apic, (k, snd st), h)))))))"

end
