(* ===== verification/Apic_Props.thy ===== *)
theory Apic_Props
  imports Apic_Local Interrupts_Props Kernel_Mm_Props
begin

text \<open>
  Taking over the local APIC and giving it back: on hardware whose registers hold what is written to them, and which
  runs out of interrupts to drain, \<open>reset\<close> returns and brings back the state that \<open>init\<close> found.
\<close>

section \<open>The hardware\<close>

text \<open>The state that \<open>init\<close> saves.\<close>

record apic_view =
  v_dcr :: u32
  v_lvt :: u32
  v_icr :: u32
  v_svr :: u32
  v_base :: u64
  v_a1 :: u8
  v_21 :: u8

text \<open>The registers behave as memory: \<open>V\<close> is what they hold. Reading changes none of them, nor do an EOI and the
  interrupt flag.\<close>

definition apic_registers :: "'h cpu \<Rightarrow> apic_mode \<Rightarrow> ('h \<Rightarrow> apic_view) \<Rightarrow> bool" where
  "apic_registers cpu mode V \<longleftrightarrow> (\<forall>apic h. la_mode apic = mode \<longrightarrow>
       fst (apic_read cpu apic DivideConfiguration h) = v_dcr (V h) \<and> fst (apic_read cpu apic LvtTimer h) = v_lvt (V h)
     \<and> fst (apic_read cpu apic InitialCount h) = v_icr (V h) \<and> fst (apic_read cpu apic SpuriousInterruptVector h) = v_svr (V h)
     \<and> (\<forall>r. V (snd (apic_read cpu apic r h)) = V h)
     \<and> (\<forall>x. V (apic_write cpu apic DivideConfiguration x h) = (V h)\<lparr>v_dcr := x\<rparr>)
     \<and> (\<forall>x. V (apic_write cpu apic LvtTimer x h) = (V h)\<lparr>v_lvt := x\<rparr>)
     \<and> (\<forall>x. V (apic_write cpu apic InitialCount x h) = (V h)\<lparr>v_icr := x\<rparr>)
     \<and> (\<forall>x. V (apic_write cpu apic SpuriousInterruptVector x h) = (V h)\<lparr>v_svr := x\<rparr>)
     \<and> (\<forall>x. V (apic_write cpu apic EndOfInterrupt x h) = V h))"

definition base_registers :: "'h cpu \<Rightarrow> ('h \<Rightarrow> apic_view) \<Rightarrow> bool" where
  "base_registers cpu V \<longleftrightarrow> (\<forall>h.
       fst (rdmsr cpu IA32_APIC_BASE h) = v_base (V h) \<and> V (snd (rdmsr cpu IA32_APIC_BASE h)) = V h
     \<and> (\<forall>x. V (wrmsr cpu IA32_APIC_BASE x h) = (V h)\<lparr>v_base := x\<rparr>)
     \<and> fst (in8 cpu 0xA1 h) = v_a1 (V h) \<and> V (snd (in8 cpu 0xA1 h)) = V h \<and> (\<forall>x. V (out8 cpu 0xA1 x h) = (V h)\<lparr>v_a1 := x\<rparr>)
     \<and> fst (in8 cpu 0x21 h) = v_21 (V h) \<and> V (snd (in8 cpu 0x21 h)) = V h \<and> (\<forall>x. V (out8 cpu 0x21 x h) = (V h)\<lparr>v_21 := x\<rparr>)
     \<and> V (sti cpu h) = V h \<and> V (cli cpu h) = V h)"

text \<open>Every EOI retires one of finitely many interrupts in service, and with interrupts enabled the pending ones that
  need an EOI are handled.\<close>

definition drains :: "'h cpu \<Rightarrow> local_apic \<Rightarrow> local_apic option \<Rightarrow> u128 list \<Rightarrow> ('h \<Rightarrow> nat) \<Rightarrow> ('h \<Rightarrow> nat) \<Rightarrow> bool" where
  "drains cpu apic cur eoi serviced pending \<longleftrightarrow> (\<forall>h.
       (fst (apic_isr cpu apic h) \<noteq> (0, 0) \<longrightarrow> serviced (apic_eoi cpu cur (snd (apic_isr cpu apic h))) < serviced h)
     \<and> (fst (fst (apic_irr cpu apic h)) AND eoi ! 0 \<noteq> 0 \<or> snd (fst (apic_irr cpu apic h)) AND eoi ! 1 \<noteq> 0
         \<longrightarrow> pending (sti cpu (snd (apic_irr cpu apic h))) < pending h))"

section \<open>Draining\<close>

lemma load_regs_view:
  assumes "apic_registers cpu (la_mode apic) V"
  shows "V (snd (load_regs cpu apic regs h)) = V h"
proof (induction regs arbitrary: h)
  case (Cons r regs)
  obtain v h1 where "apic_read cpu apic r h = (v, h1)" by force
  moreover have "V (snd (apic_read cpu apic r h)) = V h" using assms by (simp add: apic_registers_def)
  ultimately show ?case using Cons.IH [of h1] by (simp add: split_beta Let_def)
qed simp

lemma eoi_view:
  assumes "\<forall>a. cur = Some a \<longrightarrow> apic_registers cpu (la_mode a) V"
  shows "V (apic_eoi cpu cur h) = V h"
  using assms by (cases cur) (simp_all add: apic_eoi_def apic_registers_def)

lemma drain_isr_returns:
  assumes d: "drains cpu apic cur eoi serviced pending" and v: "apic_registers cpu (la_mode apic) V"
    and c: "\<forall>a. cur = Some a \<longrightarrow> apic_registers cpu (la_mode a) V"
  shows "\<exists>h'. drain_isr cpu apic cur h = Some h' \<and> V h' = V h"
proof (induction "serviced h" arbitrary: h rule: less_induct)
  case less
  obtain i h1 where i: "apic_isr cpu apic h = (i, h1)" by (cases "apic_isr cpu apic h")
  have v1: "V h1 = V h" using load_regs_view [OF v] i by (auto simp: apic_isr_def split_beta Let_def simp del: load_regs.simps)
  show ?case
  proof (cases "i = (0, 0)")
    case True
    then show ?thesis using i v1 by (subst drain_isr.simps) simp
  next
    case False
    then have "serviced (apic_eoi cpu cur h1) < serviced h" using d i unfolding drains_def by (metis fst_conv snd_conv)
    from less.hyps [OF this] obtain h' where "drain_isr cpu apic cur (apic_eoi cpu cur h1) = Some h'" "V h' = V (apic_eoi cpu cur h1)" by blast
    moreover have "\<not> (fst i = 0 \<and> snd i = 0)" using False by (cases i) simp
    ultimately show ?thesis using i v1 eoi_view [OF c, of h1] by (subst drain_isr.simps) simp
  qed
qed

lemma drain_irr_returns:
  assumes d: "drains cpu apic cur eoi serviced pending" and v: "apic_registers cpu (la_mode apic) V" "base_registers cpu V"
    and e: "eoi_bitmask st = Done eoi"
  shows "\<exists>h'. drain_irr cpu apic st h = Some (Done h') \<and> V h' = V h"
proof (induction "pending h" arbitrary: h rule: less_induct)
  case less
  obtain i h1 where i: "apic_irr cpu apic h = (i, h1)" by (cases "apic_irr cpu apic h")
  have v1: "V h1 = V h" using load_regs_view [OF v(1)] i by (auto simp: apic_irr_def split_beta Let_def simp del: load_regs.simps)
  let ?more = "fst i AND eoi ! 0 \<noteq> 0 \<or> snd i AND eoi ! 1 \<noteq> 0"
  show ?case
  proof (cases ?more)
    case False
    then show ?thesis using i v1 e by (subst drain_irr.simps) simp
  next
    case True
    then have "pending (sti cpu h1) < pending h" using d i unfolding drains_def by (metis fst_conv snd_conv)
    from less.hyps [OF this] obtain h' where "drain_irr cpu apic st (sti cpu h1) = Some (Done h')" "V h' = V (sti cpu h1)" by blast
    moreover have "V (sti cpu h1) = V h1" using v(2) by (simp add: base_registers_def)
    ultimately show ?thesis using True i v1 e by (subst drain_irr.simps) simp
  qed
qed

section \<open>Giving the APIC back\<close>

definition orig_view :: "local_apic \<Rightarrow> apic_view" where
  "orig_view apic = (let o1 = la_orig apic in
     \<lparr>v_dcr = timer_dcr (orig_timer o1), v_lvt = timer_lvt (orig_timer o1), v_icr = timer_icr (orig_timer o1), v_svr = orig_svr o1,
      v_base = orig_ia32_apic_base o1 OR (if la_mode apic = X2Apic then IA32_APIC_BASE_EXTD else 0),
      v_a1 = orig_pic_a1 o1, v_21 = orig_pic_21 o1\<rparr>)"

lemma apic_restore_view:
  assumes "apic_registers cpu (la_mode apic) V" "base_registers cpu V"
  shows "V (apic_restore cpu apic h) = orig_view apic"
proof -
  have w: "V (apic_write cpu apic DivideConfiguration x h) = (V h)\<lparr>v_dcr := x\<rparr>" "V (apic_write cpu apic LvtTimer x h) = (V h)\<lparr>v_lvt := x\<rparr>"
    "V (apic_write cpu apic InitialCount x h) = (V h)\<lparr>v_icr := x\<rparr>"
    "V (apic_write cpu apic SpuriousInterruptVector x h) = (V h)\<lparr>v_svr := x\<rparr>" for x h
    using assms(1) by (simp_all add: apic_registers_def)
  have b: "V (wrmsr cpu IA32_APIC_BASE x h) = (V h)\<lparr>v_base := x\<rparr>" "V (out8 cpu 0xA1 y h) = (V h)\<lparr>v_a1 := y\<rparr>"
    "V (out8 cpu 0x21 y h) = (V h)\<lparr>v_21 := y\<rparr>" for x y h
    using assms(2) by (simp_all add: base_registers_def)
  show ?thesis by (simp add: apic_restore_def orig_view_def Let_def w b)
qed

lemma apic_reset_returns:
  assumes "drains cpu apic cur eoi serviced pending" "apic_registers cpu (la_mode apic) V" "base_registers cpu V"
    and "\<forall>a. cur = Some a \<longrightarrow> apic_registers cpu (la_mode a) V" "eoi_bitmask st = Done eoi"
  shows "\<exists>h'. apic_reset cpu apic cur (st, h) = Some (Done (st\<lparr>DRAINING_EOIS := True\<rparr>, h')) \<and> V h' = orig_view apic"
proof -
  obtain v h1 where r: "apic_read cpu apic LvtTimer h = (v, h1)" by force
  let ?h2 = "apic_write cpu apic LvtTimer (v OR LVT_MASK) h1"
  obtain h3 where h3: "drain_isr cpu apic cur ?h2 = Some h3" using drain_isr_returns [OF assms(1,2,4), of ?h2] by blast
  have "eoi_bitmask (st\<lparr>DRAINING_EOIS := True\<rparr>) = Done eoi" using assms(5) by (simp add: eoi_bitmask_def)
  then obtain h4 where h4: "drain_irr cpu apic (st\<lparr>DRAINING_EOIS := True\<rparr>) h3 = Some (Done h4)"
    using drain_irr_returns [OF assms(1-3)] by blast
  show ?thesis
    using r h3 h4 apic_restore_view [OF assms(2,3), of h4] by (simp add: apic_reset_def Let_def)
qed

text \<open>What \<open>init\<close> saved is what it found.\<close>

lemma apic_enable_base_view:
  assumes "apic_enable_base cpu x2 h = Done ((base, a1, b1), h')" "base_registers cpu V"
  shows "base = v_base (V h)" "a1 = v_a1 (V h)" "b1 = v_21 (V h)" "v_dcr (V h') = v_dcr (V h)" "v_lvt (V h') = v_lvt (V h)"
    "v_icr (V h') = v_icr (V h)" "v_svr (V h') = v_svr (V h)"
proof -
  obtain h1 where r: "rdmsr cpu IA32_APIC_BASE h = (base, h1)"
    using assms(1) by (auto simp: apic_enable_base_def Let_def assert_that_def split: if_splits prod.splits)
  obtain h2 where a: "in8 cpu 0xA1 h1 = (a1, h2)"
    using assms(1) r by (auto simp: apic_enable_base_def Let_def assert_that_def split: if_splits prod.splits)
  obtain h3 where b: "in8 cpu 0x21 h2 = (b1, h3)"
    using assms(1) r a by (auto simp: apic_enable_base_def Let_def assert_that_def split: if_splits prod.splits)
  have V: "v_base (V h) = base" "V h1 = V h" "v_a1 (V h1) = a1" "V h2 = V h1" "v_21 (V h2) = b1" "V h3 = V h2"
    using assms(2) r a b unfolding base_registers_def by (metis fst_conv snd_conv)+
  obtain x where h': "h' = wrmsr cpu IA32_APIC_BASE x (out8 cpu 0x21 0xFF (out8 cpu 0xA1 0xFF h3))"
    using assms(1) r a b by (auto simp: apic_enable_base_def Let_def assert_that_def split: if_splits)
  have "V h' = (V h)\<lparr>v_a1 := 0xFF, v_21 := 0xFF, v_base := x\<rparr>"
    using assms(2) V unfolding h' base_registers_def by simp
  then show "base = v_base (V h)" "a1 = v_a1 (V h)" "b1 = v_21 (V h)" "v_dcr (V h') = v_dcr (V h)" "v_lvt (V h') = v_lvt (V h)"
    "v_icr (V h') = v_icr (V h)" "v_svr (V h') = v_svr (V h)"
    using V by simp_all
qed

lemma apic_save_enable_view:
  assumes "apic_save_enable cpu mode (base, a1, b1) h = (apic, h')" "apic_registers cpu mode V"
  shows "la_mode apic = mode" "orig_view apic = (V h)\<lparr>v_base := base OR (if mode = X2Apic then IA32_APIC_BASE_EXTD else 0), v_a1 := a1, v_21 := b1\<rparr>"
proof -
  let ?a = "\<lparr>la_mode = mode, la_orig = \<lparr>orig_ia32_apic_base = base, orig_svr = 0, orig_pic_a1 = a1, orig_pic_21 = b1,
                   orig_timer = \<lparr>timer_dcr = 0, timer_icr = 0, timer_lvt = 0\<rparr>\<rparr>\<rparr>"
  obtain svr h1 where r1: "apic_read cpu ?a SpuriousInterruptVector h = (svr, h1)" by force
  obtain dcr h2 where r2: "apic_read cpu ?a DivideConfiguration h1 = (dcr, h2)" by force
  obtain icr h3 where r3: "apic_read cpu ?a InitialCount h2 = (icr, h3)" by force
  obtain lvt h4 where r4: "apic_read cpu ?a LvtTimer h3 = (lvt, h4)" by force
  have m: "la_mode ?a = mode" by simp
  have V: "v_svr (V h) = svr" "V h1 = V h" "v_dcr (V h1) = dcr" "V h2 = V h1" "v_icr (V h2) = icr" "V h3 = V h2" "v_lvt (V h3) = lvt"
    using assms(2) m r1 r2 r3 r4 unfolding apic_registers_def by (metis fst_conv snd_conv)+
  have a: "apic = ?a\<lparr>la_orig := (la_orig ?a)\<lparr>orig_svr := svr, orig_timer := \<lparr>timer_dcr = dcr, timer_icr = icr, timer_lvt = lvt\<rparr>\<rparr>\<rparr>"
    using assms(1) r1 r2 r3 r4 by (simp add: apic_save_enable_def Let_def)
  show "la_mode apic = mode" by (simp add: a)
  show "orig_view apic = (V h)\<lparr>v_base := base OR (if mode = X2Apic then IA32_APIC_BASE_EXTD else 0), v_a1 := a1, v_21 := b1\<rparr>"
    using V by (simp add: a orig_view_def Let_def)
qed

lemma apic_init_cases:
  assumes "apic_init cpu L f cur (k, h) = Done (apic, k', h')"
  shows "\<exists>base a1 b1 h1 mode h2. apic_enable_base cpu (feat_x2apic f) h = Done ((base, a1, b1), h1)
    \<and> apic_save_enable cpu mode (base, a1, b1) h1 = (apic, h2) \<and> (mode = X2Apic \<longleftrightarrow> feat_x2apic f)"
proof -
  obtain base a1 b1 h1 where b: "apic_enable_base cpu (feat_x2apic f) h = Done ((base, a1, b1), h1)"
    using assms by (auto simp: apic_init_def Let_def assert_that_def split: if_splits)
  obtain mode k1 where m: "(if \<not> feat_x2apic f then obind (apic_map L k) (\<lambda>(mapping, st). Done (Apic mapping, st)) else Done (X2Apic, k)) = Done (mode, k1)"
    using assms b by (auto simp: apic_init_def Let_def assert_that_def split: if_splits)
  obtain apic' h2 where s: "apic_save_enable cpu mode (base, a1, b1) h1 = (apic', h2)" by force
  have "apic' = apic" using assms b m s by (auto simp: apic_init_def Let_def assert_that_def split: if_splits prod.splits)
  moreover have "mode = X2Apic \<longleftrightarrow> feat_x2apic f" using m by (auto split: if_splits)
  ultimately show ?thesis using b s by blast
qed

section \<open>Properties\<close>


text \<open>Hardware with plain registers and no interrupts.\<close>

record reg_file =
  rf_msr :: "u32 \<Rightarrow> u64"
  rf_port :: "u16 \<Rightarrow> u8"
  rf_mmio :: "u64 \<Rightarrow> u32"

definition reg_file_cpu :: "reg_file cpu" where
  "reg_file_cpu = \<lparr>
     asm_rdmsr = (\<lambda>r h. (if 0x810 \<le> r \<and> r < 0x828 then (0, 0) else (ucast (drop_bit 32 (rf_msr h r)), ucast (rf_msr h r)), h)),
     asm_wrmsr = (\<lambda>r high low h. h\<lparr>rf_msr := (rf_msr h)(r := push_bit 32 (ucast high) OR ucast low)\<rparr>),
     in8 = (\<lambda>p h. (rf_port h p, h)), out8 = (\<lambda>p x h. h\<lparr>rf_port := (rf_port h)(p := x)\<rparr>),
     in32 = (\<lambda>p h. (0, h)), out32 = (\<lambda>p x h. h),
     volatile_read = (\<lambda>a h. (rf_mmio h a, h)), volatile_write = (\<lambda>a x h. h\<lparr>rf_mmio := (rf_mmio h)(a := x)\<rparr>),
     sti = (\<lambda>h. h), cli = (\<lambda>h. h), asm_rdtsc = (\<lambda>h. (0, h))\<rparr>"

definition rf_view :: "reg_file \<Rightarrow> apic_view" where
  "rf_view h = \<lparr>v_dcr = ucast (rf_msr h 0x83E), v_lvt = ucast (rf_msr h 0x832), v_icr = ucast (rf_msr h 0x838), v_svr = ucast (rf_msr h 0x80F),
     v_base = rf_msr h IA32_APIC_BASE, v_a1 = rf_port h 0xA1, v_21 = rf_port h 0x21\<rparr>"

lemma rf_rdmsr: "rdmsr reg_file_cpu r h = (if 0x810 \<le> r \<and> r < 0x828 then 0 else rf_msr h r, h)"
  by (simp add: rdmsr_def reg_file_cpu_def msr_halves)

lemma rf_wrmsr: "wrmsr reg_file_cpu r x h = h\<lparr>rf_msr := (rf_msr h)(r := x)\<rparr>"
  by (simp add: wrmsr_def reg_file_cpu_def msr_halves)

lemma rf_ports: "in8 reg_file_cpu p h = (rf_port h p, h)" "out8 reg_file_cpu p x h = h\<lparr>rf_port := (rf_port h)(p := x)\<rparr>"
  "sti reg_file_cpu h = h" "cli reg_file_cpu h = h"
  by (simp_all add: reg_file_cpu_def)

lemma apic_msrs:
  "apic_msr (register_offset DivideConfiguration) = 0x83E" "apic_msr (register_offset LvtTimer) = 0x832"
  "apic_msr (register_offset InitialCount) = 0x838" "apic_msr (register_offset SpuriousInterruptVector) = 0x80F"
  "apic_msr (register_offset EndOfInterrupt) = 0x80B" "apic_msr (register_offset Id) = 0x802"
  by (simp_all add: apic_msr_def)

lemma ucast_u32_u64: "(ucast (ucast x :: u64) :: u32) = x" for x :: u32
  by (rule bit_word_eqI) (simp add: bit_ucast_iff)

lemma rf_access:
  assumes "la_mode apic = X2Apic"
  shows "apic_read reg_file_cpu apic r h = (if 0x810 \<le> apic_msr (register_offset r) \<and> apic_msr (register_offset r) < 0x828 then 0
      else ucast (rf_msr h (apic_msr (register_offset r))), h)"
    and "apic_write reg_file_cpu apic r x h = h\<lparr>rf_msr := (rf_msr h)(apic_msr (register_offset r) := ucast x)\<rparr>"
  using assms by (simp_all add: apic_read_def apic_write_def rf_rdmsr rf_wrmsr)

lemma rf_registers: "apic_registers reg_file_cpu X2Apic rf_view" "base_registers reg_file_cpu rf_view"
proof -
  show "apic_registers reg_file_cpu X2Apic rf_view"
    unfolding apic_registers_def
  proof (intro allI impI)
    fix apic :: local_apic and h assume "la_mode apic = X2Apic"
    note rw = rf_access [OF this]
    show "fst (apic_read reg_file_cpu apic DivideConfiguration h) = v_dcr (rf_view h)
      \<and> fst (apic_read reg_file_cpu apic LvtTimer h) = v_lvt (rf_view h)
      \<and> fst (apic_read reg_file_cpu apic InitialCount h) = v_icr (rf_view h)
      \<and> fst (apic_read reg_file_cpu apic SpuriousInterruptVector h) = v_svr (rf_view h)
      \<and> (\<forall>r. rf_view (snd (apic_read reg_file_cpu apic r h)) = rf_view h)
      \<and> (\<forall>x. rf_view (apic_write reg_file_cpu apic DivideConfiguration x h) = (rf_view h)\<lparr>v_dcr := x\<rparr>)
      \<and> (\<forall>x. rf_view (apic_write reg_file_cpu apic LvtTimer x h) = (rf_view h)\<lparr>v_lvt := x\<rparr>)
      \<and> (\<forall>x. rf_view (apic_write reg_file_cpu apic InitialCount x h) = (rf_view h)\<lparr>v_icr := x\<rparr>)
      \<and> (\<forall>x. rf_view (apic_write reg_file_cpu apic SpuriousInterruptVector x h) = (rf_view h)\<lparr>v_svr := x\<rparr>)
      \<and> (\<forall>x. rf_view (apic_write reg_file_cpu apic EndOfInterrupt x h) = rf_view h)"
      by (intro conjI allI; simp only: rw apic_msrs; simp add: rf_view_def IA32_APIC_BASE_def ucast_u32_u64 del: register_offset.simps)
  qed
  show "base_registers reg_file_cpu rf_view"
    unfolding base_registers_def by (simp add: rf_rdmsr rf_wrmsr rf_ports rf_view_def IA32_APIC_BASE_def)
qed

lemma rf_idle:
  assumes "la_mode apic = X2Apic"
  shows "apic_isr reg_file_cpu apic h = ((0, 0), h)" "apic_irr reg_file_cpu apic h = ((0, 0), h)"
proof -
  have r: "apic_read reg_file_cpu apic r h = (0, h)" if "0x810 \<le> apic_msr (register_offset r)" "apic_msr (register_offset r) < 0x828" for r h
    using that assms by (simp add: apic_read_def rf_rdmsr)
  have z: "from_le (replicate n 0) = (0 :: u128)" for n by (rule from_le_zero)
  have "load_regs reg_file_cpu apic regs h = (replicate (4 * length regs) 0, h)"
    if "\<forall>r \<in> set regs. 0x810 \<le> apic_msr (register_offset r) \<and> apic_msr (register_offset r) < 0x828" for regs h
    using that by (induction regs arbitrary: h) (simp_all add: r le_bytes_def replicate_add [symmetric] map_replicate_const)
  then show "apic_isr reg_file_cpu apic h = ((0, 0), h)" "apic_irr reg_file_cpu apic h = ((0, 0), h)"
    using z [of 16] unfolding apic_isr_def apic_irr_def by (simp_all add: apic_msr_def del: load_regs.simps)
qed

definition rf_demo :: reg_file where
  "rf_demo = \<lparr>rf_msr = (\<lambda>r. if r = 0x1B then 0xFEE00900 else if r = 0x80F then 0x1FF else 7), rf_port = (\<lambda>_. 0xB8), rf_mmio = (\<lambda>_. 0)\<rparr>"


end
