(* ===== verification/Apic_System.thy ===== *)
theory Apic_System
  imports Apic_Local Acpi_Tables Sync
begin

text \<open>
  Bringing up the cores, \<open>src/kernel/src/apic/system.rs\<close> and the end of \<open>src/kernel/src/acpi/acpi.rs\<close>: the state kept
  for every APIC, the launch of the other cores by the first one, and the barrier at which all of them meet.
\<close>

section \<open>States\<close>

datatype apic_state = Online | Launched | Offline | NoApic | Halted

fun apic_state_number :: "apic_state \<Rightarrow> u8" where
  "apic_state_number Online = 1"
| "apic_state_number Launched = 2"
| "apic_state_number Offline = 3"
| "apic_state_number NoApic = 4"
| "apic_state_number Halted = 5"

definition apic_state_from :: "u8 \<Rightarrow> apic_state outcome" where
  "apic_state_from val =
     (if val = 1 then Done Online else if val = 2 then Done Launched else if val = 3 then Done Offline
      else if val = 4 then Done NoApic else if val = 5 then Done Halted else Panic)"

record apic_system =
  APIC_STATES :: "u8 list once_lock"
  TOTAL_CORES :: "u32 once_lock"
  MAX_APIC_ID :: "u32 once_lock"
  CORES_CHECKED_IN :: u32

definition apic_system_init :: apic_system where
  "apic_system_init = \<lparr>APIC_STATES = once_new, TOTAL_CORES = once_new, MAX_APIC_ID = once_new, CORES_CHECKED_IN = 0\<rparr>"

text \<open>The value of a lock that is set; \<open>get\<close> panics before.\<close>

definition once_read :: "'a once_lock \<Rightarrow> 'a outcome" where
  "once_read l = obind (once_get l) unwrap"

text \<open>A store to the array that the lock refers to.\<close>

definition store_state :: "u32 \<Rightarrow> u8 \<Rightarrow> apic_system \<Rightarrow> apic_system outcome" where
  "store_state i v s =
     obind (once_read (APIC_STATES s)) (\<lambda>states.
     obind (array_set states (unat i) v) (\<lambda>states.
       Done (s\<lparr>APIC_STATES := (APIC_STATES s)\<lparr>once_value := Some states\<rparr>\<rparr>)))"

definition load_state :: "u32 \<Rightarrow> apic_system \<Rightarrow> u8 outcome" where
  "load_state i s = obind (once_read (APIC_STATES s)) (\<lambda>states. array_get states (unat i))"

definition set_core_state :: "u32 \<Rightarrow> apic_state \<Rightarrow> apic_system \<Rightarrow> apic_system outcome" where
  "set_core_state i st s = store_state i (apic_state_number st) s"

definition core_state_of :: "u32 \<Rightarrow> apic_system \<Rightarrow> apic_state outcome" where
  "core_state_of i s = obind (load_state i s) apic_state_from"

section \<open>Checking in\<close>

text \<open>\<open>check_in\<close> up to its loop, for a core with an APIC ID that may be the bootstrap processor. The exchange and the
  increment are one access each.\<close>

definition check_in_arrive :: "bool \<Rightarrow> u32 \<Rightarrow> apic_system \<Rightarrow> apic_system outcome" where
  "check_in_arrive is_bsp i s =
     obind (load_state i s) (\<lambda>old.
     obind (if old = apic_state_number Launched then store_state i (apic_state_number Online) s else Done s) (\<lambda>s.
     assert_that (if is_bsp then old = apic_state_number Online else old = apic_state_number Launched) (
       let s = s\<lparr>CORES_CHECKED_IN := CORES_CHECKED_IN s + 1\<rparr> in
       obind (once_read (TOTAL_CORES s)) (\<lambda>num_cores.
       assert_that (num_cores \<noteq> 0) (Done s)))))"

text \<open>The loop ends when this holds.\<close>

definition check_in_done :: "apic_system \<Rightarrow> bool" where
  "check_in_done s \<longleftrightarrow> once_read (TOTAL_CORES s) = Done (CORES_CHECKED_IN s)"

section \<open>Launching the cores\<close>

fun mark_offline :: "u32 list \<Rightarrow> apic_system \<Rightarrow> apic_system outcome" where
  "mark_offline [] s = Done s"
| "mark_offline (i # is) s = obind (store_state i (apic_state_number Offline) s) (mark_offline is)"

text \<open>\<open>init_system\<close> up to the total number of cores.\<close>

definition init_states :: "u32 list \<Rightarrow> u32 \<Rightarrow> apic_system \<Rightarrow> apic_system outcome" where
  "init_states apics cur_id s =
     obind (once_read (MAX_APIC_ID s)) (\<lambda>max_id.
     obind (once_set (APIC_STATES s) (replicate (Suc (unat max_id)) (apic_state_number NoApic))) (\<lambda>states.
     obind (mark_offline apics (s\<lparr>APIC_STATES := states\<rparr>)) (\<lambda>s.
     obind (set_core_state cur_id Online s) (\<lambda>s.
     obind (once_set (TOTAL_CORES s) (of_nat (length apics))) (\<lambda>total.
       Done (s\<lparr>TOTAL_CORES := total\<rparr>))))))"

definition ENTRY_ADDR :: u16 where "ENTRY_ADDR = 0x8000"

text \<open>The entry code in low memory, its last bytes replaced by the state of the bootloader.\<close>

definition write_entry_code :: "u8 list \<Rightarrow> u8 list \<Rightarrow> memory \<Rightarrow> memory outcome" where
  "write_entry_code entry_code bstate m =
     obind (slice_phys_mut (ucast ENTRY_ADDR) (of_nat (length entry_code))) (\<lambda>p.
       let m = write_bytes_at m p entry_code in
       assert_that (length bstate \<le> length entry_code) (
         Done (write_bytes_at m (p + of_nat (length entry_code - length bstate)) bstate)))"

text \<open>One core: mark it, then INIT-SIPI-SIPI.\<close>

definition launch_core :: "'h cpu \<Rightarrow> local_apic \<Rightarrow> u32 \<Rightarrow> apic_system \<times> 'h \<Rightarrow> (apic_system \<times> 'h) outcome" where
  "launch_core cpu apic i sh =
     obind (set_core_state i Launched (fst sh)) (\<lambda>s.
       let entry = ucast (ENTRY_ADDR div 0x1000) :: u32; h = snd sh;
           h = ipi cpu apic i 0x4500 h;
           h = ipi cpu apic i (0x4600 + entry) h;
           h = ipi cpu apic i (0x4600 + entry) h in
       Done (s, h))"

text \<open>The loop over the other cores. \<open>wait\<close> is the loop that waits for a core to come online: what the other cores do
  to the shared state in the meantime, or \<open>None\<close> when it does not end.\<close>

fun launch_loop ::
  "'h cpu \<Rightarrow> local_apic \<Rightarrow> (u32 \<Rightarrow> apic_system \<times> 'h \<Rightarrow> (apic_system \<times> 'h) outcome option) \<Rightarrow> u32 list
    \<Rightarrow> apic_system \<times> 'h \<Rightarrow> (apic_system \<times> 'h) outcome option" where
  "launch_loop cpu apic wait [] sh = Some (Done sh)"
| "launch_loop cpu apic wait (i # is) sh =
     (case launch_core cpu apic i sh of
        Panic \<Rightarrow> Some Panic
      | Done sh \<Rightarrow>
          (case wait i sh of
             None \<Rightarrow> None
           | Some Panic \<Rightarrow> Some Panic
           | Some (Done sh) \<Rightarrow> launch_loop cpu apic wait is sh))"

definition init_system ::
  "'h cpu \<Rightarrow> (u32 \<Rightarrow> apic_system \<times> 'h \<Rightarrow> (apic_system \<times> 'h) outcome option) \<Rightarrow> u8 list \<Rightarrow> u8 list \<Rightarrow> local_apic option
    \<Rightarrow> u32 list \<Rightarrow> kmachine \<times> apic_system \<times> 'h \<Rightarrow> (kmachine \<times> apic_system \<times> 'h) outcome option" where
  "init_system cpu wait entry_code bstate cur apics st =
     (let ((k, m), s, h) = st in
      case obind (unwrap (ks_apic_id k)) (\<lambda>cur_id.
           obind (init_states apics cur_id s) (\<lambda>s.
           obind (write_entry_code entry_code bstate m) (\<lambda>m.
           obind (unwrap cur) (\<lambda>apic. Done (cur_id, s, m, apic))))) of
        Panic \<Rightarrow> Some Panic
      | Done (cur_id, s, m, apic) \<Rightarrow>
          map_option (\<lambda>r. obind r (\<lambda>(s, h). Done ((k, m), s, h)))
            (launch_loop cpu apic wait (filter (\<lambda>i. i \<noteq> cur_id) apics) (s, h)))"

section \<open>The tables of the system\<close>

text \<open>The loop of \<open>acpi::init\<close> over the pointers to the tables.\<close>

fun acpi_tables_loop ::
  "memory \<Rightarrow> u64 \<Rightarrow> nat list \<Rightarrow> madt option \<times> srat option \<Rightarrow> (acpi_error + madt option \<times> srat option) outcome" where
  "acpi_tables_loop m base [] found = Done (Inr found)"
| "acpi_tables_loop m base (entry # es) found =
     obind (assert_that (entry * 8 \<le> usize_max) (Done (of_nat (entry * 8)))) (\<lambda>offset.
     obind (unwrap (checked_add base offset)) (\<lambda>p.
     obind (phys_ptr (read_u64 m p)) (\<lambda>table_ptr.
       (case from_sig (read_bytes m table_ptr 4) of
          Table_Madt \<Rightarrow> orbind (madt_parse m table_ptr) (\<lambda>x. acpi_tables_loop m base es (Some x, snd found))
        | Table_Srat \<Rightarrow> orbind (srat_parse m table_ptr) (\<lambda>x. acpi_tables_loop m base es (fst found, Some x))
        | Table_Unknown _ \<Rightarrow> acpi_tables_loop m base es found))))"

definition max_apic :: "madt option \<Rightarrow> u32" where
  "max_apic madt = (case madt of None \<Rightarrow> 0 | Some x \<Rightarrow> foldl max 0 (madt_apics x))"

text \<open>The rest of \<open>acpi::init\<close>.\<close>

definition acpi_finish ::
  "(u32 list \<Rightarrow> kmachine \<times> apic_system \<times> 'h \<Rightarrow> (kmachine \<times> apic_system \<times> 'h) outcome option)
    \<Rightarrow> madt option \<times> srat option \<Rightarrow> kmachine \<times> apic_system \<times> 'h \<Rightarrow> (kmachine \<times> apic_system \<times> 'h) outcome option" where
  "acpi_finish init_sys found st =
     (let ((k, m), s, h) = st; (madt, srat) = found in
      case obind (once_set (MAX_APIC_ID s) (max_apic madt)) (\<lambda>max_id.
           obind (case srat of None \<Rightarrow> Done k | Some x \<Rightarrow> register_numa (max_apic madt) (apic_to_domain x) (domain_to_ranges x) k) (\<lambda>k.
             Done ((k, m), s\<lparr>MAX_APIC_ID := max_id\<rparr>, h))) of
        Panic \<Rightarrow> Some Panic
      | Done st \<Rightarrow> (case madt of None \<Rightarrow> Some (Done st) | Some x \<Rightarrow> init_sys (madt_apics x) st))"

definition acpi_init ::
  "(u32 list \<Rightarrow> kmachine \<times> apic_system \<times> 'h \<Rightarrow> (kmachine \<times> apic_system \<times> 'h) outcome option)
    \<Rightarrow> nat \<Rightarrow> phys_addr \<Rightarrow> kmachine \<times> apic_system \<times> 'h \<Rightarrow> (acpi_error + kmachine \<times> apic_system \<times> 'h) outcome option" where
  "acpi_init init_sys n_tables sdt st =
     (case obind (phys_ptr sdt) (\<lambda>base. acpi_tables_loop (snd (fst st)) base [0..<n_tables] (None, None)) of
        Panic \<Rightarrow> Some Panic
      | Done (Inl e) \<Rightarrow> Some (Done (Inl e))
      | Done (Inr found) \<Rightarrow> map_option (\<lambda>r. obind r (\<lambda>st. Done (Inr st))) (acpi_finish init_sys found st))"

section \<open>All the cores\<close>

text \<open>The bootstrap processor launches the others one by one and then checks in itself; a core that was launched
  boots the kernel and checks in.\<close>

datatype bsp_pc = Launching "u32 list" | WaitOnline u32 "u32 list" | BspWaiting | BspRunning

datatype ap_pc = Asleep | Booting | ApWaiting | ApRunning | ApPanic

record bringup =
  bu_sys :: apic_system
  bu_bsp :: bsp_pc
  bu_aps :: "u32 \<Rightarrow> ap_pc"

inductive bringup_step :: "u32 \<Rightarrow> bringup \<Rightarrow> bringup \<Rightarrow> bool" for bsp :: u32 where
  launch: "bu_bsp b = Launching (i # is) \<Longrightarrow> set_core_state i Launched (bu_sys b) = Done s \<Longrightarrow>
    bringup_step bsp b (b\<lparr>bu_sys := s, bu_bsp := WaitOnline i is, bu_aps := (bu_aps b)(i := Booting)\<rparr>)"
| came_online: "bu_bsp b = WaitOnline i is \<Longrightarrow> core_state_of i (bu_sys b) = Done Online \<Longrightarrow>
    bringup_step bsp b (b\<lparr>bu_bsp := Launching is\<rparr>)"
| bsp_check_in: "bu_bsp b = Launching [] \<Longrightarrow> check_in_arrive True bsp (bu_sys b) = Done s \<Longrightarrow>
    bringup_step bsp b (b\<lparr>bu_sys := s, bu_bsp := BspWaiting\<rparr>)"
| bsp_leave: "bu_bsp b = BspWaiting \<Longrightarrow> check_in_done (bu_sys b) \<Longrightarrow> bringup_step bsp b (b\<lparr>bu_bsp := BspRunning\<rparr>)"
| ap_check_in: "bu_aps b i = Booting \<Longrightarrow> check_in_arrive False i (bu_sys b) = Done s \<Longrightarrow>
    bringup_step bsp b (b\<lparr>bu_sys := s, bu_aps := (bu_aps b)(i := ApWaiting)\<rparr>)"
| ap_panic: "bu_aps b i = Booting \<Longrightarrow> check_in_arrive False i (bu_sys b) = Panic \<Longrightarrow>
    bringup_step bsp b (b\<lparr>bu_aps := (bu_aps b)(i := ApPanic)\<rparr>)"
| ap_leave: "bu_aps b i = ApWaiting \<Longrightarrow> check_in_done (bu_sys b) \<Longrightarrow>
    bringup_step bsp b (b\<lparr>bu_aps := (bu_aps b)(i := ApRunning)\<rparr>)"

text \<open>It starts when \<open>init_states\<close> is done.\<close>

inductive bringup_reach :: "u32 list \<Rightarrow> u32 \<Rightarrow> bringup \<Rightarrow> bool" for apics :: "u32 list" and bsp :: u32 where
  start: "init_states apics bsp s = Done s' \<Longrightarrow> CORES_CHECKED_IN s = 0 \<Longrightarrow>
    bringup_reach apics bsp \<lparr>bu_sys = s', bu_bsp = Launching (filter (\<lambda>i. i \<noteq> bsp) apics), bu_aps = (\<lambda>_. Asleep)\<rparr>"
| step: "bringup_reach apics bsp b \<Longrightarrow> bringup_step bsp b b' \<Longrightarrow> bringup_reach apics bsp b'"

inductive_cases bringup_stepE: "bringup_step bsp b b'"

end
