(* ===== verification/Apic_System_Props.thy ===== *)
theory Apic_System_Props
  imports Apic_System
begin

text \<open>
  The cores of the system come up one at a time, none of them panics on the way, and none passes the barrier before
  all have reached it; the system never gets stuck before they all have passed.
\<close>

section \<open>The table of states\<close>

lemma store_state_effect:
  assumes "store_state i v s = Done s'"
  shows "load_state j s' = (if j = i then Done v else load_state j s)" "TOTAL_CORES s' = TOTAL_CORES s"
    "CORES_CHECKED_IN s' = CORES_CHECKED_IN s" "MAX_APIC_ID s' = MAX_APIC_ID s"
proof -
  obtain states where st: "once_initialized (APIC_STATES s)" "once_value (APIC_STATES s) = Some states" "unat i < length states"
    "s' = s\<lparr>APIC_STATES := (APIC_STATES s)\<lparr>once_value := Some (states[unat i := v])\<rparr>\<rparr>"
    using assms by (auto simp: store_state_def once_read_def once_get_def array_set_def split: if_splits)
  then show "load_state j s' = (if j = i then Done v else load_state j s)"
    by (cases "j = i") (auto simp: load_state_def once_read_def once_get_def array_get_def nth_list_update word_unat_eq_iff)
  show "TOTAL_CORES s' = TOTAL_CORES s" "CORES_CHECKED_IN s' = CORES_CHECKED_IN s" "MAX_APIC_ID s' = MAX_APIC_ID s"
    using st(4) by simp_all
qed

lemma store_state_ok: "load_state i s = Done w \<Longrightarrow> \<exists>s'. store_state i v s = Done s'"
  by (auto simp: store_state_def load_state_def array_get_def array_set_def split: if_splits)

lemma load_state_checked [simp]: "load_state i (s\<lparr>CORES_CHECKED_IN := c\<rparr>) = load_state i s"
  by (simp add: load_state_def)

lemma check_in_arrive_effect:
  assumes "check_in_arrive False i s = Done s'"
  shows "load_state i s = Done 2" "load_state j s' = (if j = i then Done 1 else load_state j s)" "TOTAL_CORES s' = TOTAL_CORES s"
    "CORES_CHECKED_IN s' = CORES_CHECKED_IN s + 1"
proof -
  obtain s1 where s1: "load_state i s = Done 2" "store_state i 1 s = Done s1" "s' = s1\<lparr>CORES_CHECKED_IN := CORES_CHECKED_IN s1 + 1\<rparr>"
    using assms by (auto simp: check_in_arrive_def assert_that_def Let_def split: if_splits)
  note e = store_state_effect [OF s1(2)]
  show "load_state i s = Done 2" "load_state j s' = (if j = i then Done 1 else load_state j s)" "TOTAL_CORES s' = TOTAL_CORES s"
    "CORES_CHECKED_IN s' = CORES_CHECKED_IN s + 1"
    using s1(1) e unfolding s1(3) by simp_all
qed

lemma check_in_arrive_ok:
  assumes "load_state i s = Done 2" "once_read (TOTAL_CORES s) = Done n" "n \<noteq> 0"
  shows "\<exists>s'. check_in_arrive False i s = Done s'"
proof -
  obtain s1 where "store_state i 1 s = Done s1" using store_state_ok [OF assms(1)] by blast
  moreover have "TOTAL_CORES s1 = TOTAL_CORES s" using store_state_effect(2) [OF calculation] .
  ultimately show ?thesis using assms by (simp add: check_in_arrive_def Let_def)
qed

lemma check_in_arrive_bsp:
  assumes "load_state i s = Done 1" "once_read (TOTAL_CORES s) = Done n" "n \<noteq> 0"
  shows "check_in_arrive True i s = Done (s\<lparr>CORES_CHECKED_IN := CORES_CHECKED_IN s + 1\<rparr>)"
  using assms by (simp add: check_in_arrive_def Let_def)

section \<open>The start\<close>

lemma mark_offline_effect:
  "mark_offline is s = Done s' \<Longrightarrow>
    (\<forall>j. load_state j s' = (if j \<in> set is then Done 3 else load_state j s)) \<and> CORES_CHECKED_IN s' = CORES_CHECKED_IN s"
proof (induction "is" arbitrary: s)
  case (Cons i "is")
  obtain s1 where s1: "store_state i 3 s = Done s1" "mark_offline is s1 = Done s'" using Cons.prems by auto
  show ?case using Cons.IH [OF s1(2)] store_state_effect [OF s1(1)] by auto
qed simp

lemma init_states_effect:
  assumes "init_states apics bsp s = Done s'"
  shows "load_state bsp s' = Done 1" "\<forall>i \<in> set apics. \<exists>v. load_state i s' = Done v"
    "once_read (TOTAL_CORES s') = Done (of_nat (length apics))" "CORES_CHECKED_IN s' = CORES_CHECKED_IN s"
proof -
  obtain states s1 where r2: "mark_offline apics (s\<lparr>APIC_STATES := states\<rparr>) = Done s1"
      "obind (store_state bsp 1 s1) (\<lambda>s. obind (once_set (TOTAL_CORES s) (of_nat (length apics))) (\<lambda>total. Done (s\<lparr>TOTAL_CORES := total\<rparr>))) = Done s'"
    using assms by (auto simp: init_states_def set_core_state_def simp del: replicate.simps)
  obtain s2 total where r3: "store_state bsp 1 s1 = Done s2" "once_set (TOTAL_CORES s2) (of_nat (length apics)) = Done total"
    "s' = s2\<lparr>TOTAL_CORES := total\<rparr>" using r2(2) by auto
  note a = mark_offline_effect [OF r2(1)] and b = store_state_effect [OF r3(1)]
  have l: "load_state i s' = load_state i s2" for i by (simp add: r3(3) load_state_def)
  show "load_state bsp s' = Done 1" using b(1) [of bsp] l by simp
  show "\<forall>i \<in> set apics. \<exists>v. load_state i s' = Done v" using a b(1) l by auto
  show "once_read (TOTAL_CORES s') = Done (of_nat (length apics))"
    using r3(2) by (auto simp: r3(3) once_set_def once_swap_def once_write_def once_read_def once_get_def assert_that_def split: if_splits)
  show "CORES_CHECKED_IN s' = CORES_CHECKED_IN s" using a b(3) by (simp add: r3(3))
qed

section \<open>The invariant\<close>

fun pending :: "bsp_pc \<Rightarrow> u32 list" where
  "pending (Launching is) = is"
| "pending (WaitOnline i is) = i # is"
| "pending _ = []"

definition ap_arrived :: "bringup \<Rightarrow> u32 \<Rightarrow> bool" where
  "ap_arrived b i \<longleftrightarrow> bu_aps b i = ApWaiting \<or> bu_aps b i = ApRunning"

definition bsp_arrived :: "bringup \<Rightarrow> bool" where
  "bsp_arrived b \<longleftrightarrow> bu_bsp b = BspWaiting \<or> bu_bsp b = BspRunning"

definition passed :: "bringup \<Rightarrow> bool" where
  "passed b \<longleftrightarrow> bu_bsp b = BspRunning \<or> (\<exists>i. bu_aps b i = ApRunning)"

text \<open>The core the bootstrap processor waits for has been launched, or has arrived since.\<close>

definition waiting_ok :: "bringup \<Rightarrow> u32 \<Rightarrow> bool" where
  "waiting_ok b i \<longleftrightarrow> (bu_aps b i = Booting \<and> load_state i (bu_sys b) = Done 2) \<or> (ap_arrived b i \<and> load_state i (bu_sys b) = Done 1)"

definition bu_inv :: "u32 list \<Rightarrow> u32 \<Rightarrow> u32 list \<Rightarrow> bringup \<Rightarrow> bool" where
  "bu_inv apics bsp fin b \<longleftrightarrow>
     filter (\<lambda>i. i \<noteq> bsp) apics = fin @ pending (bu_bsp b)
     \<and> once_read (TOTAL_CORES (bu_sys b)) = Done (of_nat (length apics))
     \<and> load_state bsp (bu_sys b) = Done 1
     \<and> (\<forall>i \<in> set fin. ap_arrived b i \<and> load_state i (bu_sys b) = Done 1)
     \<and> (\<forall>i is. bu_bsp b = WaitOnline i is \<longrightarrow> waiting_ok b i)
     \<and> (\<forall>i. i \<notin> set fin \<longrightarrow> (\<forall>is. bu_bsp b \<noteq> WaitOnline i is) \<longrightarrow> bu_aps b i = Asleep)
     \<and> (\<forall>i \<in> set (pending (bu_bsp b)). \<exists>v. load_state i (bu_sys b) = Done v)
     \<and> CORES_CHECKED_IN (bu_sys b) = of_nat (card {i. ap_arrived b i} + (if bsp_arrived b then 1 else 0))
     \<and> (passed b \<longrightarrow> bsp_arrived b)"

lemma bu_inv_start:
  assumes "init_states apics bsp s = Done s'" "CORES_CHECKED_IN s = 0"
  shows "bu_inv apics bsp [] \<lparr>bu_sys = s', bu_bsp = Launching (filter (\<lambda>i. i \<noteq> bsp) apics), bu_aps = (\<lambda>_. Asleep)\<rparr>"
  using init_states_effect [OF assms(1)] assms(2) by (simp add: bu_inv_def ap_arrived_def bsp_arrived_def passed_def)

text \<open>The cores that have arrived: those the first core is done with, and perhaps the one it waits for.\<close>

lemma arrived_set:
  assumes "bu_inv apics bsp fin b"
  shows "{i. ap_arrived b i} \<subseteq> set (filter (\<lambda>i. i \<noteq> bsp) apics)"
proof
  fix i assume "i \<in> {i. ap_arrived b i}"
  then have "bu_aps b i \<noteq> Asleep" by (auto simp: ap_arrived_def)
  then have "i \<in> set fin \<or> (\<exists>is. bu_bsp b = WaitOnline i is)" using assms unfolding bu_inv_def by blast
  then show "i \<in> set (filter (\<lambda>i. i \<noteq> bsp) apics)" using assms by (auto simp: bu_inv_def)
qed

lemma barrier_closed:
  assumes inv: "bu_inv apics bsp fin b" and ap: "distinct apics" "bsp \<in> set apics" "length apics < 2 ^ 32" and d: "check_in_done (bu_sys b)"
  shows "bsp_arrived b"
proof (rule ccontr)
  assume n: "\<not> bsp_arrived b"
  have "card {i. ap_arrived b i} \<le> card (set (filter (\<lambda>i. i \<noteq> bsp) apics))" using arrived_set [OF inv] by (intro card_mono) auto
  also have "\<dots> < card (set apics)" using ap(2) by (intro psubset_card_mono) auto
  also have "\<dots> = length apics" using ap(1) by (rule distinct_card)
  finally have lt: "card {i. ap_arrived b i} < length apics" .
  have "(of_nat (length apics) :: u32) = of_nat (card {i. ap_arrived b i})"
    using d inv n unfolding check_in_done_def bu_inv_def by auto
  then have "unat (of_nat (length apics) :: u32) = unat (of_nat (card {i. ap_arrived b i}) :: u32)" by simp
  then show False using lt ap(3) by (simp add: unsigned_of_nat take_bit_nat_eq_self)
qed

text \<open>When the bootstrap processor has arrived, all have.\<close>

lemma full_barrier:
  assumes inv: "bu_inv apics bsp fin b" and ap: "distinct apics" "bsp \<in> set apics" and ba: "bsp_arrived b"
  shows "check_in_done (bu_sys b)"
proof -
  have "pending (bu_bsp b) = []" using ba by (auto simp: bsp_arrived_def)
  then have f: "set (filter (\<lambda>i. i \<noteq> bsp) apics) = set fin" using inv by (simp add: bu_inv_def)
  have "set fin \<subseteq> {i. ap_arrived b i}" using inv by (auto simp: bu_inv_def)
  then have "{i. ap_arrived b i} = set (filter (\<lambda>i. i \<noteq> bsp) apics)" using arrived_set [OF inv] unfolding f by blast
  also have "\<dots> = set apics - {bsp}" by auto
  finally have "card {i. ap_arrived b i} + 1 = length apics"
    using ap distinct_card [OF ap(1)] by (simp add: card_Suc_Diff1 Suc_le_eq card_gt_0_iff) (metis Suc_pred card_gt_0_iff empty_iff finite_set)
  then have "(of_nat (card {i. ap_arrived b i} + 1) :: u32) = of_nat (length apics)" by simp
  moreover have "CORES_CHECKED_IN (bu_sys b) = of_nat (card {i. ap_arrived b i} + (if bsp_arrived b then 1 else 0))"
    "once_read (TOTAL_CORES (bu_sys b)) = Done (of_nat (length apics))"
    using inv by (simp_all only: bu_inv_def)
  ultimately show ?thesis using ba by (simp add: check_in_done_def)
qed

section \<open>The steps\<close>

lemma bu_inv_launch:
  assumes inv: "bu_inv apics bsp fin b" and ap: "distinct apics" and pc: "bu_bsp b = Launching (i # is)"
    and s: "set_core_state i Launched (bu_sys b) = Done s"
  shows "bu_inv apics bsp fin (b\<lparr>bu_sys := s, bu_bsp := WaitOnline i is, bu_aps := (bu_aps b)(i := Booting)\<rparr>)"
proof -
  let ?b = "b\<lparr>bu_sys := s, bu_bsp := WaitOnline i is, bu_aps := (bu_aps b)(i := Booting)\<rparr>"
  have f: "filter (\<lambda>i. i \<noteq> bsp) apics = fin @ i # is" using inv pc by (simp add: bu_inv_def)
  moreover have "distinct (filter (\<lambda>i. i \<noteq> bsp) apics)" using ap by simp
  ultimately have "i \<notin> set fin" by auto
  moreover have "i \<in> set (filter (\<lambda>i. i \<noteq> bsp) apics)" unfolding f by simp
  then have "i \<noteq> bsp" by simp
  ultimately have i: "i \<notin> set fin" "i \<noteq> bsp" .
  have asleep: "bu_aps b i = Asleep" using inv pc i(1) by (simp add: bu_inv_def)
  note e = store_state_effect [OF s [unfolded set_core_state_def]]
  have a: "ap_arrived ?b = ap_arrived b" using asleep by (auto simp: ap_arrived_def fun_eq_iff)
  have "bsp_arrived ?b = bsp_arrived b" "passed ?b \<longrightarrow> passed b" using pc by (auto simp: bsp_arrived_def passed_def split: if_splits)
  then show ?thesis
    using inv e i f unfolding bu_inv_def a by (simp add: pc waiting_ok_def) blast
qed

lemma bu_inv_online:
  assumes inv: "bu_inv apics bsp fin b" and pc: "bu_bsp b = WaitOnline i is" and s: "core_state_of i (bu_sys b) = Done Online"
  shows "bu_inv apics bsp (fin @ [i]) (b\<lparr>bu_bsp := Launching is\<rparr>)"
proof -
  let ?b = "b\<lparr>bu_bsp := Launching is\<rparr>"
  have "load_state i (bu_sys b) \<noteq> Done 2" using s by (auto simp: core_state_of_def apic_state_from_def)
  then have i: "ap_arrived b i" "load_state i (bu_sys b) = Done 1" using inv pc by (auto simp: bu_inv_def waiting_ok_def)
  have a: "ap_arrived ?b = ap_arrived b" by (auto simp: ap_arrived_def fun_eq_iff)
  have "bsp_arrived ?b = bsp_arrived b" "passed ?b \<longrightarrow> passed b" using pc by (auto simp: bsp_arrived_def passed_def)
  then show ?thesis using inv i unfolding bu_inv_def a by (auto simp: pc)
qed

lemma bu_inv_bsp_check_in:
  assumes inv: "bu_inv apics bsp fin b" and n: "apics \<noteq> []" "length apics < 2 ^ 32" and pc: "bu_bsp b = Launching []"
    and s: "check_in_arrive True bsp (bu_sys b) = Done s"
  shows "bu_inv apics bsp fin (b\<lparr>bu_sys := s, bu_bsp := BspWaiting\<rparr>)"
proof -
  let ?b = "b\<lparr>bu_sys := s, bu_bsp := BspWaiting\<rparr>"
  have "unat (of_nat (length apics) :: u32) = length apics" using n(2) by (simp add: unsigned_of_nat take_bit_nat_eq_self)
  then have "(of_nat (length apics) :: u32) \<noteq> 0" using n(1) by (metis length_0_conv unat_0)
  then have s': "s = (bu_sys b)\<lparr>CORES_CHECKED_IN := CORES_CHECKED_IN (bu_sys b) + 1\<rparr>"
    using check_in_arrive_bsp [of bsp "bu_sys b" "of_nat (length apics)"] inv s by (simp add: bu_inv_def)
  have a: "ap_arrived ?b = ap_arrived b" by (auto simp: ap_arrived_def fun_eq_iff)
  have "bsp_arrived ?b" "\<not> bsp_arrived b" using pc by (auto simp: bsp_arrived_def)
  then show ?thesis using inv unfolding bu_inv_def a by (simp add: pc s')
qed

lemma bu_inv_ap_check_in:
  assumes inv: "bu_inv apics bsp fin b" and pc: "bu_aps b i = Booting" and s: "check_in_arrive False i (bu_sys b) = Done s"
  shows "bu_inv apics bsp fin (b\<lparr>bu_sys := s, bu_aps := (bu_aps b)(i := ApWaiting)\<rparr>)"
proof -
  let ?b = "b\<lparr>bu_sys := s, bu_aps := (bu_aps b)(i := ApWaiting)\<rparr>"
  have na: "\<not> ap_arrived b i" using pc by (simp add: ap_arrived_def)
  then have "i \<notin> set fin" using inv by (auto simp: bu_inv_def)
  then obtain "is" where w: "bu_bsp b = WaitOnline i is" using inv pc unfolding bu_inv_def by fastforce
  note e = check_in_arrive_effect [OF s]
  have "i \<in> set (filter (\<lambda>i. i \<noteq> bsp) apics)" using inv w by (simp add: bu_inv_def)
  then have ne: "i \<noteq> bsp" by simp
  have arr: "ap_arrived ?b j \<longleftrightarrow> ap_arrived b j \<or> j = i" for j by (auto simp: ap_arrived_def)
  have "Collect (ap_arrived ?b) = insert i (Collect (ap_arrived b))" using arr by auto
  moreover have "finite (Collect (ap_arrived b))" by (rule finite_subset [OF arrived_set [OF inv]]) simp
  ultimately have c: "card (Collect (ap_arrived ?b)) = Suc (card (Collect (ap_arrived b)))" using na by simp
  have bs: "bsp_arrived ?b = bsp_arrived b" "passed ?b \<longrightarrow> passed b" by (auto simp: bsp_arrived_def passed_def split: if_splits)
  show ?thesis
    using inv e ne c bs \<open>i \<notin> set fin\<close> unfolding bu_inv_def by (simp add: w arr waiting_ok_def)
qed

lemma bu_inv_leave:
  assumes inv: "bu_inv apics bsp fin b" and ap: "distinct apics" "bsp \<in> set apics" "length apics < 2 ^ 32" and d: "check_in_done (bu_sys b)"
  shows "bu_bsp b = BspWaiting \<Longrightarrow> bu_inv apics bsp fin (b\<lparr>bu_bsp := BspRunning\<rparr>)"
    and "bu_aps b i = ApWaiting \<Longrightarrow> bu_inv apics bsp fin (b\<lparr>bu_aps := (bu_aps b)(i := ApRunning)\<rparr>)"
proof -
  have ba: "bsp_arrived b" using barrier_closed [OF inv ap d] .
  show "bu_inv apics bsp fin (b\<lparr>bu_bsp := BspRunning\<rparr>)" if pc: "bu_bsp b = BspWaiting"
  proof -
    have a: "ap_arrived (b\<lparr>bu_bsp := BspRunning\<rparr>) = ap_arrived b" "bsp_arrived (b\<lparr>bu_bsp := BspRunning\<rparr>)"
      by (auto simp: ap_arrived_def bsp_arrived_def fun_eq_iff)
    show ?thesis using inv ba a(2) unfolding bu_inv_def a(1) by (simp add: pc)
  qed
  show "bu_inv apics bsp fin (b\<lparr>bu_aps := (bu_aps b)(i := ApRunning)\<rparr>)" if pc: "bu_aps b i = ApWaiting"
  proof -
    let ?b = "b\<lparr>bu_aps := (bu_aps b)(i := ApRunning)\<rparr>"
    have a: "ap_arrived ?b = ap_arrived b" "bsp_arrived ?b = bsp_arrived b" using pc by (auto simp: ap_arrived_def bsp_arrived_def fun_eq_iff)
    have w: "bu_bsp b \<noteq> WaitOnline j is" for j "is" using ba by (auto simp: bsp_arrived_def)
    have "i \<in> set fin" using inv pc w unfolding bu_inv_def by fastforce
    then show ?thesis using inv ba w unfolding bu_inv_def a by simp
  qed
qed

lemma bu_inv_reach:
  assumes "bringup_reach apics bsp b" and ap: "distinct apics" "bsp \<in> set apics" "length apics < 2 ^ 32"
  shows "\<exists>fin. bu_inv apics bsp fin b"
  using assms(1)
proof induction
  case (start s s')
  then show ?case using bu_inv_start by blast
next
  case (step b b')
  then obtain fin where inv: "bu_inv apics bsp fin b" by blast
  have ne: "apics \<noteq> []" using ap(2) by auto
  have nz: "(of_nat (length apics) :: u32) \<noteq> 0"
  proof -
    have "unat (of_nat (length apics) :: u32) = length apics" using ap(3) by (simp add: unsigned_of_nat take_bit_nat_eq_self)
    then show ?thesis using ne by (metis length_0_conv unat_0)
  qed
  from step.hyps(2) show ?case
  proof cases
    case (ap_panic i)
    have "\<not> ap_arrived b i" using ap_panic(2) by (simp add: ap_arrived_def)
    then have "i \<notin> set fin" using inv by (auto simp: bu_inv_def)
    then obtain "is" where "bu_bsp b = WaitOnline i is" using inv ap_panic(2) unfolding bu_inv_def by fastforce
    then have "load_state i (bu_sys b) = Done 2" using inv ap_panic(2) by (auto simp: bu_inv_def waiting_ok_def ap_arrived_def)
    then show ?thesis using check_in_arrive_ok [of i "bu_sys b"] inv nz ap_panic(3) by (auto simp: bu_inv_def)
  next
    case (launch i "is" s)
    show ?thesis unfolding launch(1) by (rule exI, rule bu_inv_launch [OF inv ap(1) launch(2,3)])
  next
    case (came_online i "is")
    show ?thesis unfolding came_online(1) by (rule exI, rule bu_inv_online [OF inv came_online(2,3)])
  next
    case (bsp_check_in s)
    show ?thesis unfolding bsp_check_in(1) by (rule exI, rule bu_inv_bsp_check_in [OF inv ne ap(3) bsp_check_in(2,3)])
  next
    case bsp_leave
    show ?thesis unfolding bsp_leave(1) by (rule exI, rule bu_inv_leave(1) [OF inv ap bsp_leave(3,2)])
  next
    case (ap_check_in i s)
    show ?thesis unfolding ap_check_in(1) by (rule exI, rule bu_inv_ap_check_in [OF inv ap_check_in(2,3)])
  next
    case (ap_leave i)
    show ?thesis unfolding ap_leave(1) by (rule exI, rule bu_inv_leave(2) [OF inv ap ap_leave(3,2)])
  qed
qed

section \<open>Properties\<close>


lemma bringup_can_step:
  assumes "bringup_reach apics bsp b" "distinct apics" "bsp \<in> set apics" "length apics < 2 ^ 32"
  shows "(bu_bsp b = BspRunning \<and> (\<forall>j \<in> set apics. j \<noteq> bsp \<longrightarrow> bu_aps b j = ApRunning)) \<or> (\<exists>b'. bringup_step bsp b b')"
proof -
  obtain fin where inv: "bu_inv apics bsp fin b" using bu_inv_reach [OF assms] by blast
  have u: "unat (of_nat (length apics) :: u32) = length apics" using assms(4) by (simp add: unsigned_of_nat take_bit_nat_eq_self)
  then have nz: "(of_nat (length apics) :: u32) \<noteq> 0" using assms(3) by (metis length_0_conv list.set(1) empty_iff unat_0)
  have tot: "once_read (TOTAL_CORES (bu_sys b)) = Done (of_nat (length apics))" using inv by (simp add: bu_inv_def)
  show ?thesis
  proof (cases "bu_bsp b")
    case (Launching l)
    show ?thesis
    proof (cases l)
      case Nil
      have "load_state bsp (bu_sys b) = Done 1" using inv by (simp add: bu_inv_def)
      then show ?thesis using bsp_check_in [OF Launching [unfolded Nil]] check_in_arrive_bsp [OF _ tot nz] by blast
    next
      case (Cons i "is")
      have "\<exists>v. load_state i (bu_sys b) = Done v" using inv Launching Cons by (simp add: bu_inv_def)
      then obtain s where "set_core_state i Launched (bu_sys b) = Done s" using store_state_ok unfolding set_core_state_def by blast
      then show ?thesis using launch [OF Launching [unfolded Cons]] by blast
    qed
  next
    case (WaitOnline i "is")
    then have "waiting_ok b i" using inv by (simp add: bu_inv_def)
    then show ?thesis unfolding waiting_ok_def
    proof
      assume w: "bu_aps b i = Booting \<and> load_state i (bu_sys b) = Done 2"
      then show ?thesis using check_in_arrive_ok [OF _ tot nz] ap_check_in by blast
    next
      assume w: "ap_arrived b i \<and> load_state i (bu_sys b) = Done 1"
      then have "core_state_of i (bu_sys b) = Done Online" by (simp add: core_state_of_def apic_state_from_def)
      then show ?thesis using came_online [OF WaitOnline] by blast
    qed
  next
    case BspWaiting
    then show ?thesis using bsp_leave full_barrier [OF inv assms(2,3)] by (auto simp: bsp_arrived_def)
  next
    case BspRunning
    have d: "check_in_done (bu_sys b)" using full_barrier [OF inv assms(2,3)] BspRunning by (simp add: bsp_arrived_def)
    have all: "fin = filter (\<lambda>i. i \<noteq> bsp) apics" using inv BspRunning by (simp add: bu_inv_def)
    show ?thesis
    proof (cases "\<forall>j \<in> set apics. j \<noteq> bsp \<longrightarrow> bu_aps b j = ApRunning")
      case False
      then obtain j where "j \<in> set fin" "bu_aps b j \<noteq> ApRunning" using all by auto
      then have "bu_aps b j = ApWaiting" using inv by (auto simp: bu_inv_def ap_arrived_def)
      then show ?thesis using ap_leave d by blast
    qed (use BspRunning in simp)
  qed
qed

text \<open>A bound on the steps that are left.\<close>

fun bsp_rank :: "bsp_pc \<Rightarrow> nat" where
  "bsp_rank (Launching l) = 2 * length l + 2"
| "bsp_rank (WaitOnline i l) = 2 * length l + 3"
| "bsp_rank BspWaiting = 1"
| "bsp_rank BspRunning = 0"

fun ap_rank :: "ap_pc \<Rightarrow> nat" where
  "ap_rank Asleep = 3"
| "ap_rank Booting = 2"
| "ap_rank ApWaiting = 1"
| "ap_rank ApRunning = 0"
| "ap_rank ApPanic = 0"

definition bu_rank :: "bringup \<Rightarrow> nat" where
  "bu_rank b = 3 * bsp_rank (bu_bsp b) + (\<Sum>i \<in> UNIV. ap_rank (bu_aps b i))"

lemma ap_rank_update:
  "(\<Sum>i \<in> UNIV. ap_rank ((f(j := x)) i)) + ap_rank (f j) = (\<Sum>i \<in> UNIV. ap_rank (f (i :: u32))) + ap_rank x"
proof -
  have "(\<Sum>i \<in> UNIV. ap_rank ((f(j := x)) i)) = ap_rank x + (\<Sum>i \<in> UNIV - {j}. ap_rank (f i))"
    by (subst sum.remove [of UNIV j]) (auto intro!: sum.cong)
  then show ?thesis by (subst (2) sum.remove [of UNIV j]) simp_all
qed

lemma bringup_step_rank: "bringup_step bsp b b' \<Longrightarrow> bu_rank b' < bu_rank b"
proof (induction rule: bringup_step.induct)
  case (launch b i "is" s)
  have "ap_rank (bu_aps b i) \<ge> 0" by simp
  then show ?case using launch(1) ap_rank_update [of "bu_aps b" i Booting] by (simp add: bu_rank_def)
next
  case (ap_check_in b i s)
  then show ?case using ap_rank_update [of "bu_aps b" i ApWaiting] by (simp add: bu_rank_def)
next
  case (ap_panic b i)
  then show ?case using ap_rank_update [of "bu_aps b" i ApPanic] by (simp add: bu_rank_def)
next
  case (ap_leave b i)
  then show ?case using ap_rank_update [of "bu_aps b" i ApRunning] by (simp add: bu_rank_def)
qed (simp_all add: bu_rank_def)


text \<open>Two cores, the second one launched and booting.\<close>

definition sys_demo :: "u8 list \<Rightarrow> apic_system" where
  "sys_demo states = \<lparr>APIC_STATES = \<lparr>once_initialized = True, once_value = Some states\<rparr>,
     TOTAL_CORES = \<lparr>once_initialized = True, once_value = Some 2\<rparr>,
     MAX_APIC_ID = \<lparr>once_initialized = True, once_value = Some 1\<rparr>, CORES_CHECKED_IN = 0\<rparr>"

definition bringup_demo :: bringup where
  "bringup_demo = \<lparr>bu_sys = sys_demo [1, 2], bu_bsp = WaitOnline 1 [], bu_aps = (\<lambda>_. Asleep)(1 := Booting)\<rparr>"

lemma bringup_demo_reach: "bringup_reach [0, 1] 0 bringup_demo"
proof -
  have "init_states [0, 1] 0 (apic_system_init\<lparr>MAX_APIC_ID := \<lparr>once_initialized = True, once_value = Some 1\<rparr>\<rparr>) = Done (sys_demo [1, 3])"
    by (simp add: init_states_def once_read_def once_get_def once_set_def once_swap_def once_write_def once_new_def apic_system_init_def
        store_state_def set_core_state_def array_set_def sys_demo_def)
  then have "bringup_reach [0, 1] 0 \<lparr>bu_sys = sys_demo [1, 3], bu_bsp = Launching (filter (\<lambda>i. i \<noteq> 0) [0, 1]), bu_aps = (\<lambda>_. Asleep)\<rparr>"
    by (rule bringup_reach.start) (simp add: apic_system_init_def)
  then have r: "bringup_reach [0, 1] 0 \<lparr>bu_sys = sys_demo [1, 3], bu_bsp = Launching [1], bu_aps = (\<lambda>_. Asleep)\<rparr>" by simp
  have s: "set_core_state 1 Launched (sys_demo [1, 3]) = Done (sys_demo [1, 2])"
    by (simp add: set_core_state_def store_state_def once_read_def once_get_def array_set_def sys_demo_def)
  show ?thesis
    using bringup_reach.step [OF r bringup_step.launch [of _ 1 "[]" "sys_demo [1, 2]" 0]] s by (simp add: bringup_demo_def)
qed



text \<open>A core that is listed twice is counted twice: with one core besides the first, listed as an APIC and as an
  x2APIC, three arrivals are expected.\<close>

lemma duplicate_cores_counted:
  "init_states [0, 1, 1] 0 (apic_system_init\<lparr>MAX_APIC_ID := \<lparr>once_initialized = True, once_value = Some 1\<rparr>\<rparr>)
     = Done ((sys_demo [1, 3])\<lparr>TOTAL_CORES := \<lparr>once_initialized = True, once_value = Some 3\<rparr>\<rparr>)"
  by (simp add: init_states_def once_read_def once_get_def once_set_def once_swap_def once_write_def once_new_def apic_system_init_def
      store_state_def set_core_state_def array_set_def sys_demo_def)

end
