(* ===== verification/Serial.thy ===== *)
theory Serial
  imports Cpu
begin

text \<open>
  The driver of the serial ports, \<open>src/shared/serial/src/lib.rs\<close>, over the ports of the processor. Waiting for a
  transmitter and draining a receiver may take for ever; \<open>None\<close> stands for that.
\<close>

section \<open>The driver\<close>

definition PORT_ADDRESSES :: "u16 list" where
  "PORT_ADDRESSES = [0x2F8, 0x3F8, 0x2E8, 0x3E8]"

record serial_driver =
  ports :: "u16 option list"

text \<open>\<open>self.ports.iter().flatten()\<close>.\<close>

definition ports_of :: "serial_driver \<Rightarrow> u16 list" where
  "ports_of d = List.map_filter (\<lambda>p. p) (ports d)"

fun read_ports :: "'h cpu \<Rightarrow> u16 list \<Rightarrow> 'h \<Rightarrow> u8 option \<times> 'h" where
  "read_ports cpu [] h = (None, h)"
| "read_ports cpu (p # ps) h =
     (let (lsr, h) = in8 cpu (p + 5) h in
      if lsr AND 1 \<noteq> 0 then let (b, h) = in8 cpu p h in (Some b, h) else read_ports cpu ps h)"

definition read_byte :: "'h cpu \<Rightarrow> serial_driver \<Rightarrow> 'h \<Rightarrow> u8 option \<times> 'h" where
  "read_byte cpu d h = read_ports cpu (ports_of d) h"

text \<open>The wait for the transmit buffer.\<close>

partial_function (option) wait_transmit :: "'h cpu \<Rightarrow> u16 \<Rightarrow> 'h \<Rightarrow> 'h option" where
  "wait_transmit cpu p h =
     (case in8 cpu (p + 5) h of (lsr, h) \<Rightarrow> if lsr AND 0x20 = 0 then wait_transmit cpu p h else Some h)"

fun send_ports :: "'h cpu \<Rightarrow> u16 list \<Rightarrow> u8 \<Rightarrow> 'h \<Rightarrow> 'h option" where
  "send_ports cpu [] b h = Some h"
| "send_ports cpu (p # ps) b h = Option.bind (wait_transmit cpu p h) (\<lambda>h. send_ports cpu ps b (out8 cpu p b h))"

text \<open>\<open>write_byte\<close> calls itself at most once, for a carriage return.\<close>

definition write_byte :: "'h cpu \<Rightarrow> serial_driver \<Rightarrow> u8 \<Rightarrow> 'h \<Rightarrow> 'h option" where
  "write_byte cpu d b h =
     Option.bind (if b = 0x0A then send_ports cpu (ports_of d) 0x0D h else Some h) (send_ports cpu (ports_of d) b)"

fun serial_write :: "'h cpu \<Rightarrow> serial_driver \<Rightarrow> u8 list \<Rightarrow> 'h \<Rightarrow> 'h option" where
  "serial_write cpu d [] h = Some h"
| "serial_write cpu d (b # bs) h = Option.bind (write_byte cpu d b h) (serial_write cpu d bs)"

section \<open>Initialisation\<close>

text \<open>One port: it is programmed and tested by a byte in loopback mode.\<close>

definition probe_port :: "'h cpu \<Rightarrow> u16 \<Rightarrow> 'h \<Rightarrow> u16 option \<times> 'h" where
  "probe_port cpu port h =
     (let h = out8 cpu (port + 1) 0x00 h;
          h = out8 cpu (port + 3) 0x80 h;
          h = out8 cpu port 0x04 h;
          h = out8 cpu (port + 1) 0x00 h;
          h = out8 cpu (port + 3) 0x03 h;
          h = out8 cpu (port + 4) 0x03 h;
          h = out8 cpu (port + 4) 0x1E h;
          h = out8 cpu port 0xAE h;
          (b, h) = in8 cpu port h in
      if b = 0xAE then (Some port, out8 cpu (port + 4) 0x0F h) else (None, h))"

fun probe_ports :: "'h cpu \<Rightarrow> u16 list \<Rightarrow> 'h \<Rightarrow> u16 option list \<times> 'h" where
  "probe_ports cpu [] h = ([], h)"
| "probe_ports cpu (p # ps) h =
     (let (x, h) = probe_port cpu p h; (xs, h) = probe_ports cpu ps h in (x # xs, h))"

partial_function (option) drain_bytes :: "'h cpu \<Rightarrow> serial_driver \<Rightarrow> 'h \<Rightarrow> 'h option" where
  "drain_bytes cpu d h = (case read_byte cpu d h of (b, h) \<Rightarrow> case b of Some _ \<Rightarrow> drain_bytes cpu d h | None \<Rightarrow> Some h)"

definition serial_init :: "'h cpu \<Rightarrow> 'h \<Rightarrow> (serial_driver \<times> 'h) option" where
  "serial_init cpu h =
     (let (ps, h) = probe_ports cpu PORT_ADDRESSES h; d = \<lparr>ports = ps\<rparr> in
      map_option (\<lambda>h. (d, h)) (drain_bytes cpu d h))"

section \<open>The line\<close>

text \<open>What the driver relies on, for the UARTs at some of the ports: \<open>sent\<close> is what a UART has put on its line and
  \<open>busy\<close> bounds how often its transmitter will still be seen busy. Looking at the status of a port changes no line, a busy
  transmitter comes nearer to being ready, and a byte given to one that is ready goes to its line and to no other.\<close>

definition uart_bus :: "'h cpu \<Rightarrow> u16 set \<Rightarrow> ('h \<Rightarrow> u16 \<Rightarrow> u8 list) \<Rightarrow> ('h \<Rightarrow> u16 \<Rightarrow> nat) \<Rightarrow> bool" where
  "uart_bus cpu present sent busy \<longleftrightarrow>
     (\<forall>p \<in> present. \<forall>h. case in8 cpu (p + 5) h of (lsr, h') \<Rightarrow>
        sent h' = sent h \<and>
        (if lsr AND 0x20 = 0 then busy h' p < busy h p
         else (\<forall>b. sent (out8 cpu p b h') = (sent h)(p := sent h p @ [b]))))"

lemma wait_transmit_ready:
  assumes "uart_bus cpu present sent busy" "p \<in> present"
  shows "\<exists>h'. wait_transmit cpu p h = Some h' \<and> (\<forall>b. sent (out8 cpu p b h') = (sent h)(p := sent h p @ [b]))"
proof (induction "busy h p" arbitrary: h rule: less_induct)
  case less
  obtain lsr h1 where i: "in8 cpu (p + 5) h = (lsr, h1)" by fastforce
  then have u: "sent h1 = sent h" "if lsr AND 0x20 = 0 then busy h1 p < busy h p
      else (\<forall>b. sent (out8 cpu p b h1) = (sent h)(p := sent h p @ [b]))"
    using assms unfolding uart_bus_def by (metis (mono_tags, lifting) case_prod_conv)+
  then show ?case using less [of h1] i by (cases "lsr AND 0x20 = 0") (auto simp: wait_transmit.simps [of cpu p h])
qed

lemma send_ports_sent:
  assumes "uart_bus cpu present sent busy" "set ps \<subseteq> present" "distinct ps"
  shows "\<exists>h'. send_ports cpu ps b h = Some h' \<and> sent h' = (\<lambda>p. sent h p @ (if p \<in> set ps then [b] else []))"
  using assms(2,3)
proof (induction ps arbitrary: h)
  case (Cons p ps)
  obtain h1 where h1: "wait_transmit cpu p h = Some h1" "sent (out8 cpu p b h1) = (sent h)(p := sent h p @ [b])"
    using wait_transmit_ready [OF assms(1), of p h] Cons.prems by auto
  obtain h' where "send_ports cpu ps b (out8 cpu p b h1) = Some h'"
    "sent h' = (\<lambda>q. sent (out8 cpu p b h1) q @ (if q \<in> set ps then [b] else []))"
    using Cons.IH [of "out8 cpu p b h1"] Cons.prems by auto
  then show ?case using h1 Cons.prems(2) by (auto simp: fun_eq_iff)
qed simp

text \<open>Lines end in a carriage return and a line feed.\<close>

definition crlf :: "u8 list \<Rightarrow> u8 list" where
  "crlf bs = concat (map (\<lambda>b. if b = 0x0A then [0x0D, 0x0A] else [b]) bs)"

lemma write_byte_sent:
  assumes "uart_bus cpu present sent busy" "set (ports_of d) \<subseteq> present" "distinct (ports_of d)"
  shows "\<exists>h'. write_byte cpu d b h = Some h' \<and> sent h' = (\<lambda>p. sent h p @ (if p \<in> set (ports_of d) then crlf [b] else []))"
proof -
  obtain h1 where h1: "(if b = 0x0A then send_ports cpu (ports_of d) 0x0D h else Some h) = Some h1"
    "sent h1 = (\<lambda>p. sent h p @ (if b = 0x0A \<and> p \<in> set (ports_of d) then [0x0D] else []))"
    using send_ports_sent [OF assms, of "0x0D" h] by (cases "b = 0x0A") auto
  then show ?thesis using send_ports_sent [OF assms, of b h1] by (force simp: write_byte_def crlf_def)
qed

section \<open>Property\<close>

text \<open>output on the serial ports. On UARTs that get ready in the end, \<open>write\<close> returns, and the line of every port of
  the driver has got exactly the bytes, in order, with a carriage return before every line feed; no other line has
  changed.\<close>

theorem serial_write_sent:
  assumes "uart_bus cpu present sent busy" "set (ports_of d) \<subseteq> present" "distinct (ports_of d)"
  shows "\<exists>h'. serial_write cpu d bs h = Some h' \<and> sent h' = (\<lambda>p. sent h p @ (if p \<in> set (ports_of d) then crlf bs else []))"
proof (induction bs arbitrary: h)
  case (Cons b bs)
  obtain h1 where h1: "write_byte cpu d b h = Some h1"
    "sent h1 = (\<lambda>p. sent h p @ (if p \<in> set (ports_of d) then crlf [b] else []))"
    using write_byte_sent [OF assms] by blast
  moreover have "crlf (b # bs) = crlf [b] @ crlf bs" by (simp add: crlf_def)
  ultimately show ?case using Cons [of h1] by (auto simp: fun_eq_iff)
qed (simp add: fun_eq_iff crlf_def)

text \<open>Two UARTs whose transmitters are seen busy a few times before each byte.\<close>

record demo_uarts =
  demo_line :: "u16 \<Rightarrow> u8 list"
  demo_busy :: "u16 \<Rightarrow> nat"

definition demo_uart_cpu :: "demo_uarts cpu" where
  "demo_uart_cpu = \<lparr>asm_rdmsr = (\<lambda>_ h. ((0, 0), h)), asm_wrmsr = (\<lambda>_ _ _ h. h),
     in8 = (\<lambda>p h. if demo_busy h (p - 5) = 0 then (0x20, h) else (0, h\<lparr>demo_busy := (demo_busy h)(p - 5 := demo_busy h (p - 5) - 1)\<rparr>)),
     out8 = (\<lambda>p b h. h\<lparr>demo_line := (demo_line h)(p := demo_line h p @ [b]), demo_busy := (demo_busy h)(p := 2)\<rparr>),
     in32 = (\<lambda>_ h. (0, h)), out32 = (\<lambda>_ _ h. h), volatile_read = (\<lambda>_ h. (0, h)), volatile_write = (\<lambda>_ _ h. h),
     sti = (\<lambda>h. h), cli = (\<lambda>h. h), asm_rdtsc = (\<lambda>h. (0, h))\<rparr>"

theorem serial_write_sent_witness:
  "\<exists>h'. serial_write demo_uart_cpu \<lparr>ports = [Some 0x2F8, Some 0x3F8, None, None]\<rparr> [0x4F, 0x4B, 0x0A] \<lparr>demo_line = (\<lambda>_. []), demo_busy = (\<lambda>_. 1)\<rparr>
     = Some h' \<and> demo_line h' 0x3F8 = [0x4F, 0x4B, 0x0D, 0x0A] \<and> demo_line h' 0x2E8 = []"
proof -
  let ?d = "\<lparr>ports = [Some 0x2F8, Some 0x3F8, None, None]\<rparr>" and ?h = "\<lparr>demo_line = (\<lambda>_. []), demo_busy = (\<lambda>_. 1)\<rparr>"
  have b: "uart_bus demo_uart_cpu {0x2F8, 0x3F8} demo_line demo_busy" by (simp add: uart_bus_def demo_uart_cpu_def)
  have p: "ports_of ?d = [0x2F8, 0x3F8]" by (simp add: ports_of_def List.map_filter_def)
  show ?thesis using serial_write_sent [OF b, of ?d "[0x4F, 0x4B, 0x0A]" ?h] unfolding p by (force simp: crlf_def)
qed

end
