(* ===== verification/Interrupt_Entry.thy ===== *)
theory Interrupt_Entry
  imports Apic_System Serial
begin

text \<open>
  What a core does when an interrupt arrives and when it panics: \<open>interrupt_entry\<close> of
  \<open>src/kernel/src/interrupts/interrupts.rs\<close>, the handlers of \<open>handler.rs\<close> and \<open>src/kernel/src/panic.rs\<close> with the
  soft reboot. Calls return, stop the core in \<open>halt\<close>, or end in the panic handler; \<open>Stuck\<close> is a wait on a lock that the
  core itself does not release.
\<close>

section \<open>The state of a core\<close>

datatype ('a, 'w) control = Returned 'a 'w | Halting 'w | Panicking 'w | Stuck

definition cbind :: "('a, 'w) control \<Rightarrow> ('a \<Rightarrow> 'w \<Rightarrow> ('b, 'w) control) \<Rightarrow> ('b, 'w) control" where
  "cbind m f = (case m of Returned a w \<Rightarrow> f a w | Halting w \<Rightarrow> Halting w | Panicking w \<Rightarrow> Panicking w | Stuck \<Rightarrow> Stuck)"

text \<open>A call that may panic on the state \<open>w\<close>.\<close>

definition call :: "'a outcome \<Rightarrow> 'w \<Rightarrow> ('a \<Rightarrow> ('b, 'w) control) \<Rightarrow> ('b, 'w) control" where
  "call m w f = (case m of Done a \<Rightarrow> f a | Panic \<Rightarrow> Panicking w)"

lemma control_simps [simp]:
  "cbind (Returned a w) f = f a w" "cbind (Halting w) f = Halting w" "cbind (Panicking w) f = Panicking w" "cbind Stuck f = Stuck"
  "call (Done a) w g = g a" "call Panic w g = Panicking w"
  by (simp_all add: cbind_def call_def)

lemma cbind_Returned [simp]: "cbind m f = Returned b w' \<longleftrightarrow> (\<exists>a w. m = Returned a w \<and> f a w = Returned b w')"
  by (cases m) auto

lemma call_Returned [simp]: "call m w f = Returned b w' \<longleftrightarrow> (\<exists>a. m = Done a \<and> f a = Returned b w')"
  by (cases m) auto

text \<open>The functions that can be registered.\<close>

datatype kernel_handler = Nmi_Handler | Page_Fault_Handler | Soft_Reboot_Timer_Handler

text \<open>The core locals, and of the shared data and the statics what this code uses. \<open>PANIC_PENDING\<close> is a pointer.\<close>

record 'h core_world =
  cw_id :: u32
  cw_core :: core_state
  cw_apic_id :: "u32 option"
  cw_apic :: "local_apic option"
  cw_ints :: "kernel_handler interrupts option spin_lock"
  cw_statics :: int_statics
  cw_serial :: "serial_driver option spin_lock"
  cw_rebooting :: bool
  cw_bootloader :: "bootloader_state once_lock"
  BSP_IN_PANIC :: bool
  PANIC_PENDING :: u64
  cw_sys :: apic_system
  cw_hw :: 'h

definition is_bsp :: "'h core_world \<Rightarrow> bool" where
  "is_bsp w \<longleftrightarrow> cw_id w = 0"

text \<open>A call under a lock: the guard is dropped when the call returns and never when it panics or halts.\<close>

definition locked ::
  "('h core_world \<Rightarrow> 'a spin_lock) \<Rightarrow> (('a spin_lock \<Rightarrow> 'a spin_lock) \<Rightarrow> 'h core_world \<Rightarrow> 'h core_world)
    \<Rightarrow> ('h core_world \<Rightarrow> ('b, 'h core_world) control) \<Rightarrow> 'h core_world \<Rightarrow> ('b, 'h core_world) control" where
  "locked get upd body w =
     call (lock_begin interrupt_lock (get w) (cw_core w)) w (\<lambda>(t, l, c).
       if \<not> lock_free t l then Stuck
       else cbind (body (upd (\<lambda>_. l) (w\<lparr>cw_core := c\<rparr>))) (\<lambda>b w.
              let w = upd guard_release w in
              call (guard_exit interrupt_lock (get w) (cw_core w)) w (\<lambda>c. Returned b (w\<lparr>cw_core := c\<rparr>))))"

section \<open>Handlers\<close>

definition nmi :: "interrupt_args \<Rightarrow> 'h core_world \<Rightarrow> (bool, 'h core_world) control" where
  "nmi args w =
     (if is_bsp w \<and> BSP_IN_PANIC w then Returned True w
      else if is_bsp w then Panicking w
      else call (unwrap (cw_apic_id w)) w (\<lambda>i. call (set_core_state i Halted (cw_sys w)) w (\<lambda>s. Halting (w\<lparr>cw_sys := s\<rparr>))))"

definition page_fault :: "interrupt_args \<Rightarrow> 'h core_world \<Rightarrow> (bool, 'h core_world) control" where
  "page_fault args w = Returned False w"

definition serial_read_byte :: "'h cpu \<Rightarrow> 'h core_world \<Rightarrow> (u8 option, 'h core_world) control" where
  "serial_read_byte cpu w =
     call (unwrap (lock_value (cw_serial w))) w (\<lambda>d.
       let (b, h) = read_byte cpu d (cw_hw w) in Returned b (w\<lparr>cw_hw := h\<rparr>))"

definition soft_reboot_timer :: "'h cpu \<Rightarrow> interrupt_args \<Rightarrow> 'h core_world \<Rightarrow> (bool, 'h core_world) control" where
  "soft_reboot_timer cpu args w =
     (if \<not> is_bsp w then Returned True w
      else cbind (locked cw_serial cw_serial_update (serial_read_byte cpu) w) (\<lambda>byte w.
        if byte = Some 0x48 then Panicking w
        else if byte = Some 0x53 then Panicking (w\<lparr>cw_rebooting := True\<rparr>)
        else Returned True w))"

definition run_handler :: "'h cpu \<Rightarrow> kernel_handler \<Rightarrow> interrupt_args \<Rightarrow> 'h core_world \<Rightarrow> (bool, 'h core_world) control" where
  "run_handler cpu f =
     (case f of Nmi_Handler \<Rightarrow> nmi | Page_Fault_Handler \<Rightarrow> page_fault | Soft_Reboot_Timer_Handler \<Rightarrow> soft_reboot_timer cpu)"

section \<open>The entry point\<close>

text \<open>The handler of a vector, called under the lock of the interrupts.\<close>

definition dispatch_interrupt :: "'h cpu \<Rightarrow> nat \<Rightarrow> interrupt_args \<Rightarrow> 'h core_world \<Rightarrow> (bool, 'h core_world) control" where
  "dispatch_interrupt cpu idx args =
     locked cw_ints cw_ints_update (\<lambda>w.
       call (unwrap (lock_value (cw_ints w))) w (\<lambda>ints.
       call (array_get (dispatch ints) idx) w (\<lambda>f.
         case f of None \<Rightarrow> Returned False w | Some f \<Rightarrow> run_handler cpu f args w)))"

text \<open>The guard \<open>_depth\<close> counts the interrupt or the exception until the function returns.\<close>

definition enter_depth :: "interrupt_args \<Rightarrow> core_state \<Rightarrow> core_state outcome" where
  "enter_depth args c = (if is_exception args then enter_exception c else enter_interrupt c)"

definition leave_depth :: "interrupt_args \<Rightarrow> core_state \<Rightarrow> core_state outcome" where
  "leave_depth args c =
     (if is_exception args then obind (arc_guard_drop (exception_depth c)) (\<lambda>d. Done (c\<lparr>exception_depth := d\<rparr>))
      else obind (arc_guard_drop (interrupt_depth c)) (\<lambda>d. Done (c\<lparr>interrupt_depth := d\<rparr>)))"

definition interrupt_entry ::
  "'h cpu \<Rightarrow> interrupt_id \<Rightarrow> interrupt_frame \<Rightarrow> u64 \<Rightarrow> all_regs \<Rightarrow> 'h core_world \<Rightarrow> (unit, 'h core_world) control" where
  "interrupt_entry cpu i frame err regs w =
     (let args = interrupt_args_new i frame err regs; idx = interrupt_index i;
          return = (\<lambda>w. call (leave_depth args (cw_core w)) w (\<lambda>c. Returned () (w\<lparr>cw_core := c\<rparr>))) in
      call (enter_depth args (cw_core w)) w (\<lambda>c.
        let w = w\<lparr>cw_core := c\<rparr>; draining_eois = DRAINING_EOIS (cw_statics w) in
        call (array_get (DRAIN_PRECEDENCE (cw_statics w)) idx) w (\<lambda>precedent.
        cbind (if \<not> draining_eois \<or> precedent then dispatch_interrupt cpu idx args w else Returned False w) (\<lambda>handled w.
        call (array_get (EOI_REQUIRED (cw_statics w)) idx) w (\<lambda>eoi.
          let w = (if eoi then w\<lparr>cw_hw := apic_eoi cpu (cw_apic w) (cw_hw w)\<rparr> else w) in
          if eoi \<and> draining_eois then return w
          else if \<not> handled then Panicking w
          else return w)))))"

section \<open>Stopping the other cores\<close>

definition NMI :: u32 where "NMI = push_bit 14 1 OR push_bit 8 4"

text \<open>The loop that sends NMIs to a core until it has halted; \<open>others\<close> is what the other cores do in the
  meantime.\<close>

partial_function (option) nmi_loop ::
  "'h cpu \<Rightarrow> ('h core_world \<Rightarrow> 'h core_world) \<Rightarrow> local_apic \<Rightarrow> u32 \<Rightarrow> 'h core_world \<Rightarrow> 'h core_world outcome option" where
  "nmi_loop cpu others apic i w =
     (case core_state_of i (cw_sys w) of
        Panic \<Rightarrow> Some Panic
      | Done st \<Rightarrow>
          if st = Halted then Some (Done w)
          else nmi_loop cpu others apic i (others (w\<lparr>cw_hw := ipi cpu apic i NMI (cw_hw w)\<rparr>)))"

fun disable_loop ::
  "'h cpu \<Rightarrow> ('h core_world \<Rightarrow> 'h core_world) \<Rightarrow> local_apic \<Rightarrow> u32 \<Rightarrow> u32 list \<Rightarrow> 'h core_world \<Rightarrow> 'h core_world outcome option" where
  "disable_loop cpu others apic bsp_id [] w = Some (Done w)"
| "disable_loop cpu others apic bsp_id (i # is) w =
     (if i = bsp_id then disable_loop cpu others apic bsp_id is w
      else
        case core_state_of i (cw_sys w) of
          Panic \<Rightarrow> Some Panic
        | Done state \<Rightarrow>
            if state \<noteq> Online then disable_loop cpu others apic bsp_id is w
            else
              case nmi_loop cpu others apic i w of
                None \<Rightarrow> None
              | Some Panic \<Rightarrow> Some Panic
              | Some (Done w) \<Rightarrow>
                  disable_loop cpu others apic bsp_id is (others (w\<lparr>cw_hw := ipi cpu apic i 0x4500 (cw_hw w)\<rparr>)))"

definition disable_cores ::
  "'h cpu \<Rightarrow> ('h core_world \<Rightarrow> 'h core_world) \<Rightarrow> local_apic \<Rightarrow> 'h core_world \<Rightarrow> 'h core_world outcome option" where
  "disable_cores cpu others apic w =
     (if \<not> is_bsp w then Some Panic
      else
        case cw_apic_id w of
          None \<Rightarrow> Some (Done w)
        | Some bsp_id \<Rightarrow>
            if \<not> once_initialized (MAX_APIC_ID (cw_sys w)) then Some (Done w)
            else
              case once_read (MAX_APIC_ID (cw_sys w)) of
                Panic \<Rightarrow> Some Panic
              | Done max_id \<Rightarrow> disable_loop cpu others apic bsp_id (map of_nat [0..<unat max_id]) w)"

section \<open>Reboot and panic\<close>

text \<open>Where a panic ends: in \<open>halt\<close>, in the trampoline to the bootloader, or, by another panic, in the panic handler
  again.\<close>

datatype 'w panic_end = Halts 'w | Trampoline virt_addr virt_addr page_table phys_addr 'w | Panics_Again 'w

text \<open>\<open>reset_devices\<close> is that of the PCI bus.\<close>

definition soft_reboot ::
  "'h cpu \<Rightarrow> ('h core_world \<Rightarrow> 'h core_world) \<Rightarrow> ('h core_world \<Rightarrow> 'h core_world) \<Rightarrow> local_apic \<Rightarrow> 'h core_world
    \<Rightarrow> 'h core_world panic_end option" where
  "soft_reboot cpu others reset_devices apic w =
     (let w = w\<lparr>cw_rebooting := True\<rparr> in
      Option.bind (disable_cores cpu others apic w) (\<lambda>r.
        case r of
          Panic \<Rightarrow> Some (Panics_Again w)
        | Done w \<Rightarrow>
            let w = reset_devices w in
            Option.bind (apic_reset cpu apic (cw_apic w) (cw_statics w, cw_hw w)) (\<lambda>r.
              case r of
                Panic \<Rightarrow> Some (Panics_Again w)
              | Done (st, h) \<Rightarrow>
                  let w = w\<lparr>cw_statics := st, cw_hw := h\<rparr> in
                  Some (case once_read (cw_bootloader w) of
                          Panic \<Rightarrow> Panics_Again w
                        | Done b \<Rightarrow> Trampoline (bs_entry b) (bs_stack b) (bs_page_table b) 0 w))))"

text \<open>The wait for a reboot request, under the lock of the serial driver.\<close>

partial_function (option) reboot_wait :: "'h cpu \<Rightarrow> serial_driver \<Rightarrow> 'h core_world \<Rightarrow> 'h core_world option" where
  "reboot_wait cpu d w =
     (if cw_rebooting w then Some w
      else case read_byte cpu d (cw_hw w) of (b, h) \<Rightarrow>
        reboot_wait cpu d (if b = Some 0x53 then w\<lparr>cw_hw := h, cw_rebooting := True\<rparr> else w\<lparr>cw_hw := h\<rparr>))"

definition await_reboot :: "'h cpu \<Rightarrow> 'h core_world \<Rightarrow> 'h core_world outcome option" where
  "await_reboot cpu w =
     (case lock_begin interrupt_lock (cw_serial w) (cw_core w) of
        Panic \<Rightarrow> Some Panic
      | Done (t, l, c) \<Rightarrow>
          if \<not> lock_free t l then None
          else
            case lock_value l of
              None \<Rightarrow> Some Panic
            | Some d \<Rightarrow>
                map_option (\<lambda>w.
                    let w = cw_serial_update guard_release w in
                    obind (guard_exit interrupt_lock (cw_serial w) (cw_core w)) (\<lambda>c. Done (w\<lparr>cw_core := c\<rparr>)))
                  (reboot_wait cpu d (w\<lparr>cw_serial := l, cw_core := c\<rparr>)))"

text \<open>The panic of a core other than the first, with the pointer to its information. The NMI goes to APIC ID 0.\<close>

definition panic_ap :: "'h cpu \<Rightarrow> u64 \<Rightarrow> 'h core_world \<Rightarrow> 'h core_world panic_end" where
  "panic_ap cpu info w =
     (let no_panic_pending = (PANIC_PENDING w = 0); w = (if no_panic_pending then w\<lparr>PANIC_PENDING := info\<rparr> else w) in
      if \<not> BSP_IN_PANIC w \<and> no_panic_pending then
        case cw_apic w of
          None \<Rightarrow> Panics_Again w
        | Some apic \<Rightarrow> Halts (w\<lparr>cw_hw := ipi cpu apic 0 NMI (cw_hw w)\<rparr>)
      else Halts w)"

definition panic_bsp ::
  "'h cpu \<Rightarrow> ('h core_world \<Rightarrow> 'h core_world) \<Rightarrow> ('h core_world \<Rightarrow> 'h core_world) \<Rightarrow> 'h core_world
    \<Rightarrow> 'h core_world panic_end option" where
  "panic_bsp cpu others reset_devices w =
     (let w = w\<lparr>BSP_IN_PANIC := True\<rparr> in
      case cw_apic w of
        None \<Rightarrow> Some (Panics_Again w)
      | Some apic \<Rightarrow>
          Option.bind (disable_cores cpu others apic w) (\<lambda>r.
            case r of
              Panic \<Rightarrow> Some (Panics_Again w)
            | Done w \<Rightarrow>
                Option.bind (await_reboot cpu w) (\<lambda>r.
                  case r of
                    Panic \<Rightarrow> Some (Panics_Again w)
                  | Done w \<Rightarrow> soft_reboot cpu others reset_devices apic w)))"

text \<open>\<open>panic\<close>: interrupts stay off from here on. The count may only panic when it wraps.\<close>

definition kernel_panic ::
  "'h cpu \<Rightarrow> ('h core_world \<Rightarrow> 'h core_world) \<Rightarrow> ('h core_world \<Rightarrow> 'h core_world) \<Rightarrow> u64 \<Rightarrow> 'h core_world
    \<Rightarrow> 'h core_world panic_end option" where
  "kernel_panic cpu others reset_devices info w =
     (case disable_interrupts (cw_core w) of
        Panic \<Rightarrow> Some (Panics_Again w)
      | Done c \<Rightarrow>
          let w = w\<lparr>cw_core := c\<rparr> in
          if \<not> is_bsp w then Some (panic_ap cpu info w) else panic_bsp cpu others reset_devices w)"

end
