(* ===== verification/Interrupt_Entry_Props.thy ===== *)
theory Interrupt_Entry_Props
  imports Interrupt_Entry
begin

text \<open>
  Interrupts leave a core as they found it, a nested one waits for ever on the lock its own core holds, and the first
  core can stop the others.
\<close>

section \<open>Locks and counters\<close>

definition lock_idle :: "'a spin_lock \<Rightarrow> bool" where
  "lock_idle l \<longleftrightarrow> disables_interrupts l \<and> ticket l = release l"

text \<open>The part of a core that an interrupt must leave alone: its counters, the locks it can take, and what is
  registered.\<close>

definition same_core :: "'h core_world \<Rightarrow> 'h core_world \<Rightarrow> bool" where
  "same_core w w' \<longleftrightarrow>
     interrupt_disable_requests (cw_core w') = interrupt_disable_requests (cw_core w)
     \<and> interrupt_depth (cw_core w') = interrupt_depth (cw_core w) \<and> exception_depth (cw_core w') = exception_depth (cw_core w)
     \<and> (lock_idle (cw_ints w') \<longleftrightarrow> lock_idle (cw_ints w)) \<and> lock_value (cw_ints w') = lock_value (cw_ints w)
     \<and> (lock_idle (cw_serial w') \<longleftrightarrow> lock_idle (cw_serial w)) \<and> lock_value (cw_serial w') = lock_value (cw_serial w)
     \<and> cw_statics w' = cw_statics w \<and> cw_apic w' = cw_apic w \<and> cw_sys w' = cw_sys w \<and> cw_id w' = cw_id w"

lemma same_core_refl [simp]: "same_core w w"
  by (simp add: same_core_def)

lemma same_core_trans: "same_core w w1 \<Longrightarrow> same_core w1 w2 \<Longrightarrow> same_core w w2"
  by (simp add: same_core_def)

lemma disable_enable_requests:
  assumes "disable_interrupts c = Done c1" "interrupt_disable_requests c2 = interrupt_disable_requests c1" "enable_interrupts c2 = Done c3"
  shows "interrupt_disable_requests c3 = interrupt_disable_requests c" "interrupt_depth c3 = interrupt_depth c2" "exception_depth c3 = exception_depth c2"
  using assms by (auto simp: disable_interrupts_def enable_interrupts_def Let_def split: if_splits)

lemma disable_depths: "disable_interrupts c = Done c1 \<Longrightarrow> interrupt_depth c1 = interrupt_depth c \<and> exception_depth c1 = exception_depth c"
  by (auto simp: disable_interrupts_def Let_def)

text \<open>What a call under a lock does, when it returns.\<close>

lemma locked_cases:
  assumes "locked get upd body w = Returned b w'"
  obtains c w1 c' where "disables_interrupts (get w) \<longrightarrow> disable_interrupts (cw_core w) = Done c" "ticket (get w) = release (get w)"
    "\<not> disables_interrupts (get w) \<longrightarrow> c = cw_core w"
    "body (upd (\<lambda>_. (get w)\<lparr>ticket := ticket (get w) + 1\<rparr>) (w\<lparr>cw_core := c\<rparr>)) = Returned b w1"
    "guard_exit interrupt_lock (get (upd guard_release w1)) (cw_core (upd guard_release w1)) = Done c'"
    "w' = (upd guard_release w1)\<lparr>cw_core := c'\<rparr>"
  using assms
  by (auto simp: locked_def lock_begin_def lock_free_def Let_def assert_that_def interrupt_lock_def split: if_splits prod.splits)

lemma guard_exit_disable:
  assumes "disables_interrupts l = disables_interrupts l'" "disables_interrupts l \<longrightarrow> disable_interrupts c = Done c1"
    and "\<not> disables_interrupts l \<longrightarrow> c1 = c" "guard_exit interrupt_lock l' c2 = Done c3"
    and "interrupt_disable_requests c2 = interrupt_disable_requests c1" "interrupt_depth c2 = interrupt_depth c1" "exception_depth c2 = exception_depth c1"
  shows "interrupt_disable_requests c3 = interrupt_disable_requests c" "interrupt_depth c3 = interrupt_depth c" "exception_depth c3 = exception_depth c"
  using assms disable_enable_requests [of c c1 c2 c3] disable_depths [of c c1]
  by (cases "disables_interrupts l"; auto simp: guard_exit_def interrupt_lock_def)+

lemma serial_read_same:
  assumes "locked cw_serial cw_serial_update (serial_read_byte cpu) w = Returned b w'"
  shows "same_core w w' \<and> cw_ints w' = cw_ints w"
  using assms
proof (rule locked_cases)
  fix c w1 c'
  assume l: "disables_interrupts (cw_serial w) \<longrightarrow> disable_interrupts (cw_core w) = Done c" "ticket (cw_serial w) = release (cw_serial w)"
    "\<not> disables_interrupts (cw_serial w) \<longrightarrow> c = cw_core w"
    and b: "serial_read_byte cpu (cw_serial_update (\<lambda>_. (cw_serial w)\<lparr>ticket := ticket (cw_serial w) + 1\<rparr>) (w\<lparr>cw_core := c\<rparr>)) = Returned b w1"
    and e: "guard_exit interrupt_lock (cw_serial (cw_serial_update guard_release w1)) (cw_core (cw_serial_update guard_release w1)) = Done c'"
    and w': "w' = (cw_serial_update guard_release w1)\<lparr>cw_core := c'\<rparr>"
  obtain h where w1: "w1 = w\<lparr>cw_core := c, cw_serial := (cw_serial w)\<lparr>ticket := ticket (cw_serial w) + 1\<rparr>, cw_hw := h\<rparr>"
    using b by (auto simp: serial_read_byte_def Let_def case_prod_beta)
  note g = guard_exit_disable [OF _ l(1) l(3) e]
  show ?thesis using g l(2) unfolding w' w1 by (simp add: same_core_def lock_idle_def guard_release_def)
qed

lemma run_handler_same:
  assumes "run_handler cpu f args w = Returned b w'"
  shows "same_core w w' \<and> cw_ints w' = cw_ints w"
proof (cases f)
  case Nmi_Handler
  then show ?thesis using assms by (auto simp: run_handler_def nmi_def split: if_splits)
next
  case Page_Fault_Handler
  then show ?thesis using assms by (simp add: run_handler_def page_fault_def)
next
  case Soft_Reboot_Timer_Handler
  then show ?thesis using assms serial_read_same by (auto simp: run_handler_def soft_reboot_timer_def split: if_splits)
qed

lemma dispatch_same:
  assumes "dispatch_interrupt cpu idx args w = Returned b w'"
  shows "same_core w w'"
  using assms [unfolded dispatch_interrupt_def]
proof (rule locked_cases)
  fix c w1 c'
  let ?w = "cw_ints_update (\<lambda>_. (cw_ints w)\<lparr>ticket := ticket (cw_ints w) + 1\<rparr>) (w\<lparr>cw_core := c\<rparr>)"
  assume l: "disables_interrupts (cw_ints w) \<longrightarrow> disable_interrupts (cw_core w) = Done c" "ticket (cw_ints w) = release (cw_ints w)"
    "\<not> disables_interrupts (cw_ints w) \<longrightarrow> c = cw_core w"
    and b: "call (unwrap (lock_value (cw_ints ?w))) ?w (\<lambda>ints. call (array_get (dispatch ints) idx) ?w (\<lambda>f.
         case f of None \<Rightarrow> Returned False ?w | Some f \<Rightarrow> run_handler cpu f args ?w)) = Returned b w1"
    and e: "guard_exit interrupt_lock (cw_ints (cw_ints_update guard_release w1)) (cw_core (cw_ints_update guard_release w1)) = Done c'"
    and w': "w' = (cw_ints_update guard_release w1)\<lparr>cw_core := c'\<rparr>"
  have "same_core ?w w1 \<and> cw_ints w1 = cw_ints ?w" using b run_handler_same by (fastforce split: option.splits)
  then show ?thesis using guard_exit_disable [OF _ l(1) l(3) e] l(2) unfolding w' by (simp add: same_core_def lock_idle_def guard_release_def)
qed

section \<open>Interrupts\<close>

lemma enter_leave_depth:
  assumes "enter_depth args c0 = Done c" "leave_depth args c1 = Done c'"
    and "interrupt_depth c1 = interrupt_depth c" "exception_depth c1 = exception_depth c"
    and "interrupt_disable_requests c1 = interrupt_disable_requests c"
  shows "interrupt_depth c' = interrupt_depth c0" "exception_depth c' = exception_depth c0"
    "interrupt_disable_requests c' = interrupt_disable_requests c0"
  using assms by (cases "is_exception args"; auto simp: enter_depth_def leave_depth_def enter_exception_def enter_interrupt_def
      arc_increment_def arc_guard_drop_def)+


text \<open>A core with the handlers that \<open>init\<close> registers and the timer, which finds no byte on its one serial port.\<close>

definition demo_ints :: "kernel_handler interrupts" where
  "demo_ints = \<lparr>dispatch = (replicate 256 None)[2 := Some Nmi_Handler, 14 := Some Page_Fault_Handler, 32 := Some Soft_Reboot_Timer_Handler],
     ints_tss = tss_default, ints_idt = [], ints_gdt = []\<rparr>"

definition demo_core :: "demo_uarts core_world" where
  "demo_core = \<lparr>cw_id = 0, cw_core = \<lparr>interrupt_disable_requests = 0, interrupt_depth = 0, exception_depth = 0, interrupt_flag = False\<rparr>,
     cw_apic_id = Some 0, cw_apic = None, cw_ints = new_no_preempt (Some demo_ints),
     cw_statics = int_statics_init\<lparr>EOI_REQUIRED := (replicate 256 False)[32 := True]\<rparr>,
     cw_serial = new_no_preempt (Some \<lparr>ports = [Some 0x3F8]\<rparr>), cw_rebooting = False, cw_bootloader = once_new,
     BSP_IN_PANIC = False, PANIC_PENDING = 0, cw_sys = apic_system_init, cw_hw = \<lparr>demo_line = (\<lambda>_. []), demo_busy = (\<lambda>_. 1)\<rparr>\<rparr>"

definition demo_regs :: all_regs where
  "demo_regs = \<lparr>xmm15 = 0, xmm14 = 0, xmm13 = 0, xmm12 = 0, xmm11 = 0, xmm10 = 0, xmm9 = 0, xmm8 = 0, xmm7 = 0, xmm6 = 0, xmm5 = 0,
     xmm4 = 0, xmm3 = 0, xmm2 = 0, xmm1 = 0, xmm0 = 0, r15 = 0, r14 = 0, r13 = 0, r12 = 0, r11 = 0, r10 = 0, r9 = 0, r8 = 0,
     rbp = 0, rdi = 0, rsi = 0, rdx = 0, rcx = 0, rbx = 0, rax = 0\<rparr>"

lemmas entry_defs = interrupt_entry_def interrupt_args_new_def interrupt_index_def is_exception_def enter_depth_def leave_depth_def
  enter_exception_def enter_interrupt_def arc_increment_def arc_guard_drop_def checked_add_def checked_sub_def
  dispatch_interrupt_def locked_def lock_begin_def lock_free_def interrupt_lock_def disable_interrupts_def enable_interrupts_def
  in_interrupt_def arc_count_def guard_exit_def guard_release_def array_get_def run_handler_def

lemma demo_entry_returns:
  "\<exists>w. interrupt_entry demo_uart_cpu SoftRebootTimer \<lparr>frame_rip = 0, frame_cs = 0, frame_rflags = 0, frame_rsp = 0, frame_ss = 0\<rparr> 0 demo_regs demo_core
     = Returned () w"
  by (simp add: entry_defs demo_core_def demo_ints_def new_no_preempt_def int_statics_init_def soft_reboot_timer_def is_bsp_def
      serial_read_byte_def read_byte_def ports_of_def List.map_filter_def demo_uart_cpu_def Let_def apic_eoi_def)


text \<open>A handler runs under the lock of the interrupts. An interrupt that arrives in the meantime, an NMI or an exception,
  waits for that lock and never gets it.\<close>

lemma nested_interrupt_stuck:
  assumes "disables_interrupts (cw_ints w)" "ticket (cw_ints w) \<noteq> release (cw_ints w)"
    and "interrupt_disable_requests (cw_core w) \<noteq> - 1"
  shows "dispatch_interrupt cpu idx args w = Stuck"
proof -
  have "\<not> interrupt_disable_requests (cw_core w) + 1 < interrupt_disable_requests (cw_core w)"
    using assms(3) unat_u64_less [of "interrupt_disable_requests (cw_core w)"]
    by (auto simp: word_less_nat_alt unat_add_no_overflow word_unat_eq_iff unat_max_word)
  then show ?thesis using assms(1,2)
    by (simp add: dispatch_interrupt_def locked_def lock_begin_def interrupt_lock_def disable_interrupts_def checked_add_def lock_free_def Let_def)
qed

text \<open>After the lock is dropped in an exception the interrupts are on, although the handler has not returned yet: only
  interrupts are counted, and the processor had turned the flag off.\<close>

lemma exception_enables_interrupts:
  "locked cw_ints cw_ints_update (\<lambda>w. Returned True w)
     (demo_core\<lparr>cw_core := (cw_core demo_core)\<lparr>exception_depth := 1\<rparr>\<rparr>)
   = Returned True (demo_core\<lparr>cw_core := (cw_core demo_core)\<lparr>exception_depth := 1, interrupt_flag := True\<rparr>,
       cw_ints := (cw_ints demo_core)\<lparr>ticket := 1, release := 1\<rparr>\<rparr>)"
  by (simp add: entry_defs demo_core_def new_no_preempt_def Let_def)

section \<open>Stopping the other cores\<close>

text \<open>What the first core relies on: in the time it gives them the other cores do not come online, a core that gets NMIs
  halts in the end, and the shared data stay in place.\<close>

definition stoppable :: "'h cpu \<Rightarrow> ('h core_world \<Rightarrow> 'h core_world) \<Rightarrow> local_apic \<Rightarrow> u32 \<Rightarrow> ('h core_world \<Rightarrow> nat) \<Rightarrow> bool" where
  "stoppable cpu others apic bsp_id rank \<longleftrightarrow>
     (\<forall>w j st. core_state_of j (cw_sys w) = Done st \<longrightarrow>
        (\<exists>st'. core_state_of j (cw_sys (others w)) = Done st' \<and> (st' = st \<or> st = Online \<and> st' = Halted)))
     \<and> (\<forall>w i. i \<noteq> bsp_id \<longrightarrow> core_state_of i (cw_sys w) = Done Online \<longrightarrow>
        (let w' = others (w\<lparr>cw_hw := ipi cpu apic i NMI (cw_hw w)\<rparr>) in
         core_state_of i (cw_sys w') = Done Halted \<or> rank w' < rank w))"

text \<open>No core comes online from one state to another.\<close>

definition none_starts :: "'h core_world \<Rightarrow> 'h core_world \<Rightarrow> bool" where
  "none_starts w w' \<longleftrightarrow> (\<forall>j st. core_state_of j (cw_sys w) = Done st \<longrightarrow>
     (\<exists>st'. core_state_of j (cw_sys w') = Done st' \<and> (st' = st \<or> st = Online \<and> st' = Halted)))"

lemma none_starts_trans: "none_starts w w1 \<Longrightarrow> none_starts w1 w2 \<Longrightarrow> none_starts w w2"
  unfolding none_starts_def by (metis apic_state.distinct(7))

lemma none_starts_refl [simp]: "none_starts w w"
  by (simp add: none_starts_def)

lemma others_none_starts: "stoppable cpu others apic bsp_id rank \<Longrightarrow> none_starts w (others (w\<lparr>cw_hw := h\<rparr>))"
  by (simp add: stoppable_def none_starts_def)

lemma nmi_loop_halts:
  assumes "stoppable cpu others apic bsp_id rank" "i \<noteq> bsp_id" "core_state_of i (cw_sys w) = Done Online"
  shows "\<exists>w'. nmi_loop cpu others apic i w = Some (Done w') \<and> core_state_of i (cw_sys w') = Done Halted \<and> none_starts w w'"
  using assms(3)
proof (induction "rank w" arbitrary: w rule: less_induct)
  case less
  let ?w = "others (w\<lparr>cw_hw := ipi cpu apic i NMI (cw_hw w)\<rparr>)"
  have n: "none_starts w ?w" using others_none_starts [OF assms(1)] by blast
  have u: "nmi_loop cpu others apic i w = nmi_loop cpu others apic i ?w" using less(2) by (simp add: nmi_loop.simps [of cpu others apic i w])
  have s: "core_state_of i (cw_sys ?w) = Done Online \<or> core_state_of i (cw_sys ?w) = Done Halted"
    using n less(2) unfolding none_starts_def by auto
  show ?case
  proof (cases "core_state_of i (cw_sys ?w) = Done Halted")
    case True
    then show ?thesis using n unfolding u by (simp add: nmi_loop.simps [of cpu others apic i ?w])
  next
    case False
    then have "rank ?w < rank w" using assms(1,2) less(2) unfolding stoppable_def Let_def by blast
    then show ?thesis using less(1) [of ?w] s False n unfolding u by (auto intro: none_starts_trans)
  qed
qed

lemma disable_loop_halts:
  assumes "stoppable cpu others apic bsp_id rank" "\<forall>i \<in> set is. \<exists>st. core_state_of i (cw_sys w) = Done st"
  shows "\<exists>w'. disable_loop cpu others apic bsp_id is w = Some (Done w') \<and> none_starts w w'
    \<and> (\<forall>i \<in> set is. i \<noteq> bsp_id \<longrightarrow> core_state_of i (cw_sys w') \<noteq> Done Online)"
  using assms(2)
proof (induction "is" arbitrary: w)
  case (Cons i "is")
  have step: ?case if "disable_loop cpu others apic bsp_id (i # is) w = disable_loop cpu others apic bsp_id is w1" "none_starts w w1"
    "i \<noteq> bsp_id \<longrightarrow> (\<exists>st. core_state_of i (cw_sys w1) = Done st \<and> st \<noteq> Online)" for w1
  proof -
    have "\<forall>i \<in> set is. \<exists>st. core_state_of i (cw_sys w1) = Done st" using Cons.prems that(2) unfolding none_starts_def by (metis list.set_intros(2))
    then obtain w' where w': "disable_loop cpu others apic bsp_id is w1 = Some (Done w')" "none_starts w1 w'"
      "\<forall>i \<in> set is. i \<noteq> bsp_id \<longrightarrow> core_state_of i (cw_sys w') \<noteq> Done Online" using Cons.IH [of w1] by blast
    have "core_state_of i (cw_sys w') \<noteq> Done Online" if "i \<noteq> bsp_id"
      using w'(2) \<open>i \<noteq> bsp_id \<longrightarrow> _\<close> that unfolding none_starts_def by fastforce
    then show ?thesis using w' that none_starts_trans by auto
  qed
  obtain st where st: "core_state_of i (cw_sys w) = Done st" using Cons.prems by auto
  show ?case
  proof (cases "i = bsp_id \<or> st \<noteq> Online")
    case True
    then show ?thesis using step [of w] st by auto
  next
    case False
    obtain w2 where w2: "nmi_loop cpu others apic i w = Some (Done w2)" "core_state_of i (cw_sys w2) = Done Halted" "none_starts w w2"
      using nmi_loop_halts [OF assms(1), of i w] st False by auto
    let ?w = "others (w2\<lparr>cw_hw := ipi cpu apic i 0x4500 (cw_hw w2)\<rparr>)"
    have n: "none_starts w2 ?w" using others_none_starts [OF assms(1)] by blast
    then have "core_state_of i (cw_sys ?w) = Done Halted" using w2(2) unfolding none_starts_def by fastforce
    then show ?thesis using step [of ?w] st False w2 none_starts_trans [OF w2(3) n] by simp
  qed
qed simp


text \<open>Three APICs, the second of them online; all the others have halted when the first core has waited.\<close>

definition halt_all :: "u8 list \<Rightarrow> u8 list" where
  "halt_all xs = take 1 xs @ map (\<lambda>x. if x = 1 then 5 else x) (drop 1 xs)"

definition demo_halt :: "'h core_world \<Rightarrow> 'h core_world" where
  "demo_halt w = w\<lparr>cw_sys := (cw_sys w)\<lparr>APIC_STATES := (APIC_STATES (cw_sys w))
     \<lparr>once_value := map_option halt_all (once_value (APIC_STATES (cw_sys w)))\<rparr>\<rparr>\<rparr>"

definition apic_demo :: local_apic where
  "apic_demo = \<lparr>la_mode = X2Apic, la_orig = \<lparr>orig_ia32_apic_base = 0, orig_svr = 0, orig_pic_a1 = 0, orig_pic_21 = 0,
     orig_timer = \<lparr>timer_dcr = 0, timer_icr = 0, timer_lvt = 0\<rparr>\<rparr>\<rparr>"

definition demo_three :: "demo_uarts core_world" where
  "demo_three = demo_core\<lparr>cw_sys := \<lparr>APIC_STATES = \<lparr>once_initialized = True, once_value = Some [1, 1, 3]\<rparr>,
     TOTAL_CORES = \<lparr>once_initialized = True, once_value = Some 2\<rparr>,
     MAX_APIC_ID = \<lparr>once_initialized = True, once_value = Some 2\<rparr>, CORES_CHECKED_IN = 2\<rparr>\<rparr>"

lemmas state_defs = core_state_of_def load_state_def once_read_def once_get_def array_get_def

lemma core_state_of_iff:
  "core_state_of j s = Done st \<longleftrightarrow> once_initialized (APIC_STATES s) \<and>
     (\<exists>xs. once_value (APIC_STATES s) = Some xs \<and> unat j < length xs \<and> apic_state_from (xs ! unat j) = Done st)"
  by (auto simp: state_defs split: if_splits)

lemma halt_all_nth:
  "i < length xs \<Longrightarrow> halt_all xs ! i = (if i \<noteq> 0 \<and> xs ! i = 1 then 5 else xs ! i)" "length (halt_all xs) = length xs"
  by (auto simp: halt_all_def nth_append)

lemma demo_halt_states:
  assumes "core_state_of j (cw_sys w) = Done st"
  shows "core_state_of j (cw_sys (demo_halt w)) = Done (if j \<noteq> 0 \<and> st = Online then Halted else st)"
proof -
  obtain xs where xs: "once_initialized (APIC_STATES (cw_sys w))" "once_value (APIC_STATES (cw_sys w)) = Some xs" "unat j < length xs"
    "apic_state_from (xs ! unat j) = Done st" using assms unfolding core_state_of_iff by blast
  moreover have "apic_state_from (halt_all xs ! unat j) = Done (if j \<noteq> 0 \<and> st = Online then Halted else st)"
    using xs(3,4) by (auto simp: halt_all_nth apic_state_from_def unat_eq_zero split: if_splits)
  ultimately show ?thesis unfolding core_state_of_iff by (simp add: demo_halt_def halt_all_nth(2))
qed

lemma demo_stoppable: "stoppable cpu demo_halt apic 0 (\<lambda>_. 0)"
  unfolding stoppable_def Let_def using demo_halt_states by (force simp: demo_halt_def)


text \<open>On a machine with the IDs 0 and 1 the other core is not even told to stop.\<close>

lemma last_core_not_stopped:
  assumes "is_bsp w" "cw_apic_id w = Some 0" "MAX_APIC_ID (cw_sys w) = \<lparr>once_initialized = True, once_value = Some 1\<rparr>"
  shows "disable_cores cpu others apic w = Some (Done w)"
  using assms by (simp add: disable_cores_def once_read_def once_get_def)

end
