(* ===== verification/Efi.thy ===== *)
theory Efi
  imports Boot_Main
begin

text \<open>
  The firmware, \<open>src/bootloader/src/efi\<close>: status codes, the memory map that is taken over when the boot services end,
  and the search for the root of the ACPI tables. The boot services are functions of the firmware and arguments here;
  its tables are read from memory at the offsets that \<open>repr(C)\<close> gives their fields. An enum read from memory with a
  value it does not have is undefined in Rust and a panic here.
\<close>

section \<open>Status codes\<close>

datatype efi_warning =
    WarnUnknownGlyph | WarnDeleteFailure | WarnWriteFailure | WarnBufferTooSmall | WarnStaleData | WarnFileSystem
  | WarnResetRequired | WarnUndefined

datatype efi_error =
    LoadError | InvalidParameter | EfiUnsupported | BadBufferSize | BufferTooSmall | NotReady | DeviceError | WriteProtected
  | OutOfResources | VolumeCorrupted | VolumeFull | NoMedia | MediaChanged | NotFound | AccessDenied | NoResponse
  | NoMapping | Timeout | NotStarted | AlreadyStarted | Aborted | IcmpError | TftpError | ProtocolError
  | IncompatibleVersion | SecurityViolation | CrcError | EndOfMedia | EndOfFile | InvalidLanguage | CompromisedData
  | IpAddressConflict | HttpError | UndefinedError

datatype status = Success | Warning efi_warning | Error efi_error

definition warning_from :: "u64 \<Rightarrow> efi_warning" where
  "warning_from val =
     (if val = 1 then WarnUnknownGlyph else if val = 2 then WarnDeleteFailure else if val = 3 then WarnWriteFailure
      else if val = 4 then WarnBufferTooSmall else if val = 5 then WarnStaleData else if val = 6 then WarnFileSystem
      else if val = 7 then WarnResetRequired else WarnUndefined)"

definition error_from :: "u64 \<Rightarrow> efi_error" where
  "error_from val =
     (if val = 1 then LoadError else if val = 2 then InvalidParameter else if val = 3 then EfiUnsupported
      else if val = 4 then BadBufferSize else if val = 5 then BufferTooSmall else if val = 6 then NotReady
      else if val = 7 then DeviceError else if val = 8 then WriteProtected else if val = 9 then OutOfResources
      else if val = 10 then VolumeCorrupted else if val = 11 then VolumeFull else if val = 12 then NoMedia
      else if val = 13 then MediaChanged else if val = 14 then NotFound else if val = 15 then AccessDenied
      else if val = 16 then NoResponse else if val = 17 then NoMapping else if val = 18 then Timeout
      else if val = 19 then NotStarted else if val = 20 then AlreadyStarted else if val = 21 then Aborted
      else if val = 22 then IcmpError else if val = 23 then TftpError else if val = 24 then ProtocolError
      else if val = 25 then IncompatibleVersion else if val = 26 then SecurityViolation else if val = 27 then CrcError
      else if val = 28 then EndOfMedia else if val = 31 then EndOfFile else if val = 32 then InvalidLanguage
      else if val = 33 then CompromisedData else if val = 34 then IpAddressConflict else if val = 35 then HttpError
      else UndefinedError)"

text \<open>\<open>RawStatus\<close> is signed.\<close>

definition status_from :: "u64 \<Rightarrow> status" where
  "status_from val =
     (let code = drop_bit 1 (push_bit 1 val) in
      if val = 0 then Success else if sint val < 0 then Warning (warning_from code) else Error (error_from code))"

section \<open>The memory map\<close>

datatype mem_error = WrongMemoryMapSize u64 | ExitBootSvcFailed | MemoryMapOverflow

datatype memory_type =
    ReservedMemory | LoaderCode | LoaderData | BootServicesCode | BootServicesData | RuntimeServicesCode
  | RuntimeServicesData | ConventionalMemory | UnusableMemory | ACPIReclaimMemory | ACPIMemoryNVS | MemoryMappedIO
  | MemoryMappedIOPortSpace | PalCode | PersistentMemory | UnsupportedMemory

text \<open>The discriminants start at 0.\<close>

definition memory_types :: "memory_type list" where
  "memory_types =
     [ReservedMemory, LoaderCode, LoaderData, BootServicesCode, BootServicesData, RuntimeServicesCode, RuntimeServicesData,
      ConventionalMemory, UnusableMemory, ACPIReclaimMemory, ACPIMemoryNVS, MemoryMappedIO, MemoryMappedIOPortSpace,
      PalCode, PersistentMemory, UnsupportedMemory]"

definition memory_type_from :: "u32 \<Rightarrow> memory_type" where
  "memory_type_from val = (if val < 15 then memory_types ! unat val else UnsupportedMemory)"

fun available_post_boot_svc_exit :: "memory_type \<Rightarrow> bool" where
  "available_post_boot_svc_exit BootServicesCode = True"
| "available_post_boot_svc_exit BootServicesData = True"
| "available_post_boot_svc_exit PersistentMemory = True"
| "available_post_boot_svc_exit ConventionalMemory = True"
| "available_post_boot_svc_exit _ = False"

record memory_descriptor =
  mem_type :: memory_type
  md_phys_addr :: u64
  md_virt_addr :: u64
  n_pages :: u64
  md_attribute :: u64

definition descriptor_size :: nat where "descriptor_size = 48"

definition N_MEM_DESC :: nat where "N_MEM_DESC = 2048"

definition descriptor_at :: "memory \<Rightarrow> u64 \<Rightarrow> memory_descriptor outcome" where
  "descriptor_at m p =
     (let t = from_le (read_bytes m p 4) :: u32 in
      obind (array_get memory_types (unat t)) (\<lambda>t.
        Done \<lparr>mem_type = t, md_phys_addr = read_u64 m (p + 8), md_virt_addr = read_u64 m (p + 16),
              n_pages = read_u64 m (p + 24), md_attribute = read_u64 m (p + 32)\<rparr>))"

text \<open>The boot services that are called. \<open>get_memory_map\<close> gets the size and the address of the buffer and returns the
  status, the size it needed, the key of the map, the size of a descriptor and its version.\<close>

record 'f firmware =
  get_memory_map :: "u64 \<Rightarrow> u64 \<Rightarrow> memory \<times> 'f \<Rightarrow> (u64 \<times> u64 \<times> u64 \<times> u64 \<times> u32) \<times> memory \<times> 'f"
  exit_boot_services :: "u64 \<Rightarrow> u64 \<Rightarrow> memory \<times> 'f \<Rightarrow> u64 \<times> memory \<times> 'f"

text \<open>One region that is free.\<close>

definition free_region :: "memory_descriptor \<Rightarrow> range_set \<Rightarrow> (mem_error + range_set) outcome" where
  "free_region d free =
     orbind (Done (ok_or (checked_mul (n_pages d) 4096) MemoryMapOverflow)) (\<lambda>offset.
     obind (psub offset 1) (\<lambda>last.
     orbind (Done (ok_or (checked_add (md_phys_addr d) last) MemoryMapOverflow)) (\<lambda>end_addr.
     obind (unwrap_result (range_new (md_phys_addr d) end_addr)) (\<lambda>r.
     obind (rs_insert free r) (\<lambda>(res, free).
     obind (unwrap_result res) (\<lambda>_. Done (Inr free)))))))"

fun free_regions :: "memory \<Rightarrow> u64 list \<Rightarrow> range_set \<Rightarrow> (mem_error + range_set) outcome" where
  "free_regions m [] free = Done (Inr free)"
| "free_regions m (p # ps) free =
     obind (descriptor_at m p) (\<lambda>d.
       if \<not> available_post_boot_svc_exit (mem_type d) then free_regions m ps free
       else orbind (free_region d free) (free_regions m ps))"

text \<open>A range that the kernel must not touch.\<close>

definition reserve :: "u64 \<Rightarrow> u64 \<Rightarrow> range_set \<Rightarrow> range_set outcome" where
  "reserve first final free =
     obind (unwrap_result (range_new first final)) (\<lambda>r.
     obind (rs_remove free r) (\<lambda>(res, free). obind (unwrap_result res) (\<lambda>_. Done free)))"

text \<open>\<open>memory_map_exit\<close>, with the buffer at an address of the stack.\<close>

definition memory_map_exit ::
  "'f firmware \<Rightarrow> u64 \<Rightarrow> u64 \<Rightarrow> memory \<times> 'f \<Rightarrow> ((mem_error + range_set) \<times> memory \<times> 'f) outcome" where
  "memory_map_exit fw image_handle buf mf =
     (let (m, f) = mf;
          m = write_bytes_at m buf (replicate (N_MEM_DESC * descriptor_size) 0);
          ((raw, size, key, _, _), m, f) = get_memory_map fw (of_nat (N_MEM_DESC * descriptor_size)) buf (m, f) in
      if status_from raw \<noteq> Success then Done (Inl (WrongMemoryMapSize size), m, f)
      else
        let n = unat size div descriptor_size; (raw, m, f) = exit_boot_services fw image_handle key (m, f) in
        if status_from raw \<noteq> Success then Done (Inl ExitBootSvcFailed, m, f)
        else
          obind (free_regions m (map (\<lambda>i. buf + of_nat (i * descriptor_size)) [0..<n]) rs_new) (\<lambda>res.
          obind (case res of
                   Inl e \<Rightarrow> Done (Inl e)
                 | Inr free \<Rightarrow> obind (reserve 0x0000 0xFFFF free) (\<lambda>free. obind (reserve 0xA0000 0xFFFFF free) (\<lambda>free. Done (Inr free))))
            (\<lambda>res. Done (res, m, f))))"

section \<open>The root of the ACPI tables\<close>

record guid =
  d1 :: u32
  d2 :: u16
  d3 :: u16
  d4 :: "u8 list"

definition ACPI_20_TABLE_GUID :: guid where
  "ACPI_20_TABLE_GUID = \<lparr>d1 = 0x8868e871, d2 = 0xe4f1, d3 = 0x11d3, d4 = [0xbc, 0x22, 0x00, 0x80, 0xc7, 0x3c, 0x88, 0x81]\<rparr>"

record config_table =
  cfg_guid :: guid
  cfg_table :: u64

definition config_table_at :: "memory \<Rightarrow> u64 \<Rightarrow> config_table" where
  "config_table_at m p =
     \<lparr>cfg_guid = \<lparr>d1 = from_le (read_bytes m p 4), d2 = from_le (read_bytes m (p + 4) 2), d3 = from_le (read_bytes m (p + 6) 2),
                  d4 = read_bytes m (p + 8) 8\<rparr>,
      cfg_table = read_u64 m (p + 16)\<rparr>"

text \<open>The configuration tables of the system table.\<close>

definition cfg_tables :: "memory \<Rightarrow> u64 \<Rightarrow> config_table list" where
  "cfg_tables m sys =
     (let n = unat (read_u64 m (sys + 104)); tables = read_u64 m (sys + 112) in
      map (\<lambda>i. config_table_at m (tables + of_nat (24 * i))) [0..<n])"

datatype boot_table = Rsdp | Xsdt | UnknownTable "u8 list"

datatype boot_acpi_error =
    BootAcpi20NotFound
  | BootSignatureMismatch boot_table
  | BootSizeMismatch boot_table
  | BootChecksumMismatch boot_table

definition boot_from_sig :: "u8 list \<Rightarrow> boot_table" where
  "boot_from_sig signature = (if signature = [0x58, 0x53, 0x44, 0x54] then Xsdt else UnknownTable signature)"

definition rsdp_size :: nat where "rsdp_size = 8 + 1 + 6 + 1 + 4 + 4 + 8 + 1"

definition byte_sum :: "u8 list \<Rightarrow> u8" where
  "byte_sum bs = foldl (\<lambda>x byte. x + byte) 0 bs"

definition rsdp_from_system_table :: "memory \<Rightarrow> u64 \<Rightarrow> boot_acpi_error + u64" where
  "rsdp_from_system_table m sys =
     rbind (ok_or (map_option cfg_table (find (\<lambda>c. cfg_guid c = ACPI_20_TABLE_GUID) (cfg_tables m sys))) BootAcpi20NotFound) (\<lambda>rsdp.
       let len = unat (from_le (read_bytes m (rsdp + 20) 4) :: u32) in
       if len < rsdp_size then Inl (BootSizeMismatch Rsdp)
       else if read_bytes m rsdp 8 \<noteq> [0x52, 0x53, 0x44, 0x20, 0x50, 0x54, 0x52, 0x20] then Inl (BootSignatureMismatch Rsdp)
       else if byte_sum (read_bytes m rsdp len) \<noteq> 0 then Inl (BootChecksumMismatch Rsdp)
       else Inr rsdp)"

definition boot_sdt_length :: "memory \<Rightarrow> u64 \<Rightarrow> nat" where
  "boot_sdt_length m p = unat (from_le (read_bytes m (p + 4) 4) :: u32)"

definition boot_checksum_valid :: "memory \<Rightarrow> u64 \<Rightarrow> bool" where
  "boot_checksum_valid m p \<longleftrightarrow> byte_sum (read_bytes m p (boot_sdt_length m p)) = 0"

definition get_sdt_table :: "memory \<Rightarrow> u64 \<Rightarrow> (boot_acpi_error + sdt_table) outcome" where
  "get_sdt_table m sys =
     orbind (Done (rsdp_from_system_table m sys)) (\<lambda>rsdp.
       let xsdt = read_u64 m (rsdp + 24) in
       if boot_from_sig (read_bytes m xsdt 4) \<noteq> Xsdt then Done (Inl (BootSignatureMismatch Xsdt))
       else if \<not> boot_checksum_valid m xsdt then Done (Inl (BootChecksumMismatch Xsdt))
       else
         obind (padd xsdt 36) (\<lambda>base.
           assert_that (36 \<le> boot_sdt_length m xsdt) (
             Done (Inr \<lparr>n_entries = (boot_sdt_length m xsdt - 36) div 8, sdt_base = base\<rparr>))))"

section \<open>Setup with the firmware\<close>

text \<open>\<open>init_setup\<close> as it is called on the first boot.\<close>

definition firmware_setup ::
  "'f firmware \<Rightarrow> u64 \<Rightarrow> u64 \<Rightarrow> u64 \<Rightarrow> u8 list \<Rightarrow> page_table \<Rightarrow> virt_addr \<Rightarrow> virt_addr \<Rightarrow> 'f \<Rightarrow> boot_machine \<Rightarrow> boot_machine outcome" where
  "firmware_setup fw image_handle sys buf trampoline cr3 entry stack f st =
     obind (memory_map_exit fw image_handle buf (snd st, f)) (\<lambda>(res, m, _).
     obind (unwrap_result res) (\<lambda>memory_map.
       init_setup memory_map trampoline cr3 entry stack (\<lambda>m. obind (get_sdt_table m sys) unwrap_result) (fst st, m)))"

end
