(* ===== verification/Efi_Props.thy ===== *)
theory Efi_Props
  imports Efi Rangeset_Props
begin

text \<open>
  The memory the firmware leaves to the program, and the tables it points to.
\<close>

section \<open>Status codes\<close>

lemma status_success [simp]: "status_from raw = Success \<longleftrightarrow> raw = 0"
  by (simp add: status_from_def Let_def)

text \<open>In UEFI the errors are the codes with the top bit set: \<open>EFI_BUFFER_TOO_SMALL\<close> comes out as a warning.\<close>

lemma status_kinds_swapped: "status_from 0x8000000000000005 = Warning WarnStaleData" "status_from 5 = Error BufferTooSmall"
  by (simp_all add: status_from_def warning_from_def error_from_def)

section \<open>Free memory\<close>

text \<open>The addresses of a region, for a descriptor that the loader keeps; the map has no such region that is empty or
  reaches the last address.\<close>

definition region :: "memory_descriptor \<Rightarrow> u64 set" where
  "region d = {a. unat (md_phys_addr d) \<le> unat a \<and> unat a < unat (md_phys_addr d) + 4096 * unat (n_pages d)}"

definition region_ok :: "memory_descriptor \<Rightarrow> bool" where
  "region_ok d \<longleftrightarrow> n_pages d \<noteq> 0 \<and> unat (md_phys_addr d) + 4096 * unat (n_pages d) < 2 ^ 64"

definition usable :: "memory_descriptor list \<Rightarrow> memory_descriptor list" where
  "usable ds = filter (\<lambda>d. available_post_boot_svc_exit (mem_type d)) ds"

lemma usable_simps [simp]:
  "usable [] = []" "usable (d # ds) = (if available_post_boot_svc_exit (mem_type d) then d # usable ds else usable ds)"
  by (simp_all add: usable_def)

lemma region_length:
  assumes "region_ok d"
  shows "checked_mul (n_pages d) 4096 = Some (n_pages d * 4096)" "unat (n_pages d * 4096) = 4096 * unat (n_pages d)" "0 < n_pages d * 4096"
proof -
  have b: "4096 * unat (n_pages d) < 2 ^ 64" using assms by (simp add: region_ok_def)
  then show u: "unat (n_pages d * 4096) = 4096 * unat (n_pages d)" by (simp add: unat_word_ariths mult.commute)
  have "0 < unat (n_pages d)" using assms by (simp add: region_ok_def unat_gt_0)
  then show "0 < n_pages d * 4096" using u by (simp add: word_less_nat_alt)
  show "checked_mul (n_pages d) 4096 = Some (n_pages d * 4096)"
    using b by (simp add: checked_mul_def uint_nat del: of_nat_unat)
qed

lemma free_region_ok:
  assumes "region_ok d" "rs_inv rs" "- 1 \<notin> rs_cover rs" "used rs < 256"
  shows "\<exists>rs'. free_region d rs = Done (Inr rs') \<and> rs_inv rs' \<and> rs_cover rs' = rs_cover rs \<union> region d
    \<and> used rs' \<le> Suc (used rs) \<and> - 1 \<notin> rs_cover rs'"
proof -
  note l = region_length [OF assms(1)]
  have lt: "unat (md_phys_addr d) + unat (n_pages d * 4096) < 2 ^ 64" using assms(1) l(2) by (simp add: region_ok_def)
  note e = region_end [OF l(3) lt]
  have "region d = {md_phys_addr d..md_phys_addr d + (n_pages d * 4096 - 1)}"
    using e(1) l(2,3) by (auto simp: region_def word_le_nat_alt word_less_nat_alt)
  then show ?thesis
    using insert_region [OF assms(2-4) l(3) lt] e l(1) by (auto simp: free_region_def psub_def range_new_def new_unchecked_def)
qed

lemma free_regions_ok:
  assumes "map (descriptor_at m) ps = map Done ds" "\<forall>d \<in> set (usable ds). region_ok d"
    and "used rs + length (usable ds) \<le> 256" "rs_inv rs" "- 1 \<notin> rs_cover rs"
  shows "\<exists>rs'. free_regions m ps rs = Done (Inr rs') \<and> rs_inv rs' \<and> rs_cover rs' = rs_cover rs \<union> \<Union> (region ` set (usable ds))
    \<and> used rs' \<le> used rs + length (usable ds)"
  using assms
proof (induction ps arbitrary: ds rs)
  case (Cons p ps)
  then obtain d ds' where ds: "ds = d # ds'" "descriptor_at m p = Done d" "map (descriptor_at m) ps = map Done ds'" by (cases ds) auto
  show ?case
  proof (cases "available_post_boot_svc_exit (mem_type d)")
    case True
    then obtain rs1 where rs1: "free_region d rs = Done (Inr rs1)" "rs_inv rs1" "rs_cover rs1 = rs_cover rs \<union> region d"
      "used rs1 \<le> Suc (used rs)" "- 1 \<notin> rs_cover rs1"
      using free_region_ok [of d rs] Cons.prems ds(1) by auto
    moreover have "used rs1 + length (usable ds') \<le> 256" using rs1(4) Cons.prems(3) ds(1) True by simp
    ultimately show ?thesis using Cons.IH [OF ds(3), of rs1] Cons.prems(2) ds True by fastforce
  next
    case False
    then show ?thesis using Cons.IH [OF ds(3), of rs] Cons.prems ds by simp
  qed
qed simp

lemma reserve_ok:
  assumes "rs_inv rs" "used rs < 256" "a \<le> b"
  shows "\<exists>rs'. reserve a b rs = Done rs' \<and> rs_inv rs' \<and> rs_cover rs' = rs_cover rs - {a..b} \<and> used rs' \<le> Suc (used rs)"
  using remove_ok [OF assms(1), of "new_unchecked a b"] assms(2,3) by (auto simp: reserve_def range_new_def new_unchecked_def)

section \<open>Properties\<close>


text \<open>A firmware that reports one region of conventional memory, from the start of memory to 2 MiB.\<close>

definition demo_map :: "u8 list" where
  "demo_map = le_bytes 4 (7 :: u32) @ replicate 4 0 @ le_bytes 8 (0 :: u64) @ le_bytes 8 (0 :: u64) @ le_bytes 8 (512 :: u64)
     @ le_bytes 8 (0 :: u64) @ replicate 8 0"

definition demo_firmware :: "unit firmware" where
  "demo_firmware = \<lparr>get_memory_map = (\<lambda>sz buf (m, f). ((0, 48, 1, 48, 1), write_bytes_at m buf demo_map, f)),
     exit_boot_services = (\<lambda>image_handle key mf. (0, mf))\<rparr>"

definition demo_region :: memory_descriptor where
  "demo_region = \<lparr>mem_type = ConventionalMemory, md_phys_addr = 0, md_virt_addr = 0, n_pages = 512, md_attribute = 0\<rparr>"

lemma demo_map_field:
  assumes "take n (drop k demo_map) = bs" "k + n \<le> 48"
  shows "read_bytes (write_bytes_at m p demo_map) (p + of_nat k) n = bs"
proof -
  have l: "length demo_map = 48" by (simp add: demo_map_def)
  have "write_bytes_at m p demo_map (p + of_nat k + of_nat i) = bs ! i" if "i < n" for i
    using that assms l by (auto simp: write_bytes_at_def unat_of_nat_small of_nat_add [symmetric] simp del: of_nat_add)
  then show ?thesis using assms l by (auto simp: read_bytes_def intro!: nth_equalityI)
qed

lemma demo_descriptor: "descriptor_at (write_bytes_at m p demo_map) p = Done demo_region"
proof -
  have l: "le_bytes 8 (0 :: u64) = replicate 8 0" by (simp add: le_bytes_def eval_nat_numeral)
  note f = demo_map_field [of _ _ _ m p]
  have "read_bytes (write_bytes_at m p demo_map) p 4 = le_bytes 4 (7 :: u32)" using f [of 4 0] by (simp add: demo_map_def l)
  moreover have "read_u64 (write_bytes_at m p demo_map) (p + 8) = 0" using f [of 8 8 "le_bytes 8 (0 :: u64)"]
    by (simp add: demo_map_def l read_u64_def from_le_zero)
  moreover have "read_u64 (write_bytes_at m p demo_map) (p + 16) = 0" using f [of 8 16 "le_bytes 8 (0 :: u64)"]
    by (simp add: demo_map_def l read_u64_def from_le_zero)
  moreover have "read_u64 (write_bytes_at m p demo_map) (p + 24) = 512" using f [of 8 24 "le_bytes 8 (512 :: u64)"]
    by (simp add: demo_map_def l read_u64_def from_le_bytes)
  moreover have "read_u64 (write_bytes_at m p demo_map) (p + 32) = 0" using f [of 8 32 "le_bytes 8 (0 :: u64)"]
    by (simp add: demo_map_def l read_u64_def from_le_zero)
  ultimately show ?thesis
    by (simp add: descriptor_at_def from_le_bytes array_get_def memory_types_def demo_region_def)
qed


text \<open>A region of no pages ends the boot: its last byte is computed before anything is tested.\<close>

lemma empty_region_panics: "n_pages d = 0 \<Longrightarrow> free_region d rs = Panic"
  by (simp add: free_region_def checked_mul_def psub_def checked_sub_def)

end
