(* ===== verification/Pci.thy ===== *)
theory Pci
  imports Cpu Memory
begin

text \<open>
  The PCI bus, \<open>src/kernel/src/pci/pci.rs\<close>: configuration space behind two I/O ports, the base address registers,
  the enumeration of all functions and the drivers that are probed. A driver is a function of the configuration and of
  the state that drivers change; its type is \<open>ProbePci\<close> of \<open>drivers.rs\<close>.
\<close>

section \<open>Configuration\<close>

definition PCI_CONFIG_ADDRESS :: u16 where "PCI_CONFIG_ADDRESS = 0xCF8"
definition PCI_CONFIG_DATA :: u16 where "PCI_CONFIG_DATA = 0xCFC"

record pci_header =
  vendor_id :: u16
  device_id :: u16
  pci_command :: u16
  pci_status :: u16
  revision :: u8
  prog_if :: u8
  pci_subclass :: u8
  pci_class :: u8
  cache_line_size :: u8
  latency_timer :: u8
  header_type :: u8
  bist :: u8

record device_config =
  cfg_header :: pci_header
  bar0 :: u32
  bar1 :: u32
  bar2 :: u32
  bar3 :: u32
  bar4 :: u32
  bar5 :: u32
  cardbus_cis_pointer :: u32
  subsystem_vendor_id :: u16
  subsystem_device_id :: u16
  expansion_rom_address :: u32
  capabilities :: u8
  cfg_reserved :: "u8 list"
  interrupt_line :: u8
  interrupt_pin :: u8
  min_grant :: u8
  max_latency :: u8

text \<open>The structures in the bytes of the registers, laid out by \<open>repr(C)\<close>.\<close>

definition field :: "u8 list \<Rightarrow> nat \<Rightarrow> nat \<Rightarrow> 'a::len word" where
  "field bs off n = from_le (take n (drop off bs))"

definition header_of :: "u8 list \<Rightarrow> pci_header" where
  "header_of bs =
     \<lparr>vendor_id = field bs 0 2, device_id = field bs 2 2, pci_command = field bs 4 2, pci_status = field bs 6 2,
      revision = field bs 8 1, prog_if = field bs 9 1, pci_subclass = field bs 10 1, pci_class = field bs 11 1,
      cache_line_size = field bs 12 1, latency_timer = field bs 13 1, header_type = field bs 14 1, bist = field bs 15 1\<rparr>"

definition config_of :: "u8 list \<Rightarrow> device_config" where
  "config_of bs =
     \<lparr>cfg_header = header_of bs, bar0 = field bs 16 4, bar1 = field bs 20 4, bar2 = field bs 24 4, bar3 = field bs 28 4,
      bar4 = field bs 32 4, bar5 = field bs 36 4, cardbus_cis_pointer = field bs 40 4, subsystem_vendor_id = field bs 44 2,
      subsystem_device_id = field bs 46 2, expansion_rom_address = field bs 48 4, capabilities = field bs 52 1,
      cfg_reserved = take 7 (drop 53 bs), interrupt_line = field bs 60 1, interrupt_pin = field bs 61 1,
      min_grant = field bs 62 1, max_latency = field bs 63 1\<rparr>"

section \<open>Base address registers\<close>

datatype bar_bits = Bit32 | Bit64

definition bits_from_bar :: "u32 \<Rightarrow> bar_bits" where
  "bits_from_bar bar = (if drop_bit 1 bar AND 3 = 2 then Bit64 else Bit32)"

definition bar_u64 :: "u32 \<Rightarrow> u32 \<Rightarrow> u64" where
  "bar_u64 b0 b1 =
     (let lower = ucast (b0 AND NOT 0xF) :: u64; higher = ucast (b1 AND NOT 0xF) :: u64 in
      case bits_from_bar b0 of Bit32 \<Rightarrow> lower | Bit64 \<Rightarrow> push_bit 32 higher OR lower)"

datatype bar_type = IO | Memory

definition type_from_bar :: "u32 \<Rightarrow> bar_type" where
  "type_from_bar bar = (if bar AND 1 = 0 then Memory else IO)"

section \<open>Enumeration\<close>

fun read_loop :: "'h cpu \<Rightarrow> u32 \<Rightarrow> nat list \<Rightarrow> 'h \<Rightarrow> u32 list \<times> 'h" where
  "read_loop cpu select_addr [] h = ([], h)"
| "read_loop cpu select_addr (idx # is) h =
     (let h = out32 cpu PCI_CONFIG_ADDRESS (select_addr OR of_nat (idx * 4)) h;
          (v, h) = in32 cpu PCI_CONFIG_DATA h;
          (vs, h) = read_loop cpu select_addr is h in (v # vs, h))"

text \<open>The bytes of \<open>n\<close> registers.\<close>

definition read_pci_registers :: "'h cpu \<Rightarrow> nat \<Rightarrow> u32 \<Rightarrow> 'h \<Rightarrow> u8 list \<times> 'h" where
  "read_pci_registers cpu n select_addr h =
     (let (vs, h) = read_loop cpu select_addr [0..<n] h in (concat (map (le_bytes 4) vs), h))"

text \<open>The address of a function, and the order in which they are visited.\<close>

definition select_addr :: "u32 \<times> u32 \<times> u32 \<Rightarrow> u32" where
  "select_addr bdf =
     (case bdf of (bus, device, function) \<Rightarrow>
        push_bit 31 1 OR push_bit 8 (push_bit 8 bus OR push_bit 3 device OR function))"

definition all_functions :: "(u32 \<times> u32 \<times> u32) list" where
  "all_functions =
     concat (map (\<lambda>bus. concat (map (\<lambda>device. map (\<lambda>function. (of_nat bus, of_nat device, of_nat function)) [0..<8])
       [0..<32])) [0..<256])"

text \<open>A probe sees the hardware too; \<open>DEVICES\<close> gets what it returns.\<close>

type_synonym ('d, 'h) probe_pci = "device_config \<Rightarrow> 'h \<Rightarrow> ('d option \<times> 'h) outcome"

fun probe_drivers :: "('d, 'h) probe_pci list \<Rightarrow> device_config \<Rightarrow> 'd list \<times> 'h \<Rightarrow> ('d list \<times> 'h) outcome" where
  "probe_drivers [] cfg s = Done s"
| "probe_drivers (probe # probes) cfg s =
     obind (probe cfg (snd s)) (\<lambda>(d, h).
       probe_drivers probes cfg (case d of Some device \<Rightarrow> (fst s @ [device], h) | None \<Rightarrow> (fst s, h)))"

definition visit_function ::
  "'h cpu \<Rightarrow> ('d, 'h) probe_pci list \<Rightarrow> u32 \<times> u32 \<times> u32 \<Rightarrow> 'd list \<times> 'h \<Rightarrow> ('d list \<times> 'h) outcome" where
  "visit_function cpu drivers bdf s =
     (let addr = select_addr bdf;
          h = out32 cpu PCI_CONFIG_ADDRESS addr (snd s);
          (did_vid, h) = in32 cpu PCI_CONFIG_DATA h in
      if did_vid = - 1 then Done (fst s, h)
      else
        let (bs, h) = read_pci_registers cpu 4 addr h in
        if header_type (header_of bs) AND 0x7F \<noteq> 0 then Done (fst s, h)
        else let (bs, h) = read_pci_registers cpu 16 addr h in probe_drivers drivers (config_of bs) (fst s, h))"

fun visit_functions ::
  "'h cpu \<Rightarrow> ('d, 'h) probe_pci list \<Rightarrow> (u32 \<times> u32 \<times> u32) list \<Rightarrow> 'd list \<times> 'h \<Rightarrow> ('d list \<times> 'h) outcome" where
  "visit_functions cpu drivers [] s = Done s"
| "visit_functions cpu drivers (bdf # bdfs) s =
     obind (visit_function cpu drivers bdf s) (visit_functions cpu drivers bdfs)"

text \<open>\<open>init\<close>, with the hook \<open>finish_probes\<close>.\<close>

definition pci_init ::
  "'h cpu \<Rightarrow> ('d, 'h) probe_pci list \<Rightarrow> ('h \<Rightarrow> 'h outcome option) \<Rightarrow> 'd list \<times> 'h \<Rightarrow> ('d list \<times> 'h) outcome option" where
  "pci_init cpu drivers finish_probes s =
     (case visit_functions cpu drivers all_functions s of
        Panic \<Rightarrow> Some Panic
      | Done (ds, h) \<Rightarrow> map_option (\<lambda>r. obind r (\<lambda>h. Done (ds, h))) (finish_probes h))"

text \<open>\<open>reset_devices\<close> calls \<open>purge\<close> on every device.\<close>

fun reset_devices :: "('d \<Rightarrow> 'h \<Rightarrow> 'h outcome option) \<Rightarrow> 'd list \<Rightarrow> 'h \<Rightarrow> 'h outcome option" where
  "reset_devices purge [] h = Some (Done h)"
| "reset_devices purge (d # ds) h =
     Option.bind (purge d h) (\<lambda>r. case r of Panic \<Rightarrow> Some Panic | Done h \<Rightarrow> reset_devices purge ds h)"

end
