(* ===== verification/Pci_Props.thy ===== *)
theory Pci_Props
  imports Pci
begin

text \<open>
  The enumeration of the PCI bus visits every function once and offers every device to every driver.
\<close>

section \<open>Addresses\<close>

lemma select_addr_fields:
  assumes "unat bus < 2 ^ 8" "unat device < 2 ^ 5" "unat function < 2 ^ 3"
  shows "drop_bit 16 (select_addr (bus, device, function)) AND 0xFF = bus"
    and "drop_bit 11 (select_addr (bus, device, function)) AND 0x1F = device"
    and "drop_bit 8 (select_addr (bus, device, function)) AND 7 = function"
proof -
  have m: "(0xFF :: u32) = mask 8" "(0x1F :: u32) = mask 5" "(7 :: u32) = mask 3" by (simp_all add: mask_eq_exp_minus_1)
  define top :: u32 where "top = push_bit 31 1"
  have top: "\<not> bit top n" if "n < 31" for n using that unfolding top_def bit_push_bit_iff by (simp add: bit_1_iff)
  have hi: "bit bus k \<Longrightarrow> k < 8" "bit device k \<Longrightarrow> k < 5" "bit function k \<Longrightarrow> k < 3" for k
    using small_high_bits [OF assms(1)] small_high_bits [OF assms(2)] small_high_bits [OF assms(3)] by (metis not_less)+
  have sel: "select_addr (bus, device, function) = top OR push_bit 8 (push_bit 8 bus OR push_bit 3 device OR function)"
    by (simp only: select_addr_def top_def prod.case)
  note defs = sel bit_and_iff bit_or_iff bit_drop_bit_eq bit_push_bit_iff bit_mask_iff
  show "drop_bit 16 (select_addr (bus, device, function)) AND 0xFF = bus" unfolding m
    by (rule bit_word_eqI) (auto simp: defs top dest: hi)
  show "drop_bit 11 (select_addr (bus, device, function)) AND 0x1F = device" unfolding m
    by (rule bit_word_eqI) (auto simp: defs top dest: hi)
  show "drop_bit 8 (select_addr (bus, device, function)) AND 7 = function" unfolding m
    by (rule bit_word_eqI) (auto simp: defs top dest: hi)
qed

text \<open>The functions of all buses and devices.\<close>

definition pci_function :: "u32 \<times> u32 \<times> u32 \<Rightarrow> bool" where
  "pci_function bdf \<longleftrightarrow> (case bdf of (bus, device, function) \<Rightarrow> unat bus < 2 ^ 8 \<and> unat device < 2 ^ 5 \<and> unat function < 2 ^ 3)"

lemma select_addr_inj: "pci_function x \<Longrightarrow> pci_function y \<Longrightarrow> select_addr x = select_addr y \<Longrightarrow> x = y"
proof -
  assume "pci_function x" "pci_function y" and e: "select_addr x = select_addr y"
  moreover obtain b d f b' d' f' where xy: "x = (b, d, f)" "y = (b', d', f')" by (cases x; cases y)
  ultimately have b: "unat b < 2 ^ 8" "unat d < 2 ^ 5" "unat f < 2 ^ 3" "unat b' < 2 ^ 8" "unat d' < 2 ^ 5" "unat f' < 2 ^ 3"
    by (simp_all add: pci_function_def)
  show "x = y" using select_addr_fields [OF b(1-3)] select_addr_fields [OF b(4-6)] e unfolding xy by simp
qed

lemma set_all_functions: "set all_functions = {bdf. pci_function bdf}"
proof -
  have u: "unat (of_nat n :: u32) = n" if "n < 256" for n
    using that by (simp add: unsigned_of_nat take_bit_nat_eq_self)
  show ?thesis
  proof (intro set_eqI iffI)
    fix bdf assume "bdf \<in> set all_functions"
    then show "bdf \<in> {bdf. pci_function bdf}" by (auto simp: all_functions_def pci_function_def u)
  next
    fix bdf :: "u32 \<times> u32 \<times> u32" assume "bdf \<in> {bdf. pci_function bdf}"
    moreover obtain b d f where "bdf = (b, d, f)" by (cases bdf)
    ultimately have "bdf = (of_nat (unat b), of_nat (unat d), of_nat (unat f))" "unat b < 256" "unat d < 32" "unat f < 8"
      by (simp_all add: pci_function_def)
    then show "bdf \<in> set all_functions" unfolding all_functions_def set_concat set_map
      by (intro UN_I [of "concat (map (\<lambda>d. map (\<lambda>f. (of_nat (unat b), of_nat d, of_nat f)) [0..<8]) [0..<32])"] imageI)
        (auto intro!: bexI [of _ "unat d"] image_eqI [of _ _ "unat f"])
  qed
qed

lemma distinct_concat_map:
  assumes "distinct xs" "\<And>x. x \<in> set xs \<Longrightarrow> distinct (f x)"
    and "\<And>x y. x \<in> set xs \<Longrightarrow> y \<in> set xs \<Longrightarrow> x \<noteq> y \<Longrightarrow> set (f x) \<inter> set (f y) = {}"
  shows "distinct (concat (map f xs))"
  using assms by (induction xs) fastforce+

lemma of_nat_u32_inj: "n < 256 \<Longrightarrow> m < 256 \<Longrightarrow> (of_nat n :: u32) = of_nat m \<longleftrightarrow> n = m"
  by (simp add: word_unat_eq_iff unsigned_of_nat take_bit_nat_eq_self)

lemma distinct_all_functions: "distinct all_functions"
  unfolding all_functions_def
  by (intro distinct_concat_map) (auto simp: distinct_map inj_on_def of_nat_u32_inj)

section \<open>Configuration space\<close>

text \<open>What the bus relies on: the data port shows the register whose address was written last, whatever else has
  happened to the hardware.\<close>

definition config_space :: "'h cpu \<Rightarrow> (u32 \<Rightarrow> u32) \<Rightarrow> bool" where
  "config_space cpu space \<longleftrightarrow> (\<forall>addr h. fst (in32 cpu PCI_CONFIG_DATA (out32 cpu PCI_CONFIG_ADDRESS addr h)) = space addr)"

definition registers :: "(u32 \<Rightarrow> u32) \<Rightarrow> u32 \<Rightarrow> nat \<Rightarrow> u8 list" where
  "registers space addr n = concat (map (\<lambda>i. le_bytes 4 (space (addr OR of_nat (i * 4)))) [0..<n])"

lemma read_loop_values:
  assumes "config_space cpu space"
  shows "\<exists>h'. read_loop cpu addr is h = (map (\<lambda>i. space (addr OR of_nat (i * 4))) is, h')"
proof (induction "is" arbitrary: h)
  case (Cons i "is")
  obtain h1 where "in32 cpu PCI_CONFIG_DATA (out32 cpu PCI_CONFIG_ADDRESS (addr OR of_nat (i * 4)) h) = (space (addr OR of_nat (i * 4)), h1)"
    using assms unfolding config_space_def by (metis prod.collapse)
  then show ?case using Cons [of h1] by (auto simp: Let_def simp del: of_nat_mult)
qed simp

lemma read_registers:
  "config_space cpu space \<Longrightarrow> \<exists>h'. read_pci_registers cpu n addr h = (registers space addr n, h')"
  using read_loop_values [of cpu space addr "[0..<n]" h] by (auto simp: read_pci_registers_def registers_def o_def)

text \<open>A function that is a device, and its configuration.\<close>

definition is_device :: "(u32 \<Rightarrow> u32) \<Rightarrow> u32 \<times> u32 \<times> u32 \<Rightarrow> bool" where
  "is_device space bdf \<longleftrightarrow> space (select_addr bdf) \<noteq> - 1 \<and> header_type (header_of (registers space (select_addr bdf) 4)) AND 0x7F = 0"

definition device_cfg :: "(u32 \<Rightarrow> u32) \<Rightarrow> u32 \<times> u32 \<times> u32 \<Rightarrow> device_config" where
  "device_cfg space bdf = config_of (registers space (select_addr bdf) 16)"

text \<open>Drivers that accept a device by its configuration.\<close>

definition selects :: "('d, 'h) probe_pci \<Rightarrow> (device_config \<Rightarrow> 'd option) \<Rightarrow> bool" where
  "selects probe f \<longleftrightarrow> (\<forall>cfg h. \<exists>h'. probe cfg h = Done (f cfg, h'))"

lemma probe_drivers_select:
  assumes "list_all2 selects probes fs"
  shows "\<exists>h'. probe_drivers probes cfg (ds, h) = Done (ds @ List.map_filter (\<lambda>f. f cfg) fs, h')"
  using assms
proof (induction probes fs arbitrary: ds h rule: list_all2_induct)
  case Nil
  then show ?case by (simp add: List.map_filter_def)
next
  case (Cons probe probes f fs)
  obtain h1 where "probe cfg h = Done (f cfg, h1)" using Cons(1) unfolding selects_def by blast
  then show ?case using Cons(3) [of "case f cfg of Some d \<Rightarrow> ds @ [d] | None \<Rightarrow> ds" h1]
    by (cases "f cfg") (auto simp: List.map_filter_def)
qed

lemma visit_function_select:
  assumes "config_space cpu space" "list_all2 selects probes fs"
  shows "\<exists>h'. visit_function cpu probes bdf (ds, h)
    = Done (ds @ (if is_device space bdf then List.map_filter (\<lambda>f. f (device_cfg space bdf)) fs else []), h')"
proof -
  obtain h1 where h1: "in32 cpu PCI_CONFIG_DATA (out32 cpu PCI_CONFIG_ADDRESS (select_addr bdf) h) = (space (select_addr bdf), h1)"
    using assms(1) unfolding config_space_def by (metis prod.collapse)
  obtain h2 where h2: "read_pci_registers cpu 4 (select_addr bdf) h1 = (registers space (select_addr bdf) 4, h2)"
    using read_registers [OF assms(1)] by blast
  obtain h3 where h3: "read_pci_registers cpu 16 (select_addr bdf) h2 = (registers space (select_addr bdf) 16, h3)"
    using read_registers [OF assms(1)] by blast
  show ?thesis
    using probe_drivers_select [OF assms(2), of "device_cfg space bdf" ds h3]
    by (auto simp: visit_function_def Let_def h1 h2 h3 is_device_def device_cfg_def)
qed

lemma visit_functions_select:
  assumes "config_space cpu space" "list_all2 selects probes fs"
  shows "\<exists>h'. visit_functions cpu probes bdfs (ds, h)
    = Done (ds @ concat (map (\<lambda>bdf. List.map_filter (\<lambda>f. f (device_cfg space bdf)) fs) (filter (is_device space) bdfs)), h')"
proof (induction bdfs arbitrary: ds h)
  case (Cons bdf bdfs)
  obtain h1 where "visit_function cpu probes bdf (ds, h)
    = Done (ds @ (if is_device space bdf then List.map_filter (\<lambda>f. f (device_cfg space bdf)) fs else []), h1)"
    using visit_function_select [OF assms] by blast
  then show ?case using Cons [of "ds @ (if is_device space bdf then List.map_filter (\<lambda>f. f (device_cfg space bdf)) fs else [])" h1] by auto
qed simp

section \<open>Property\<close>


text \<open>A bus with one network card, which a driver takes by its identifiers.\<close>

definition demo_space :: "u32 \<Rightarrow> u32" where
  "demo_space a = (if a = 0x80001800 then 0x100E8086 else if a = 0x8000180C then 0 else - 1)"

definition demo_pci_cpu :: "u32 cpu" where
  "demo_pci_cpu = \<lparr>asm_rdmsr = (\<lambda>_ h. ((0, 0), h)), asm_wrmsr = (\<lambda>_ _ _ h. h), in8 = (\<lambda>_ h. (0, h)), out8 = (\<lambda>_ _ h. h),
     in32 = (\<lambda>_ h. (demo_space h, h)), out32 = (\<lambda>_ a _. a), volatile_read = (\<lambda>_ h. (0, h)), volatile_write = (\<lambda>_ _ h. h),
     sti = (\<lambda>h. h), cli = (\<lambda>h. h), asm_rdtsc = (\<lambda>h. (0, h))\<rparr>"

definition demo_probe :: "device_config \<Rightarrow> u16 option" where
  "demo_probe cfg = (if vendor_id (cfg_header cfg) = 0x8086 then Some (device_id (cfg_header cfg)) else None)"

lemma select_addr_low: "pci_function bdf \<Longrightarrow> \<not> bit (select_addr bdf) 2"
proof (cases bdf)
  case (fields b d f)
  have "\<not> bit (push_bit 31 (1 :: u32)) 2" by (simp only: bit_push_bit_iff) simp
  then show ?thesis unfolding fields by (simp only: select_addr_def prod.case bit_or_iff bit_push_bit_iff) simp
qed

lemma demo_devices: "filter (is_device demo_space) all_functions = [(0, 3, 0)]"
proof -
  have s: "select_addr (0, 3, 0) = 0x80001800" by (simp add: select_addr_def)
  have dev: "is_device demo_space bdf \<longleftrightarrow> bdf = (0, 3, 0)" if "bdf \<in> set all_functions" for bdf
  proof
    assume "is_device demo_space bdf"
    then have "select_addr bdf = 0x80001800 \<or> select_addr bdf = 0x8000180C" by (auto simp: is_device_def demo_space_def split: if_splits)
    moreover have "bit (0x8000180C :: u32) 2" by simp
    ultimately have "select_addr bdf = select_addr (0, 3, 0)" using select_addr_low that s unfolding set_all_functions by fastforce
    moreover have "pci_function (0, 3, 0)" by (simp add: pci_function_def)
    ultimately show "bdf = (0, 3, 0)" using select_addr_inj that unfolding set_all_functions by blast
  next
    assume "bdf = (0, 3, 0)"
    moreover have "is_device demo_space (0, 3, 0)" by code_simp
    ultimately show "is_device demo_space bdf" by simp
  qed
  have "(0, 3, 0) \<in> set all_functions" unfolding set_all_functions by (simp add: pci_function_def)
  then obtain xs ys where xs: "all_functions = xs @ (0, 3, 0) # ys" by (metis split_list)
  then have "distinct (xs @ (0, 3, 0) # ys)" using distinct_all_functions by metis
  then have "bdf \<noteq> (0, 3, 0)" if "bdf \<in> set xs \<union> set ys" for bdf using that by auto
  then have "filter (is_device demo_space) xs = []" "filter (is_device demo_space) ys = []" "is_device demo_space (0, 3, 0)"
    using dev unfolding filter_empty_conv xs by auto
  then show ?thesis unfolding xs by simp
qed


text \<open>A 64-bit register loses the low four bits of its upper half, which are address bits: a window at 4 GiB is read as
  address 0.\<close>

lemma high_bar_lost: "bits_from_bar 0x00000004 = Bit64" "bar_u64 0x00000004 0x00000001 = 0"
  by (simp_all add: bits_from_bar_def bar_u64_def)

end
