(* ===== verification/Intel.thy ===== *)
theory Intel
  imports Pci Packet Kernel_Mm
begin

text \<open>
  The driver of the Intel network card, \<open>src/kernel/src/net/drivers/intel.rs\<close>, with \<open>sleep\<close> of \<open>src/kernel/src/time.rs\<close>:
  its registers in a mapped window, and the two rings of descriptors that the driver and the card share. Between two
  calls of the driver the card may fill receive descriptors and mark transmit descriptors as done; while the driver
  waits for room in the ring, \<open>device\<close> is what the card does in the meantime.
\<close>

section \<open>Sleeping\<close>

definition cpu_future :: "'h cpu \<Rightarrow> u64 \<Rightarrow> u64 \<Rightarrow> 'h \<Rightarrow> (u64 \<times> 'h) outcome" where
  "cpu_future cpu mhz ms h =
     (let (now, h) = asm_rdtsc cpu h in obind (pmul ms mhz) (\<lambda>d. obind (padd now d) (\<lambda>t. Done (t, h))))"

partial_function (option) sleep_loop :: "'h cpu \<Rightarrow> u64 \<Rightarrow> 'h \<Rightarrow> 'h option" where
  "sleep_loop cpu until h = (case asm_rdtsc cpu h of (now, h) \<Rightarrow> if now < until then sleep_loop cpu until h else Some h)"

definition time_sleep :: "'h cpu \<Rightarrow> u64 \<Rightarrow> u64 \<Rightarrow> 'h \<Rightarrow> 'h outcome option" where
  "time_sleep cpu mhz ms h =
     (case cpu_future cpu mhz ms h of
        Panic \<Rightarrow> Some Panic
      | Done (until, h) \<Rightarrow> map_option Done (sleep_loop cpu until h))"

section \<open>Registers and descriptors\<close>

definition MMIO_SIZE :: u64 where "MMIO_SIZE = 128 * 1024"
definition RX_DESCS_N :: nat where "RX_DESCS_N = 256"
definition TX_DESCS_N :: nat where "TX_DESCS_N = 256"

record nic_registers =
  reg_ctrl :: u64
  reg_imc :: u64
  reg_rctl :: u64
  reg_ral :: u64
  reg_rah :: u64
  reg_rdbal :: u64
  reg_rdbah :: u64
  reg_rdlen :: u64
  reg_rdh :: u64
  reg_rdt :: u64
  reg_tctl :: u64
  reg_tdbal :: u64
  reg_tdbah :: u64
  reg_tdlen :: u64
  reg_tdh :: u64
  reg_tdt :: u64

definition nic_registers_default :: nic_registers where
  "nic_registers_default =
     \<lparr>reg_ctrl = 0x0000, reg_imc = 0x00D8, reg_rctl = 0x0100, reg_ral = 0x5400, reg_rah = 0x5404, reg_rdbal = 0x2800,
      reg_rdbah = 0x2804, reg_rdlen = 0x2808, reg_rdh = 0x2810, reg_rdt = 0x2818, reg_tctl = 0x0400, reg_tdbal = 0x3800,
      reg_tdbah = 0x3804, reg_tdlen = 0x3808, reg_tdh = 0x3810, reg_tdt = 0x3818\<rparr>"

record rx_descriptor =
  rx_addr :: phys_addr
  rx_len :: u16
  rx_checksum :: u16
  rx_status :: u8
  rx_errors :: u8
  rx_special :: u16

definition rx_descriptor_default :: rx_descriptor where
  "rx_descriptor_default = \<lparr>rx_addr = 0, rx_len = 0, rx_checksum = 0, rx_status = 0, rx_errors = 0, rx_special = 0\<rparr>"

record tx_descriptor =
  tx_addr :: phys_addr
  tx_len :: u16
  tx_cso :: u8
  tx_cmd :: u8
  tx_status :: u8
  tx_css :: u8
  tx_special :: u16

definition tx_descriptor_default :: tx_descriptor where
  "tx_descriptor_default = \<lparr>tx_addr = 0, tx_len = 0, tx_cso = 0, tx_cmd = 0, tx_status = 0, tx_css = 0, tx_special = 0\<rparr>"

text \<open>A packet with the physical address of its buffer.\<close>

type_synonym dma_packet = "phys_addr \<times> packet"

text \<open>\<open>Vec\<close> and the boxed arrays are lists; the tables also have their physical addresses.\<close>

record tx_state =
  tx_descs :: "tx_descriptor list"
  tx_phys :: phys_addr
  tx_packets :: "dma_packet option list"
  tx_head :: nat
  tx_tail :: nat

record rx_state =
  rx_descs :: "rx_descriptor list"
  rx_phys :: phys_addr
  rx_packets :: "dma_packet list"
  rx_head :: nat

record intel_nic =
  nic_regs :: nic_registers
  nic_mmio :: virt_addr
  nic_mac :: mac
  nic_rx :: rx_state
  nic_tx :: tx_state
  nic_packets :: "dma_packet list"
  nic_capacity :: nat

section \<open>Register accesses\<close>

definition nic_read :: "'h cpu \<Rightarrow> intel_nic \<Rightarrow> u64 \<Rightarrow> 'h \<Rightarrow> u32 \<times> 'h" where
  "nic_read cpu nic reg h = volatile_read cpu (nic_mmio nic + 4 * (reg div 4)) h"

definition nic_write :: "'h cpu \<Rightarrow> intel_nic \<Rightarrow> u64 \<Rightarrow> u32 \<Rightarrow> 'h \<Rightarrow> 'h" where
  "nic_write cpu nic reg val h = volatile_write cpu (nic_mmio nic + 4 * (reg div 4)) val h"

definition read_high_low :: "'h cpu \<Rightarrow> intel_nic \<Rightarrow> u64 \<Rightarrow> u64 \<Rightarrow> 'h \<Rightarrow> u64 \<times> 'h" where
  "read_high_low cpu nic reg_high reg_low h =
     (let (hi, h) = nic_read cpu nic reg_high h; (lo, h) = nic_read cpu nic reg_low h in
      (push_bit 32 (ucast hi) OR ucast lo, h))"

definition write_high_low :: "'h cpu \<Rightarrow> intel_nic \<Rightarrow> u64 \<Rightarrow> u64 \<Rightarrow> u64 \<Rightarrow> 'h \<Rightarrow> 'h" where
  "write_high_low cpu nic reg_high reg_low val h =
     nic_write cpu nic reg_low (ucast val) (nic_write cpu nic reg_high (ucast (drop_bit 32 val)) h)"

definition nic_disable_interrupts :: "'h cpu \<Rightarrow> intel_nic \<Rightarrow> 'h \<Rightarrow> 'h" where
  "nic_disable_interrupts cpu nic h = nic_write cpu nic (reg_imc (nic_regs nic)) (- 1) h"

text \<open>The size of a table is 16 bytes for each descriptor.\<close>

definition init_receive :: "'h cpu \<Rightarrow> intel_nic \<Rightarrow> 'h \<Rightarrow> 'h outcome" where
  "init_receive cpu nic h =
     (let regs = nic_regs nic; n = length (rx_descs (nic_rx nic));
          h = write_high_low cpu nic (reg_rdbah regs) (reg_rdbal regs) (rx_phys (nic_rx nic)) h;
          h = nic_write cpu nic (reg_rdlen regs) (of_nat (16 * n)) h;
          h = nic_write cpu nic (reg_rdh regs) 0 h in
      obind (psub (of_nat n) 1) (\<lambda>tail.
        let h = nic_write cpu nic (reg_rdt regs) tail h in
        Done (nic_write cpu nic (reg_rctl regs) (push_bit 1 1 OR push_bit 15 1 OR push_bit 16 3 OR push_bit 25 1) h)))"

definition init_transmit :: "'h cpu \<Rightarrow> intel_nic \<Rightarrow> 'h \<Rightarrow> 'h" where
  "init_transmit cpu nic h =
     (let regs = nic_regs nic; n = length (tx_descs (nic_tx nic));
          h = write_high_low cpu nic (reg_tdbah regs) (reg_tdbal regs) (tx_phys (nic_tx nic)) h;
          h = nic_write cpu nic (reg_tdlen regs) (of_nat (16 * n)) h;
          h = nic_write cpu nic (reg_tdh regs) 0 h;
          h = nic_write cpu nic (reg_tdt regs) 0 h in
      nic_write cpu nic (reg_tctl regs) (push_bit 1 1) h)"

definition read_mac :: "'h cpu \<Rightarrow> intel_nic \<Rightarrow> 'h \<Rightarrow> (mac \<times> 'h) outcome" where
  "read_mac cpu nic h =
     (let (ral, h) = nic_read cpu nic (reg_ral (nic_regs nic)) h; (rah, h) = nic_read cpu nic (reg_rah (nic_regs nic)) h in
      assert_that (rah AND push_bit 31 1 \<noteq> 0) (
        Done ([ucast (ral AND 0xFF), ucast (drop_bit 8 ral AND 0xFF), ucast (drop_bit 16 ral AND 0xFF), ucast (drop_bit 24 ral AND 0xFF),
               ucast (rah AND 0xFF), ucast (drop_bit 8 rah AND 0xFF)], h)))"

partial_function (option) reset_wait :: "'h cpu \<Rightarrow> intel_nic \<Rightarrow> 'h \<Rightarrow> 'h option" where
  "reset_wait cpu nic h =
     (case nic_read cpu nic (reg_ctrl (nic_regs nic)) h of (v, h) \<Rightarrow>
        if v AND push_bit 26 1 \<noteq> 0 then reset_wait cpu nic h else Some h)"

definition nic_reset :: "'h cpu \<Rightarrow> u64 \<Rightarrow> intel_nic \<Rightarrow> 'h \<Rightarrow> 'h outcome option" where
  "nic_reset cpu mhz nic h =
     (let h = nic_disable_interrupts cpu nic h; h = nic_write cpu nic (reg_ctrl (nic_regs nic)) (push_bit 26 1) h in
      Option.bind (reset_wait cpu nic h) (\<lambda>h.
        map_option (\<lambda>r. obind r (\<lambda>h. Done (nic_disable_interrupts cpu nic h))) (time_sleep cpu mhz 20000 h)))"

definition nic_purge :: "'h cpu \<Rightarrow> u64 \<Rightarrow> intel_nic \<Rightarrow> 'h \<Rightarrow> 'h outcome option" where
  "nic_purge cpu mhz nic h = nic_reset cpu mhz nic h"

section \<open>Packets\<close>

text \<open>\<open>fresh\<close> is the address of the buffer of a new packet.\<close>

definition nic_allocate_packet :: "phys_addr \<Rightarrow> intel_nic \<Rightarrow> dma_packet \<times> intel_nic" where
  "nic_allocate_packet fresh nic =
     (case rev (nic_packets nic) of
        [] \<Rightarrow> ((fresh, packet_new), nic)
      | p # ps \<Rightarrow> (p, nic\<lparr>nic_packets := rev ps\<rparr>))"

definition nic_release_packet :: "dma_packet \<Rightarrow> intel_nic \<Rightarrow> intel_nic" where
  "nic_release_packet p nic =
     (if length (nic_packets nic) < nic_capacity nic
      then nic\<lparr>nic_packets := nic_packets nic @ [(fst p, packet_clear (snd p))]\<rparr> else nic)"

section \<open>Receiving\<close>

definition nic_recv :: "'h cpu \<Rightarrow> phys_addr \<Rightarrow> intel_nic \<times> 'h \<Rightarrow> (dma_packet option \<times> intel_nic \<times> 'h) outcome" where
  "nic_recv cpu fresh s =
     (let (nic, h) = s; head = rx_head (nic_rx nic) in
      obind (array_get (rx_descs (nic_rx nic)) head) (\<lambda>desc.
      if rx_status desc AND 1 = 0 then Done (None, nic, h)
      else
        assert_that (rx_errors desc = 0) (
        let len = unat (rx_len desc); (new_packet, nic) = nic_allocate_packet fresh nic; rx = nic_rx nic in
        obind (array_get (rx_packets rx) head) (\<lambda>packet.
        obind (array_set (rx_packets rx) head new_packet) (\<lambda>packets.
        obind (array_set (rx_descs rx) head (rx_descriptor_default\<lparr>rx_addr := fst new_packet\<rparr>)) (\<lambda>descs.
          let h = nic_write cpu nic (reg_rdt (nic_regs nic)) (of_nat head) h;
              rx = rx\<lparr>rx_packets := packets, rx_descs := descs, rx_head := (head + 1) mod length descs\<rparr> in
          Done (Some (fst packet, set_len (snd packet) len), nic\<lparr>nic_rx := rx\<rparr>, h)))))))"

section \<open>Sending\<close>

definition PACKET_MIN_SIZE :: nat where "PACKET_MIN_SIZE = 64"

text \<open>The padding: the two slices that are split off, the second one filled with zeros, and the rest.\<close>

definition pad_packet :: "packet \<Rightarrow> packet outcome" where
  "pad_packet p =
     (if plen p < PACKET_MIN_SIZE then
        let needed = PACKET_MIN_SIZE - plen p in
        obind (pc_new p) (\<lambda>c.
        obind (pc_split_at_current c) (\<lambda>(front, c).
        obind (pc_split_at c needed) (\<lambda>(buf, c).
          Done \<lparr>praw = front @ replicate (length buf) 0 @ into_inner (pc_inner c), plen = packet_len c\<rparr>)))
      else Done p)"

text \<open>The new head: one past the last descriptor, from the tail downwards, that is done.\<close>

fun find_done :: "tx_descriptor list \<Rightarrow> nat list \<Rightarrow> nat option outcome" where
  "find_done descs [] = Done None"
| "find_done descs (e # es) =
     obind (array_get descs (e mod length descs)) (\<lambda>d.
       if tx_status d AND 1 \<noteq> 0 then Done (Some (e + 1)) else find_done descs es)"

definition update_head :: "tx_state \<Rightarrow> tx_state outcome" where
  "update_head tx =
     obind (find_done (tx_descs tx) (rev [tx_head tx..<tx_tail tx])) (\<lambda>r.
       Done (case r of None \<Rightarrow> tx | Some e \<Rightarrow> tx\<lparr>tx_head := e\<rparr>))"

definition ring_full :: "tx_state \<Rightarrow> bool" where
  "ring_full tx \<longleftrightarrow> tx_tail tx - tx_head tx \<ge> length (tx_descs tx) - 1"

partial_function (option) wait_room :: "(tx_state \<Rightarrow> tx_state) \<Rightarrow> tx_state \<Rightarrow> tx_state outcome option" where
  "wait_room device tx =
     (if tx_tail tx < tx_head tx then Some Panic
      else if ring_full tx then
        case update_head (device tx) of Panic \<Rightarrow> Some Panic | Done tx \<Rightarrow> wait_room device tx
      else Some (Done tx))"

text \<open>The rest of \<open>send\<close>, when there is room. The counters do not come near \<open>usize::MAX\<close>; the subtraction is checked.\<close>

definition transmit :: "'h cpu \<Rightarrow> dma_packet \<Rightarrow> bool \<Rightarrow> intel_nic \<times> 'h \<Rightarrow> (intel_nic \<times> 'h) outcome" where
  "transmit cpu packet flush s =
     (let (nic, h) = s; tx = nic_tx nic; n = length (tx_descs tx); idx = tx_tail tx mod n in
      obind (array_set (tx_descs tx) idx
          (tx_descriptor_default\<lparr>tx_cmd := push_bit 3 1 OR push_bit 1 1 OR push_bit 0 1, tx_addr := fst packet,
             tx_len := of_nat (plen (snd packet))\<rparr>)) (\<lambda>descs.
      obind (array_get (tx_packets tx) idx) (\<lambda>old.
      obind (array_set (tx_packets tx) idx (Some packet)) (\<lambda>packets.
        let nic = (case old of None \<Rightarrow> nic | Some old \<Rightarrow> nic_release_packet old nic);
            tx = tx\<lparr>tx_descs := descs, tx_packets := packets, tx_tail := tx_tail tx + 1\<rparr>;
            nic = nic\<lparr>nic_tx := tx\<rparr> in
        assert_that (tx_head tx \<le> tx_tail tx) (
          Done (nic, if flush \<or> tx_tail tx - tx_head tx = n - 1
                     then nic_write cpu nic (reg_tdt (nic_regs nic)) (of_nat (tx_tail tx mod n)) h else h))))))"

definition nic_send ::
  "'h cpu \<Rightarrow> (tx_state \<Rightarrow> tx_state) \<Rightarrow> dma_packet \<Rightarrow> bool \<Rightarrow> intel_nic \<times> 'h \<Rightarrow> (intel_nic \<times> 'h) outcome option" where
  "nic_send cpu device packet flush s =
     (case pad_packet (snd packet) of
        Panic \<Rightarrow> Some Panic
      | Done p \<Rightarrow>
          Option.bind (wait_room device (nic_tx (fst s))) (\<lambda>r.
            Some (obind r (\<lambda>tx. transmit cpu (fst packet, p) flush ((fst s)\<lparr>nic_tx := tx\<rparr>, snd s)))))"

section \<open>Creation\<close>

fun map_mmio :: "node_layout \<Rightarrow> page_table \<Rightarrow> virt_addr \<Rightarrow> phys_addr \<Rightarrow> phys_addr list \<Rightarrow> kmachine \<Rightarrow> kmachine outcome" where
  "map_mmio L table vaddr phys [] st = Done st"
| "map_mmio L table vaddr phys (paddr # ps) st =
     obind (padd vaddr (paddr - phys)) (\<lambda>v.
     obind (map_raw (kernel_mem L) st table v Page4K
              (paddr OR PAGE_NXE OR PAGE_WRITE OR PAGE_CACHE_DISABLE OR PAGE_PRESENT)) (\<lambda>(res, st).
     obind (unwrap_result res) (\<lambda>_. map_mmio L table vaddr phys ps st)))"

text \<open>\<open>Packet::new\<close>, with the address of its page.\<close>

definition new_dma_packet :: "node_layout \<Rightarrow> kmachine \<Rightarrow> (dma_packet \<times> kmachine) outcome" where
  "new_dma_packet L st = obind (contig_new L (replicate 4096 0) st) (\<lambda>(c, st). Done ((cpa_paddr c, packet_new), st))"

fun new_rx_bufs :: "node_layout \<Rightarrow> nat \<Rightarrow> kmachine \<Rightarrow> (dma_packet list \<times> kmachine) outcome" where
  "new_rx_bufs L 0 st = Done ([], st)"
| "new_rx_bufs L (Suc n) st =
     obind (new_dma_packet L st) (\<lambda>(p, st). obind (new_rx_bufs L n st) (\<lambda>(ps, st). Done (p # ps, st)))"

text \<open>The window of the registers.\<close>

definition nic_map :: "node_layout \<Rightarrow> device_config \<Rightarrow> kmachine \<Rightarrow> (virt_addr \<times> kmachine) outcome" where
  "nic_map L cfg st =
     assert_that (type_from_bar (bar0 cfg) = Memory) (
       let phys = bar_u64 (bar0 cfg) (bar1 cfg) in
       obind (is_aligned_to_page phys Page4K) (\<lambda>aligned. assert_that aligned (
       obind (receive_vaddr_4k MMIO_SIZE (fst st)) (\<lambda>(vaddr, k).
       obind (unwrap (ks_kernel_pt k)) (\<lambda>table.
       obind (unwrap (checked_add phys MMIO_SIZE)) (\<lambda>_.
       obind (map_mmio L table vaddr phys (map (\<lambda>i. phys + of_nat (4096 * i)) [0..<32]) (k, snd st)) (\<lambda>st.
         Done (vaddr, st))))))))"

text \<open>The structure before the card is reset; \<open>capacity\<close> is what the vector of free packets got, at least 512.\<close>

definition nic_state :: "nat \<Rightarrow> virt_addr \<Rightarrow> phys_addr \<Rightarrow> phys_addr \<Rightarrow> dma_packet list \<Rightarrow> intel_nic" where
  "nic_state capacity mmio rx_table tx_table bufs =
     \<lparr>nic_regs = nic_registers_default, nic_mmio = mmio, nic_mac = replicate 6 0,
      nic_rx = \<lparr>rx_descs = map (\<lambda>p. rx_descriptor_default\<lparr>rx_addr := fst p\<rparr>) bufs, rx_phys = rx_table, rx_packets = bufs, rx_head = 0\<rparr>,
      nic_tx = \<lparr>tx_descs = replicate TX_DESCS_N tx_descriptor_default, tx_phys = tx_table,
                tx_packets = replicate TX_DESCS_N None, tx_head = 0, tx_tail = 0\<rparr>,
      nic_packets = [], nic_capacity = capacity\<rparr>"

definition intel_new ::
  "'h cpu \<Rightarrow> u64 \<Rightarrow> node_layout \<Rightarrow> nat \<Rightarrow> device_config \<Rightarrow> kmachine \<times> 'h \<Rightarrow> (intel_nic \<times> kmachine \<times> 'h) outcome option" where
  "intel_new cpu mhz L capacity cfg s =
     (case obind (nic_map L cfg (fst s)) (\<lambda>(mmio, st).
           obind (contig_new L (replicate (16 * RX_DESCS_N) 0) st) (\<lambda>(rx_table, st).
           obind (new_rx_bufs L RX_DESCS_N st) (\<lambda>(bufs, st).
           obind (contig_new L (replicate (16 * TX_DESCS_N) 0) st) (\<lambda>(tx_table, st).
             Done (nic_state capacity mmio (cpa_paddr rx_table) (cpa_paddr tx_table) bufs, st))))) of
        Panic \<Rightarrow> Some Panic
      | Done (nic, st) \<Rightarrow>
          map_option (\<lambda>r.
              obind r (\<lambda>h.
              obind (init_receive cpu nic h) (\<lambda>h.
              obind (read_mac cpu nic (init_transmit cpu nic h)) (\<lambda>(mac, h).
                Done (nic\<lparr>nic_mac := mac\<rparr>, st, h)))))
            (nic_reset cpu mhz nic (snd s)))"

text \<open>\<open>register\<close> is the registration of a network device.\<close>

definition nic_probe ::
  "(device_config \<Rightarrow> 's \<Rightarrow> (intel_nic \<times> 's) outcome option) \<Rightarrow> (intel_nic \<Rightarrow> 's \<Rightarrow> 's outcome) \<Rightarrow> device_config \<Rightarrow> 's
    \<Rightarrow> (intel_nic option \<times> 's) outcome option" where
  "nic_probe new register cfg s =
     (if (0x8086, 0x100E) = (vendor_id (cfg_header cfg), device_id (cfg_header cfg)) then
        map_option (\<lambda>r. obind r (\<lambda>(nic, s). obind (register nic s) (\<lambda>s. Done (Some nic, s)))) (new cfg s)
      else Some (Done (None, s)))"

end
