(* ===== verification/Intel_Props.thy ===== *)
theory Intel_Props
  imports Intel "HOL-Library.Multiset"
begin

text \<open>
  The receive ring of the network card is a queue of frames, and the transmit ring never gives away a buffer that the
  card has not sent.
\<close>

section \<open>Indices of a ring\<close>

text \<open>The slot that is \<open>k\<close> places after slot \<open>i\<close>.\<close>

definition slot :: "nat \<Rightarrow> nat \<Rightarrow> nat" where
  "slot i k = (if i + k < 256 then i + k else i + k - 256)"

lemma slot_mod: "i < 256 \<Longrightarrow> k < 256 \<Longrightarrow> (i + k) mod 256 = slot i k"
  by (simp add: slot_def mod_if)

lemma slot_less: "i < 256 \<Longrightarrow> k < 256 \<Longrightarrow> slot i k < 256"
  by (auto simp: slot_def)

lemma slot_eq: "j < 256 \<Longrightarrow> k < 256 \<Longrightarrow> slot i j = slot i k \<longleftrightarrow> j = k"
  by (auto simp: slot_def split: if_splits)

lemma slot_next: "i < 256 \<Longrightarrow> k < 255 \<Longrightarrow> slot (slot i 1) k = slot i (Suc k)"
  by (auto simp: slot_def)

lemma slot_last: "i < 256 \<Longrightarrow> slot (slot i 1) 255 = i"
  by (auto simp: slot_def)

lemma slot_0: "i < 256 \<Longrightarrow> slot i 0 = i"
  by (simp add: slot_def)

section \<open>Receiving\<close>

text \<open>The state of the driver, of the hardware, and the packets that are leased out. \<open>rdh\<close> and \<open>rdt\<close> are the head and the
  tail the card works with.\<close>

type_synonym 'h rx_system = "intel_nic \<times> 'h \<times> dma_packet list"

text \<open>The address of a buffer that is neither in the ring nor free nor leased.\<close>

definition unused :: "phys_addr \<Rightarrow> intel_nic \<Rightarrow> dma_packet list \<Rightarrow> bool" where
  "unused a nic leased \<longleftrightarrow> a \<notin> fst ` (set (rx_packets (nic_rx nic)) \<union> set (nic_packets nic) \<union> set leased)"

definition fill_packet :: "u8 list \<Rightarrow> packet \<Rightarrow> packet" where
  "fill_packet bytes p = p\<lparr>praw := bytes @ drop (length bytes) (praw p)\<rparr>"

text \<open>The card puts a frame into the buffer of the descriptor at its head, if that is not the tail, and marks the
  descriptor.\<close>

definition card_fills :: "('h \<Rightarrow> nat) \<Rightarrow> ('h \<Rightarrow> nat) \<Rightarrow> u8 list \<Rightarrow> 'h rx_system \<Rightarrow> 'h rx_system \<Rightarrow> bool" where
  "card_fills rdh rdt bytes s s' \<longleftrightarrow>
     (case (s, s') of ((nic, h, leased), (nic', h', leased')) \<Rightarrow>
        let i = rdh h; rx = nic_rx nic; d = rx_descs rx ! i in
        i \<noteq> rdt h \<and> length bytes \<le> 1522
        \<and> nic' = nic\<lparr>nic_rx := rx\<lparr>
             rx_descs := (rx_descs rx)[i := d\<lparr>rx_len := of_nat (length bytes), rx_status := 1, rx_errors := 0\<rparr>],
             rx_packets := map (\<lambda>(a, p). (a, if a = rx_addr d then fill_packet bytes p else p)) (rx_packets rx)\<rparr>\<rparr>
        \<and> rdh h' = (i + 1) mod 256 \<and> rdt h' = rdt h \<and> leased' = leased)"

text \<open>What can happen: the card receives a frame, the driver is asked for one, and the packets go out and come back.\<close>

datatype rx_event = Frame "u8 list" | Received "u8 list option" | Handed_Out | Given_Back

definition frame_of :: "dma_packet \<Rightarrow> u8 list outcome" where
  "frame_of p = packet_raw (snd p)"

inductive rx_step :: "'h cpu \<Rightarrow> ('h \<Rightarrow> nat) \<Rightarrow> ('h \<Rightarrow> nat) \<Rightarrow> rx_event \<Rightarrow> 'h rx_system \<Rightarrow> 'h rx_system \<Rightarrow> bool"
  for cpu :: "'h cpu" and rdh rdt :: "'h \<Rightarrow> nat" where
  frame: "card_fills rdh rdt bytes s s' \<Longrightarrow> rx_step cpu rdh rdt (Frame bytes) s s'"
| nothing: "nic_recv cpu fresh (nic, h) = Done (None, nic', h') \<Longrightarrow>
    unused fresh nic leased \<Longrightarrow>
    rx_step cpu rdh rdt (Received None) (nic, h, leased) (nic', h', leased)"
| received: "nic_recv cpu fresh (nic, h) = Done (Some p, nic', h') \<Longrightarrow> frame_of p = Done bytes \<Longrightarrow>
    unused fresh nic leased \<Longrightarrow>
    rx_step cpu rdh rdt (Received (Some bytes)) (nic, h, leased) (nic', h', p # leased)"
| handed_out: "nic_allocate_packet fresh nic = (p, nic') \<Longrightarrow>
    unused fresh nic leased \<Longrightarrow>
    rx_step cpu rdh rdt Handed_Out (nic, h, leased) (nic', h, p # leased)"
| given_back: "(a, p) \<in> set leased \<Longrightarrow> length (praw p') = 4096 \<Longrightarrow>
    rx_step cpu rdh rdt Given_Back (nic, h, leased) (nic_release_packet (a, p') nic, h, remove1 (a, p) leased)"

inductive rx_run :: "'h cpu \<Rightarrow> ('h \<Rightarrow> nat) \<Rightarrow> ('h \<Rightarrow> nat) \<Rightarrow> rx_event list \<Rightarrow> 'h rx_system \<Rightarrow> 'h rx_system \<Rightarrow> bool"
  for cpu :: "'h cpu" and rdh rdt :: "'h \<Rightarrow> nat" where
  rx_done: "rx_run cpu rdh rdt [] s s"
| rx_more: "rx_step cpu rdh rdt e s s1 \<Longrightarrow> rx_run cpu rdh rdt es s1 s' \<Longrightarrow> rx_run cpu rdh rdt (e # es) s s'"

text \<open>The specification: a queue of at most 255 frames.\<close>

fun queue_step :: "rx_event \<Rightarrow> u8 list list \<Rightarrow> u8 list list option" where
  "queue_step (Frame bytes) q = (if length q < 255 then Some (q @ [bytes]) else None)"
| "queue_step (Received None) q = (if q = [] then Some [] else None)"
| "queue_step (Received (Some bytes)) q = (case q of [] \<Rightarrow> None | x # xs \<Rightarrow> if x = bytes then Some xs else None)"
| "queue_step Handed_Out q = Some q"
| "queue_step Given_Back q = Some q"

fun queue_run :: "rx_event list \<Rightarrow> u8 list list \<Rightarrow> u8 list list option" where
  "queue_run [] q = Some q"
| "queue_run (e # es) q = Option.bind (queue_step e q) (queue_run es)"

text \<open>The invariant. Slot \<open>k\<close> of the ring, counted from the head of the driver, holds the \<open>k\<close>-th frame of the queue.\<close>

definition slot_holds :: "rx_state \<Rightarrow> nat \<Rightarrow> u8 list \<Rightarrow> bool" where
  "slot_holds rx i bytes \<longleftrightarrow>
     (let d = rx_descs rx ! i in
      rx_status d AND 1 \<noteq> 0 \<and> rx_errors d = 0 \<and> unat (rx_len d) = length bytes \<and> length bytes \<le> 1522
      \<and> take (length bytes) (praw (snd (rx_packets rx ! i))) = bytes)"

definition rx_shape :: "rx_state \<Rightarrow> bool" where
  "rx_shape rx \<longleftrightarrow> length (rx_descs rx) = 256 \<and> length (rx_packets rx) = 256 \<and> rx_head rx < 256
     \<and> (\<forall>i < 256. rx_addr (rx_descs rx ! i) = fst (rx_packets rx ! i))
     \<and> (\<forall>p \<in> set (rx_packets rx). length (praw (snd p)) = 4096)"

definition buffers_ok :: "intel_nic \<Rightarrow> dma_packet list \<Rightarrow> bool" where
  "buffers_ok nic leased \<longleftrightarrow> distinct (map fst (rx_packets (nic_rx nic) @ nic_packets nic @ leased))
     \<and> (\<forall>p \<in> set (nic_packets nic). length (praw (snd p)) = 4096)"

definition rx_inv :: "virt_addr \<Rightarrow> ('h \<Rightarrow> nat) \<Rightarrow> ('h \<Rightarrow> nat) \<Rightarrow> 'h rx_system \<Rightarrow> u8 list list \<Rightarrow> bool" where
  "rx_inv mmio rdh rdt s q \<longleftrightarrow>
     (case s of (nic, h, leased) \<Rightarrow>
        let rx = nic_rx nic in
        rx_shape rx \<and> buffers_ok nic leased \<and> nic_regs nic = nic_registers_default \<and> nic_mmio nic = mmio \<and> length q \<le> 255
        \<and> rdh h = slot (rx_head rx) (length q) \<and> rdt h = slot (rx_head rx) 255
        \<and> (\<forall>k < length q. slot_holds rx (slot (rx_head rx) k) (q ! k))
        \<and> (\<forall>k. length q \<le> k \<and> k < 256 \<longrightarrow> rx_status (rx_descs rx ! slot (rx_head rx) k) = 0))"

text \<open>What the card does to the ring.\<close>

definition filled :: "nat \<Rightarrow> u8 list \<Rightarrow> rx_state \<Rightarrow> rx_state" where
  "filled i bytes rx = rx\<lparr>
     rx_descs := (rx_descs rx)[i := (rx_descs rx ! i)\<lparr>rx_len := of_nat (length bytes), rx_status := 1, rx_errors := 0\<rparr>],
     rx_packets := map (\<lambda>(a, p). (a, if a = rx_addr (rx_descs rx ! i) then fill_packet bytes p else p)) (rx_packets rx)\<rparr>"

lemma filled_shape:
  assumes "rx_shape rx" "i < 256" "length bytes \<le> 1522"
  shows "rx_shape (filled i bytes rx)"
  using assms by (auto simp: rx_shape_def filled_def nth_list_update fill_packet_def case_prod_beta split: if_splits)

lemma filled_addresses: "map fst (rx_packets (filled i bytes rx)) = map fst (rx_packets rx)"
  by (simp add: filled_def case_prod_beta o_def)

lemma filled_slot:
  assumes "rx_shape rx" "i < 256" "length bytes \<le> 1522"
  shows "slot_holds (filled i bytes rx) i bytes"
proof -
  have "fst (rx_packets rx ! i) = rx_addr (rx_descs rx ! i)" "length (rx_descs rx) = 256" "length (rx_packets rx) = 256"
    using assms by (simp_all add: rx_shape_def)
  moreover have "unat (of_nat (length bytes) :: u16) = length bytes" using assms(3) by (simp add: unsigned_of_nat take_bit_nat_eq_self)
  ultimately show ?thesis using assms(2,3) by (simp add: slot_holds_def filled_def Let_def case_prod_beta fill_packet_def)
qed

lemma filled_other:
  assumes "rx_shape rx" "distinct (map fst (rx_packets rx))" "i < 256" "j < 256" "i \<noteq> j"
  shows "rx_descs (filled i bytes rx) ! j = rx_descs rx ! j" "rx_packets (filled i bytes rx) ! j = rx_packets rx ! j"
proof -
  have l: "length (rx_descs rx) = 256" "length (rx_packets rx) = 256" "fst (rx_packets rx ! i) = rx_addr (rx_descs rx ! i)"
    using assms(1,3) by (simp_all add: rx_shape_def)
  have "fst (rx_packets rx ! j) \<noteq> fst (rx_packets rx ! i)"
    using assms(2-5) l(2) by (metis distinct_conv_nth length_map nth_map)
  then show "rx_packets (filled i bytes rx) ! j = rx_packets rx ! j"
    using assms(4) l by (simp add: filled_def case_prod_beta)
  show "rx_descs (filled i bytes rx) ! j = rx_descs rx ! j" using assms(5) by (simp add: filled_def)
qed

lemma frame_inv:
  assumes inv: "rx_inv mmio rdh rdt (nic, h, leased) q" and fill: "card_fills rdh rdt bytes (nic, h, leased) (nic', h', leased')"
  shows "length q < 255 \<and> rx_inv mmio rdh rdt (nic', h', leased') (q @ [bytes])"
proof -
  define rx where "rx = nic_rx nic"
  define i where "i = rdh h"
  have c: "i \<noteq> rdt h" "length bytes \<le> 1522" "rdh h' = (i + 1) mod 256" "rdt h' = rdt h" "leased' = leased"
    and nic': "nic' = nic\<lparr>nic_rx := filled i bytes rx\<rparr>"
    using fill unfolding card_fills_def Let_def filled_def by (simp_all add: i_def rx_def)
  have v: "rx_shape rx" "buffers_ok nic leased" "length q \<le> 255" "i = slot (rx_head rx) (length q)" "rdt h = slot (rx_head rx) 255"
    "\<And>k. k < length q \<Longrightarrow> slot_holds rx (slot (rx_head rx) k) (q ! k)"
    "\<And>k. length q \<le> k \<Longrightarrow> k < 256 \<Longrightarrow> rx_status (rx_descs rx ! slot (rx_head rx) k) = 0"
    using inv unfolding rx_inv_def Let_def by (simp_all add: rx_def i_def)
  have rg: "nic_regs nic = nic_registers_default" "nic_mmio nic = mmio" using inv by (simp_all add: rx_inv_def Let_def)
  have hd: "rx_head rx < 256" "rx_head (filled i bytes rx) = rx_head rx" using v(1) by (simp_all add: rx_shape_def filled_def)
  have len: "length q < 255" using c(1) v(3-5) by (cases "length q = 255") auto
  have i: "i < 256" using v(4) hd len by (simp add: slot_less)
  have dist: "distinct (map fst (rx_packets rx))" using v(2) by (simp add: buffers_ok_def rx_def)
  have ne: "i \<noteq> slot (rx_head rx) k" "slot (rx_head rx) k < 256" if "k < 256" "k \<noteq> length q" for k
    using that v(4) len hd by (auto simp: slot_eq slot_less)
  have "slot_holds (filled i bytes rx) (slot (rx_head rx) k) ((q @ [bytes]) ! k)" if "k < Suc (length q)" for k
  proof (cases "k = length q")
    case True
    then show ?thesis using filled_slot [OF v(1) i c(2)] v(4) by simp
  next
    case False
    then show ?thesis using v(6) [of k] that len filled_other [OF v(1) dist i ne(2,1), of k bytes]
      by (simp add: slot_holds_def Let_def nth_append)
  qed
  moreover have "rx_status (rx_descs (filled i bytes rx) ! slot (rx_head rx) k) = 0" if "Suc (length q) \<le> k" "k < 256" for k
    using v(7) [of k] that filled_other(1) [OF v(1) dist i ne(2,1), of k bytes] by simp
  moreover have "buffers_ok nic' leased" using v(2) filled_addresses unfolding nic' by (simp add: buffers_ok_def rx_def)
  moreover have "rdh h' = slot (rx_head rx) (Suc (length q))"
    using c(3) v(4) hd(1) len by (auto simp: slot_def mod_if)
  ultimately show ?thesis using filled_shape [OF v(1) i c(2)] hd(2) c(4,5) v(5) len rg unfolding rx_inv_def nic' by simp
qed

text \<open>The card takes its head and its tail from the registers that the driver writes: a write to another register of the window
  does not change them.\<close>

definition receive_registers :: "'h cpu \<Rightarrow> virt_addr \<Rightarrow> ('h \<Rightarrow> nat) \<Rightarrow> ('h \<Rightarrow> nat) \<Rightarrow> bool" where
  "receive_registers cpu mmio rdh rdt \<longleftrightarrow> (\<forall>h v r. r < 0x8000 \<longrightarrow>
     rdt (volatile_write cpu (mmio + 4 * r) v h) = (if r = 0xA06 then unat v else rdt h)
     \<and> rdh (volatile_write cpu (mmio + 4 * r) v h) = (if r = 0xA04 then unat v else rdh h))"

lemma register_written:
  assumes "receive_registers cpu (nic_mmio nic) rdh rdt" "reg div 4 < 0x8000"
  shows "rdt (nic_write cpu nic reg v h) = (if reg div 4 = 0xA06 then unat v else rdt h)"
    and "rdh (nic_write cpu nic reg v h) = (if reg div 4 = 0xA04 then unat v else rdh h)"
  using assms unfolding receive_registers_def nic_write_def by auto

lemma allocate_packet_ok:
  assumes "nic_allocate_packet fresh nic = (p, nic1)" "buffers_ok nic leased"
    and "unused fresh nic leased"
  shows "nic_rx nic1 = nic_rx nic" "nic_regs nic1 = nic_regs nic" "nic_mmio nic1 = nic_mmio nic" "buffers_ok nic1 (p # leased)"
    and "length (praw (snd p)) = 4096"
proof -
  have "nic_rx nic1 = nic_rx nic \<and> nic_regs nic1 = nic_regs nic \<and> nic_mmio nic1 = nic_mmio nic \<and> buffers_ok nic1 (p # leased)
    \<and> length (praw (snd p)) = 4096"
  proof (cases "rev (nic_packets nic)")
    case Nil
    then show ?thesis using assms by (force simp: nic_allocate_packet_def buffers_ok_def packet_new_def unused_def)
  next
    case (Cons x xs)
    then have "nic_packets nic = rev xs @ [x]" by (simp add: rev_eq_Cons_iff)
    moreover have "p = x" "nic1 = nic\<lparr>nic_packets := rev xs\<rparr>" using assms(1) Cons by (simp_all add: nic_allocate_packet_def)
    ultimately show ?thesis using assms(2) unfolding buffers_ok_def by (simp add: disjoint_iff)
  qed
  then show "nic_rx nic1 = nic_rx nic" "nic_regs nic1 = nic_regs nic" "nic_mmio nic1 = nic_mmio nic" "buffers_ok nic1 (p # leased)"
    "length (praw (snd p)) = 4096" by blast+
qed

text \<open>Two buffers change places.\<close>

lemma distinct_swap:
  assumes "distinct (xs @ ys @ y # zs)" "i < length xs"
  shows "distinct (xs[i := y] @ ys @ xs ! i # zs)"
proof -
  have "mset (xs[i := y]) + {#xs ! i#} = mset xs + {#y#}" using assms(2) by (simp add: mset_update)
  then have "mset (xs[i := y] @ ys @ xs ! i # zs) = mset (xs @ ys @ y # zs)" by (simp add: add.commute add.left_commute) 
  then show ?thesis using assms(1) mset_eq_imp_distinct_iff by blast
qed

lemma recv_empty:
  assumes "rx_inv mmio rdh rdt (nic, h, leased) []"
  shows "nic_recv cpu fresh (nic, h) = Done (None, nic, h)"
proof -
  have "rx_shape (nic_rx nic)" "rx_status (rx_descs (nic_rx nic) ! rx_head (nic_rx nic)) = 0"
    using assms by (auto simp: rx_inv_def Let_def rx_shape_def slot_0 dest: spec [of _ 0])
  then show ?thesis by (simp add: nic_recv_def array_get_def rx_shape_def Let_def)
qed

lemma recv_frame:
  assumes inv: "rx_inv mmio rdh rdt (nic, h, leased) (x # xs)" and tail: "receive_registers cpu mmio rdh rdt"
    and fresh: "unused fresh nic leased"
  shows "\<exists>p nic' h'. nic_recv cpu fresh (nic, h) = Done (Some p, nic', h') \<and> frame_of p = Done x \<and> rx_inv mmio rdh rdt (nic', h', p # leased) xs"
proof -
  define rx where "rx = nic_rx nic"
  define i where "i = rx_head rx"
  obtain np nic1 where al: "nic_allocate_packet fresh nic = (np, nic1)" by fastforce
  have v: "rx_shape rx" "buffers_ok nic leased" "length xs \<le> 254" "rdh h = slot i (Suc (length xs))" "rdt h = slot i 255"
    "\<And>k. k < Suc (length xs) \<Longrightarrow> slot_holds rx (slot i k) ((x # xs) ! k)"
    "\<And>k. Suc (length xs) \<le> k \<Longrightarrow> k < 256 \<Longrightarrow> rx_status (rx_descs rx ! slot i k) = 0"
    and rg: "nic_regs nic = nic_registers_default" "nic_mmio nic = mmio"
    using inv unfolding rx_inv_def Let_def by (simp_all add: rx_def i_def)
  note a = allocate_packet_ok [OF al v(2) fresh]
  have l: "length (rx_descs rx) = 256" "length (rx_packets rx) = 256" "i < 256" using v(1) by (simp_all add: rx_shape_def i_def)
  have "slot_holds rx i x" using v(6) [of 0] l(3) by (simp add: slot_0)
  then have d: "rx_status (rx_descs rx ! i) AND 1 \<noteq> 0" "rx_errors (rx_descs rx ! i) = 0" "unat (rx_len (rx_descs rx ! i)) = length x"
    "length x \<le> 1522" "take (length x) (praw (snd (rx_packets rx ! i))) = x" by (simp_all add: slot_holds_def Let_def)
  define p where "p = (fst (rx_packets rx ! i), set_len (snd (rx_packets rx ! i)) (length x))"
  define rx' where "rx' = rx\<lparr>rx_packets := (rx_packets rx)[i := np], rx_descs := (rx_descs rx)[i := rx_descriptor_default\<lparr>rx_addr := fst np\<rparr>],
    rx_head := slot i 1\<rparr>"
  define h' where "h' = nic_write cpu nic1 (reg_rdt (nic_regs nic1)) (of_nat i) h"
  have sl: "(i + 1) mod 256 = slot i 1" using slot_mod [of i 1] l(3) by simp
  have run: "nic_recv cpu fresh (nic, h) = Done (Some p, nic1\<lparr>nic_rx := rx'\<rparr>, h')"
    using d(1-3) l al a(1) sl
    by (simp add: nic_recv_def Let_def rx_def [symmetric] i_def [symmetric] array_get_def array_set_def p_def rx'_def h'_def del: One_nat_def)
  have "length (praw (snd (rx_packets rx ! i))) = 4096" using v(1) l(2,3) by (simp add: rx_shape_def)
  then have frame: "frame_of p = Done x" using d(4,5) by (simp add: frame_of_def p_def packet_raw_def set_len_def slice_def)
  have shape: "rx_shape rx'"
    using v(1) l a(5) set_update_subset_insert [of "rx_packets rx" i np] slot_less [of i 1]
    by (auto simp: rx_shape_def rx'_def nth_list_update)
  have "distinct (map fst (rx_packets rx) @ map fst (nic_packets nic1) @ fst np # map fst leased)"
    using a(4) by (simp add: buffers_ok_def a(1) rx_def)
  from distinct_swap [OF this, of i] have "buffers_ok (nic1\<lparr>nic_rx := rx'\<rparr>) (p # leased)"
    using a(4) l by (simp add: buffers_ok_def rx'_def p_def map_update)
  moreover have "rdt h' = slot (slot i 1) 255" "rdh h' = slot (slot i 1) (length xs)"
    using tail a(2,3) rg l(3) v(3,4) slot_next [of i "length xs"] slot_last [of i]
    by (simp_all add: register_written h'_def nic_registers_default_def unsigned_of_nat take_bit_nat_eq_self)
  moreover have "slot_holds rx' (slot (slot i 1) k) (xs ! k)" if "k < length xs" for k
  proof -
    have "slot (slot i 1) k = slot i (Suc k)" "slot i (Suc k) \<noteq> i" using that v(3) l(3) slot_next [of i k] slot_eq [of "Suc k" 0 i] by (simp_all add: slot_0)
    then show ?thesis using v(6) [of "Suc k"] that by (simp add: slot_holds_def rx'_def Let_def)
  qed
  moreover have "rx_status (rx_descs rx' ! slot (slot i 1) k) = 0" if "length xs \<le> k" "k < 256" for k
  proof (cases "k = 255")
    case True
    then show ?thesis using l slot_last [of i] by (simp add: rx'_def rx_descriptor_default_def)
  next
    case False
    then have "slot (slot i 1) k = slot i (Suc k)" "slot i (Suc k) \<noteq> i" using that l(3) slot_next [of i k] slot_eq [of "Suc k" 0 i] by (simp_all add: slot_0)
    then show ?thesis using v(7) [of "Suc k"] that False by (simp add: rx'_def)
  qed
  ultimately have "rx_inv mmio rdh rdt (nic1\<lparr>nic_rx := rx'\<rparr>, h', p # leased) xs"
    using shape v(3) rg a(2,3) unfolding rx_inv_def Let_def by (simp add: rx'_def)
  then show ?thesis using run frame by blast
qed

text \<open>A packet that comes back.\<close>

lemma remove1_buffers:
  assumes "distinct (map fst (xs @ ys))" "(a, p) \<in> set ys"
  shows "distinct (map fst (xs @ [(a, p')] @ remove1 (a, p) ys))" "distinct (map fst (xs @ remove1 (a, p) ys))"
proof -
  have "add_mset (a, p) (mset (remove1 (a, p) ys)) = mset ys" using assms(2) by simp
  then have "mset (map fst ys) = add_mset a (mset (map fst (remove1 (a, p) ys)))"
    by (metis fst_conv image_mset_add_mset mset_map)
  then have "mset (map fst (xs @ ys)) = mset (map fst (xs @ [(a, p')] @ remove1 (a, p) ys))" by simp
  then show "distinct (map fst (xs @ [(a, p')] @ remove1 (a, p) ys))" using assms(1) mset_eq_imp_distinct_iff by blast
  then show "distinct (map fst (xs @ remove1 (a, p) ys))" by simp
qed

lemma release_packet_ok:
  assumes "buffers_ok nic leased" "(a, p) \<in> set leased" "length (praw p') = 4096"
  shows "buffers_ok (nic_release_packet (a, p') nic) (remove1 (a, p) leased)"
    and "nic_rx (nic_release_packet q nic) = nic_rx nic" "nic_regs (nic_release_packet q nic) = nic_regs nic"
    and "nic_mmio (nic_release_packet q nic) = nic_mmio nic"
  using assms(1,3) remove1_buffers(1) [of "rx_packets (nic_rx nic) @ nic_packets nic" leased a p "packet_clear p'", OF _ assms(2)]
    remove1_buffers(2) [of "rx_packets (nic_rx nic) @ nic_packets nic" leased a p, OF _ assms(2)]
  by (simp_all add: buffers_ok_def nic_release_packet_def packet_clear_def set_len_def)

lemma rx_inv_buffers:
  assumes "rx_inv mmio rdh rdt (nic, h, leased) q" "nic_rx nic1 = nic_rx nic" "nic_regs nic1 = nic_regs nic"
    and "nic_mmio nic1 = nic_mmio nic" "buffers_ok nic1 leased1"
  shows "rx_inv mmio rdh rdt (nic1, h, leased1) q"
  using assms by (simp add: rx_inv_def Let_def)

lemma rx_inv_buffersD: "rx_inv mmio rdh rdt (nic, h, leased) q \<Longrightarrow> buffers_ok nic leased"
  by (simp add: rx_inv_def Let_def)

text \<open>Every step of the system is a step of the queue.\<close>

lemma rx_step_refines:
  assumes "rx_step cpu rdh rdt e s s'" "rx_inv mmio rdh rdt s q" "receive_registers cpu mmio rdh rdt"
  shows "\<exists>q'. queue_step e q = Some q' \<and> rx_inv mmio rdh rdt s' q'"
  using assms
proof (cases rule: rx_step.cases)
  case (frame bytes)
  then show ?thesis using assms(2) frame_inv [of mmio rdh rdt _ _ _ q bytes] by (cases s; cases s') auto
next
  case (nothing fresh nic h nic' h' leased)
  then show ?thesis
    using assms(2,3) recv_empty [of mmio rdh rdt nic h leased cpu fresh] recv_frame [of mmio rdh rdt nic h leased _ _ cpu fresh]
    by (cases q) auto
next
  case (received fresh nic h p nic' h' bytes leased)
  then show ?thesis
    using assms(2,3) recv_empty [of mmio rdh rdt nic h leased cpu fresh] recv_frame [of mmio rdh rdt nic h leased _ _ cpu fresh]
    by (cases q) auto
next
  case (handed_out fresh nic p nic' leased h)
  then show ?thesis
    using assms(2) allocate_packet_ok [of fresh nic p nic' leased] rx_inv_buffersD [of mmio rdh rdt nic h leased q]
      rx_inv_buffers [of mmio rdh rdt nic h leased q nic' "p # leased"] by simp
next
  case (given_back a p leased p' nic h)
  then show ?thesis
    using assms(2) release_packet_ok [of nic leased a p p'] rx_inv_buffersD [of mmio rdh rdt nic h leased q]
      rx_inv_buffers [of mmio rdh rdt nic h leased q] by simp
qed

lemma rx_run_refines:
  "rx_run cpu rdh rdt es s s' \<Longrightarrow> rx_inv mmio rdh rdt s q \<Longrightarrow> receive_registers cpu mmio rdh rdt
    \<Longrightarrow> \<exists>q'. queue_run es q = Some q' \<and> rx_inv mmio rdh rdt s' q'"
proof (induction arbitrary: q rule: rx_run.induct)
  case (rx_more e s s1 es s')
  then show ?case using rx_step_refines [of cpu rdh rdt e s s1 mmio q] by fastforce
qed simp

text \<open>The driver starts with an empty ring.\<close>

lemma init_receive_registers:
  assumes "receive_registers cpu (nic_mmio nic) rdh rdt" "nic_regs nic = nic_registers_default" "length (rx_descs (nic_rx nic)) = 256"
  shows "\<exists>h1. init_receive cpu nic h = Done h1 \<and> rdh (init_transmit cpu nic h1) = 0 \<and> rdt (init_transmit cpu nic h1) = 255"
  using assms(2,3)
  by (simp add: init_receive_def init_transmit_def Let_def write_high_low_def nic_registers_default_def psub_def checked_sub_def
      register_written [OF assms(1)])

lemma rx_inv_start:
  assumes "length bufs = 256" "distinct (map fst bufs)" "\<forall>p \<in> set bufs. length (praw (snd p)) = 4096" "rdh h = 0" "rdt h = 255"
  shows "rx_inv mmio rdh rdt (nic_state capacity mmio rx_table tx_table bufs, h, []) []"
  using assms by (simp add: rx_inv_def Let_def rx_shape_def buffers_ok_def nic_state_def slot_def rx_descriptor_default_def)

lemma rx_inv_recv:
  assumes "rx_inv mmio rdh rdt (nic, h, leased) q" "receive_registers cpu mmio rdh rdt" "unused fresh nic leased"
  shows "case q of
      [] \<Rightarrow> nic_recv cpu fresh (nic, h) = Done (None, nic, h)
    | x # xs \<Rightarrow> \<exists>p nic' h'. nic_recv cpu fresh (nic, h) = Done (Some p, nic', h') \<and> frame_of p = Done x"
proof (cases q)
  case Nil
  then show ?thesis using assms(1) recv_empty by simp
next
  case (Cons x xs)
  then show ?thesis using recv_frame [of mmio rdh rdt nic h leased x xs cpu fresh] assms by simp blast
qed


text \<open>A card with nothing but the two registers.\<close>

definition ring_cpu :: "(nat \<times> nat) cpu" where
  "ring_cpu =
     \<lparr>asm_rdmsr = (\<lambda>_ h. ((0, 0), h)), asm_wrmsr = (\<lambda>_ _ _ h. h), in8 = (\<lambda>_ h. (0, h)), out8 = (\<lambda>_ _ h. h),
      in32 = (\<lambda>_ h. (0, h)), out32 = (\<lambda>_ _ h. h), volatile_read = (\<lambda>_ h. (0, h)),
      volatile_write = (\<lambda>a v h. if a = 0x2810 then (unat v, snd h) else if a = 0x2818 then (fst h, unat v) else h),
      sti = (\<lambda>h. h), cli = (\<lambda>h. h), asm_rdtsc = (\<lambda>h. (0, h))\<rparr>"

definition ring_bufs :: "dma_packet list" where
  "ring_bufs = map (\<lambda>i. (of_nat (4096 * i), packet_new)) [0..<256]"

lemma ring_bufs_ok:
  "length ring_bufs = 256" "distinct (map fst ring_bufs)" "\<forall>p \<in> set ring_bufs. length (praw (snd p)) = 4096"
  "0x200000 \<notin> fst ` set ring_bufs"
proof -
  have u: "unat (of_nat (4096 * i) :: u64) = 4096 * i" if "i < 256" for i
    using that by (simp only: unsigned_of_nat) (simp add: take_bit_nat_eq_self)
  have "inj_on (\<lambda>i. of_nat (4096 * i) :: u64) {0..<256}"
  proof (rule inj_onI)
    fix x y assume "x \<in> {0..<256}" "y \<in> {0..<256}" "(of_nat (4096 * x) :: u64) = of_nat (4096 * y)"
    then show "x = y" using u [of x] u [of y] by simp
  qed
  then show "distinct (map fst ring_bufs)" by (simp add: ring_bufs_def o_def distinct_map)
  have "(of_nat (4096 * i) :: u64) \<noteq> 0x200000" if "i < 256" for i
  proof
    assume "(of_nat (4096 * i) :: u64) = 0x200000"
    then have "unat (of_nat (4096 * i) :: u64) = unat (0x200000 :: u64)" by simp
    then show False using u [OF that] that by simp
  qed
  then show "0x200000 \<notin> fst ` set ring_bufs" by (auto simp: ring_bufs_def)
  show "length ring_bufs = 256" "\<forall>p \<in> set ring_bufs. length (praw (snd p)) = 4096"
    by (auto simp: ring_bufs_def packet_new_def)
qed

lemma ring_registers: "receive_registers ring_cpu 0 fst snd"
proof -
  have u: "4 * r = 4 * c \<longleftrightarrow> r = c" if "r < 0x8000" "c < 0x8000" for r c :: u64
  proof -
    have "unat (4 * r) = 4 * unat r" "unat (4 * c) = 4 * unat c"
      using that by (simp_all add: unat_word_ariths word_less_nat_alt)
    then show ?thesis by (metis mult_left_cancel word_unat_eq_iff zero_neq_numeral)
  qed
  show ?thesis using u [of _ "0xA06"] u [of _ "0xA04"] by (auto simp: receive_registers_def ring_cpu_def)
qed

lemma card_fills_filled:
  "rdh h \<noteq> rdt h \<Longrightarrow> length bytes \<le> 1522 \<Longrightarrow> rdh h' = (rdh h + 1) mod 256 \<Longrightarrow> rdt h' = rdt h
    \<Longrightarrow> card_fills rdh rdt bytes (nic, h, leased) (nic\<lparr>nic_rx := filled (rdh h) bytes (nic_rx nic)\<rparr>, h', leased)"
  by (simp add: card_fills_def filled_def Let_def)


end
