(* ===== verification/Intel_Send_Props.thy ===== *)
theory Intel_Send_Props
  imports Intel_Props
begin

text \<open>
  The transmit ring of the network card is a queue of the frames that the card has still to send: it takes every frame
  with its padding, waits for room, and keeps the buffers of the frames in the queue from being used again.
\<close>

section \<open>Padding\<close>

definition padded :: "packet \<Rightarrow> packet" where
  "padded p = (if plen p < 64 then \<lparr>praw = take (plen p) (praw p) @ replicate (64 - plen p) 0 @ drop 64 (praw p), plen = 64\<rparr> else p)"

lemma pc_new_at:
  assumes "plen p \<le> MAX_PACKET_LEN" "length (praw p) = 4096"
  shows "pc_new p = Done (pc_at 0 (take (plen p) (praw p)) (drop (plen p) (praw p)) (plen p))"
  using assms
  by (auto simp: pc_new_def new_with_limit_def set_position_def try_set_position_def pc_at_def Let_def assert_that_def
      MAX_PACKET_LEN_def usize_max_def)

lemma pc_split_at_at:
  assumes "n \<le> length rest" "base + n \<le> MAX_PACKET_LEN" "length rest \<le> 4096"
  shows "pc_split_at (pc_at base [] rest m) n = Done (take n rest, pc_at (base + n) [] (drop n rest) (base + n))"
  using assms
  by (auto simp: pc_split_at_def pc_split_at_checked_def cursor_split_at_checked_def pc_at_def update_len_def overall_position_def
      MAX_PACKET_LEN_def usize_max_def)

lemma pad_packet_padded:
  assumes "length (praw p) = 4096"
  shows "pad_packet p = Done (padded p)"
proof (cases "plen p < 64")
  case True
  let ?n = "plen p"
  have "pc_new p = Done (pc_at 0 (take ?n (praw p)) (drop ?n (praw p)) ?n)"
    using pc_new_at [of p] True assms by (simp add: MAX_PACKET_LEN_def)
  moreover have "pc_split_at_current (pc_at 0 (take ?n (praw p)) (drop ?n (praw p)) ?n)
      = Done (take ?n (praw p), pc_at ?n [] (drop ?n (praw p)) ?n)"
    using pc_split_at_current_at [of 0 "take ?n (praw p)" "drop ?n (praw p)" ?n] True assms by (simp add: MAX_PACKET_LEN_def)
  moreover have "pc_split_at (pc_at ?n [] (drop ?n (praw p)) ?n) (64 - ?n)
      = Done (take (64 - ?n) (drop ?n (praw p)), pc_at 64 [] (drop 64 (praw p)) 64)"
    using pc_split_at_at [of "64 - ?n" "drop ?n (praw p)" ?n ?n] True assms by (simp add: MAX_PACKET_LEN_def)
  ultimately show ?thesis
    using True assms by (simp add: pad_packet_def PACKET_MIN_SIZE_def Let_def padded_def pc_at_def into_inner_def)
qed (simp add: pad_packet_def padded_def PACKET_MIN_SIZE_def)

lemma padded_raw:
  assumes "length (praw p) = 4096" "plen p \<le> 4096"
  shows "packet_raw (padded p) = Done (take (plen p) (praw p) @ replicate (64 - plen p) 0)"
  using assms by (auto simp: padded_def packet_raw_def slice_def)

section \<open>The ring\<close>

text \<open>\<open>frames\<close> are in the queue: sent by the driver, and not by the card. The older ones are done.\<close>

definition in_slot :: "tx_state \<Rightarrow> nat \<Rightarrow> dma_packet \<Rightarrow> bool" where
  "in_slot tx e p \<longleftrightarrow> tx_packets tx ! (e mod 256) = Some p
     \<and> tx_addr (tx_descs tx ! (e mod 256)) = fst p \<and> tx_len (tx_descs tx ! (e mod 256)) = of_nat (plen (snd p))
     \<and> tx_cmd (tx_descs tx ! (e mod 256)) = 0xB"

definition first_frame :: "tx_state \<Rightarrow> dma_packet list \<Rightarrow> nat" where
  "first_frame tx frames = tx_tail tx - length frames"

definition tx_inv :: "tx_state \<Rightarrow> dma_packet list \<Rightarrow> bool" where
  "tx_inv tx frames \<longleftrightarrow> length (tx_descs tx) = 256 \<and> length (tx_packets tx) = 256
     \<and> tx_head tx + length frames \<le> tx_tail tx \<and> tx_tail tx \<le> tx_head tx + 255
     \<and> (\<forall>e. tx_head tx \<le> e \<and> e < tx_tail tx \<longrightarrow> (tx_status (tx_descs tx ! (e mod 256)) AND 1 \<noteq> 0 \<longleftrightarrow> e < first_frame tx frames))
     \<and> (\<forall>k < length frames. in_slot tx (first_frame tx frames + k) (frames ! k))"

text \<open>The card sends the \<open>n\<close> oldest frames and reports the status.\<close>

definition card_sends :: "nat \<Rightarrow> dma_packet list \<Rightarrow> tx_state \<Rightarrow> tx_state" where
  "card_sends n frames tx = tx\<lparr>tx_descs :=
     map (\<lambda>i. if i \<in> (\<lambda>e. e mod 256) ` {first_frame tx frames..<first_frame tx frames + n}
              then (tx_descs tx ! i)\<lparr>tx_status := 1\<rparr> else tx_descs tx ! i) [0..<256]\<rparr>"

text \<open>While the driver waits with a full ring, the card sends at least one frame.\<close>

definition sends_when_full :: "(tx_state \<Rightarrow> tx_state) \<Rightarrow> bool" where
  "sends_when_full device \<longleftrightarrow> (\<forall>tx frames. tx_inv tx frames \<and> ring_full tx \<longrightarrow>
     (\<exists>n \<le> length frames. (frames \<noteq> [] \<longrightarrow> 0 < n) \<and> device tx = card_sends n frames tx))"

text \<open>Two counters of the ring have different slots.\<close>

lemma mod_256_eq:
  fixes a b :: nat
  assumes "a mod 256 = b mod 256" "a \<le> b" "b < a + 256"
  shows "a = b"
proof -
  obtain q where "b = a + 256 * q" using assms(1,2) by (elim mod_eq_nat2E)
  then show ?thesis using assms(3) by simp
qed

lemma mod_256_neq: "e \<noteq> e' \<Longrightarrow> h \<le> e \<Longrightarrow> e < h + 256 \<Longrightarrow> h \<le> e' \<Longrightarrow> e' < h + 256 \<Longrightarrow> e mod 256 \<noteq> e' mod (256 :: nat)"
  using mod_256_eq [of e e'] mod_256_eq [of e' e] by (cases "e \<le> e'") auto

lemma card_sends_desc:
  assumes "tx_inv tx frames" "n \<le> length frames" "tx_head tx \<le> e" "e < tx_tail tx"
  shows "tx_descs (card_sends n frames tx) ! (e mod 256) =
    (if first_frame tx frames \<le> e \<and> e < first_frame tx frames + n
     then (tx_descs tx ! (e mod 256))\<lparr>tx_status := 1\<rparr> else tx_descs tx ! (e mod 256))"
proof -
  have "e mod 256 \<in> (\<lambda>e. e mod 256) ` {first_frame tx frames..<first_frame tx frames + n}
      \<longleftrightarrow> first_frame tx frames \<le> e \<and> e < first_frame tx frames + n"
    (is "?l \<longleftrightarrow> ?r")
  proof
    assume ?l
    then obtain e' where e': "first_frame tx frames \<le> e'" "e' < first_frame tx frames + n" "e mod 256 = e' mod 256" by auto
    moreover have "tx_head tx \<le> first_frame tx frames" "first_frame tx frames + n \<le> tx_tail tx" "tx_tail tx \<le> tx_head tx + 255"
      using assms(1,2) by (auto simp: tx_inv_def first_frame_def)
    ultimately have "e = e'" using mod_256_neq [of e e' "tx_head tx"] assms(3,4) by fastforce
    then show ?r using e' by simp
  qed auto
  then show ?thesis by (simp add: card_sends_def)
qed

lemma card_sends_inv:
  assumes "tx_inv tx frames" "n \<le> length frames"
  shows "tx_inv (card_sends n frames tx) (drop n frames)"
proof -
  let ?tx = "card_sends n frames tx"
  have k: "tx_head ?tx = tx_head tx" "tx_tail ?tx = tx_tail tx" "tx_packets ?tx = tx_packets tx" "length (tx_descs ?tx) = 256"
    by (simp_all add: card_sends_def)
  have f: "first_frame ?tx (drop n frames) = first_frame tx frames + n" "first_frame tx frames + length frames = tx_tail tx"
    "tx_head tx \<le> first_frame tx frames"
    using assms by (auto simp: first_frame_def tx_inv_def k)
  have "tx_status (tx_descs ?tx ! (e mod 256)) AND 1 \<noteq> 0 \<longleftrightarrow> e < first_frame tx frames + n" if "tx_head tx \<le> e" "e < tx_tail tx" for e
    using assms that f card_sends_desc [OF assms that] by (auto simp: tx_inv_def)
  moreover have "in_slot ?tx (first_frame tx frames + n + j) (frames ! (n + j))" if "n + j < length frames" for j
    using assms that f(2,3) card_sends_desc [OF assms, of "first_frame tx frames + n + j"] k(3)
    by (auto simp: tx_inv_def in_slot_def add.assoc)
  ultimately show ?thesis using assms k f by (simp add: tx_inv_def)
qed

text \<open>The head moves to the first frame that is not done.\<close>

lemma find_done_first:
  assumes "length descs = 256" "f \<le> t"
    and "\<And>e. h \<le> e \<Longrightarrow> e < t \<Longrightarrow> tx_status (descs ! (e mod 256)) AND 1 \<noteq> 0 \<longleftrightarrow> e < f"
  shows "find_done descs (rev [h..<t]) = Done (if h < f then Some f else None)"
  using assms
proof (induction t)
  case (Suc t)
  have "find_done descs (rev [h..<t]) = Done (if h < f then Some f else None)" if "f \<le> t"
    using Suc that by simp
  moreover have "f = Suc t" if "\<not> f \<le> t" using Suc.prems(2) that by simp
  ultimately show ?case using Suc.prems(1) Suc.prems(3) [of t] by (cases "h \<le> t") auto
qed simp

lemma update_head_first:
  assumes "tx_inv tx frames"
  shows "update_head tx = Done (tx\<lparr>tx_head := first_frame tx frames\<rparr>)"
proof -
  have "find_done (tx_descs tx) (rev [tx_head tx..<tx_tail tx])
    = Done (if tx_head tx < first_frame tx frames then Some (first_frame tx frames) else None)"
    using assms by (intro find_done_first) (auto simp: tx_inv_def first_frame_def)
  moreover have "tx_head tx \<le> first_frame tx frames" using assms by (auto simp: tx_inv_def first_frame_def)
  ultimately show ?thesis by (auto simp: update_head_def)
qed

lemma head_moves:
  assumes "tx_inv tx frames"
  shows "tx_inv (tx\<lparr>tx_head := first_frame tx frames\<rparr>) frames"
proof -
  let ?tx = "tx\<lparr>tx_head := first_frame tx frames\<rparr>"
  have "tx_head tx \<le> first_frame tx frames" "first_frame tx frames + length frames = tx_tail tx"
    using assms by (auto simp: tx_inv_def first_frame_def)
  moreover have "first_frame ?tx frames = first_frame tx frames" "in_slot ?tx e p \<longleftrightarrow> in_slot tx e p" for e p
    by (simp_all add: first_frame_def in_slot_def)
  ultimately show ?thesis using assms by (simp add: tx_inv_def)
qed

lemma wait_room_returns:
  assumes inv: "tx_inv tx frames" and device: "sends_when_full device"
  shows "\<exists>tx' n. wait_room device tx = Some (Done tx') \<and> n \<le> length frames \<and> tx_inv tx' (drop n frames) \<and> \<not> ring_full tx'
    \<and> tx_packets tx' = tx_packets tx \<and> tx_tail tx' = tx_tail tx"
proof (cases "ring_full tx")
  case False
  then have "wait_room device tx = Some (Done tx)" using inv by (subst wait_room.simps) (auto simp: tx_inv_def)
  then show ?thesis using False inv by (intro exI [of _ tx] exI [of _ 0]) simp
next
  case True
  then obtain n where n: "n \<le> length frames" "frames \<noteq> [] \<longrightarrow> 0 < n" "device tx = card_sends n frames tx"
    using inv device unfolding sends_when_full_def by blast
  define tx1 where "tx1 = card_sends n frames tx"
  define tx2 where "tx2 = tx1\<lparr>tx_head := first_frame tx1 (drop n frames)\<rparr>"
  have inv1: "tx_inv tx1 (drop n frames)" using card_sends_inv [OF inv n(1)] by (simp add: tx1_def)
  have keep: "tx_packets tx2 = tx_packets tx" "tx_tail tx2 = tx_tail tx" by (simp_all add: tx1_def tx2_def card_sends_def)
  have inv2: "tx_inv tx2 (drop n frames)" using head_moves [OF inv1] by (simp add: tx2_def)
  have "length frames - n < 255 \<and> length frames \<le> tx_tail tx" using inv n(1,2) by (cases "frames = []") (auto simp: tx_inv_def)
  then have room: "\<not> ring_full tx2" using inv2 n(1)
    by (auto simp: ring_full_def tx_inv_def tx2_def tx1_def first_frame_def card_sends_def)
  have "wait_room device tx2 = Some (Done tx2)" using room inv2 by (subst wait_room.simps) (auto simp: tx_inv_def)
  then have "wait_room device tx = Some (Done tx2)"
    using True inv n(3) update_head_first [OF inv1] by (subst wait_room.simps) (auto simp: tx_inv_def tx1_def tx2_def)
  then show ?thesis using n(1) inv2 room keep by blast
qed

section \<open>Buffers\<close>

text \<open>No two slots of the ring have the same buffer, and none of them is free to be used again.\<close>

definition tx_bufs :: "intel_nic \<Rightarrow> phys_addr set" where
  "tx_bufs nic = fst ` {p. Some p \<in> set (tx_packets (nic_tx nic))} \<union> fst ` set (nic_packets nic)"

definition tx_buffers_ok :: "intel_nic \<Rightarrow> bool" where
  "tx_buffers_ok nic \<longleftrightarrow>
     (\<forall>i j p q. i < 256 \<and> j < 256 \<and> i \<noteq> j \<and> tx_packets (nic_tx nic) ! i = Some p \<and> tx_packets (nic_tx nic) ! j = Some q \<longrightarrow> fst p \<noteq> fst q)
     \<and> (\<forall>i < 256. \<forall>p. tx_packets (nic_tx nic) ! i = Some p \<longrightarrow> fst p \<notin> fst ` set (nic_packets nic))"

lemma in_flight_not_free:
  assumes "tx_inv (nic_tx nic) frames" "tx_buffers_ok nic" "p \<in> set frames"
  shows "fst p \<notin> fst ` set (nic_packets nic)"
proof -
  obtain k where "k < length frames" "frames ! k = p" using assms(3) by (auto simp: in_set_conv_nth)
  then have "tx_packets (nic_tx nic) ! ((first_frame (nic_tx nic) frames + k) mod 256) = Some p"
    using assms(1) by (auto simp: tx_inv_def in_slot_def)
  then show ?thesis using assms(2) unfolding tx_buffers_ok_def by (meson mod_less_divisor zero_less_numeral)
qed

text \<open>A frame is put into the slot of the tail.\<close>

definition tx_desc :: "dma_packet \<Rightarrow> tx_descriptor" where
  "tx_desc packet = tx_descriptor_default\<lparr>tx_cmd := 0xB, tx_addr := fst packet, tx_len := of_nat (plen (snd packet))\<rparr>"

definition put :: "dma_packet \<Rightarrow> tx_state \<Rightarrow> tx_state" where
  "put packet tx = tx\<lparr>tx_descs := (tx_descs tx)[tx_tail tx mod 256 := tx_desc packet],
     tx_packets := (tx_packets tx)[tx_tail tx mod 256 := Some packet], tx_tail := tx_tail tx + 1\<rparr>"

definition release_old :: "tx_state \<Rightarrow> intel_nic \<Rightarrow> intel_nic" where
  "release_old tx nic = (case tx_packets tx ! (tx_tail tx mod 256) of None \<Rightarrow> nic | Some old \<Rightarrow> nic_release_packet old nic)"

lemma put_inv:
  assumes "tx_inv tx frames" "\<not> ring_full tx"
  shows "tx_inv (put packet tx) (frames @ [packet])"
proof -
  let ?i = "tx_tail tx mod 256"
  have l: "length (tx_descs tx) = 256" "length (tx_packets tx) = 256" "tx_tail tx < tx_head tx + 255" "tx_head tx + length frames \<le> tx_tail tx"
    using assms by (auto simp: tx_inv_def ring_full_def)
  have f: "first_frame (put packet tx) (frames @ [packet]) = first_frame tx frames" "first_frame tx frames + length frames = tx_tail tx"
    "tx_head tx \<le> first_frame tx frames" using l(4) by (auto simp: first_frame_def put_def)
  have new: "in_slot (put packet tx) (tx_tail tx) packet" "tx_status (tx_descs (put packet tx) ! ?i) = 0"
    using l(1,2) by (simp_all add: in_slot_def put_def tx_desc_def tx_descriptor_default_def)
  have old: "tx_descs (put packet tx) ! (e mod 256) = tx_descs tx ! (e mod 256)"
    "tx_packets (put packet tx) ! (e mod 256) = tx_packets tx ! (e mod 256)" if "tx_head tx \<le> e" "e < tx_tail tx" for e
    using mod_256_neq [of e "tx_tail tx" "tx_head tx"] that l(3) by (simp_all add: put_def)
  have "in_slot (put packet tx) (first_frame tx frames + k) ((frames @ [packet]) ! k)" if "k < Suc (length frames)" for k
  proof (cases "k = length frames")
    case True
    then show ?thesis using new(1) f(2) by simp
  next
    case False
    then show ?thesis using that f(2,3) old [of "first_frame tx frames + k"] assms(1) by (simp add: in_slot_def nth_append tx_inv_def)
  qed
  moreover have "tx_status (tx_descs (put packet tx) ! (e mod 256)) AND 1 \<noteq> 0 \<longleftrightarrow> e < first_frame tx frames"
    if "tx_head tx \<le> e" "e < Suc (tx_tail tx)" for e
    using that new(2) old [of e] assms(1) f(2) by (cases "e = tx_tail tx") (auto simp: tx_inv_def)
  ultimately show ?thesis using l f(1) by (simp add: tx_inv_def) (simp add: put_def)
qed

lemma transmit_puts:
  assumes "tx_inv (nic_tx nic) frames" "\<not> ring_full (nic_tx nic)"
  shows "transmit cpu packet flush (nic, h) = Done ((release_old (nic_tx nic) nic)\<lparr>nic_tx := put packet (nic_tx nic)\<rparr>,
    if flush \<or> ring_full (put packet (nic_tx nic))
    then nic_write cpu nic (reg_tdt (nic_regs nic)) (of_nat (tx_tail (put packet (nic_tx nic)) mod 256)) h else h)"
proof -
  let ?tx = "nic_tx nic"
  have l: "length (tx_descs ?tx) = 256" "length (tx_packets ?tx) = 256" "tx_tail ?tx < tx_head ?tx + 255" "tx_head ?tx \<le> tx_tail ?tx"
    using assms by (auto simp: tx_inv_def ring_full_def)
  have full: "ring_full (put packet ?tx) \<longleftrightarrow> Suc (tx_tail ?tx) - tx_head ?tx = 255" using l by (auto simp: ring_full_def put_def)
  have w: "nic_write cpu (nic_release_packet old n) reg v h = nic_write cpu n reg v h"
    "nic_write cpu (n\<lparr>nic_tx := t\<rparr>) reg v h = nic_write cpu n reg v h" for old n t reg v
    by (simp_all add: nic_write_def nic_release_packet_def)
  have r: "nic_regs (nic_release_packet old n) = nic_regs n" "nic_tx (nic_release_packet old n) = nic_tx n" for old n
    by (simp_all add: nic_release_packet_def)
  have d: "tx_descriptor_default\<lparr>tx_cmd := push_bit 3 1 OR push_bit 1 1 OR push_bit 0 1, tx_addr := fst packet,
      tx_len := of_nat (plen (snd packet))\<rparr> = tx_desc packet" by (simp add: tx_desc_def)
  show ?thesis unfolding full transmit_def d
    using l(1,2,4) by (cases "tx_packets ?tx ! (tx_tail ?tx mod 256)") (simp_all add: Let_def release_old_def w r put_def)
qed

lemma release_old_tx [simp]: "nic_regs (release_old tx nic) = nic_regs nic" "nic_mmio (release_old tx nic) = nic_mmio nic"
  by (simp_all add: release_old_def nic_release_packet_def split: option.split)

lemma free_after_release:
  "fst ` set (nic_packets (release_old tx nic)) \<subseteq>
    fst ` set (nic_packets nic) \<union> (case tx_packets tx ! (tx_tail tx mod 256) of None \<Rightarrow> {} | Some old \<Rightarrow> {fst old})"
  by (auto simp: release_old_def nic_release_packet_def split: option.split)

lemma put_buffers_ok:
  assumes "tx_buffers_ok nic" "fst packet \<notin> tx_bufs nic" "length (tx_packets (nic_tx nic)) = 256"
  shows "tx_buffers_ok ((release_old (nic_tx nic) nic)\<lparr>nic_tx := put packet (nic_tx nic)\<rparr>)"
proof -
  let ?tx = "nic_tx nic"
  let ?i = "tx_tail ?tx mod 256"
  have new: "fst packet \<noteq> fst p" if "tx_packets ?tx ! j = Some p" "j < 256" for j p
    using assms(2,3) that nth_mem [of j "tx_packets ?tx"] by (auto simp: tx_bufs_def)
  have dis: "fst p \<noteq> fst q" if "i < 256" "j < 256" "i \<noteq> j" "tx_packets ?tx ! i = Some p" "tx_packets ?tx ! j = Some q" for i j p q
    using assms(1) that unfolding tx_buffers_ok_def by blast
  have free: "fst p \<notin> fst ` set (nic_packets (release_old ?tx nic))" if "j < 256" "j \<noteq> ?i" "tx_packets ?tx ! j = Some p" for j p
  proof -
    have "fst p \<notin> fst ` set (nic_packets nic)" using assms(1) that unfolding tx_buffers_ok_def by blast
    moreover have "fst p \<noteq> fst old" if "tx_packets ?tx ! ?i = Some old" for old
      using dis [of j ?i p old] that \<open>j < 256\<close> \<open>j \<noteq> ?i\<close> \<open>tx_packets ?tx ! j = Some p\<close> by simp
    ultimately show ?thesis using free_after_release [of ?tx nic] by (auto split: option.splits)
  qed
  have "fst packet \<notin> fst ` set (nic_packets nic)" using assms(2) by (simp add: tx_bufs_def)
  then have free_new: "fst packet \<notin> fst ` set (nic_packets (release_old ?tx nic))"
    using free_after_release [of ?tx nic] new [of ?i] by (auto split: option.splits)
  have at: "tx_packets (put packet ?tx) ! j = (if j = ?i then Some packet else tx_packets ?tx ! j)" for j
    using assms(3) by (auto simp: put_def)
  show ?thesis unfolding tx_buffers_ok_def
  proof (intro conjI allI impI; (elim conjE)?)
    fix i j p q assume "i < 256" "j < 256" "i \<noteq> j" "tx_packets (nic_tx (release_old ?tx nic\<lparr>nic_tx := put packet ?tx\<rparr>)) ! i = Some p"
      "tx_packets (nic_tx (release_old ?tx nic\<lparr>nic_tx := put packet ?tx\<rparr>)) ! j = Some q"
    then show "fst p \<noteq> fst q" using new [of i p] new [of j q] dis [of i j p q] by (simp add: at split: if_splits) 
  next
    fix i p assume "i < 256" "tx_packets (nic_tx (release_old ?tx nic\<lparr>nic_tx := put packet ?tx\<rparr>)) ! i = Some p"
    then show "fst p \<notin> fst ` set (nic_packets (release_old ?tx nic\<lparr>nic_tx := put packet ?tx\<rparr>))"
      using free [of i p] free_new by (cases "i = ?i") (simp_all add: at)
  qed
qed

section \<open>Sending\<close>

lemma wait_keeps_buffers:
  assumes "tx_packets tx = tx_packets (nic_tx nic)"
  shows "tx_buffers_ok (nic\<lparr>nic_tx := tx\<rparr>) = tx_buffers_ok nic" "tx_bufs (nic\<lparr>nic_tx := tx\<rparr>) = tx_bufs nic"
  using assms by (simp_all add: tx_buffers_ok_def tx_bufs_def)


text \<open>The ring of a new driver is empty, and a card that sends everything.\<close>

lemma tx_inv_start:
  "tx_inv (nic_tx (nic_state capacity mmio rx_table tx_table bufs)) []" "tx_buffers_ok (nic_state capacity mmio rx_table tx_table bufs)"
  "tx_bufs (nic_state capacity mmio rx_table tx_table bufs) = {}"
  by (auto simp: tx_inv_def nic_state_def TX_DESCS_N_def first_frame_def tx_buffers_ok_def tx_bufs_def)

definition card_sends_all :: "tx_state \<Rightarrow> tx_state" where
  "card_sends_all tx =
     (let n = length (filter (\<lambda>e. tx_status (tx_descs tx ! (e mod 256)) AND 1 = 0) [tx_head tx..<tx_tail tx]) in
      card_sends n (replicate n (0, packet_new)) tx)"

lemma filter_upt_ge: "f \<le> t \<Longrightarrow> h \<le> f \<Longrightarrow> filter (\<lambda>e. f \<le> e) [h..<t] = [f..<t]"
  by (induction t) (auto simp: le_Suc_eq)

lemma card_sends_all_ok: "sends_when_full card_sends_all"
  unfolding sends_when_full_def
proof (intro allI impI; elim conjE)
  fix tx frames assume inv: "tx_inv tx frames" "ring_full tx"
  let ?f = "first_frame tx frames"
  have f: "?f + length frames = tx_tail tx" "tx_head tx \<le> ?f" using inv(1) by (auto simp: tx_inv_def first_frame_def)
  have "filter (\<lambda>e. tx_status (tx_descs tx ! (e mod 256)) AND 1 = 0) [tx_head tx..<tx_tail tx] = filter (\<lambda>e. ?f \<le> e) [tx_head tx..<tx_tail tx]"
    using inv(1) by (intro filter_cong) (auto simp: tx_inv_def not_less)
  also have "\<dots> = [?f..<tx_tail tx]" using f by (intro filter_upt_ge) simp_all
  finally have "card_sends_all tx = card_sends (length frames) frames tx"
    using f by (simp add: card_sends_all_def card_sends_def first_frame_def)
  then show "\<exists>n \<le> length frames. (frames \<noteq> [] \<longrightarrow> 0 < n) \<and> card_sends_all tx = card_sends n frames tx"
    by (intro exI [of _ "length frames"]) simp
qed


end
