(* ===== verification/Time.thy ===== *)
theory Time
  imports Cpu Complex_Main
begin

text \<open>
  The calibration of the clock, \<open>calibrate\<close> of \<open>src/kernel/src/time.rs\<close>. The values of type \<open>f64\<close> are the rational numbers
  they stand for, and every operation on them is the exact one followed by \<open>rnd\<close>, the rounding of the processor.
\<close>

section \<open>The timer\<close>

definition pit_start :: "'h cpu \<Rightarrow> 'h \<Rightarrow> 'h" where
  "pit_start cpu h = out8 cpu 0x40 0xff (out8 cpu 0x40 0xff (out8 cpu 0x43 0x30 h))"

definition pit_poll :: "'h cpu \<Rightarrow> 'h \<Rightarrow> u8 \<times> 'h" where
  "pit_poll cpu h = in8 cpu 0x40 (out8 cpu 0x43 0xe2 h)"

partial_function (option) pit_wait :: "'h cpu \<Rightarrow> 'h \<Rightarrow> 'h option" where
  "pit_wait cpu h = (case pit_poll cpu h of (v, h) \<Rightarrow> if v AND 0x80 \<noteq> 0 then Some h else pit_wait cpu h)"

section \<open>The rate\<close>

text \<open>\<open>as u64\<close> cuts off the fraction and saturates.\<close>

definition f64_as_u64 :: "rat \<Rightarrow> u64" where
  "f64_as_u64 x = (if x < 0 then 0 else if x \<ge> 2 ^ 64 then - 1 else of_nat (nat \<lfloor>x\<rfloor>))"

definition rounded_rate :: "(rat \<Rightarrow> rat) \<Rightarrow> u64 \<Rightarrow> u64 outcome" where
  "rounded_rate rnd ticks =
     (let elapsed = rnd (65535 / 1193182);
          computed_rate = rnd (rnd (rnd (of_nat (unat ticks)) / elapsed) / 1000000) in
      pmul (f64_as_u64 (rnd (rnd (computed_rate / 100) + 1 / 2))) 100)"

text \<open>The two clock values are the statics \<open>RDTSC_START\<close> and \<open>RDTSC_MHZ\<close>.\<close>

definition calibrate :: "(rat \<Rightarrow> rat) \<Rightarrow> 'h cpu \<Rightarrow> 'h \<Rightarrow> ((u64 \<times> u64) \<times> 'h) outcome option" where
  "calibrate rnd cpu h =
     (let (rdtsc_start, h) = asm_rdtsc cpu h; (start, h) = asm_rdtsc cpu h in
      map_option (\<lambda>h.
          let (finish, h) = asm_rdtsc cpu h in
          obind (psub finish start) (\<lambda>ticks. obind (rounded_rate rnd ticks) (\<lambda>mhz. Done ((rdtsc_start, mhz), h))))
        (pit_wait cpu (pit_start cpu h)))"

section \<open>The rounding\<close>

text \<open>On numbers that are neither tiny nor huge, the operations of the processor have a relative error of at most \<open>2 ^ - 53\<close>.\<close>

definition rounds_well :: "(rat \<Rightarrow> rat) \<Rightarrow> bool" where
  "rounds_well rnd \<longleftrightarrow> (\<forall>x. x = 0 \<or> 1 / 2 ^ 100 \<le> \<bar>x\<bar> \<and> \<bar>x\<bar> \<le> 2 ^ 100 \<longrightarrow> \<bar>rnd x - x\<bar> \<le> \<bar>x\<bar> / 2 ^ 53)"

definition normal :: "rat \<Rightarrow> bool" where
  "normal x \<longleftrightarrow> x = 0 \<or> 1 / 2 ^ 99 \<le> x \<and> x \<le> 2 ^ 99"

definition near :: "rat \<Rightarrow> rat \<Rightarrow> rat \<Rightarrow> bool" where
  "near e a x \<longleftrightarrow> \<bar>a - x\<bar> \<le> e * x"

lemma near_mult: "near e a x \<Longrightarrow> 0 \<le> c \<Longrightarrow> near e (a * c) (x * c)"
  unfolding near_def using mult_right_mono [of "\<bar>a - x\<bar>" "e * x" c]
  by (simp add: abs_mult left_diff_distrib [symmetric] mult.assoc)

lemma near_divide: "near e a x \<Longrightarrow> 0 \<le> c \<Longrightarrow> near e (a / c) (x / c)"
  using near_mult [of e a x "1 / c"] by simp

lemma near_rnd:
  assumes "rounds_well rnd" "near e a x" "normal x" "e \<le> 1 / 2"
  shows "near (e + 2 / 2 ^ 53) (rnd a) x"
proof -
  have x: "0 \<le> x" using assms(3) by (auto simp: normal_def intro: order_trans [of _ "1 / 2 ^ 99"])
  have "e * x \<le> x / 2" using mult_right_mono [OF assms(4) x] by simp
  then have a: "\<bar>a - x\<bar> \<le> x / 2" using assms(2) unfolding near_def by linarith
  have "a = 0 \<or> 1 / 2 ^ 100 \<le> \<bar>a\<bar> \<and> \<bar>a\<bar> \<le> 2 ^ 100"
    using assms(3) a unfolding normal_def by (elim disjE) (simp_all add: abs_le_iff abs_if split: if_splits)
  then have "\<bar>rnd a - a\<bar> \<le> \<bar>a\<bar> / 2 ^ 53" using assms(1) unfolding rounds_well_def by blast
  moreover have "\<bar>a\<bar> \<le> 2 * x" using a x by linarith
  ultimately have "\<bar>rnd a - a\<bar> \<le> 2 * x / 2 ^ 53" by (simp add: field_simps)
  moreover have "(e + 2 / 2 ^ 53) * x = e * x + 2 * x / 2 ^ 53" by (simp add: distrib_right)
  ultimately show ?thesis using assms(2) unfolding near_def by linarith
qed

text \<open>The quotient of two numbers that are near others.\<close>

lemma near_quotient:
  assumes "near e a x" "near f b y" "0 \<le> x" "0 < y" "0 \<le> e" "0 \<le> f" "f \<le> 1 / 2"
  shows "near (2 * (e + f)) (a / b) (x / y)"
proof -
  have "f * y \<le> y / 2" using mult_right_mono [OF assms(7), of y] assms(4) by simp
  then have b: "y / 2 \<le> b" "0 < b" using assms(2,4) unfolding near_def by linarith+
  have "\<bar>a * y - x * b\<bar> \<le> \<bar>a - x\<bar> * y + x * \<bar>b - y\<bar>"
  proof -
    have "a * y - x * b = (a - x) * y - x * (b - y)" by (simp add: algebra_simps)
    then show ?thesis using abs_triangle_ineq4 [of "(a - x) * y" "x * (b - y)"] assms(3,4) by (simp add: abs_mult)
  qed
  also have "\<dots> \<le> (e * x) * y + x * (f * y)"
    using assms(1-4) unfolding near_def by (intro add_mono mult_right_mono mult_left_mono) simp_all
  also have "\<dots> = (e + f) * x * y" by (simp add: algebra_simps)
  also have "\<dots> \<le> (e + f) * x * (2 * b)" using b(1) assms(3,5,6) by (intro mult_left_mono) simp_all
  finally have "\<bar>a * y - x * b\<bar> / (b * y) \<le> (e + f) * x * (2 * b) / (b * y)" using b(2) assms(4) by (intro divide_right_mono) simp_all
  moreover have "\<bar>a / b - x / y\<bar> = \<bar>a * y - x * b\<bar> / (b * y)" using b(2) assms(4) by (simp add: diff_frac_eq abs_divide abs_mult)
  moreover have "(e + f) * x * (2 * b) / (b * y) = 2 * (e + f) * (x / y)" using b(2) assms(4) by (simp add: field_simps)
  ultimately show ?thesis unfolding near_def by simp
qed

text \<open>The rate in MHz at which the counter made these ticks.\<close>

definition tsc_rate :: "u64 \<Rightarrow> rat" where
  "tsc_rate ticks = of_nat (unat ticks) / (65535 / 1193182) / 1000000"

lemma ticks_bounds: "(of_nat (unat ticks) :: rat) = 0 \<or> 1 \<le> (of_nat (unat ticks) :: rat)" "(of_nat (unat ticks) :: rat) < 2 ^ 64" for ticks :: u64
proof -
  show "(of_nat (unat ticks) :: rat) = 0 \<or> 1 \<le> (of_nat (unat ticks) :: rat)" by (cases "unat ticks") simp_all
  have "unat ticks < 2 ^ 64" using unsigned_less [of ticks] by simp
  then have "(of_nat (unat ticks) :: rat) < of_nat (2 ^ 64)" by (simp only: of_nat_less_iff)
  then show "(of_nat (unat ticks) :: rat) < 2 ^ 64" by simp
qed

lemma computed_rate_near:
  assumes "rounds_well rnd"
  shows "near (16 / 2 ^ 53) (rnd (rnd (rnd (rnd (rnd (of_nat (unat ticks)) / rnd (65535 / 1193182)) / 1000000) / 100) + 1 / 2))
    (tsc_rate ticks / 100 + 1 / 2)"
proof -
  define x :: rat where "x = of_nat (unat ticks)"
  have x: "x = 0 \<or> 1 \<le> x" "x < 2 ^ 64" unfolding x_def by (rule ticks_bounds)+
  then have n: "normal x" "normal (x / (65535 / 1193182))" "normal (x / (65535 / 1193182) / 1000000)" "normal (x / (65535 / 1193182) / 1000000 / 100)"
    "normal (x / (65535 / 1193182) / 1000000 / 100 + 1 / 2)" "0 \<le> x"
    by (auto simp: normal_def)
  have "near (2 / 2 ^ 53) (rnd x) x" using near_rnd [OF assms, of 0 x x] n(1) by (simp add: near_def)
  moreover have "near (2 / 2 ^ 53) (rnd (65535 / 1193182)) (65535 / 1193182)"
    using near_rnd [OF assms, of 0 "65535 / 1193182" "65535 / 1193182"] by (simp add: near_def normal_def)
  ultimately have "near (8 / 2 ^ 53) (rnd x / rnd (65535 / 1193182)) (x / (65535 / 1193182))"
    using near_quotient [of "2 / 2 ^ 53" "rnd x" x "2 / 2 ^ 53" "rnd (65535 / 1193182)" "65535 / 1193182"] n(6) by simp
  from near_divide [OF near_rnd [OF assms this n(2)], of 1000000]
  have "near (10 / 2 ^ 53) (rnd (rnd x / rnd (65535 / 1193182)) / 1000000) (x / (65535 / 1193182) / 1000000)" by simp
  from near_divide [OF near_rnd [OF assms this n(3)], of 100]
  have "near (12 / 2 ^ 53) (rnd (rnd (rnd x / rnd (65535 / 1193182)) / 1000000) / 100) (x / (65535 / 1193182) / 1000000 / 100)" by simp
  from near_rnd [OF assms this n(4)]
  have "near (14 / 2 ^ 53) (rnd (rnd (rnd (rnd x / rnd (65535 / 1193182)) / 1000000) / 100) + 1 / 2) (x / (65535 / 1193182) / 1000000 / 100 + 1 / 2)"
    by (simp add: near_def)
  from near_rnd [OF assms this n(5)] show ?thesis by (simp add: tsc_rate_def x_def)
qed

lemma rounded_rate_near:
  assumes "rounds_well rnd"
  shows "\<exists>mhz. rounded_rate rnd ticks = Done mhz \<and> 100 dvd unat mhz
    \<and> \<bar>of_nat (unat mhz) - tsc_rate ticks\<bar> \<le> 50 + (tsc_rate ticks + 50) / 2 ^ 49"
proof -
  define y where "y = rnd (rnd (rnd (rnd (rnd (of_nat (unat ticks)) / rnd (65535 / 1193182)) / 1000000) / 100) + 1 / 2)"
  define x where "x = tsc_rate ticks"
  have y: "\<bar>y - (x / 100 + 1 / 2)\<bar> \<le> (x / 100 + 1 / 2) / 2 ^ 49"
    using computed_rate_near [OF assms, of ticks] unfolding near_def y_def x_def by simp
  have x: "0 \<le> x" "x \<le> 2 ^ 64 / 10000" using ticks_bounds [of ticks] by (auto simp: x_def tsc_rate_def)
  then have pos: "0 \<le> y" "y \<le> 2 ^ 64 / 1000" using y by (simp_all add: abs_if split: if_splits)
  define k where "k = nat \<lfloor>y\<rfloor>"
  have k: "of_nat k \<le> y" "y < of_nat k + 1" using pos(1) unfolding k_def by (simp_all add: of_nat_nat) linarith+
  have "(of_nat (k * 100) :: rat) < of_nat (2 ^ 64)" using k(1) pos(2) by simp
  then have less: "k * 100 < 2 ^ 64" by (simp only: of_nat_less_iff)
  have f: "f64_as_u64 y = of_nat k" using pos by (simp add: f64_as_u64_def k_def)
  have uk: "unat (of_nat k :: u64) = k" using less by (simp add: unsigned_of_nat take_bit_nat_eq_self)
  then have m: "pmul (of_nat k :: u64) 100 = Done (of_nat k * 100)" "unat (of_nat k * 100 :: u64) = k * 100"
    using less by (simp_all add: pmul_def unat_word_ariths)
  have "(of_nat (k * 100) :: rat) = of_nat k * 100" "(x + 50) / 2 ^ 49 = 100 * ((x / 100 + 1 / 2) / 2 ^ 49)" by simp_all
  then have "\<bar>of_nat (k * 100) - x\<bar> \<le> 50 + (x + 50) / 2 ^ 49" using k y by linarith
  then have "100 dvd unat (of_nat k * 100 :: u64) \<and> \<bar>of_nat (unat (of_nat k * 100 :: u64)) - x\<bar> \<le> 50 + (x + 50) / 2 ^ 49"
    unfolding m(2) by simp
  moreover have "rounded_rate rnd ticks = Done (of_nat k * 100)" unfolding rounded_rate_def Let_def y_def [symmetric] f by (rule m(1))
  ultimately show ?thesis unfolding x_def by blast
qed

section \<open>The calibration\<close>

text \<open>The counter is read from a clock that does not go back.\<close>

definition tsc_forward :: "'h cpu \<Rightarrow> ('h \<Rightarrow> u64) \<Rightarrow> bool" where
  "tsc_forward cpu clk \<longleftrightarrow> (\<forall>h. fst (asm_rdtsc cpu h) = clk h \<and> clk h \<le> clk (snd (asm_rdtsc cpu h)))
     \<and> (\<forall>port v h. clk h \<le> clk (out8 cpu port v h)) \<and> (\<forall>port h. clk h \<le> clk (snd (in8 cpu port h)))"

text \<open>The output of the timer goes high after some polls.\<close>

definition pit_fires :: "'h cpu \<Rightarrow> 'h \<Rightarrow> bool" where
  "pit_fires cpu h \<longleftrightarrow> (\<exists>n. fst (pit_poll cpu (((\<lambda>h. snd (pit_poll cpu h)) ^^ n) h)) AND 0x80 \<noteq> 0)"

lemma tsc_forward_poll: "tsc_forward cpu clk \<Longrightarrow> clk h \<le> clk (snd (pit_poll cpu h))"
  unfolding tsc_forward_def pit_poll_def by (meson order_trans)

lemma pit_wait_returns:
  assumes "fst (pit_poll cpu (((\<lambda>h. snd (pit_poll cpu h)) ^^ n) h)) AND 0x80 \<noteq> 0" "tsc_forward cpu clk"
  shows "\<exists>h'. pit_wait cpu h = Some h' \<and> clk h \<le> clk h'"
  using assms(1)
proof (induction n arbitrary: h)
  case 0
  then show ?case using tsc_forward_poll [OF assms(2), of h] by (subst pit_wait.simps) (auto split: prod.split)
next
  case (Suc n)
  have "fst (pit_poll cpu (((\<lambda>h. snd (pit_poll cpu h)) ^^ n) (snd (pit_poll cpu h)))) AND 0x80 \<noteq> 0"
    using Suc.prems funpow_swap1 [of "\<lambda>h. snd (pit_poll cpu h)" n h] by simp
  from Suc.IH [OF this] obtain h' where "pit_wait cpu (snd (pit_poll cpu h)) = Some h'" "clk (snd (pit_poll cpu h)) \<le> clk h'" by blast
  then show ?case using tsc_forward_poll [OF assms(2), of h] by (subst pit_wait.simps) (auto split: prod.split)
qed

text \<open>C22: \<open>calibrate\<close> returns once the timer fires, and the rate it stores is a multiple of 100 MHz and, up to the
  rounding errors of its floating-point arithmetic, within 50 MHz of the rate at which the counter ran while the timer counted
  65535 periods of its 1.193182 MHz clock.\<close>

theorem calibrate_accurate:
  assumes "rounds_well rnd" "tsc_forward cpu clk" "h1 = snd (asm_rdtsc cpu h)" "h2 = pit_start cpu (snd (asm_rdtsc cpu h1))" "pit_fires cpu h2"
  shows "\<exists>h3 mhz. pit_wait cpu h2 = Some h3 \<and> calibrate rnd cpu h = Some (Done ((clk h, mhz), snd (asm_rdtsc cpu h3)))
    \<and> 100 dvd unat mhz
    \<and> \<bar>of_nat (unat mhz) - tsc_rate (clk h3 - clk h1)\<bar> \<le> 50 + (tsc_rate (clk h3 - clk h1) + 50) / 2 ^ 49"
proof -
  obtain h3 where h3: "pit_wait cpu h2 = Some h3" "clk h2 \<le> clk h3"
    using pit_wait_returns [OF _ assms(2)] assms(5) unfolding pit_fires_def by blast
  obtain mhz where mhz: "rounded_rate rnd (clk h3 - clk h1) = Done mhz" "100 dvd unat mhz"
    "\<bar>of_nat (unat mhz) - tsc_rate (clk h3 - clk h1)\<bar> \<le> 50 + (tsc_rate (clk h3 - clk h1) + 50) / 2 ^ 49"
    using rounded_rate_near [OF assms(1)] by blast
  have tsc: "fst (asm_rdtsc cpu g) = clk g" for g using assms(2) unfolding tsc_forward_def by blast
  have "clk h1 \<le> clk (snd (asm_rdtsc cpu h1))" "clk (snd (asm_rdtsc cpu h1)) \<le> clk h2"
    using assms(2) unfolding tsc_forward_def assms(4) pit_start_def by (blast, meson order_trans)
  then have "clk h1 \<le> clk h3" using h3(2) by simp
  then have "psub (clk h3) (clk h1) = Done (clk h3 - clk h1)" by (simp add: psub_eq_Done)
  then have "calibrate rnd cpu h = Some (Done ((clk h, mhz), snd (asm_rdtsc cpu h3)))"
    using h3(1) mhz(1) assms(3,4) by (simp add: calibrate_def Let_def case_prod_unfold tsc)
  then show ?thesis using h3(1) mhz(2,3) by blast
qed

text \<open>A processor with a counter of 3 GHz, on which the timer fires at the first poll.\<close>

definition pit_cpu :: "u64 cpu" where
  "pit_cpu =
     \<lparr>asm_rdmsr = (\<lambda>_ h. ((0, 0), h)), asm_wrmsr = (\<lambda>_ _ _ h. h), in8 = (\<lambda>_ h. (0x80, if h = 0 then 164773977 else h)),
      out8 = (\<lambda>_ _ h. h), in32 = (\<lambda>_ h. (0, h)), out32 = (\<lambda>_ _ h. h), volatile_read = (\<lambda>_ h. (0, h)),
      volatile_write = (\<lambda>_ _ h. h), sti = (\<lambda>h. h), cli = (\<lambda>h. h), asm_rdtsc = (\<lambda>h. (h, h))\<rparr>"

theorem calibrate_accurate_witness: "calibrate (\<lambda>x. x) pit_cpu 0 = Some (Done ((0, 3000), 164773977))"
proof -
  have rnd: "rounds_well (\<lambda>x. x)" by (simp add: rounds_well_def)
  have tsc: "tsc_forward pit_cpu (\<lambda>h. h)" by (simp add: tsc_forward_def pit_cpu_def)
  have fires: "pit_fires pit_cpu 0" unfolding pit_fires_def by (rule exI [of _ 0]) (simp add: pit_poll_def pit_cpu_def)
  have wait: "pit_wait pit_cpu 0 = Some 164773977" by (subst pit_wait.simps) (simp add: pit_poll_def pit_cpu_def)
  have start: "0 = pit_start pit_cpu (snd (asm_rdtsc pit_cpu 0))" "0 = snd (asm_rdtsc pit_cpu 0)" "snd (asm_rdtsc pit_cpu h) = h" for h
    by (simp_all add: pit_start_def pit_cpu_def)
  obtain mhz where mhz: "calibrate (\<lambda>x. x) pit_cpu 0 = Some (Done ((0, mhz), 164773977))" "100 dvd unat mhz"
    "\<bar>of_nat (unat mhz) - tsc_rate 164773977\<bar> \<le> 50 + (tsc_rate 164773977 + 50) / 2 ^ 49"
    using calibrate_accurate [OF rnd tsc start(2,1) fires] wait start(3) by auto
  obtain k where k: "unat mhz = 100 * k" using mhz(2) by blast
  have "unat (164773977 :: u64) = 164773977" by simp
  then have rate: "2999 < tsc_rate 164773977" "tsc_rate 164773977 < 3001" unfolding tsc_rate_def by simp_all
  then have "(tsc_rate 164773977 + 50) / 2 ^ 49 \<le> 1" by simp
  moreover have "\<bar>of_nat (100 * k) - tsc_rate 164773977\<bar> \<le> 50 + (tsc_rate 164773977 + 50) / 2 ^ 49" using mhz(3) unfolding k .
  moreover have "(of_nat (100 * k) :: rat) = 100 * of_nat k" by simp
  ultimately have "(of_nat k :: rat) < 31" "(29 :: rat) < of_nat k" using rate by linarith+
  then have "(of_nat k :: rat) < of_nat 31" "(of_nat 29 :: rat) < of_nat k" by simp_all
  then have "k = 30" unfolding of_nat_less_iff by simp
  then have "unat mhz = unat (3000 :: u64)" using k by simp
  then have "mhz = 3000" by (simp only: word_unat_eq_iff)
  then show ?thesis using mhz(1) by simp
qed

end
