(* ===== verification/Kernel_Entry.thy ===== *)
theory Kernel_Entry
  imports Interrupt_Entry Time
begin

text \<open>
  The entry point of the kernel, \<open>src/kernel/src/main.rs\<close>, and the initialisation of the core locals, \<open>init\<close> of
  \<open>src/kernel/src/core_locals.rs\<close>. Every core of the system runs this code. The locks of a core are taken by that core
  alone and are left out here.
\<close>

section \<open>Core locals\<close>

text \<open>The free lists and the APIC ID of a core are in \<open>kernel_state\<close>.\<close>

record core_locals =
  cl_address :: virt_addr
  cl_id :: u32
  cl_apic :: "local_apic option"
  cl_core :: core_state
  cl_ints :: "kernel_handler interrupts option"

text \<open>The statics and the memory that the entry point works on.\<close>

record 'h kernel =
  NEXT_CORE_ID :: u32
  kn_mem :: kmachine
  kn_statics :: int_statics
  kn_clock :: "u64 \<times> u64"
  kn_sys :: apic_system
  kn_hw :: 'h

definition core_new :: "bool \<Rightarrow> core_state" where
  "core_new flag = \<lparr>interrupt_disable_requests = 0, interrupt_depth = arc_new 0, exception_depth = arc_new 0, interrupt_flag = flag\<rparr>"

text \<open>\<open>sz\<close> and \<open>align\<close> are the size and the alignment of \<open>CoreLocals\<close>; \<open>flag\<close> is the interrupt flag of the core.\<close>

definition core_locals_init :: "'h cpu \<Rightarrow> u64 \<Rightarrow> u64 \<Rightarrow> bool \<Rightarrow> phys_addr \<Rightarrow> 'h kernel \<Rightarrow> (core_locals \<times> 'h kernel) outcome" where
  "core_locals_init cpu sz align flag shared k =
     (let core_id = NEXT_CORE_ID k; k = k\<lparr>NEXT_CORE_ID := core_id + 1\<rparr>; (ks, m) = kn_mem k in
      obind (phys_ptr shared) (\<lambda>_.
      obind (unwrap (ks_free_memory ks)) (\<lambda>pmem.
      obind (allocate pmem sz align) (\<lambda>(res, pmem).
      obind (unwrap_result res) (\<lambda>p.
      obind (unwrap p) (\<lambda>p.
      obind (padd p KERNEL_PHYS_WINDOW_BASE) (\<lambda>ptr.
      obind generate_freelists (\<lambda>free_lists.
        Done (\<lparr>cl_address = ptr, cl_id = core_id, cl_apic = None, cl_core = core_new flag, cl_ints = None\<rparr>,
              k\<lparr>kn_mem := (ks\<lparr>ks_free_memory := Some pmem, ks_apic_id := None, ks_free_lists := free_lists\<rparr>, m),
                kn_hw := set_gs_base cpu ptr (kn_hw k)\<rparr>)))))))))"

section \<open>The entry point\<close>

text \<open>What the entry point gets from elsewhere: the CPU features, the addresses of the interrupt tables, the rounding of the
  processor, the enumeration of the PCI devices, the tables of the firmware, and what the other cores do while the
  first one waits for them.\<close>

record 'h platform =
  pf_layout :: node_layout
  pf_locals_size :: u64
  pf_locals_align :: u64
  pf_features :: features
  pf_tables :: int_env
  pf_rnd :: "rat \<Rightarrow> rat"
  pf_pci :: "kmachine \<times> 'h \<Rightarrow> (kmachine \<times> 'h) outcome option"
  pf_wait :: "u32 \<Rightarrow> apic_system \<times> 'h \<Rightarrow> (apic_system \<times> 'h) outcome option"
  pf_entry_code :: "u8 list"
  pf_bootloader_state :: "u8 list"
  pf_n_tables :: nat
  pf_sdt :: phys_addr

text \<open>The part that every core runs.\<close>

definition entry_core :: "'h cpu \<Rightarrow> 'h platform \<Rightarrow> bool \<Rightarrow> phys_addr \<Rightarrow> 'h kernel \<Rightarrow> (core_locals \<times> 'h kernel) outcome" where
  "entry_core cpu pf flag shared k =
     obind (core_locals_init cpu (pf_locals_size pf) (pf_locals_align pf) flag shared k) (\<lambda>(c, k).
     obind (disable_interrupts (cl_core c)) (\<lambda>core.
     obind (interrupts_init (pf_tables pf) Nmi_Handler Page_Fault_Handler (cl_ints c, kn_statics k)) (\<lambda>(regs, ints, st).
     obind (apic_init cpu (pf_layout pf) (pf_features pf) (cl_apic c) (kn_mem k, kn_hw k)) (\<lambda>(apic, mem, h).
       Done (c\<lparr>cl_core := core, cl_ints := Some ints, cl_apic := Some apic\<rparr>, k\<lparr>kn_statics := st, kn_mem := mem, kn_hw := h\<rparr>)))))"

text \<open>What only the first core does: the clock, the devices, the other cores and the timer, in this order.\<close>

definition entry_clock :: "'h cpu \<Rightarrow> 'h platform \<Rightarrow> 'h kernel \<Rightarrow> 'h kernel outcome option" where
  "entry_clock cpu pf k =
     map_option (\<lambda>r. obind r (\<lambda>(clock, h). Done (k\<lparr>kn_clock := clock, kn_hw := h\<rparr>))) (calibrate (pf_rnd pf) cpu (kn_hw k))"

definition entry_pci :: "'h platform \<Rightarrow> 'h kernel \<Rightarrow> 'h kernel outcome option" where
  "entry_pci pf k = map_option (\<lambda>r. obind r (\<lambda>(mem, h). Done (k\<lparr>kn_mem := mem, kn_hw := h\<rparr>))) (pf_pci pf (kn_mem k, kn_hw k))"

definition entry_acpi :: "'h cpu \<Rightarrow> 'h platform \<Rightarrow> local_apic option \<Rightarrow> 'h kernel \<Rightarrow> 'h kernel outcome option" where
  "entry_acpi cpu pf apic k =
     map_option (\<lambda>r. obind r (\<lambda>res. obind (unwrap_result res) (\<lambda>(mem, s, h). Done (k\<lparr>kn_mem := mem, kn_sys := s, kn_hw := h\<rparr>))))
       (acpi_init (init_system cpu (pf_wait pf) (pf_entry_code pf) (pf_bootloader_state pf) apic) (pf_n_tables pf) (pf_sdt pf)
          (kn_mem k, kn_sys k, kn_hw k))"

definition entry_timer :: "'h cpu \<Rightarrow> core_locals \<Rightarrow> 'h kernel \<Rightarrow> (core_locals \<times> 'h kernel) outcome" where
  "entry_timer cpu c k =
     obind (unwrap (cl_apic c)) (\<lambda>apic.
     obind (enable_reboot_timer cpu Soft_Reboot_Timer_Handler apic (cl_ints c, kn_statics k) (kn_hw k)) (\<lambda>((ints, st), h).
       Done (c\<lparr>cl_ints := ints\<rparr>, k\<lparr>kn_statics := st, kn_hw := h\<rparr>)))"

text \<open>\<open>then_run\<close> goes on with a call that may not return.\<close>

definition then_run :: "'a outcome option \<Rightarrow> ('a \<Rightarrow> 'b outcome option) \<Rightarrow> 'b outcome option" where
  "then_run m f = (case m of None \<Rightarrow> None | Some Panic \<Rightarrow> Some Panic | Some (Done a) \<Rightarrow> f a)"

definition entry_bsp :: "'h cpu \<Rightarrow> 'h platform \<Rightarrow> core_locals \<times> 'h kernel \<Rightarrow> (core_locals \<times> 'h kernel) outcome option" where
  "entry_bsp cpu pf ck =
     (let (c, k) = ck in
      then_run (entry_clock cpu pf k) (\<lambda>k.
      then_run (entry_pci pf k) (\<lambda>k.
      then_run (entry_acpi cpu pf (cl_apic c) k) (\<lambda>k. Some (entry_timer cpu c k)))))"

text \<open>The end: the interrupts are enabled and the core checks in. What is left is the wait for the other cores.\<close>

definition entry_check_in :: "core_locals \<times> 'h kernel \<Rightarrow> (core_locals \<times> 'h kernel) outcome" where
  "entry_check_in ck =
     (let (c, k) = ck in
      obind (enable_interrupts (cl_core c)) (\<lambda>core.
      obind (unwrap (ks_apic_id (fst (kn_mem k)))) (\<lambda>apic_id.
      obind (check_in_arrive (cl_id c = 0) apic_id (kn_sys k)) (\<lambda>s.
        Done (c\<lparr>cl_core := core\<rparr>, k\<lparr>kn_sys := s\<rparr>)))))"

definition kernel_entry :: "'h cpu \<Rightarrow> 'h platform \<Rightarrow> bool \<Rightarrow> phys_addr \<Rightarrow> 'h kernel \<Rightarrow> (core_locals \<times> 'h kernel) outcome option" where
  "kernel_entry cpu pf flag shared k =
     then_run (Some (entry_core cpu pf flag shared k)) (\<lambda>ck.
     then_run (if cl_id (fst ck) = 0 then entry_bsp cpu pf ck else Some (Done ck)) (\<lambda>ck. Some (entry_check_in ck)))"

end
