(* ===== verification/Kernel_Entry_Props.thy ===== *)
theory Kernel_Entry_Props
  imports Kernel_Entry Interrupts_Props Apic_System_Props Kernel_Mm_Props Rangeset_Props
begin

text \<open>
  Starting the kernel on the cores of the system: what a core has set up when it checks in, and that the cores do not share
  their core locals.
\<close>

section \<open>The core locals of all cores\<close>

fun init_all :: "'h cpu \<Rightarrow> u64 \<Rightarrow> u64 \<Rightarrow> phys_addr \<Rightarrow> bool list \<Rightarrow> 'h kernel \<Rightarrow> (core_locals list \<times> 'h kernel) outcome" where
  "init_all cpu sz align shared [] k = Done ([], k)"
| "init_all cpu sz align shared (flag # flags) k =
     obind (core_locals_init cpu sz align flag shared k) (\<lambda>(c, k).
     obind (init_all cpu sz align shared flags k) (\<lambda>(cs, k). Done (c # cs, k)))"

text \<open>The physical memory of the core locals.\<close>

definition locals_start :: "core_locals \<Rightarrow> u64" where
  "locals_start c = cl_address c - KERNEL_PHYS_WINDOW_BASE"

definition locals_block :: "u64 \<Rightarrow> core_locals \<Rightarrow> u64 set" where
  "locals_block sz c = {locals_start c..locals_start c + (sz - 1)}"

abbreviation free_of :: "'h kernel \<Rightarrow> range_set option" where
  "free_of k \<equiv> ks_free_memory (fst (kn_mem k))"

lemma unwrap_result_Done: "unwrap_result x = Done a \<longleftrightarrow> x = Inr a"
  by (cases x) simp_all

lemma core_locals_init_done:
  assumes "core_locals_init cpu sz align flag shared k = Done (c, k')"
  obtains rs p rs' where "free_of k = Some rs" "allocate rs sz align = Done (Inr (Some p), rs')" "free_of k' = Some rs'"
    "locals_start c = p" "cl_id c = NEXT_CORE_ID k" "NEXT_CORE_ID k' = NEXT_CORE_ID k + 1" "cl_core c = core_new flag"
    "cl_ints c = None" "cl_apic c = None" "kn_statics k' = kn_statics k" "kn_sys k' = kn_sys k"
  using assms
  by (auto simp: core_locals_init_def Let_def case_prod_unfold locals_start_def checked_add_eq_Some unwrap_result_Done)

lemma allocate_block:
  assumes "allocate rs sz align = Done (Inr (Some p), rs')" "rs_inv rs"
  shows "rs_inv rs'" "p AND (align - 1) = 0" "p \<le> p + (sz - 1)" "{p..p + (sz - 1)} \<subseteq> rs_cover rs" "rs_cover rs' \<subseteq> rs_cover rs - {p..p + (sz - 1)}"
proof -
  have "sz \<noteq> 0" "count_ones align = 1" using assms(1) by (auto simp: allocate_def allocate_prefer_def split: if_splits)
  then have "rs_inv rs' \<and> alloc_post rs sz align p rs'"
    using allocate_prefer_spec [OF assms(2), of None sz align] assms(1) by (auto simp: allocate_def)
  then show "rs_inv rs'" "p AND (align - 1) = 0" "p \<le> p + (sz - 1)" "{p..p + (sz - 1)} \<subseteq> rs_cover rs" "rs_cover rs' \<subseteq> rs_cover rs - {p..p + (sz - 1)}"
    by (simp_all add: alloc_post_def)
qed

lemma init_all_blocks:
  assumes "init_all cpu sz align shared flags k = Done (cs, k')" "free_of k = Some rs" "rs_inv rs"
  shows "map cl_id cs = map (\<lambda>i. NEXT_CORE_ID k + of_nat i) [0..<length flags]
    \<and> sorted_wrt (\<lambda>c d. locals_block sz c \<inter> locals_block sz d = {}) cs
    \<and> (\<forall>c \<in> set cs. locals_start c AND (align - 1) = 0 \<and> locals_start c \<le> locals_start c + (sz - 1) \<and> locals_block sz c \<subseteq> rs_cover rs)
    \<and> (\<exists>rs'. free_of k' = Some rs' \<and> rs_inv rs' \<and> rs_cover rs' \<subseteq> rs_cover rs - (\<Union>c \<in> set cs. locals_block sz c))"
  using assms
proof (induction flags arbitrary: k cs rs)
  case (Cons flag flags)
  obtain c k1 cs1 where c: "core_locals_init cpu sz align flag shared k = Done (c, k1)" "init_all cpu sz align shared flags k1 = Done (cs1, k')"
    "cs = c # cs1" using Cons.prems(1) by auto
  obtain p rs1 where a: "allocate rs sz align = Done (Inr (Some p), rs1)" "free_of k1 = Some rs1" "locals_start c = p" "cl_id c = NEXT_CORE_ID k"
    "NEXT_CORE_ID k1 = NEXT_CORE_ID k + 1" using core_locals_init_done [OF c(1)] Cons.prems(2) by (metis option.inject)
  note b = allocate_block [OF a(1) Cons.prems(3)]
  note IH = Cons.IH [OF c(2) a(2) b(1)]
  have block: "locals_block sz c = {p..p + (sz - 1)}" by (simp add: locals_block_def a(3))
  have "map cl_id cs1 = map (\<lambda>i. NEXT_CORE_ID k + of_nat i) [1..<Suc (length flags)]"
    using IH by (simp add: a(5) map_Suc_upt [symmetric] add.assoc del: upt_Suc)
  then have ids: "map cl_id cs = map (\<lambda>i. NEXT_CORE_ID k + of_nat i) [0..<length (flag # flags)]"
    using a(4) by (simp add: c(3) upt_conv_Cons del: upt_Suc)
  have "\<forall>d \<in> set cs1. locals_block sz c \<inter> locals_block sz d = {}" using IH b(5) unfolding block by blast
  moreover have "\<forall>d \<in> set cs1. locals_block sz d \<subseteq> rs_cover rs" using IH b(5) by blast
  moreover obtain rs' where "free_of k' = Some rs'" "rs_inv rs'" "rs_cover rs' \<subseteq> rs_cover rs1 - (\<Union>c \<in> set cs1. locals_block sz c)" using IH by blast
  moreover from this(3) have "rs_cover rs' \<subseteq> rs_cover rs - (\<Union>c \<in> set cs. locals_block sz c)" using b(5) unfolding c(3) block [symmetric] by auto
  ultimately show ?case using ids IH b(2-4) unfolding c(3) by (simp add: a(3) block)
qed simp

text \<open>C11: The cores that enter the kernel one after the other get the IDs 0, 1, 2 and so on, so that exactly one of
  them is the first core; the core locals of each are aligned and lie in memory that was free, apart from those of every
  other core, and the memory is not free any more.\<close>

theorem core_locals_distinct:
  assumes "init_all cpu sz align shared flags k = Done (cs, k')" "free_of k = Some rs" "rs_inv rs"
    and "NEXT_CORE_ID k = 0" "length flags < 2 ^ 32"
  shows "distinct (map cl_id cs) \<and> (\<forall>i < length flags. unat (cl_id (cs ! i)) = i)
    \<and> sorted_wrt (\<lambda>c d. locals_block sz c \<inter> locals_block sz d = {}) cs
    \<and> (\<forall>c \<in> set cs. locals_start c AND (align - 1) = 0 \<and> locals_start c \<le> locals_start c + (sz - 1) \<and> locals_block sz c \<subseteq> rs_cover rs)
    \<and> (\<exists>rs'. free_of k' = Some rs' \<and> rs_inv rs' \<and> rs_cover rs' \<subseteq> rs_cover rs - (\<Union>c \<in> set cs. locals_block sz c))"
proof -
  note b = init_all_blocks [OF assms(1-3)]
  then have ids: "map cl_id cs = map of_nat [0..<length flags]" using assms(4) by simp
  have u: "unat (of_nat i :: u32) = i" if "i < length flags" for i
    using that assms(5) by (simp add: unsigned_of_nat take_bit_nat_eq_self)
  have "inj_on (of_nat :: nat \<Rightarrow> u32) {0..<length flags}" by (rule inj_onI) (metis atLeastLessThan_iff u)
  then have "distinct (map cl_id cs)" unfolding ids by (simp add: distinct_map)
  moreover have "unat (cl_id (cs ! i)) = i" if "i < length flags" for i
  proof -
    have "length cs = length flags" using ids by (metis diff_zero length_map length_upt)
    then have "cl_id (cs ! i) = of_nat i" using ids that by (metis add_0 nth_map length_upt diff_zero nth_upt)
    then show ?thesis using u that by simp
  qed
  ultimately show ?thesis using b by blast
qed

section \<open>A core that is ready\<close>

lemma then_run_Done [simp]: "then_run m f = Some (Done b) \<longleftrightarrow> (\<exists>a. m = Some (Done a) \<and> f a = Some (Done b))"
  by (auto simp: then_run_def split: option.splits outcome.splits)

text \<open>While it starts, the core has asked once for interrupts to be disabled.\<close>

definition starting :: "core_state \<Rightarrow> bool" where
  "starting core \<longleftrightarrow> interrupt_disable_requests core = 1 \<and> interrupt_depth core = 0 \<and> exception_depth core = 0 \<and> \<not> interrupt_flag core"

abbreviation two_handlers :: "kernel_handler option list" where
  "two_handlers \<equiv> (replicate 256 None)[2 := Some Nmi_Handler, 14 := Some Page_Fault_Handler]"

lemma entry_core_done:
  assumes "entry_core cpu pf flag shared k = Done (c, k')" "length (EOI_REQUIRED (kn_statics k)) = 256" "length (DRAIN_PRECEDENCE (kn_statics k)) = 256"
  shows "starting (cl_core c) \<and> cl_id c = NEXT_CORE_ID k \<and> cl_apic c \<noteq> None
    \<and> (\<exists>ints. cl_ints c = Some ints \<and> dispatch ints = two_handlers) \<and> length (EOI_REQUIRED (kn_statics k')) = 256"
proof -
  obtain c1 k1 core regs ints st apic mem h where r:
    "core_locals_init cpu (pf_locals_size pf) (pf_locals_align pf) flag shared k = Done (c1, k1)"
    "disable_interrupts (cl_core c1) = Done core"
    "interrupts_init (pf_tables pf) Nmi_Handler Page_Fault_Handler (cl_ints c1, kn_statics k1) = Done (regs, ints, st)"
    "c = c1\<lparr>cl_core := core, cl_ints := Some ints, cl_apic := Some apic\<rparr>" "k' = k1\<lparr>kn_statics := st, kn_mem := mem, kn_hw := h\<rparr>"
    using assms(1) by (auto simp: entry_core_def)
  have l: "cl_id c1 = NEXT_CORE_ID k" "cl_core c1 = core_new flag" "cl_ints c1 = None" "kn_statics k1 = kn_statics k"
    using core_locals_init_done [OF r(1)] by metis+
  have "starting core" using r(2) by (auto simp: l disable_interrupts_def Let_def core_new_def arc_new_def starting_def)
  moreover have "dispatch ints = two_handlers" "length (EOI_REQUIRED st) = 256"
    using interrupts_init_dispatch [of "pf_tables pf" Nmi_Handler Page_Fault_Handler "kn_statics k" regs ints st] r(3) assms(2,3) l by simp_all
  ultimately show ?thesis using r(4,5) l(1) by simp
qed

lemma entry_timer_done:
  assumes "entry_timer cpu c k = Done (c', k')" "cl_ints c = Some ints" "dispatch ints = two_handlers" "length (EOI_REQUIRED (kn_statics k)) = 256"
  shows "cl_core c' = cl_core c \<and> cl_id c' = cl_id c \<and> cl_apic c' = cl_apic c
    \<and> (\<exists>ints'. cl_ints c' = Some ints' \<and> dispatch ints' = two_handlers[32 := Some Soft_Reboot_Timer_Handler])"
  using assms
  by (auto simp: entry_timer_def enable_reboot_timer_def Let_def register_handler_def assert_that_def interrupt_index_def
      array_get_def array_set_def split: if_splits)

lemma entry_bsp_done:
  assumes "entry_bsp cpu pf (c, k) = Some (Done (c', k'))" "cl_ints c = Some ints" "dispatch ints = two_handlers" "length (EOI_REQUIRED (kn_statics k)) = 256"
  shows "cl_core c' = cl_core c \<and> cl_id c' = cl_id c \<and> cl_apic c' = cl_apic c
    \<and> (\<exists>ints'. cl_ints c' = Some ints' \<and> dispatch ints' = two_handlers[32 := Some Soft_Reboot_Timer_Handler])"
proof -
  obtain k1 k2 k3 where s: "entry_clock cpu pf k = Some (Done k1)" "entry_pci pf k1 = Some (Done k2)"
    "entry_acpi cpu pf (cl_apic c) k2 = Some (Done k3)" "entry_timer cpu c k3 = Done (c', k')"
    using assms(1) by (auto simp: entry_bsp_def)
  have "kn_statics k3 = kn_statics k"
    using s(1-3) by (auto simp: entry_clock_def entry_pci_def entry_acpi_def)
  then show ?thesis using entry_timer_done [OF s(4) assms(2,3)] assms(4) by simp
qed

lemma check_in_online:
  assumes "check_in_arrive b i s = Done s'"
  shows "load_state i s' = Done (apic_state_number Online)"
proof (cases b)
  case True
  then have "load_state i s = Done 1" "s' = s\<lparr>CORES_CHECKED_IN := CORES_CHECKED_IN s + 1\<rparr>"
    using assms by (auto simp: check_in_arrive_def assert_that_def Let_def split: if_splits)
  then show ?thesis by (simp add: load_state_def)
next
  case False
  then show ?thesis using assms check_in_arrive_effect(2) [of i s s' i] by simp
qed

lemma entry_check_in_done:
  assumes "entry_check_in (c, k) = Done (c', k')" "starting (cl_core c)"
  shows "interrupt_disable_requests (cl_core c') = 0 \<and> interrupt_flag (cl_core c') \<and> \<not> in_interrupt (cl_core c') \<and> \<not> in_exception (cl_core c')
    \<and> cl_id c' = cl_id c \<and> cl_ints c' = cl_ints c \<and> cl_apic c' = cl_apic c
    \<and> (\<exists>i. ks_apic_id (fst (kn_mem k')) = Some i \<and> load_state i (kn_sys k') = Done (apic_state_number Online))"
proof -
  obtain core i s where r: "enable_interrupts (cl_core c) = Done core" "ks_apic_id (fst (kn_mem k)) = Some i"
    "check_in_arrive (cl_id c = 0) i (kn_sys k) = Done s" "c' = c\<lparr>cl_core := core\<rparr>" "k' = k\<lparr>kn_sys := s\<rparr>"
    using assms(1) by (auto simp: entry_check_in_def)
  have "interrupt_disable_requests core = 0" "interrupt_flag core" "\<not> in_interrupt core" "\<not> in_exception core"
    using r(1) assms(2) by (auto simp: enable_interrupts_def Let_def starting_def in_interrupt_def in_exception_def arc_count_def)
  then show ?thesis using r(2,4,5) check_in_online [OF r(3)] by simp
qed

text \<open>C10: A core that gets through the entry point of the kernel is ready: it has the next core ID, its local APIC is set up,
  interrupts are enabled and no request to disable them is left, it is in no interrupt or exception, and its state is online.
  Its handlers are those of NMI and page fault and, on the first core only, that of the reboot timer.\<close>

theorem kernel_entry_ready:
  assumes "kernel_entry cpu pf flag shared k = Some (Done (c, k'))" "length (EOI_REQUIRED (kn_statics k)) = 256" "length (DRAIN_PRECEDENCE (kn_statics k)) = 256"
  shows "cl_id c = NEXT_CORE_ID k \<and> cl_apic c \<noteq> None
    \<and> interrupt_disable_requests (cl_core c) = 0 \<and> interrupt_flag (cl_core c) \<and> \<not> in_interrupt (cl_core c) \<and> \<not> in_exception (cl_core c)
    \<and> (\<exists>i. ks_apic_id (fst (kn_mem k')) = Some i \<and> load_state i (kn_sys k') = Done (apic_state_number Online))
    \<and> (\<exists>ints. cl_ints c = Some ints \<and> (\<forall>v < 256. dispatch ints ! v =
         (if v = 2 then Some Nmi_Handler else if v = 14 then Some Page_Fault_Handler
          else if v = 32 \<and> cl_id c = 0 then Some Soft_Reboot_Timer_Handler else None)))"
proof -
  obtain c1 k1 c2 k2 where r: "entry_core cpu pf flag shared k = Done (c1, k1)"
    "(if cl_id c1 = 0 then entry_bsp cpu pf (c1, k1) else Some (Done (c1, k1))) = Some (Done (c2, k2))" "entry_check_in (c2, k2) = Done (c, k')"
    using assms(1) by (auto simp: kernel_entry_def)
  note e = entry_core_done [OF r(1) assms(2,3)]
  then obtain ints where ints: "cl_ints c1 = Some ints" "dispatch ints = two_handlers" by blast
  have b: "cl_core c2 = cl_core c1 \<and> cl_id c2 = cl_id c1 \<and> cl_apic c2 = cl_apic c1
    \<and> (\<exists>ints'. cl_ints c2 = Some ints' \<and> dispatch ints' = (if cl_id c1 = 0 then two_handlers[32 := Some Soft_Reboot_Timer_Handler] else two_handlers))"
    using r(2) entry_bsp_done [of cpu pf c1 k1 c2 k2 ints] ints e by (cases "cl_id c1 = 0") auto
  then obtain ints' where i: "cl_ints c2 = Some ints'"
    "dispatch ints' = (if cl_id c1 = 0 then two_handlers[32 := Some Soft_Reboot_Timer_Handler] else two_handlers)" by blast
  have "starting (cl_core c2)" using e b by simp
  note f = entry_check_in_done [OF r(3) this]
  have "dispatch ints' ! v = (if v = 2 then Some Nmi_Handler else if v = 14 then Some Page_Fault_Handler
      else if v = 32 \<and> cl_id c = 0 then Some Soft_Reboot_Timer_Handler else None)" if "v < 256" for v
    using that f b i(2) by (auto simp: nth_list_update)
  then show ?thesis using f e b i(1) by auto
qed

section \<open>An example\<close>

text \<open>A core with an x2APIC that has the ID 1, on a system of two cores.\<close>

definition entry_cpu :: "unit cpu" where
  "entry_cpu =
     \<lparr>asm_rdmsr = (\<lambda>r h. ((0, if r = 0x1B then 0x800 else 1), h)), asm_wrmsr = (\<lambda>_ _ _ h. h), in8 = (\<lambda>_ h. (0, h)), out8 = (\<lambda>_ _ h. h),
      in32 = (\<lambda>_ h. (0, h)), out32 = (\<lambda>_ _ h. h), volatile_read = (\<lambda>_ h. (0, h)), volatile_write = (\<lambda>_ _ h. h),
      sti = (\<lambda>h. h), cli = (\<lambda>h. h), asm_rdtsc = (\<lambda>h. (0, h))\<rparr>"

definition entry_platform :: "unit platform" where
  "entry_platform =
     \<lparr>pf_layout = declared_layout, pf_locals_size = 0x800, pf_locals_align = 0x1000,
      pf_features = features_default\<lparr>feat_apic := True, feat_x2apic := True\<rparr>, pf_tables = env_demo, pf_rnd = (\<lambda>x. x),
      pf_pci = (\<lambda>s. Some (Done s)), pf_wait = (\<lambda>_ s. Some (Done s)), pf_entry_code = [], pf_bootloader_state = [],
      pf_n_tables = 0, pf_sdt = 0\<rparr>"

definition entry_kernel :: "u32 \<Rightarrow> unit kernel" where
  "entry_kernel i =
     \<lparr>NEXT_CORE_ID = i, kn_mem = (kernel_demo\<lparr>ks_free_memory := Some rs_low\<rparr>, \<lambda>_. 0), kn_statics = int_statics_init, kn_clock = (0, 3000),
      kn_sys = apic_system_init\<lparr>APIC_STATES := \<lparr>once_initialized = True, once_value = Some [1, 2]\<rparr>, TOTAL_CORES := \<lparr>once_initialized = True, once_value = Some 2\<rparr>\<rparr>,
      kn_hw = ()\<rparr>"

lemma entry_allocations:
  "map_outcome fst (allocate rs_low 0x800 0x1000) = Done (Inr (Some 0x1000))"
  "map_outcome fst (obind (allocate rs_low 0x800 0x1000) (\<lambda>(_, rs). allocate rs 0x800 0x1000)) = Done (Inr (Some 0x2000))"
  by code_simp+

lemma entry_init:
  assumes "free_of k = Some rs" "allocate rs 0x800 0x1000 = Done (Inr (Some p), rs')" "p \<le> 0x2000"
  shows "\<exists>c k'. core_locals_init cpu 0x800 0x1000 flag 0 k = Done (c, k') \<and> free_of k' = Some rs' \<and> kn_hw k' = set_gs_base cpu (cl_address c) (kn_hw k)
    \<and> cl_ints c = None \<and> cl_apic c = None \<and> cl_core c = core_new flag \<and> ks_apic_id (fst (kn_mem k')) = None
    \<and> kn_statics k' = kn_statics k \<and> kn_sys k' = kn_sys k \<and> cl_id c = NEXT_CORE_ID k"
proof -
  obtain fls where "generate_freelists = Done fls" using generate_freelists_nth by blast
  moreover have "checked_add p KERNEL_PHYS_WINDOW_BASE = Some (p + KERNEL_PHYS_WINDOW_BASE)"
    using assms(3) unfolding checked_add_eq_Some layout_values by (simp add: word_le_nat_alt)
  moreover have "checked_add 0 KERNEL_PHYS_WINDOW_BASE = Some KERNEL_PHYS_WINDOW_BASE" by (simp add: checked_add_eq_Some layout_values)
  ultimately have "core_locals_init cpu 0x800 0x1000 flag 0 k =
      Done (\<lparr>cl_address = p + KERNEL_PHYS_WINDOW_BASE, cl_id = NEXT_CORE_ID k, cl_apic = None, cl_core = core_new flag, cl_ints = None\<rparr>,
        k\<lparr>NEXT_CORE_ID := NEXT_CORE_ID k + 1,
          kn_mem := ((fst (kn_mem k))\<lparr>ks_free_memory := Some rs', ks_apic_id := None, ks_free_lists := fls\<rparr>, snd (kn_mem k)),
          kn_hw := set_gs_base cpu (p + KERNEL_PHYS_WINDOW_BASE) (kn_hw k)\<rparr>)"
    using assms(1,2) by (auto simp: core_locals_init_def Let_def case_prod_unfold phys_ptr_def padd_def)
  then show ?thesis by simp
qed

theorem core_locals_distinct_witness:
  "\<exists>c d k'. init_all entry_cpu 0x800 0x1000 0 [True, False] (entry_kernel 0) = Done ([c, d], k')
    \<and> cl_id c = 0 \<and> cl_id d = 1 \<and> locals_block 0x800 c \<inter> locals_block 0x800 d = {}"
proof -
  let ?k = "entry_kernel 0"
  obtain rs1 where rs1: "allocate rs_low 0x800 0x1000 = Done (Inr (Some 0x1000), rs1)"
    using entry_allocations(1) by (cases "allocate rs_low 0x800 0x1000") auto
  then obtain rs2 where rs2: "allocate rs1 0x800 0x1000 = Done (Inr (Some 0x2000), rs2)"
    using entry_allocations(2) by (cases "allocate rs1 0x800 0x1000") auto
  have f: "free_of ?k = Some rs_low" "NEXT_CORE_ID ?k = 0" by (simp_all add: entry_kernel_def)
  obtain c k1 where c: "core_locals_init entry_cpu 0x800 0x1000 True 0 ?k = Done (c, k1)" "free_of k1 = Some rs1"
    using entry_init [OF f(1) rs1, of entry_cpu True] by auto
  obtain d k2 where d: "core_locals_init entry_cpu 0x800 0x1000 False 0 k1 = Done (d, k2)"
    using entry_init [OF c(2) rs2, of entry_cpu False] by auto
  have run: "init_all entry_cpu 0x800 0x1000 0 [True, False] ?k = Done ([c, d], k2)" using c(1) d by simp
  have "unat (cl_id c) = 0" "unat (cl_id d) = 1" "locals_block 0x800 c \<inter> locals_block 0x800 d = {}"
    using core_locals_distinct [OF run f(1) inv_low f(2)] by (auto dest: spec [of _ 0] spec [of _ 1])
  then have "cl_id c = 0" "cl_id d = 1" by (simp_all add: word_unat_eq_iff)
  then show ?thesis using run \<open>locals_block 0x800 c \<inter> locals_block 0x800 d = {}\<close> by blast
qed

theorem kernel_entry_ready_witness:
  "\<exists>c k'. kernel_entry entry_cpu entry_platform False 0 (entry_kernel 1) = Some (Done (c, k'))
    \<and> cl_id c = 1 \<and> interrupt_flag (cl_core c) \<and> interrupt_disable_requests (cl_core c) = 0"
proof -
  let ?k = "entry_kernel 1"
  obtain rs1 where rs: "allocate rs_low 0x800 0x1000 = Done (Inr (Some 0x1000), rs1)"
    using entry_allocations(1) by (cases "allocate rs_low 0x800 0x1000") auto
  have f: "free_of ?k = Some rs_low" "NEXT_CORE_ID ?k = 1" "kn_statics ?k = int_statics_init" by (simp_all add: entry_kernel_def)
  obtain c k1 where c: "core_locals_init entry_cpu 0x800 0x1000 False 0 ?k = Done (c, k1)" "cl_ints c = None" "cl_apic c = None" "cl_core c = core_new False"
    "ks_apic_id (fst (kn_mem k1)) = None" "kn_statics k1 = int_statics_init" "kn_sys k1 = kn_sys ?k" "cl_id c = 1"
    using entry_init [OF f(1) rs, of entry_cpu False] f by auto
  obtain regs ints st where i: "interrupts_init env_demo Nmi_Handler Page_Fault_Handler (None, int_statics_init) = Done (regs, ints, st)"
    using env_demo_returns [of Nmi_Handler Page_Fault_Handler] by auto
  have "\<exists>apic. apic_init entry_cpu declared_layout (features_default\<lparr>feat_apic := True, feat_x2apic := True\<rparr>) None (kn_mem k1, ())
      = Done (apic, ((fst (kn_mem k1))\<lparr>ks_apic_id := Some 1\<rparr>, snd (kn_mem k1)), ())"
    using c(5)
    by (simp add: apic_init_def apic_enable_base_def apic_save_enable_def apic_id_def apic_read_def apic_write_def apic_msr_def rdmsr_def wrmsr_def
        entry_cpu_def IA32_APIC_BASE_def IA32_APIC_BASE_EN_def Let_def set_apic_id_def)
  then obtain apic where a: "apic_init entry_cpu declared_layout (features_default\<lparr>feat_apic := True, feat_x2apic := True\<rparr>) None (kn_mem k1, ())
      = Done (apic, ((fst (kn_mem k1))\<lparr>ks_apic_id := Some 1\<rparr>, snd (kn_mem k1)), ())" by blast
  define core where "core = (core_new False)\<lparr>interrupt_disable_requests := 1, interrupt_flag := False\<rparr>"
  have core: "disable_interrupts (core_new False) = Done core" "starting core"
    by (simp_all add: core_def disable_interrupts_def Let_def core_new_def starting_def arc_new_def checked_add_def)
  obtain core' where core': "enable_interrupts core = Done core'"
    using core(2) by (auto simp: enable_interrupts_def Let_def starting_def checked_sub_def)
  obtain s where s: "check_in_arrive False 1 (kn_sys ?k) = Done s"
    using check_in_arrive_ok [of 1 "kn_sys ?k" 2] by (auto simp: entry_kernel_def load_state_def once_read_def once_get_def)
  have "\<exists>c k'. kernel_entry entry_cpu entry_platform False 0 ?k = Some (Done (c, k'))"
    using c i a core core' s
    by (simp add: kernel_entry_def entry_core_def entry_platform_def entry_check_in_def then_run_def)
  then obtain c' k' where e: "kernel_entry entry_cpu entry_platform False 0 ?k = Some (Done (c', k'))" by blast
  show ?thesis using kernel_entry_ready [OF e] e f by (auto simp: int_statics_init_def)
qed

end
