(* ===== verification/Spec2Isabelle.thy ===== *)
theory Spec2Isabelle
  imports Rangeset_Props Page_Table_Props Boot_Main_Props Kernel_Mm_Props Sync_Props Dhcp_Props Net_Device_Props
    Core_Reqs Acpi_Props Interrupts_Props Apic_Props Apic_System_Props Interrupt_Entry_Props Efi_Props Pci_Props Intel_Send_Props Kernel_Entry_Props
begin

text \<open>
  A verification library for the operating system under \<open>src/\<close>: a UEFI bootloader (\<open>src/bootloader\<close>), a kernel
  (\<open>src/kernel\<close>) and the crates they share (\<open>src/shared\<close>).

  \<^bold>\<open>The program.\<close> The bootloader takes the free physical memory from the firmware into a \<open>RangeSet\<close>, parses the
  kernel's ELF image, builds page tables for it and jumps to it. Every core enters the kernel at the same place, gets its
  core locals, its interrupt tables and its local APIC; the first core also finds the PCI devices, reads the ACPI tables,
  brings up the other cores and starts the timer that watches for a soft reboot. The kernel keeps the range set of the
  bootloader behind a spin lock, allocates from it through free lists of every power-of-two size, and maps virtual regions
  with the same page-table code. A driver for an Intel network card moves packets through two rings of descriptors;
  frames are written and read through a cursor over packet buffers, and ARP, UDP and DHCP are built on Ethernet and IP.
  Cores share data through ticket locks and once locks. A panic stops the other cores and waits for a reboot.

  \<^bold>\<open>How it is modelled.\<close> A Rust function becomes a HOL function of the state it reads and writes. \<open>outcome\<close>
  (theory \<open>Prelude\<close>) is what a call does: \<open>Done\<close> with a value, or \<open>Panic\<close> for a failed assertion, an
  \<open>unwrap\<close>, an index out of bounds or an overflow; \<open>Result\<close> is a sum and \<open>Option\<close> an option inside it. Machine
  integers are words and wrap; \<open>usize\<close> counters that index lists are natural numbers with their bounds written
  out. Arithmetic operators panic on overflow, as in a build with overflow checks. Memory behind raw pointers is
  a function from addresses to bytes (theory \<open>Memory\<close>). What is outside \<open>src/\<close> is an argument: the instructions of the
  processor and through them the devices (record \<open>cpu\<close> of functions on a hardware state of any type), the firmware
  (\<open>firmware\<close>), the network card seen from the network stack (\<open>net_platform\<close>), the rounding of floating-point numbers.
  Theorems that depend on them name what they rely on, such as \<open>apic_registers\<close>, \<open>receive_registers\<close>,
  \<open>sends_when_full\<close>, \<open>tsc_forward\<close> or \<open>rounds_well\<close>, and have an instance in their witness. A call that may not return
  is a \<open>partial_function (option)\<close>, where \<open>None\<close> means that it does not.

  \<^bold>\<open>Memory.\<close>

  \<^item> \<open>Rangeset\<close> is \<open>src/shared/rangeset/src/lib.rs\<close>: the array of 256 slots, \<open>insert\<close>, \<open>remove\<close>, \<open>delete\<close> and
    \<open>allocate_prefer\<close> with their loops. \<open>Rangeset_Correct\<close> relates the array to the set of addresses it covers;
    \<open>Frame_Pool\<close> states as a locale what a pool of blocks promises and proves that blocks in use never overlap,
    and the range set is an instance. \<open>Rangeset_Props\<close> holds the properties.
  \<^item> \<open>Page_Table\<close> is \<open>src/shared/page_table/src/lib.rs\<close>. \<open>Page_Table_Walk\<close> gives the meaning of tables in memory
    as a tree and of a walk as a lookup; \<open>Page_Table_Correct\<close> states the contract of a physical memory as the
    locale \<open>phys_memory\<close> and proves the walk and \<open>map_raw\<close> correct inside it; \<open>Page_Map\<close> does so for the loops that
    map a region. \<open>Boot_Mm\<close> (\<open>src/bootloader/src/mm.rs\<close>) implements the contract on the range set and interprets the
    locale; \<open>Page_Table_Props\<close> holds the properties.
  \<^item> \<open>Free_List\<close> and \<open>Kernel_Mm\<close> are \<open>src/kernel/src/mm.rs\<close> and the free lists of
    \<open>src/kernel/src/core_locals.rs\<close>. A list lives inside the free blocks; \<open>Free_List\<close> proves that it is a stack
    of disjoint blocks, and \<open>Kernel_Mm_Props\<close> how it is refilled, which list serves a request and that virtual
    regions never overlap. \<open>Core_Reqs\<close> is \<open>memmove\<close> and its companions.

  \<^bold>\<open>Booting.\<close>

  \<^item> \<open>Efi\<close> is \<open>src/bootloader/src/efi\<close>: status codes, the memory map, the tables of the firmware; \<open>Efi_Props\<close> shows which
    memory is free after the exit from the boot services.
  \<^item> \<open>Elf\<close> is \<open>src/shared/elf_parser/src/lib.rs\<close>, with a total iterator over the program headers; \<open>Elf_Props\<close>
    characterises the files it accepts and the segments it yields. \<open>Boot_Main\<close> is \<open>src/bootloader/src/main.rs\<close> on top of
    it; \<open>Boot_Main_Props\<close> shows that the kernel's segments are in memory where the page table maps them.
    \<open>Shared_Data\<close> is \<open>src/shared/shared_data\<close>, the memory map and the data both programs share.
  \<^item> \<open>Kernel_Entry\<close> is \<open>src/kernel/src/main.rs\<close> with the initialisation of the core locals, and \<open>Time\<close> the calibration of the
    clock. \<open>Kernel_Entry_Props\<close> shows what a core has set up when it checks in and that cores share neither IDs nor
    core locals.

  \<^bold>\<open>Cores, interrupts and devices.\<close>

  \<^item> \<open>Cpu\<close> is \<open>src/shared/cpu\<close>, \<open>Serial\<close> is \<open>src/shared/serial\<close>.
  \<^item> \<open>Acpi_Tables\<close> is \<open>src/kernel/src/acpi\<close>; \<open>Acpi_Props\<close> has the meaning of the parsed tables.
  \<^item> \<open>Apic_Local\<close> and \<open>Apic_System\<close> are \<open>src/kernel/src/apic\<close>: the registers in both modes with \<open>init\<close> and \<open>reset\<close>, and
    the start of the other cores, which is also a step relation over all the cores. \<open>Apic_Props\<close> shows that a reset undoes
    the initialisation; \<open>Apic_System_Props\<close> that bringing up the cores is safe under every interleaving and ends.
  \<^item> \<open>Interrupts\<close> is the descriptor tables and the registration of handlers in \<open>src/kernel/src/interrupts\<close>,
    \<open>Interrupt_Entry\<close> the common entry point, the handlers and \<open>src/kernel/src/panic.rs\<close>. \<open>Interrupts_Props\<close> has the tables
    after \<open>init\<close> and their type invariant; \<open>Interrupt_Entry_Props\<close> that an interrupt that returns leaves the core as it
    was, and that stopping the other cores ends with all of them halted.
  \<^item> \<open>Pci\<close> is \<open>src/kernel/src/pci\<close>, \<open>Pci_Props\<close> shows that the enumeration finds every device. \<open>Intel\<close> is
    \<open>src/kernel/src/net/drivers/intel.rs\<close>; \<open>Intel_Props\<close> proves that its receive ring, driven by the card and the driver
    together, is a queue of frames, and \<open>Intel_Send_Props\<close> that sending never touches a frame that the card still has to
    send.
  \<^item> \<open>Sync\<close> is \<open>src/shared/spinlock\<close>, \<open>src/shared/oncelock\<close>, \<open>src/shared/autorefcount\<close> and the interrupt
    counters of the core locals. The ticket lock and the once lock are also step relations over any number of
    cores; \<open>Sync_Props\<close> proves that the lock is a queue, exclusive and fair, for fewer than \<open>2 ^ 64\<close> cores, that
    interrupts nest, and that a once lock is set once. The locale \<open>lock_context\<close> is the trait
    \<open>InterruptState\<close>, interpreted for both its implementations.

  \<^bold>\<open>The network.\<close>

  \<^item> \<open>Cursor\<close>, \<open>Packet\<close> and \<open>Checksum\<close> are \<open>src/shared/cursor\<close> and \<open>src/kernel/src/net/packet.rs\<close>;
    \<open>Net_Headers\<close> and \<open>Udp\<close> are the parsers and builders under \<open>src/kernel/src/net/protocols\<close> for Ethernet, IPv4,
    IPv6 and UDP; \<open>Udp_Props\<close> shows that a datagram that was built parses back. \<open>Arp\<close> and \<open>Dhcp\<close> follow their
    files, \<open>Dhcp_Props\<close> has the round trip of the options, the replies accepted and the request on the wire.
  \<^item> \<open>Net_Device\<close> is \<open>src/kernel/src/net/net.rs\<close> with the loops that wait for packets: ports, discarded packets,
    ARP resolution and the DHCP lease. \<open>Net_Device_Props\<close> proves that they return when the clock goes on, and that
    \<open>bind_udp\<close> returns exactly when a port is free.

  \<^bold>\<open>Bounds.\<close> No definition uses fuel. Loops over arrays, pages, headers and options are recursive functions with
  termination proofs; \<open>arp\<close> retries 1000 times as the code does. The rings of the network card have 256 descriptors, of which
  255 are in use at most. In \<open>Time\<close> floating-point numbers are rational numbers; the values that occur lie far inside the
  range in which the relative error of an operation is at most \<open>2 ^ - 53\<close>.

  \<^bold>\<open>Not modelled.\<close> Assembly: the bodies of the wrappers of single instructions, which are the fields of \<open>cpu\<close>, the 256
  entry stubs of the interrupts, the trampoline and the entry code of the other cores. Printing and the texts of panic
  messages. \<open>tcp.rs\<close> and \<open>ioapic.rs\<close>, which are commented out as a whole. The compile-time assertions of
  \<open>const_assert\<close>; those that use it are theorems here. Concurrency is modelled where the program synchronises (\<open>Sync\<close>,
  \<open>Apic_System\<close>, and the card beside its driver in \<open>Intel_Props\<close>); the components behind a lock are modelled as run by the
  core that holds it.
\<close>

end
